(* ===== verification/Vsoc_Prelude.thy ===== *)
theory Vsoc_Prelude
  imports Main "HOL-Library.Word"
begin

unbundle bit_operations_syntax

text \<open>
  Shared vocabulary of the development. C integers are HOL integers with the
  wrap-around of their width written out: \<open>c_int\<close> is the value an expression has
  after it is stored in a 32-bit \<^verbatim>\<open>int\<close>, \<open>c_uint\<close> and \<open>c_size\<close> after a conversion to
  \<^verbatim>\<open>uint32_t\<close> and to \<^verbatim>\<open>size_t\<close>/\<^verbatim>\<open>uint64_t\<close>. Bytes are \<open>8 word\<close>s. A host object of a known
  size is a byte list; an access outside of it is undefined behaviour of the C
  program and is the result \<open>None\<close>. Guest memory is a total byte store indexed by
  addresses, with address 0 for \<^verbatim>\<open>NULL\<close>.
\<close>

section \<open>C integers\<close>

type_synonym byte = "8 word"
type_synonym addr = int
type_synonym store = "addr \<Rightarrow> byte"

abbreviation c_int :: "int \<Rightarrow> int" where
  "c_int \<equiv> signed_take_bit 31"

abbreviation c_uint :: "int \<Rightarrow> int" where
  "c_uint \<equiv> take_bit 32"

abbreviation c_size :: "int \<Rightarrow> int" where
  "c_size \<equiv> take_bit 64"

lemma c_int_id [simp]: "- 2147483648 \<le> x \<Longrightarrow> x < 2147483648 \<Longrightarrow> c_int x = x"
  by (rule signed_take_bit_int_eq_self) simp_all

lemma c_size_id [simp]: "0 \<le> x \<Longrightarrow> x < 18446744073709551616 \<Longrightarrow> c_size x = x"
  by (rule take_bit_int_eq_self) simp_all

lemma c_uint_id [simp]: "0 \<le> x \<Longrightarrow> x < 4294967296 \<Longrightarrow> c_uint x = x"
  by (rule take_bit_int_eq_self) simp_all

lemma c_int_bounds: "- 2147483648 \<le> c_int x" "c_int x < 2147483648"
  using signed_take_bit_int_greater_eq_minus_exp [of 31 x] signed_take_bit_int_less_exp [of 31 x]
  by simp_all

lemma join_bits: "0 \<le> b \<Longrightarrow> b < 2 ^ n \<Longrightarrow> push_bit n a OR b = a * 2 ^ n + b" for a b :: int
  using concat_bit_eq [of n b a] by (simp add: concat_bit_def take_bit_int_eq_self push_bit_eq_mult or.commute)

section \<open>Host objects: bounded byte buffers\<close>

definition buf_read :: "byte list \<Rightarrow> int \<Rightarrow> int \<Rightarrow> byte list option" where
  "buf_read b off n =
     (if 0 \<le> off \<and> 0 \<le> n \<and> off + n \<le> int (length b)
      then Some (take (nat n) (drop (nat off) b)) else None)"

definition buf_write :: "byte list \<Rightarrow> int \<Rightarrow> byte list \<Rightarrow> byte list option" where
  "buf_write b off bs =
     (if 0 \<le> off \<and> off + int (length bs) \<le> int (length b)
      then Some (take (nat off) b @ bs @ drop (nat off + length bs) b) else None)"

lemma length_buf_write: "buf_write b off bs = Some b' \<Longrightarrow> length b' = length b"
  by (auto simp: buf_write_def split: if_splits)

lemma length_buf_read: "buf_read b off n = Some bs \<Longrightarrow> length bs = nat n"
  by (auto simp: buf_read_def split: if_splits)

section \<open>The byte store\<close>

definition mem_read :: "store \<Rightarrow> addr \<Rightarrow> int \<Rightarrow> byte list" where
  "mem_read m a n = map (\<lambda>i. m (a + int i)) [0..<nat n]"

definition mem_write :: "store \<Rightarrow> addr \<Rightarrow> byte list \<Rightarrow> store" where
  "mem_write m a bs =
     (\<lambda>x. if a \<le> x \<and> x < a + int (length bs) then bs ! nat (x - a) else m x)"

lemma length_mem_read [simp]: "length (mem_read m a n) = nat n"
  by (simp add: mem_read_def)

lemma nth_mem_read [simp]: "i < nat n \<Longrightarrow> mem_read m a n ! i = m (a + int i)"
  by (simp add: mem_read_def)

lemma mem_read_write_same: "n = int (length bs) \<Longrightarrow> mem_read (mem_write m a bs) a n = bs"
  by (rule nth_equalityI) (auto simp: mem_write_def)

lemma mem_read_cong:
  "(\<And>x. a \<le> x \<Longrightarrow> x < a + n \<Longrightarrow> m x = m' x) \<Longrightarrow> mem_read m a n = mem_read m' a n"
  by (rule nth_equalityI) auto

lemma mem_write_frame: "x < a \<or> a + int (length bs) \<le> x \<Longrightarrow> mem_write m a bs x = m x"
  by (auto simp: mem_write_def)

lemma mem_write_Nil [simp]: "mem_write m a [] = m"
  by (rule ext) (auto simp: mem_write_def)

lemma mem_read_sub:
  assumes "0 \<le> i" "0 \<le> k" "i + k \<le> n"
  shows "mem_read m (a + i) k = take (nat k) (drop (nat i) (mem_read m a n))"
proof (rule nth_equalityI)
  show "length (mem_read m (a + i) k) = length (take (nat k) (drop (nat i) (mem_read m a n)))"
    using assms by simp
next
  fix j
  assume "j < length (mem_read m (a + i) k)"
  then have j: "j < nat k" by simp
  with assms show "mem_read m (a + i) k ! j = take (nat k) (drop (nat i) (mem_read m a n)) ! j"
    by (simp add: add.assoc)
qed

lemma mem_read_write_sub:
  assumes "0 \<le> i" "0 \<le> k" "i + k \<le> n" "int (length bs) = k"
  shows "mem_read (mem_write m (a + i) bs) a n =
    take (nat i) (mem_read m a n) @ bs @ drop (nat (i + k)) (mem_read m a n)"
proof (rule nth_equalityI)
  show "length (mem_read (mem_write m (a + i) bs) a n) =
      length (take (nat i) (mem_read m a n) @ bs @ drop (nat (i + k)) (mem_read m a n))"
    using assms by simp
next
  fix j
  assume "j < length (mem_read (mem_write m (a + i) bs) a n)"
  then have j: "j < nat n" by simp
  consider "j < nat i" | "nat i \<le> j" "j < nat i + length bs" | "nat i + length bs \<le> j"
    by linarith
  then show "mem_read (mem_write m (a + i) bs) a n ! j =
      (take (nat i) (mem_read m a n) @ bs @ drop (nat (i + k)) (mem_read m a n)) ! j"
  proof cases
    case 1
    then have "int j < i" by simp
    with 1 j show ?thesis by (simp add: nth_append mem_write_def)
  next
    case 2
    then have "i \<le> int j" "int j < i + int (length bs)" "nat (int j - i) = j - nat i" "j - nat i < length bs"
      using assms(1) by auto
    with 2 j assms show ?thesis by (simp add: nth_append mem_write_def)
  next
    case 3
    then have "i + int (length bs) \<le> int j" "nat (i + k) = nat i + length bs" "\<not> j - nat i < length bs"
      using assms by auto
    with 3 j assms show ?thesis by (simp add: nth_append mem_write_def)
  qed
qed

lemma take_drop_split: "i \<le> j \<Longrightarrow> take i xs @ take (j - i) (drop i xs) = take j xs"
  by (metis le_add_diff_inverse take_add)

section \<open>Little-endian integers\<close>

fun le_int :: "byte list \<Rightarrow> int" where
  "le_int [] = 0"
| "le_int (b # bs) = uint b + 256 * le_int bs"

primrec le_bytes :: "nat \<Rightarrow> int \<Rightarrow> byte list" where
  "le_bytes 0 v = []"
| "le_bytes (Suc n) v = word_of_int v # le_bytes n (v div 256)"

lemma length_le_bytes [simp]: "length (le_bytes n v) = n"
  by (induction n arbitrary: v) auto

lemma le_int_le_bytes: "le_int (le_bytes n v) = v mod 256 ^ n"
proof (induction n arbitrary: v)
  case 0
  then show ?case by simp
next
  case (Suc n)
  have "le_int (le_bytes (Suc n) v) = v mod 256 + 256 * ((v div 256) mod 256 ^ n)"
    by (simp add: Suc.IH uint_word_of_int)
  also have "\<dots> = v mod 256 ^ Suc n"
    by (simp add: mod_mult2_eq' zmod_zmult2_eq)
  finally show ?case .
qed

lemma le_int_bounds: "0 \<le> le_int bs \<and> le_int bs < 256 ^ length bs"
proof (induction bs)
  case Nil
  then show ?case by simp
next
  case (Cons b bs)
  have "0 \<le> uint b" "uint b < 256"
    using uint_ge_0 [of b] uint_lt2p [of b] by simp_all
  with Cons show ?case by simp
qed

section \<open>Scanning a ring\<close>

text \<open>
  Several components walk a circular array until they meet a slot that is not
  occupied. The walk has no bound in the code: on a fully occupied ring it spins for
  ever, which is \<open>None\<close> here.
\<close>

partial_function (option) ring_scan :: "(nat \<Rightarrow> bool) \<Rightarrow> nat \<Rightarrow> nat \<Rightarrow> nat option" where
  "ring_scan occ n t = (if occ t then ring_scan occ n (Suc t mod n) else Some t)"

lemma ring_scan_free [simp]: "\<not> occ t \<Longrightarrow> ring_scan occ n t = Some t"
  by (simp add: ring_scan.simps)

lemma ring_scan_skip:
  assumes "t < n" "\<forall>k<d. occ ((t + k) mod n)" "\<not> occ ((t + d) mod n)"
  shows "ring_scan occ n t = Some ((t + d) mod n)"
  using assms
proof (induction d arbitrary: t)
  case 0
  then show ?case by simp
next
  case (Suc d)
  from Suc.prems have "occ t" by auto
  then have "ring_scan occ n t = ring_scan occ n (Suc t mod n)"
    by (simp add: ring_scan.simps [of occ n t])
  also have "\<dots> = Some ((Suc t mod n + d) mod n)"
  proof (rule Suc.IH)
    show "Suc t mod n < n" using Suc.prems(1) by simp
    show "\<forall>k<d. occ ((Suc t mod n + k) mod n)"
      using Suc.prems(2) by (auto simp: mod_add_left_eq)
    show "\<not> occ ((Suc t mod n + d) mod n)"
      using Suc.prems(3) by (simp add: mod_add_left_eq)
  qed
  finally show ?case by (simp add: mod_add_left_eq)
qed

lemma ring_offset_ex:
  assumes "t < n" "j < (n::nat)"
  shows "\<exists>d<n. (t + d) mod n = j"
proof (cases "t \<le> j")
  case True
  with assms show ?thesis by (intro exI [of _ "j - t"]) auto
next
  case False
  with assms show ?thesis by (intro exI [of _ "n - t + j"]) auto
qed

lemma ring_scan_finds:
  assumes "t < n" "j < n" "\<not> occ j"
  shows "\<exists>i. ring_scan occ n t = Some i \<and> i < n \<and> \<not> occ i"
proof -
  obtain d0 where "\<not> occ ((t + d0) mod n)"
    using ring_offset_ex [OF assms(1,2)] assms(3) by auto
  then obtain d where "\<not> occ ((t + d) mod n)" "\<forall>k<d. occ ((t + k) mod n)"
    using exists_least_iff [of "\<lambda>d. \<not> occ ((t + d) mod n)"] by auto
  with assms(1) show ?thesis
    using ring_scan_skip [of t n d occ] by auto
qed

lemma ring_scan_full_spins:
  assumes "t < n" "\<forall>i<n. occ i"
  shows "ring_scan occ n t = None"
proof (rule ccontr)
  assume "ring_scan occ n t \<noteq> None"
  then obtain i where i: "ring_scan occ n t = Some i" by auto
  have "t < n \<longrightarrow> \<not> occ i \<and> i < n"
  proof (rule ring_scan.raw_induct [where P = "\<lambda>occ n t i. t < n \<longrightarrow> \<not> occ i \<and> i < n", OF _ i])
    fix f occ n t i
    assume IH: "\<And>occ n t i. f occ n t = Some i \<Longrightarrow> t < n \<longrightarrow> \<not> occ i \<and> i < n"
      and eq: "(if occ t then f occ n (Suc t mod n) else Some t) = Some i"
    show "t < n \<longrightarrow> \<not> occ i \<and> i < n"
      using eq IH [of occ n "Suc t mod n" i] by (auto split: if_splits)
  qed
  with assms show False by auto
qed

section \<open>Counting in lists\<close>

lemma count_list_list_update:
  assumes "i < length xs" "xs ! i = x" "x \<noteq> y"
  shows "Suc (count_list (xs[i := y]) x) = count_list xs x"
    and "count_list (xs[i := y]) y = Suc (count_list xs y)"
  using assms by (induction xs arbitrary: i) (auto split: nat.splits)

lemma count_list_replicate [simp]: "count_list (replicate n x) y = (if x = y then n else 0)"
  by (induction n) auto

lemma count_list_append [simp]: "count_list (xs @ ys) x = count_list xs x + count_list ys x"
  by (induction xs) auto

end
