(* ===== verification/Guest_Memory.thy ===== *)
theory Guest_Memory
  imports Vsoc_Prelude
begin

text \<open>
  Scatter/gather access to guest memory, after
  \<^verbatim>\<open>hw/teleport-express/teleport_express_call.c\<close>: \<^verbatim>\<open>get_direct_ptr\<close>,
  \<^verbatim>\<open>host_guest_buffer_exchange\<close>, \<^verbatim>\<open>read_from_guest_mem\<close>, \<^verbatim>\<open>write_to_guest_mem\<close> and
  \<^verbatim>\<open>call_para_to_ptr\<close>. A \<^verbatim>\<open>Guest_Mem\<close> is a list of segments of the byte store. The
  lemmas relate the segment walk to the flat view \<open>sg_bytes\<close> of the segments, and
  the locale \<open>guest_channel\<close> states the resulting read/write contract for its
  clients.
\<close>

section \<open>Data\<close>

record scatter_data =
  sdata :: addr
  slen :: int

record guest_mem =
  gm_scatter :: "scatter_data list"
  gm_all_len :: int

definition gm_num :: "guest_mem \<Rightarrow> int" where
  "gm_num g = int (length (gm_scatter g))"

section \<open>Operations\<close>

definition get_direct_ptr :: "guest_mem \<Rightarrow> bool \<times> addr" where
  "get_direct_ptr g =
     (case gm_scatter g of
        [s] \<Rightarrow> (True, sdata s)
      | _ \<Rightarrow> (False, 0))"

text \<open>One \<^verbatim>\<open>memcpy\<close> between the store and a host buffer, in either direction.\<close>

definition xfer :: "bool \<Rightarrow> addr \<Rightarrow> int \<Rightarrow> int \<Rightarrow> store \<times> byte list \<Rightarrow> (store \<times> byte list) option" where
  "xfer g2h a off n mh =
     (if g2h then map_option (\<lambda>h'. (fst mh, h')) (buf_write (snd mh) off (mem_read (fst mh) a n))
      else map_option (\<lambda>bs. (mem_write (fst mh) a bs, snd mh)) (buf_read (snd mh) off n))"

text \<open>
  The loop of \<^verbatim>\<open>host_guest_buffer_exchange\<close>. The index into the segment array is the
  position in the list; running past its end is \<open>None\<close>.
\<close>

fun exchange_loop ::
  "bool \<Rightarrow> scatter_data list \<Rightarrow> int \<Rightarrow> int \<Rightarrow> int \<Rightarrow> store \<times> byte list \<Rightarrow> (store \<times> byte list) option"
where
  "exchange_loop g2h [] guest_loc host_loc remain_len mh =
     (if 0 < remain_len \<and> remain_len < 100000000000 then None else Some mh)"
| "exchange_loop g2h (s # sg) guest_loc host_loc remain_len mh =
     (if 0 < remain_len \<and> remain_len < 100000000000 then
        (if slen s = 0 \<or> sdata s = 0 then Some mh
         else if slen s > c_size guest_loc then
           (let n = c_size (slen s - c_size guest_loc) in
            if remain_len < n
            then xfer g2h (sdata s + guest_loc) host_loc remain_len mh
            else (case xfer g2h (sdata s + guest_loc) host_loc n mh of
                    None \<Rightarrow> None
                  | Some mh' \<Rightarrow> exchange_loop g2h sg 0 (c_int (host_loc + n)) (remain_len - n) mh'))
         else exchange_loop g2h sg (c_int (c_size guest_loc - slen s)) host_loc remain_len mh)
      else Some mh)"

definition host_guest_buffer_exchange ::
  "scatter_data list \<Rightarrow> int \<Rightarrow> int \<Rightarrow> bool \<Rightarrow> store \<times> byte list \<Rightarrow> (store \<times> byte list) option" where
  "host_guest_buffer_exchange guest_data start_loc len g2h mh =
     exchange_loop g2h guest_data (c_int start_loc) 0 len mh"

definition read_from_guest_mem ::
  "store \<Rightarrow> guest_mem option \<Rightarrow> byte list option \<Rightarrow> int \<Rightarrow> int \<Rightarrow> byte list option option" where
  "read_from_guest_mem m guest host start_loc len =
     (case guest of
        None \<Rightarrow> Some host
      | Some g \<Rightarrow>
          (if gm_all_len g = 0 \<or> len = 0 then Some host
           else (case host of
                   None \<Rightarrow> Some None
                 | Some h \<Rightarrow>
                     (if len > c_size (gm_all_len g) then Some (Some h)
                      else map_option (\<lambda>mh. Some (snd mh))
                             (host_guest_buffer_exchange (gm_scatter g) start_loc len True (m, h))))))"

definition write_to_guest_mem ::
  "store \<Rightarrow> guest_mem option \<Rightarrow> byte list option \<Rightarrow> int \<Rightarrow> int \<Rightarrow> store option" where
  "write_to_guest_mem m guest host start_loc len =
     (case guest of
        None \<Rightarrow> Some m
      | Some g \<Rightarrow>
          (case host of
             None \<Rightarrow> Some m
           | Some h \<Rightarrow>
               (if len = 0 \<or> len > c_size (gm_all_len g) then Some m
                else map_option fst
                       (host_guest_buffer_exchange (gm_scatter g) start_loc len False (m, h)))))"

text \<open>
  \<^verbatim>\<open>call_para_to_ptr\<close> hands out the guest pointer itself when the parameter is one
  segment and a private copy otherwise; \<open>Ptr_copy\<close> is the case \<^verbatim>\<open>need_free = 1\<close>.
\<close>

datatype para_ptr = Ptr_null | Ptr_direct addr | Ptr_copy "byte list"

record call_para =
  cp_data :: guest_mem
  cp_len :: int

definition call_para_to_ptr :: "store \<Rightarrow> byte list \<Rightarrow> call_para \<Rightarrow> para_ptr option" where
  "call_para_to_ptr m fresh para =
     (case get_direct_ptr (cp_data para) of
        (null_flag, p) \<Rightarrow>
          if p = 0 then
            (if cp_len para \<noteq> 0 \<and> \<not> null_flag then
               (case read_from_guest_mem m (Some (cp_data para)) (Some fresh) 0 (cp_len para) of
                  Some (Some h) \<Rightarrow> Some (Ptr_copy h)
                | Some None \<Rightarrow> Some Ptr_null
                | None \<Rightarrow> None)
             else Some Ptr_null)
          else Some (Ptr_direct p))"

section \<open>The flat view of a segment list\<close>

definition sg_bytes :: "store \<Rightarrow> scatter_data list \<Rightarrow> byte list" where
  "sg_bytes m sg = concat (map (\<lambda>s. mem_read m (sdata s) (slen s)) sg)"

definition sg_len :: "scatter_data list \<Rightarrow> int" where
  "sg_len sg = sum_list (map slen sg)"

definition seg_addr :: "scatter_data \<Rightarrow> addr \<Rightarrow> bool" where
  "seg_addr s x \<longleftrightarrow> sdata s \<le> x \<and> x < sdata s + slen s"

definition seg_disj :: "scatter_data \<Rightarrow> scatter_data \<Rightarrow> bool" where
  "seg_disj s t \<longleftrightarrow> sdata s + slen s \<le> sdata t \<or> sdata t + slen t \<le> sdata s"

fun sg_disjoint :: "scatter_data list \<Rightarrow> bool" where
  "sg_disjoint [] = True"
| "sg_disjoint (s # sg) = (list_all (seg_disj s) sg \<and> sg_disjoint sg)"

definition sg_ok :: "scatter_data list \<Rightarrow> bool" where
  "sg_ok sg \<longleftrightarrow> list_all (\<lambda>s. 0 < slen s \<and> sdata s \<noteq> 0) sg"

definition gm_wf :: "guest_mem \<Rightarrow> bool" where
  "gm_wf g \<longleftrightarrow> sg_ok (gm_scatter g) \<and> sg_disjoint (gm_scatter g)
     \<and> gm_all_len g = sg_len (gm_scatter g) \<and> gm_all_len g < 2147483648"

definition gm_bytes :: "store \<Rightarrow> guest_mem \<Rightarrow> byte list" where
  "gm_bytes m g = sg_bytes m (gm_scatter g)"

text \<open>The calls with both pointers present, as the clients make them.\<close>

definition guest_read :: "store \<Rightarrow> guest_mem \<Rightarrow> byte list \<Rightarrow> int \<Rightarrow> int \<Rightarrow> byte list option" where
  "guest_read m g h st n =
     (case read_from_guest_mem m (Some g) (Some h) st n of Some (Some h') \<Rightarrow> Some h' | _ \<Rightarrow> None)"

definition guest_write :: "store \<Rightarrow> guest_mem \<Rightarrow> byte list \<Rightarrow> int \<Rightarrow> int \<Rightarrow> store option" where
  "guest_write m g h st n = write_to_guest_mem m (Some g) (Some h) st n"

section \<open>Basic facts\<close>

lemma sg_simps [simp]:
  "sg_bytes m [] = []" "sg_len [] = 0" "sg_ok []"
  "sg_bytes m (s # sg) = mem_read m (sdata s) (slen s) @ sg_bytes m sg"
  "sg_len (s # sg) = slen s + sg_len sg"
  "sg_ok (s # sg) \<longleftrightarrow> 0 < slen s \<and> sdata s \<noteq> 0 \<and> sg_ok sg"
  by (auto simp: sg_bytes_def sg_len_def sg_ok_def)

lemma sg_len_nonneg: "sg_ok sg \<Longrightarrow> 0 \<le> sg_len sg"
  by (induction sg) auto

lemma length_sg_bytes: "sg_ok sg \<Longrightarrow> length (sg_bytes m sg) = nat (sg_len sg)"
  by (induction sg) (auto simp: nat_add_distrib sg_len_nonneg)

lemma sg_bytes_cong:
  "(\<And>s x. s \<in> set sg \<Longrightarrow> seg_addr s x \<Longrightarrow> m x = m' x) \<Longrightarrow> sg_bytes m sg = sg_bytes m' sg"
  by (induction sg) (auto simp: seg_addr_def intro!: mem_read_cong)


section \<open>The segment walk against the flat view\<close>

lemma exchange_read:
  assumes "sg_ok sg" "sg_len sg < 2147483648" "0 \<le> gl" "0 \<le> hl" "0 \<le> r"
    and "gl + r \<le> sg_len sg" "hl + r \<le> int (length h)" "hl + r < 2147483648"
  shows "exchange_loop True sg gl hl r (m, h) =
    Some (m, take (nat hl) h @ take (nat r) (drop (nat gl) (sg_bytes m sg)) @ drop (nat (hl + r)) h)"
  using assms
proof (induction sg arbitrary: gl hl r h)
  case Nil
  then show ?case by (simp add: nat_add_distrib)
next
  case (Cons s sg)
  note nn = sg_len_nonneg [of sg]
  consider "r = 0" | "0 < r" "gl < slen s" "r < slen s - gl"
    | "0 < r" "gl < slen s" "slen s - gl \<le> r" | "0 < r" "slen s \<le> gl"
    using Cons.prems by linarith
  then show ?case
  proof cases
    case 1
    then show ?thesis by simp
  next
    case 2
    have "mem_read m (sdata s + gl) r = take (nat r) (drop (nat gl) (mem_read m (sdata s) (slen s)))"
      using 2 Cons.prems by (intro mem_read_sub) auto
    with 2 Cons.prems nn show ?thesis
      by (simp add: xfer_def buf_write_def nat_add_distrib)
  next
    case 3
    define n where "n = slen s - gl"
    define h' where "h' = take (nat hl) h @ mem_read m (sdata s + gl) n @ drop (nat (hl + n)) h"
    have n: "0 < n" "n \<le> r" using 3 by (auto simp: n_def)
    have rd: "mem_read m (sdata s + gl) n = drop (nat gl) (mem_read m (sdata s) (slen s))"
      using 3 Cons.prems mem_read_sub [of gl n "slen s" m "sdata s"] by (simp add: n_def)
    have len: "length h' = length h"
      using n Cons.prems by (auto simp: h'_def nat_add_distrib)
    have "exchange_loop True (s # sg) gl hl r (m, h) = exchange_loop True sg 0 (hl + n) (r - n) (m, h')"
      using 3 n Cons.prems nn
      by (simp add: xfer_def buf_write_def n_def [symmetric] h'_def nat_add_distrib)
    also have "\<dots> = Some (m, take (nat (hl + n)) h' @ take (nat (r - n)) (sg_bytes m sg) @ drop (nat (hl + r)) h')"
      using n Cons.prems nn len by (subst Cons.IH) (auto simp: n_def)
    also have "take (nat (hl + n)) h' = take (nat hl) h @ mem_read m (sdata s + gl) n"
      using n Cons.prems by (simp add: h'_def nat_add_distrib)
    also have "drop (nat (hl + r)) h' = drop (nat (hl + r)) h"
      using n Cons.prems by (simp add: h'_def nat_add_distrib add.commute)
    finally have "exchange_loop True (s # sg) gl hl r (m, h) =
        Some (m, (take (nat hl) h @ drop (nat gl) (mem_read m (sdata s) (slen s)))
          @ take (nat (r - n)) (sg_bytes m sg) @ drop (nat (hl + r)) h)"
      unfolding rd .
    moreover have "take (nat r) (drop (nat gl) (sg_bytes m (s # sg))) =
        drop (nat gl) (mem_read m (sdata s) (slen s)) @ take (nat (r - n)) (sg_bytes m sg)"
      using 3 n Cons.prems by (simp add: n_def nat_diff_distrib)
    ultimately show ?thesis by simp
  next
    case 4
    have "exchange_loop True (s # sg) gl hl r (m, h) = exchange_loop True sg (gl - slen s) hl r (m, h)"
      using 4 Cons.prems nn by simp
    also have "\<dots> = Some (m, take (nat hl) h @ take (nat r) (drop (nat (gl - slen s)) (sg_bytes m sg))
        @ drop (nat (hl + r)) h)"
      using 4 Cons.prems nn by (subst Cons.IH) auto
    finally show ?thesis
      using 4 Cons.prems by (simp add: nat_diff_distrib)
  qed
qed

lemma exchange_write:
  assumes "sg_ok sg" "sg_disjoint sg" "sg_len sg < 2147483648" "0 \<le> gl" "0 \<le> hl" "0 \<le> r"
    and "gl + r \<le> sg_len sg" "hl + r \<le> int (length h)" "hl + r < 2147483648"
  shows "\<exists>m'. exchange_loop False sg gl hl r (m, h) = Some (m', h) \<and>
    sg_bytes m' sg = take (nat gl) (sg_bytes m sg) @ take (nat r) (drop (nat hl) h)
      @ drop (nat (gl + r)) (sg_bytes m sg) \<and>
    (\<forall>x. (\<forall>s \<in> set sg. \<not> seg_addr s x) \<longrightarrow> m' x = m x)"
  using assms
proof (induction sg arbitrary: gl hl r m)
  case Nil
  then show ?case by simp
next
  case (Cons s sg)
  note nn = sg_len_nonneg [of sg]
  have out: "\<And>x t. seg_addr s x \<Longrightarrow> t \<in> set sg \<Longrightarrow> \<not> seg_addr t x"
    using Cons.prems by (auto simp: seg_addr_def seg_disj_def list_all_iff)
  consider "r = 0" | "0 < r" "gl < slen s" "r < slen s - gl"
    | "0 < r" "gl < slen s" "slen s - gl \<le> r" | "0 < r" "slen s \<le> gl"
    using Cons.prems by linarith
  then show ?case
  proof cases
    case 1
    then show ?thesis by (simp del: sg_simps(4))
  next
    case 2
    define bs where "bs = take (nat r) (drop (nat hl) h)"
    define m' where "m' = mem_write m (sdata s + gl) bs"
    have lbs: "int (length bs) = r" using 2 Cons.prems by (simp add: bs_def)
    have sd: "mem_read m' (sdata s) (slen s) =
        take (nat gl) (mem_read m (sdata s) (slen s)) @ bs @ drop (nat (gl + r)) (mem_read m (sdata s) (slen s))"
      using 2 Cons.prems lbs unfolding m'_def by (intro mem_read_write_sub) auto
    have fr: "\<And>x. \<not> seg_addr s x \<Longrightarrow> m' x = m x"
      using 2 Cons.prems lbs by (auto simp: m'_def seg_addr_def intro!: mem_write_frame)
    have "sg_bytes m' sg = sg_bytes m sg"
      using out fr by (intro sg_bytes_cong) blast
    moreover have "exchange_loop False (s # sg) gl hl r (m, h) = Some (m', h)"
      using 2 Cons.prems nn by (simp add: xfer_def buf_read_def m'_def bs_def)
    ultimately show ?thesis
      using 2 Cons.prems sd fr by (auto simp: bs_def [symmetric])
  next
    case 3
    define n where "n = slen s - gl"
    define bs where "bs = take (nat n) (drop (nat hl) h)"
    define m1 where "m1 = mem_write m (sdata s + gl) bs"
    have n: "0 < n" "n \<le> r" "gl + n = slen s" using 3 by (auto simp: n_def)
    have lbs: "int (length bs) = n" using n Cons.prems by (simp add: bs_def)
    have sd: "mem_read m1 (sdata s) (slen s) = take (nat gl) (mem_read m (sdata s) (slen s)) @ bs"
      using mem_read_write_sub [of gl n "slen s" bs m "sdata s"] n Cons.prems lbs by (simp add: m1_def)
    have fr: "\<And>x. \<not> seg_addr s x \<Longrightarrow> m1 x = m x"
      using n Cons.prems lbs by (auto simp: m1_def seg_addr_def intro!: mem_write_frame)
    have sg1: "sg_bytes m1 sg = sg_bytes m sg"
      using out fr by (intro sg_bytes_cong) blast
    obtain m' where m': "exchange_loop False sg 0 (hl + n) (r - n) (m1, h) = Some (m', h)"
      "sg_bytes m' sg = take (nat (r - n)) (drop (nat (hl + n)) h) @ drop (nat (r - n)) (sg_bytes m sg)"
      "\<And>x. (\<forall>t \<in> set sg. \<not> seg_addr t x) \<Longrightarrow> m' x = m1 x"
      using Cons.IH [of 0 "hl + n" "r - n" m1] n Cons.prems nn sg1 by (auto simp: n_def)
    have "mem_read m' (sdata s) (slen s) = mem_read m1 (sdata s) (slen s)"
      using out m'(3) by (intro mem_read_cong) (auto simp: seg_addr_def)
    moreover have ex: "exchange_loop False (s # sg) gl hl r (m, h) = Some (m', h)"
      using 3 n Cons.prems nn m'(1)
      by (simp add: xfer_def buf_read_def m1_def bs_def n_def)
    moreover have "bs @ take (nat (r - n)) (drop (nat (hl + n)) h) = take (nat r) (drop (nat hl) h)"
      using take_drop_split [of "nat n" "nat r" "drop (nat hl) h"] n Cons.prems
      by (simp add: bs_def nat_add_distrib nat_diff_distrib add.commute)
    moreover have "drop (nat (gl + r)) (sg_bytes m (s # sg)) = drop (nat (r - n)) (sg_bytes m sg)"
    proof -
      have "nat (gl + r - slen s) = nat (r - n)" using n by simp
      with n Cons.prems show ?thesis by (simp add: nat_diff_distrib [symmetric] del: nat_diff_distrib')
    qed
    moreover have "take (nat gl) (sg_bytes m (s # sg)) = take (nat gl) (mem_read m (sdata s) (slen s))"
      using n Cons.prems by simp
    ultimately have "sg_bytes m' (s # sg) = take (nat gl) (sg_bytes m (s # sg)) @
        take (nat r) (drop (nat hl) h) @ drop (nat (gl + r)) (sg_bytes m (s # sg))"
      using sd m'(2) by (metis append.assoc sg_simps(4))
    then show ?thesis
      using ex m'(3) fr by auto
  next
    case 4
    obtain m' where "exchange_loop False sg (gl - slen s) hl r (m, h) = Some (m', h)"
      "sg_bytes m' sg = take (nat (gl - slen s)) (sg_bytes m sg) @ take (nat r) (drop (nat hl) h)
         @ drop (nat (gl - slen s + r)) (sg_bytes m sg)"
      and fr: "\<And>x. (\<forall>t \<in> set sg. \<not> seg_addr t x) \<Longrightarrow> m' x = m x"
      using Cons.IH [of "gl - slen s" hl r m] 4 Cons.prems nn by auto
    moreover have "mem_read m' (sdata s) (slen s) = mem_read m (sdata s) (slen s)"
      using out fr by (intro mem_read_cong) (auto simp: seg_addr_def)
    ultimately show ?thesis
      using 4 Cons.prems nn by (auto simp: nat_diff_distrib algebra_simps nat_add_distrib)
  qed
qed

lemma exchange_overrun:
  assumes "sg_ok sg" "sg_len sg < 2147483648" "0 \<le> gl" "0 \<le> hl" "0 < r" "r < 2147483648"
    and "sg_len sg < gl + r" "gl < 2147483648" "hl + r \<le> int (length h)" "hl + r < 2147483648"
  shows "exchange_loop True sg gl hl r (m, h) = None"
  using assms
proof (induction sg arbitrary: gl hl r h)
  case Nil
  then show ?case by simp
next
  case (Cons s sg)
  note nn = sg_len_nonneg [of sg]
  show ?case
  proof (cases "gl < slen s")
    case True
    define n where "n = slen s - gl"
    have n: "0 < n" "n \<le> r" "0 < r - n" using True Cons.prems nn by (auto simp: n_def)
    obtain h' where h': "buf_write h hl (mem_read m (sdata s + gl) n) = Some h'"
      using n Cons.prems by (simp add: buf_write_def)
    have len: "length h' = length h" using h' by (rule length_buf_write)
    have "exchange_loop True (s # sg) gl hl r (m, h) = exchange_loop True sg 0 (hl + n) (r - n) (m, h')"
      using True n Cons.prems nn h' by (simp add: xfer_def n_def [symmetric])
    also have "\<dots> = None"
      using n Cons.prems nn len by (intro Cons.IH) (auto simp: n_def)
    finally show ?thesis .
  next
    case False
    then have "exchange_loop True (s # sg) gl hl r (m, h) = exchange_loop True sg (gl - slen s) hl r (m, h)"
      using Cons.prems nn by simp
    also have "\<dots> = None"
      using False Cons.prems nn by (intro Cons.IH) auto
    finally show ?thesis .
  qed
qed

section \<open>The contract of the accessors\<close>

lemma take_drop_prefix:
  assumes "a + b \<le> s" "s \<le> length v"
  shows "take b (drop a (take s v @ w)) = take b (drop a v)"
proof -
  have "drop a (take s v @ w) = drop a (take s v) @ w"
    using assms by simp
  moreover have "take b (drop a (take s v) @ w) = take b (drop a (take s v))"
    using assms by simp
  moreover have "take b (drop a (take s v)) = take b (drop a v)"
    using assms by (simp add: drop_take)
  ultimately show ?thesis by simp
qed

lemma splice_elsewhere:
  assumes "0 \<le> st" "0 \<le> n" "st + n \<le> int (length v)" "int (length bs) = n"
    and "0 \<le> st2" "0 \<le> n2" "st2 + n2 \<le> int (length v)" "st2 + n2 \<le> st \<or> st + n \<le> st2"
  shows "take (nat n2) (drop (nat st2) (take (nat st) v @ bs @ drop (nat (st + n)) v)) =
    take (nat n2) (drop (nat st2) v)"
  using assms(8)
proof
  assume "st2 + n2 \<le> st"
  then have "nat st2 + nat n2 \<le> nat st" "nat st \<le> length v"
    using assms(1-7) by auto
  then show ?thesis by (rule take_drop_prefix)
next
  assume *: "st + n \<le> st2"
  then have "nat st2 = nat st + length bs + nat (st2 - (st + n))" "nat (st + n) = nat st + length bs"
    using assms(1-7) by auto
  then show ?thesis
    using assms(1-7) by (simp add: add.commute)
qed

lemma length_gm_bytes: "gm_wf g \<Longrightarrow> int (length (gm_bytes m g)) = gm_all_len g"
  using length_sg_bytes [of "gm_scatter g" m] sg_len_nonneg [of "gm_scatter g"]
  by (simp add: gm_wf_def gm_bytes_def)

lemma read_eq:
  assumes "gm_wf g" "0 \<le> st" "0 \<le> n" "st + n \<le> gm_all_len g" "n \<le> int (length h)"
  shows "read_from_guest_mem m (Some g) (Some h) st n =
    Some (Some (take (nat n) (drop (nat st) (gm_bytes m g)) @ drop (nat n) h))"
proof (cases "n = 0")
  case True
  then show ?thesis by (simp add: read_from_guest_mem_def)
next
  case False
  with assms show ?thesis
    using exchange_read [of "gm_scatter g" st 0 n h m]
    by (simp add: read_from_guest_mem_def host_guest_buffer_exchange_def gm_wf_def gm_bytes_def)
qed

lemma write_ex:
  assumes "gm_wf g" "0 \<le> st" "0 \<le> n" "st + n \<le> gm_all_len g" "n \<le> int (length h)"
  shows "\<exists>m'. write_to_guest_mem m (Some g) (Some h) st n = Some m' \<and>
    gm_bytes m' g = take (nat st) (gm_bytes m g) @ take (nat n) h @ drop (nat (st + n)) (gm_bytes m g) \<and>
    (\<forall>x. (\<forall>s \<in> set (gm_scatter g). \<not> seg_addr s x) \<longrightarrow> m' x = m x)"
proof (cases "n = 0")
  case True
  with assms show ?thesis by (simp add: write_to_guest_mem_def)
next
  case False
  with assms obtain m' where "exchange_loop False (gm_scatter g) st 0 n (m, h) = Some (m', h)"
    "sg_bytes m' (gm_scatter g) = take (nat st) (sg_bytes m (gm_scatter g)) @ take (nat n) h
       @ drop (nat (st + n)) (sg_bytes m (gm_scatter g))"
    "\<forall>x. (\<forall>s \<in> set (gm_scatter g). \<not> seg_addr s x) \<longrightarrow> m' x = m x"
    using exchange_write [of "gm_scatter g" st 0 n h m] by (auto simp: gm_wf_def)
  with False assms show ?thesis
    by (auto simp: write_to_guest_mem_def host_guest_buffer_exchange_def gm_wf_def gm_bytes_def)
qed

text \<open>
  The contract on which every device handler relies: inside the parameter, a read
  returns the flat bytes and a write splices into them. The client lemmas hold for
  any pair of accessors with these two laws.
\<close>

locale guest_channel =
  fixes rd :: "'m \<Rightarrow> 'g \<Rightarrow> byte list \<Rightarrow> int \<Rightarrow> int \<Rightarrow> byte list option"
    and wr :: "'m \<Rightarrow> 'g \<Rightarrow> byte list \<Rightarrow> int \<Rightarrow> int \<Rightarrow> 'm option"
    and view :: "'m \<Rightarrow> 'g \<Rightarrow> byte list"
    and valid :: "'g \<Rightarrow> bool"
  assumes rd_view: "valid g \<Longrightarrow> 0 \<le> st \<Longrightarrow> 0 \<le> n \<Longrightarrow> st + n \<le> int (length (view m g)) \<Longrightarrow>
      n \<le> int (length h) \<Longrightarrow> rd m g h st n = Some (take (nat n) (drop (nat st) (view m g)) @ drop (nat n) h)"
    and wr_view: "valid g \<Longrightarrow> 0 \<le> st \<Longrightarrow> 0 \<le> n \<Longrightarrow> st + n \<le> int (length (view m g)) \<Longrightarrow>
      n \<le> int (length h) \<Longrightarrow> \<exists>m'. wr m g h st n = Some m' \<and>
        view m' g = take (nat st) (view m g) @ take (nat n) h @ drop (nat (st + n)) (view m g)"
begin

lemma wr_length:
  assumes "valid g" "0 \<le> st" "0 \<le> n" "st + n \<le> int (length (view m g))" "n \<le> int (length h)"
    and "wr m g h st n = Some m'"
  shows "length (view m' g) = length (view m g)"
proof -
  have "view m' g = take (nat st) (view m g) @ take (nat n) h @ drop (nat (st + n)) (view m g)"
    using wr_view [OF assms(1-5)] assms(6) by auto
  then show ?thesis using assms(2-5) by (simp add: nat_add_distrib)
qed

lemma rd_after_wr:
  assumes "valid g" "0 \<le> st" "0 \<le> n" "st + n \<le> int (length (view m g))" "n \<le> int (length h)"
    and "wr m g h st n = Some m'" and "n \<le> int (length h')"
  shows "rd m' g h' st n = Some (take (nat n) h @ drop (nat n) h')"
proof -
  have v: "view m' g = take (nat st) (view m g) @ take (nat n) h @ drop (nat (st + n)) (view m g)"
    using wr_view [OF assms(1-5)] assms(6) by auto
  have "rd m' g h' st n = Some (take (nat n) (drop (nat st) (view m' g)) @ drop (nat n) h')"
    using assms wr_length [OF assms(1-6)] by (intro rd_view) auto
  then show ?thesis using assms(2-5) by (simp add: v)
qed

lemma rd_wr_elsewhere:
  assumes "valid g" "0 \<le> st" "0 \<le> n" "st + n \<le> int (length (view m g))" "n \<le> int (length h)"
    and "wr m g h st n = Some m'"
    and "0 \<le> st2" "0 \<le> n2" "st2 + n2 \<le> int (length (view m g))" "n2 \<le> int (length h')"
    and "st2 + n2 \<le> st \<or> st + n \<le> st2"
  shows "rd m' g h' st2 n2 = rd m g h' st2 n2"
proof -
  have v: "view m' g = take (nat st) (view m g) @ take (nat n) h @ drop (nat (st + n)) (view m g)"
    using wr_view [OF assms(1-5)] assms(6) by auto
  have "take (nat n2) (drop (nat st2) (view m' g)) = take (nat n2) (drop (nat st2) (view m g))"
    unfolding v using assms(2-5,7-11) by (intro splice_elsewhere) auto
  moreover have "rd m' g h' st2 n2 = Some (take (nat n2) (drop (nat st2) (view m' g)) @ drop (nat n2) h')"
    using assms wr_length [OF assms(1-6)] by (intro rd_view) auto
  moreover have "rd m g h' st2 n2 = Some (take (nat n2) (drop (nat st2) (view m g)) @ drop (nat n2) h')"
    using assms by (intro rd_view) auto
  ultimately show ?thesis by simp
qed

end

interpretation gc: guest_channel guest_read guest_write gm_bytes gm_wf
proof unfold_locales
  fix g :: guest_mem and st n :: int and m :: store and h :: "byte list"
  assume "gm_wf g" "0 \<le> st" "0 \<le> n" "st + n \<le> int (length (gm_bytes m g))" "n \<le> int (length h)"
  then show "guest_read m g h st n = Some (take (nat n) (drop (nat st) (gm_bytes m g)) @ drop (nat n) h)"
    by (simp add: guest_read_def read_eq length_gm_bytes)
next
  fix g :: guest_mem and st n :: int and m :: store and h :: "byte list"
  assume "gm_wf g" "0 \<le> st" "0 \<le> n" "st + n \<le> int (length (gm_bytes m g))" "n \<le> int (length h)"
  then show "\<exists>m'. guest_write m g h st n = Some m' \<and>
      gm_bytes m' g = take (nat st) (gm_bytes m g) @ take (nat n) h @ drop (nat (st + n)) (gm_bytes m g)"
    using write_ex [of g st n h m] by (auto simp: guest_write_def length_gm_bytes)
qed

section \<open>Properties\<close>

text \<open>
  C1. A read that stays inside the parameter copies exactly the requested range of
  the flat guest bytes to the front of the host buffer, whatever the segmentation,
  and leaves the rest of the buffer alone.
\<close>

theorem read_from_guest_mem_correct:
  assumes "gm_wf g" "0 \<le> st" "0 \<le> n" "st + n \<le> gm_all_len g" "n \<le> int (length h)"
  shows "read_from_guest_mem m (Some g) (Some h) st n =
    Some (Some (take (nat n) (drop (nat st) (gm_bytes m g)) @ drop (nat n) h))"
  using assms by (rule read_eq)

definition demo_mem :: guest_mem where
  "demo_mem = \<lparr>gm_scatter = [\<lparr>sdata = 100, slen = 3\<rparr>, \<lparr>sdata = 200, slen = 2\<rparr>], gm_all_len = 5\<rparr>"

definition demo_store :: store where
  "demo_store = (\<lambda>a. word_of_int a)"

lemma demo_mem_wf: "gm_wf demo_mem" "gm_all_len demo_mem = 5"
  by (simp_all add: demo_mem_def gm_wf_def seg_disj_def)

lemma gm_bytes_demo: "gm_bytes m demo_mem = [m 100, m 101, m 102, m 200, m 201]"
  by (simp add: demo_mem_def gm_bytes_def mem_read_def upt_rec)

lemma demo_bytes: "gm_bytes demo_store demo_mem = [100, 101, 102, 200, 201]"
  by (simp add: gm_bytes_demo demo_store_def)

theorem read_from_guest_mem_correct_witness:
  "read_from_guest_mem demo_store (Some demo_mem) (Some [0, 0, 0]) 2 2 = Some (Some [102, 200, 0])"
  using read_from_guest_mem_correct [of demo_mem 2 2 "[0, 0, 0]" demo_store]
  by (simp add: demo_mem_wf demo_bytes)

text \<open>
  C2. A write that stays inside the parameter replaces exactly the addressed range
  of the flat guest bytes by the host bytes and touches no address outside of the
  segments.
\<close>

theorem write_to_guest_mem_correct:
  assumes "gm_wf g" "0 \<le> st" "0 \<le> n" "st + n \<le> gm_all_len g" "n \<le> int (length h)"
  shows "\<exists>m'. write_to_guest_mem m (Some g) (Some h) st n = Some m' \<and>
    gm_bytes m' g = take (nat st) (gm_bytes m g) @ take (nat n) h @ drop (nat (st + n)) (gm_bytes m g) \<and>
    (\<forall>x. (\<forall>s \<in> set (gm_scatter g). \<not> seg_addr s x) \<longrightarrow> m' x = m x)"
  using assms by (rule write_ex)

theorem write_to_guest_mem_correct_witness:
  "\<exists>m'. write_to_guest_mem demo_store (Some demo_mem) (Some [7, 8]) 2 2 = Some m' \<and>
     gm_bytes m' demo_mem = [100, 101, 7, 8, 201] \<and> m' 103 = 103"
proof -
  have "\<forall>s \<in> set (gm_scatter demo_mem). \<not> seg_addr s 103"
    by (simp add: demo_mem_def seg_addr_def)
  moreover have "demo_store 103 = 103"
    by (simp add: demo_store_def)
  ultimately show ?thesis
    using write_to_guest_mem_correct [of demo_mem 2 2 "[7, 8]" demo_store]
    by (auto simp: demo_mem_wf demo_bytes)
qed

text \<open>
  What \<^verbatim>\<open>write_to_guest_mem\<close> stored is what \<^verbatim>\<open>read_from_guest_mem\<close> returns from
  the same place, for every segmentation of the parameter.
\<close>

theorem read_after_write:
  assumes "gm_wf g" "0 \<le> st" "0 \<le> n" "st + n \<le> gm_all_len g" "n \<le> int (length h)"
    and "write_to_guest_mem m (Some g) (Some h) st n = Some m'" and "n \<le> int (length h')"
  shows "read_from_guest_mem m' (Some g) (Some h') st n = Some (Some (take (nat n) h @ drop (nat n) h'))"
proof -
  have "guest_read m' g h' st n = Some (take (nat n) h @ drop (nat n) h')"
    using assms by (intro gc.rd_after_wr [where m = m]) (auto simp: guest_write_def length_gm_bytes)
  then show ?thesis
    by (auto simp: guest_read_def split: option.splits)
qed

theorem read_after_write_witness:
  "\<exists>m'. write_to_guest_mem demo_store (Some demo_mem) (Some [7, 8]) 2 2 = Some m' \<and>
     read_from_guest_mem m' (Some demo_mem) (Some [0, 0]) 2 2 = Some (Some [7, 8])"
proof -
  obtain m' where m': "write_to_guest_mem demo_store (Some demo_mem) (Some [7, 8]) 2 2 = Some m'"
    using write_ex [of demo_mem 2 2 "[7, 8]" demo_store] by (auto simp: demo_mem_wf)
  then have "read_from_guest_mem m' (Some demo_mem) (Some [0, 0]) 2 2 = Some (Some [7, 8])"
    using read_after_write [of demo_mem 2 2 "[7, 8]" demo_store m' "[0, 0]"] by (simp add: demo_mem_wf)
  with m' show ?thesis by blast
qed

text \<open>
  \<^verbatim>\<open>read_from_guest_mem\<close> compares the length alone with the size of the
  parameter. A read whose length is acceptable but whose end lies behind the last
  segment passes that test and walks past the end of the segment array.
\<close>

theorem read_from_guest_mem_overrun:
  assumes "gm_wf g" "0 \<le> st" "st < 2147483648" "0 < n" "n \<le> gm_all_len g" "gm_all_len g < st + n"
    and "n \<le> int (length h)"
  shows "read_from_guest_mem m (Some g) (Some h) st n = None"
  using assms exchange_overrun [of "gm_scatter g" st 0 n h m]
  by (simp add: read_from_guest_mem_def host_guest_buffer_exchange_def gm_wf_def)

theorem read_from_guest_mem_overrun_witness:
  "read_from_guest_mem demo_store (Some demo_mem) (Some [0, 0, 0, 0]) 3 4 = None"
  using read_from_guest_mem_overrun [of demo_mem 3 4 "[0, 0, 0, 0]" demo_store]
  by (simp add: demo_mem_wf)

text \<open>
  Whatever \<^verbatim>\<open>call_para_to_ptr\<close> hands to a device handler shows the bytes of the
  parameter: the guest pointer of a one-segment parameter, or a private copy of a
  scattered one, never a null pointer.
\<close>

theorem call_para_to_ptr_bytes:
  assumes "gm_wf (cp_data para)" "cp_len para = gm_all_len (cp_data para)" "0 < cp_len para"
    and "int (length fresh) = cp_len para"
  shows "(\<exists>p. call_para_to_ptr m fresh para = Some (Ptr_direct p) \<and>
            mem_read m p (cp_len para) = gm_bytes m (cp_data para))
       \<or> call_para_to_ptr m fresh para = Some (Ptr_copy (gm_bytes m (cp_data para)))"
proof -
  let ?g = "cp_data para"
  have len: "int (length (gm_bytes m ?g)) = cp_len para"
    using assms length_gm_bytes by simp
  show ?thesis
  proof (cases "gm_scatter ?g")
    case Nil
    with assms show ?thesis by (simp add: gm_wf_def)
  next
    case (Cons s sg)
    show ?thesis
    proof (cases sg)
      case Nil
      with Cons assms show ?thesis
        by (simp add: call_para_to_ptr_def get_direct_ptr_def gm_wf_def gm_bytes_def)
    next
      case (Cons t ts)
      have "read_from_guest_mem m (Some ?g) (Some fresh) 0 (cp_len para) = Some (Some (gm_bytes m ?g))"
        using assms len by (subst read_eq) auto
      with Cons \<open>gm_scatter ?g = s # sg\<close> assms show ?thesis
        by (simp add: call_para_to_ptr_def get_direct_ptr_def)
    qed
  qed
qed

theorem call_para_to_ptr_bytes_witness:
  "call_para_to_ptr demo_store [0, 0, 0, 0, 0] \<lparr>cp_data = demo_mem, cp_len = 5\<rparr>
     = Some (Ptr_copy [100, 101, 102, 200, 201])"
proof -
  have "get_direct_ptr demo_mem = (False, 0)"
    by (simp add: demo_mem_def get_direct_ptr_def)
  then have "\<And>p. call_para_to_ptr demo_store [0, 0, 0, 0, 0] \<lparr>cp_data = demo_mem, cp_len = 5\<rparr> \<noteq> Some (Ptr_direct p)"
    by (simp add: call_para_to_ptr_def split: option.splits)
  then show ?thesis
    using call_para_to_ptr_bytes [of "\<lparr>cp_data = demo_mem, cp_len = 5\<rparr>" "[0, 0, 0, 0, 0]" demo_store]
    by (simp add: demo_mem_wf demo_bytes)
qed

end
