(* ===== verification/Mem_Flow.thy ===== *)
theory Mem_Flow
  imports Guest_Memory Complex_Main
begin

text \<open>
  Usage tracking of the shared memory device, after the first part of
  \<^verbatim>\<open>hw/express-mem/express_mem.c\<close>: the tables of data flows of \<^verbatim>\<open>GlobalStats\<close>, the updates
  \<^verbatim>\<open>update_gbuffer_virt_usage\<close> and \<^verbatim>\<open>update_gbuffer_phy_usage\<close>, the bandwidth estimate and
  the prediction \<^verbatim>\<open>mem_predict_prefetch\<close>. A pointer into a flow array is its index and
  \<^verbatim>\<open>NULL\<close> is \<open>None\<close>; following a \<^verbatim>\<open>NULL\<close> pointer makes the operation \<open>None\<close>. A \<^verbatim>\<open>double\<close> is a
  real number, and every floating-point operation is the exact operation followed by
  the rounding \<open>rnd\<close>, which is a parameter.
\<close>

section \<open>Memory types and graphic buffers\<close>

definition EXPRESS_MEM_TYPE_UNKNOWN :: int where "EXPRESS_MEM_TYPE_UNKNOWN = 0x00"
definition EXPRESS_MEM_TYPE_HOST_MASK :: int where "EXPRESS_MEM_TYPE_HOST_MASK = 0x0f"
definition EXPRESS_MEM_TYPE_HOST_OPAQUE :: int where "EXPRESS_MEM_TYPE_HOST_OPAQUE = 0x01"
definition EXPRESS_MEM_TYPE_TEXTURE :: int where "EXPRESS_MEM_TYPE_TEXTURE = 0x02"
definition EXPRESS_MEM_TYPE_HOST_MEM :: int where "EXPRESS_MEM_TYPE_HOST_MEM = 0x03"
definition EXPRESS_MEM_TYPE_GBUFFER_HOST_MEM :: int where "EXPRESS_MEM_TYPE_GBUFFER_HOST_MEM = 0x04"
definition EXPRESS_MEM_TYPE_CUDA :: int where "EXPRESS_MEM_TYPE_CUDA = 0x05"
definition EXPRESS_MEM_TYPE_GUEST_OPAQUE :: int where "EXPRESS_MEM_TYPE_GUEST_OPAQUE = 0x10"
definition EXPRESS_MEM_TYPE_GUEST_MEM :: int where "EXPRESS_MEM_TYPE_GUEST_MEM = 0x20"

lemmas mem_type_defs =
  EXPRESS_MEM_TYPE_UNKNOWN_def EXPRESS_MEM_TYPE_HOST_MASK_def EXPRESS_MEM_TYPE_HOST_OPAQUE_def
  EXPRESS_MEM_TYPE_TEXTURE_def EXPRESS_MEM_TYPE_HOST_MEM_def EXPRESS_MEM_TYPE_GBUFFER_HOST_MEM_def
  EXPRESS_MEM_TYPE_CUDA_def EXPRESS_MEM_TYPE_GUEST_OPAQUE_def EXPRESS_MEM_TYPE_GUEST_MEM_def

text \<open>The fields of \<^verbatim>\<open>Hardware_Buffer\<close> the memory device uses.\<close>

record hardware_buffer =
  gb_id :: int
  gb_width :: int
  gb_height :: int
  gb_format :: int
  gb_pixel_type :: int
  gb_internal_format :: int
  gb_stride :: int
  gb_pixel_size :: int
  gb_usage :: int
  gb_size :: int
  gb_guest_data :: "guest_mem option"
  gb_is_dying :: int
  gb_remain_life_time :: int
  gb_last_phy_dev :: int
  gb_last_phy_usage :: int
  gb_pref_phy_dev :: int
  gb_last_virt_dev :: int
  gb_last_virt_usage :: int
  gb_last_virt_time :: int

definition memtype_to_str :: "int \<Rightarrow> string" where
  "memtype_to_str loc =
     (if loc = EXPRESS_MEM_TYPE_UNKNOWN then ''unknown''
      else if loc = EXPRESS_MEM_TYPE_GUEST_MEM then ''guest_mem''
      else if loc = EXPRESS_MEM_TYPE_GUEST_OPAQUE then ''guest_opaque''
      else if loc = EXPRESS_MEM_TYPE_TEXTURE then ''texture''
      else if loc = EXPRESS_MEM_TYPE_HOST_MEM then ''host_mem''
      else if loc = EXPRESS_MEM_TYPE_GBUFFER_HOST_MEM then ''gbuffer_host_mem''
      else if loc = EXPRESS_MEM_TYPE_HOST_OPAQUE then ''host_opaque''
      else if loc = EXPRESS_MEM_TYPE_CUDA then ''cuda''
      else ''error'')"

section \<open>Flow tables\<close>

definition MAX_FLOW_SIZE :: nat where "MAX_FLOW_SIZE = 32"

record dataflow =
  df_src_dev :: int
  df_dst_dev :: "int list"
  df_dst_dev_size :: nat
  df_slack_interval :: int

text \<open>
  One of the two tables of \<^verbatim>\<open>GlobalStats\<close>: the array, its used length and the hash table
  from buffer ids to flows. A key without a value and a key with value \<^verbatim>\<open>NULL\<close> are looked
  up alike.
\<close>

record flow_table =
  ft_flows :: "dataflow list"
  ft_size :: nat
  ft_map :: "int \<Rightarrow> nat option"

record global_stats =
  gs_virt :: flow_table
  gs_phy :: flow_table
  gs_bandwidth :: "int \<Rightarrow> int \<Rightarrow> real"

fun is_in_devs_loop :: "int \<Rightarrow> int list \<Rightarrow> bool \<Rightarrow> bool \<Rightarrow> bool \<times> bool" where
  "is_in_devs_loop dev [] found exclusive = (found, exclusive)"
| "is_in_devs_loop dev (d # ds) found exclusive =
     is_in_devs_loop dev ds (if d = dev then True else found) (if d \<noteq> dev then False else exclusive)"

definition is_in_devs :: "int \<Rightarrow> int list \<Rightarrow> nat \<Rightarrow> int" where
  "is_in_devs dev dev_array array_size =
     (case is_in_devs_loop dev (take array_size dev_array) False True of
        (found, exclusive) \<Rightarrow> if found then (if exclusive then 1 else 2) else 0)"

definition hg_get_flow :: "int \<Rightarrow> flow_table \<Rightarrow> nat option" where
  "hg_get_flow gbuffer_id t = ft_map t gbuffer_id"

definition hg_update_flow :: "int \<Rightarrow> nat option \<Rightarrow> flow_table \<Rightarrow> flow_table" where
  "hg_update_flow gbuffer_id p t = t\<lparr>ft_map := (ft_map t)(gbuffer_id := p)\<rparr>"

text \<open>The library's \<^verbatim>\<open>qsort\<close> with the comparison of integers, on the first \<open>n\<close> entries.\<close>

definition qsort_cmp_func :: "int \<Rightarrow> int \<Rightarrow> int" where
  "qsort_cmp_func a b = (if a > b then 1 else 0) - (if a < b then 1 else 0)"

fun qsort_insert :: "('a \<Rightarrow> 'a \<Rightarrow> int) \<Rightarrow> 'a \<Rightarrow> 'a list \<Rightarrow> 'a list" where
  "qsort_insert cmp x [] = [x]"
| "qsort_insert cmp x (y # ys) = (if cmp x y \<le> 0 then x # y # ys else y # qsort_insert cmp x ys)"

definition qsort :: "('a \<Rightarrow> 'a \<Rightarrow> int) \<Rightarrow> 'a list \<Rightarrow> nat \<Rightarrow> 'a list" where
  "qsort cmp xs n = foldr (qsort_insert cmp) (take n xs) [] @ drop n xs"

text \<open>
  The part that \<^verbatim>\<open>hg_new_virt_flow\<close> and \<^verbatim>\<open>hg_new_phy_flow\<close> share: the next element of the
  array gets the source, the destinations of the flow it is forked from and, at its own
  length, the new destination.
\<close>

definition new_flow :: "int \<Rightarrow> nat option \<Rightarrow> int \<Rightarrow> flow_table \<Rightarrow> dataflow" where
  "new_flow src_dev base new_dst_dev t =
     (let flow = (ft_flows t ! ft_size t)\<lparr>df_src_dev := src_dev\<rparr>;
          flow = (case base of
                    None \<Rightarrow> flow
                  | Some b \<Rightarrow>
                      (let bf = ft_flows t ! b; n = df_dst_dev_size bf in
                       flow\<lparr>df_dst_dev := take n (df_dst_dev bf) @ drop n (df_dst_dev flow)\<rparr>));
          flow = flow\<lparr>df_dst_dev := (df_dst_dev flow)[df_dst_dev_size flow := new_dst_dev]\<rparr>;
          flow = flow\<lparr>df_dst_dev_size := df_dst_dev_size flow + 1\<rparr> in
      flow\<lparr>df_dst_dev := qsort qsort_cmp_func (df_dst_dev flow) (df_dst_dev_size flow)\<rparr>)"

definition hg_new_virt_flow :: "int \<Rightarrow> nat option \<Rightarrow> int \<Rightarrow> int \<Rightarrow> flow_table \<Rightarrow> flow_table \<times> nat option" where
  "hg_new_virt_flow src_dev base new_dst_dev slack_interval t =
     (if ft_size t \<ge> MAX_FLOW_SIZE then (t, None)
      else
        (t\<lparr>ft_flows := (ft_flows t)[ft_size t :=
             (new_flow src_dev base new_dst_dev t)\<lparr>df_slack_interval := slack_interval\<rparr>],
           ft_size := ft_size t + 1\<rparr>,
         Some (ft_size t)))"

definition hg_new_phy_flow :: "int \<Rightarrow> nat option \<Rightarrow> int \<Rightarrow> flow_table \<Rightarrow> flow_table \<times> nat option" where
  "hg_new_phy_flow src_dev base new_dst_dev t =
     (if ft_size t \<ge> MAX_FLOW_SIZE then (t, None)
      else
        (t\<lparr>ft_flows := (ft_flows t)[ft_size t := new_flow src_dev base new_dst_dev t],
           ft_size := ft_size t + 1\<rparr>,
         Some (ft_size t)))"

section \<open>Bandwidth\<close>

definition filter_memtype :: "int \<Rightarrow> int" where
  "filter_memtype in_type =
     (if in_type = EXPRESS_MEM_TYPE_HOST_OPAQUE \<or> in_type = EXPRESS_MEM_TYPE_GBUFFER_HOST_MEM
      then EXPRESS_MEM_TYPE_HOST_MEM else in_type)"

definition is_host_type :: "int \<Rightarrow> bool" where
  "is_host_type t \<longleftrightarrow> t AND EXPRESS_MEM_TYPE_HOST_MASK \<noteq> 0"

definition hg_get_bandwidth :: "int \<Rightarrow> int \<Rightarrow> global_stats \<Rightarrow> real" where
  "hg_get_bandwidth dst src g =
     (if \<not> is_host_type dst \<or> \<not> is_host_type src then 0
      else gs_bandwidth g (filter_memtype dst) (filter_memtype src))"

definition smooth :: "(real \<Rightarrow> real) \<Rightarrow> real \<Rightarrow> real \<Rightarrow> real" where
  "smooth rnd new_bandwidth old = rnd (rnd (0.5 * new_bandwidth) + rnd ((1 - 0.5) * old))"

definition hg_update_bandwidth :: "(real \<Rightarrow> real) \<Rightarrow> int \<Rightarrow> int \<Rightarrow> real \<Rightarrow> global_stats \<Rightarrow> global_stats" where
  "hg_update_bandwidth rnd dst src new_bandwidth g =
     (if \<not> is_host_type dst \<or> \<not> is_host_type src then g
      else
        (let d = filter_memtype dst; s = filter_memtype src in
         g\<lparr>gs_bandwidth := (gs_bandwidth g)
             (d := (gs_bandwidth g d)(s := smooth rnd new_bandwidth (gs_bandwidth g d s)))\<rparr>))"

section \<open>Recording a use\<close>

text \<open>
  The updates of a buffer; for a \<^verbatim>\<open>NULL\<close> buffer both return at once. The loops over the
  used part of the array stop at the first flow that fits.
\<close>

fun find_flow :: "(dataflow \<Rightarrow> bool) \<Rightarrow> dataflow list \<Rightarrow> nat \<Rightarrow> nat option" where
  "find_flow P [] i = None"
| "find_flow P (f # fs) i = (if P f then Some i else find_flow P fs (Suc i))"

definition flow_matches :: "int \<Rightarrow> int \<Rightarrow> dataflow \<Rightarrow> bool" where
  "flow_matches src_dev dev f \<longleftrightarrow>
     src_dev = df_src_dev f \<and> is_in_devs dev (df_dst_dev f) (df_dst_dev_size f) \<noteq> 0"

definition flow_extends :: "dataflow \<Rightarrow> int \<Rightarrow> dataflow \<Rightarrow> bool" where
  "flow_extends base dev f \<longleftrightarrow>
     df_dst_dev_size f = df_dst_dev_size base + 1
     \<and> take (df_dst_dev_size base) (df_dst_dev f) = take (df_dst_dev_size base) (df_dst_dev base)
     \<and> df_dst_dev f ! (df_dst_dev_size f - 1) = dev"

text \<open>
  The choice of the flow for a read by \<open>dev\<close> after a write by \<open>last_dev\<close>; \<open>new_fl\<close> is
  \<^verbatim>\<open>hg_new_virt_flow\<close> or \<^verbatim>\<open>hg_new_phy_flow\<close>. The two updates contain it once each.
\<close>

definition choose_flow ::
  "(nat option \<Rightarrow> flow_table \<Rightarrow> flow_table \<times> nat option) \<Rightarrow> int \<Rightarrow> int \<Rightarrow> int \<Rightarrow> flow_table
     \<Rightarrow> flow_table \<times> nat option" where
  "choose_flow new_fl gbuffer_id last_dev dev t =
     (case hg_get_flow gbuffer_id t of
        None \<Rightarrow>
          (case find_flow (flow_matches last_dev dev) (take (ft_size t) (ft_flows t)) 0 of
             Some i \<Rightarrow> (t, Some i)
           | None \<Rightarrow> new_fl None t)
      | Some p \<Rightarrow>
          (let fl = ft_flows t ! p in
           if last_dev = df_src_dev fl \<and> is_in_devs dev (df_dst_dev fl) (df_dst_dev_size fl) = 0
           then
             (case find_flow (flow_extends fl dev) (take (ft_size t) (ft_flows t)) 0 of
                Some i \<Rightarrow> (hg_update_flow gbuffer_id (Some i) t, Some i)
              | None \<Rightarrow> new_fl (Some p) t)
           else (t, Some p)))"

text \<open>
  \<open>EXP_SMOOTH_ALPHA * a + (1 - EXP_SMOOTH_ALPHA) * b\<close> for integers, stored in an integer:
  a half of the sum, cut towards zero. It is exact in a \<^verbatim>\<open>double\<close> because both values
  have at most 33 bits, which \<open>flow_used\<close> below keeps true.
\<close>

definition smooth_interval :: "int \<Rightarrow> int \<Rightarrow> int" where
  "smooth_interval a b = (if 0 \<le> a + b then (a + b) div 2 else - (- (a + b) div 2))"

definition update_gbuffer_virt_usage ::
  "hardware_buffer \<Rightarrow> int \<Rightarrow> int \<Rightarrow> int \<Rightarrow> global_stats \<Rightarrow> (hardware_buffer \<times> global_stats) option" where
  "update_gbuffer_virt_usage gbuffer virt_dev write real_time g =
     (let last_virt_dev = gb_last_virt_dev gbuffer;
          last_write = gb_last_virt_usage gbuffer;
          last_virt_time = gb_last_virt_time gbuffer;
          virt_time = c_int real_time;
          slack_interval = c_int (virt_time - last_virt_time);
          gbuffer' = gbuffer\<lparr>gb_last_virt_dev := virt_dev, gb_last_virt_usage := write,
                             gb_last_virt_time := virt_time\<rparr> in
      if last_virt_dev = 0 \<or> last_write \<noteq> 1 \<or> write \<noteq> 0 then Some (gbuffer', g)
      else
        (case choose_flow (\<lambda>base. hg_new_virt_flow last_virt_dev base virt_dev slack_interval)
                (gb_id gbuffer) last_virt_dev virt_dev (gs_virt g) of
           (t, virt_flow) \<Rightarrow>
             (let t = hg_update_flow (gb_id gbuffer) virt_flow t in
              case virt_flow of
                None \<Rightarrow> None
              | Some p \<Rightarrow>
                  (let fl = ft_flows t ! p;
                       fl = fl\<lparr>df_slack_interval := smooth_interval slack_interval (df_slack_interval fl)\<rparr> in
                   Some (gbuffer', g\<lparr>gs_virt := t\<lparr>ft_flows := (ft_flows t)[p := fl]\<rparr>\<rparr>)))))"

definition update_gbuffer_phy_usage ::
  "hardware_buffer \<Rightarrow> int \<Rightarrow> int \<Rightarrow> global_stats \<Rightarrow> hardware_buffer \<times> global_stats" where
  "update_gbuffer_phy_usage gbuffer phy_dev write g =
     (let last_phy_dev = gb_last_phy_dev gbuffer;
          last_write = gb_last_phy_usage gbuffer;
          gbuffer' = gbuffer\<lparr>gb_last_phy_dev := phy_dev, gb_last_phy_usage := write,
                             gb_pref_phy_dev := EXPRESS_MEM_TYPE_UNKNOWN\<rparr> in
      if last_phy_dev = 0 \<or> last_write \<noteq> 1 \<or> write \<noteq> 0 then (gbuffer', g)
      else
        (case choose_flow (\<lambda>base. hg_new_phy_flow last_phy_dev base phy_dev)
                (gb_id gbuffer) last_phy_dev phy_dev (gs_phy g) of
           (t, phy_flow) \<Rightarrow> (gbuffer', g\<lparr>gs_phy := hg_update_flow (gb_id gbuffer) phy_flow t\<rparr>)))"

section \<open>Prediction\<close>

definition MAX_MEM_WORKER_THREADS :: nat where "MAX_MEM_WORKER_THREADS = 4"

definition mem_transfer_is_busy :: "nat \<Rightarrow> bool" where
  "mem_transfer_is_busy unprocessed \<longleftrightarrow> unprocessed > MAX_MEM_WORKER_THREADS"

definition trunc_int :: "real \<Rightarrow> int" where
  "trunc_int x = (if 0 \<le> x then \<lfloor>x\<rfloor> else \<lceil>x\<rceil>)"

definition guest_block_time :: "(real \<Rightarrow> real) \<Rightarrow> int \<Rightarrow> real \<Rightarrow> int \<Rightarrow> int" where
  "guest_block_time rnd sz phy_bandwidth slack_interval =
     (if phy_bandwidth > 0 \<and> slack_interval > 0
      then trunc_int (rnd (rnd (of_int sz / phy_bandwidth) - of_int slack_interval)) else 0)"

text \<open>
  The result is the buffer, the statistics, the predicted memory type and the value
  stored through \<^verbatim>\<open>pred_block\<close>, if one is stored.
\<close>

definition mem_predict_prefetch ::
  "(real \<Rightarrow> real) \<Rightarrow> nat \<Rightarrow> hardware_buffer option \<Rightarrow> int \<Rightarrow> global_stats
     \<Rightarrow> (hardware_buffer option \<times> global_stats \<times> int \<times> int option) option" where
  "mem_predict_prefetch rnd unprocessed gbuffer phy_dev g =
     (case gbuffer of
        None \<Rightarrow> Some (None, g, EXPRESS_MEM_TYPE_UNKNOWN, None)
      | Some gb \<Rightarrow>
          (if mem_transfer_is_busy unprocessed then Some (Some gb, g, EXPRESS_MEM_TYPE_UNKNOWN, None)
           else
             (let last_phy_dev = (if gb_last_phy_usage gb = 0 then gb_last_phy_dev gb
                                  else EXPRESS_MEM_TYPE_UNKNOWN) in
              case update_gbuffer_phy_usage gb phy_dev 1 g of
                (gb, g) \<Rightarrow>
                  (case hg_get_flow (gb_id gb) (gs_phy g) of
                     None \<Rightarrow> Some (Some gb, g, EXPRESS_MEM_TYPE_UNKNOWN, None)
                   | Some p \<Rightarrow>
                       (let target = df_dst_dev (ft_flows (gs_phy g) ! p) ! 0;
                            target = (if last_phy_dev \<noteq> target \<and> last_phy_dev \<noteq> EXPRESS_MEM_TYPE_UNKNOWN
                                      then last_phy_dev else target) in
                        case hg_get_flow (gb_id gb) (gs_virt g) of
                          None \<Rightarrow> None
                        | Some v \<Rightarrow>
                            (let slack_interval = c_int (df_slack_interval (ft_flows (gs_virt g) ! v));
                                 bt = guest_block_time rnd (gb_size gb) (hg_get_bandwidth target phy_dev g)
                                        slack_interval in
                             Some (Some gb, g, target, Some (max bt 0))))))))"

section \<open>Lemmas on flows\<close>

lemma is_in_devs_loop_eq:
  "is_in_devs_loop dev ds found exclusive = (found \<or> dev \<in> set ds, exclusive \<and> set ds \<subseteq> {dev})"
  by (induction ds arbitrary: found exclusive) auto

lemma is_in_devs_eq:
  "is_in_devs dev ds n = (if dev \<in> set (take n ds) then (if set (take n ds) \<subseteq> {dev} then 1 else 2) else 0)"
  by (simp add: is_in_devs_def is_in_devs_loop_eq)

lemma is_in_devs_zero [simp]: "is_in_devs dev ds n = 0 \<longleftrightarrow> dev \<notin> set (take n ds)"
  by (simp add: is_in_devs_eq)

lemma qsort_insert_insort: "qsort_insert qsort_cmp_func x ys = insort x ys"
  by (induction ys) (auto simp: qsort_cmp_func_def)

lemma qsort_sorts: "qsort qsort_cmp_func xs n = sort (take n xs) @ drop n xs"
proof -
  have "foldr (qsort_insert qsort_cmp_func) ys [] = sort ys" for ys :: "int list"
    by (induction ys) (simp_all add: qsort_insert_insort)
  then show ?thesis by (simp add: qsort_def)
qed

lemma length_qsort [simp]: "length (qsort qsort_cmp_func xs n) = length xs"
  by (simp add: qsort_sorts)

lemma find_flow_Some:
  "find_flow P fs i = Some j \<Longrightarrow> i \<le> j \<and> j < i + length fs \<and> P (fs ! (j - i))"
proof (induction fs arbitrary: i)
  case (Cons f fs)
  show ?case
  proof (cases "P f")
    case True
    with Cons.prems show ?thesis by simp
  next
    case False
    with Cons.prems have "find_flow P fs (Suc i) = Some j" by simp
    from Cons.IH [OF this] show ?thesis by (auto simp: nth_Cons split: nat.split simp flip: Suc_diff_Suc)
  qed
qed simp

lemma find_flow_used:
  assumes "find_flow P (take (ft_size t) (ft_flows t)) 0 = Some j" "ft_size t \<le> length (ft_flows t)"
  shows "j < ft_size t" "P (ft_flows t ! j)"
  using find_flow_Some [OF assms(1)] assms(2) by auto

lemma find_flow_None: "find_flow P fs i = None \<Longrightarrow> \<forall>f\<in>set fs. \<not> P f"
  by (induction fs arbitrary: i) (auto split: if_splits)

lemma smooth_interval_bounds:
  assumes "- b \<le> x" "x \<le> b" "- b \<le> y" "y \<le> b"
  shows "- b \<le> smooth_interval x y \<and> smooth_interval x y \<le> b"
  using assms by (auto simp: smooth_interval_def)

section \<open>The invariant of the flow tables\<close>

text \<open>
  Used flows have one destination, also those forked from a flow with other
  destinations: the destinations copied from the base flow are not counted. Unused
  flows are zero, and the hash table points to used flows only.
\<close>

definition flow_used :: "dataflow \<Rightarrow> bool" where
  "flow_used f \<longleftrightarrow> length (df_dst_dev f) = 16 \<and> df_dst_dev_size f = 1
     \<and> - 2147483648 \<le> df_slack_interval f \<and> df_slack_interval f \<le> 2147483648"

definition flow_unused :: "dataflow \<Rightarrow> bool" where
  "flow_unused f \<longleftrightarrow> length (df_dst_dev f) = 16 \<and> df_dst_dev_size f = 0 \<and> df_slack_interval f = 0"

definition table_ok :: "flow_table \<Rightarrow> bool" where
  "table_ok t \<longleftrightarrow> length (ft_flows t) = MAX_FLOW_SIZE \<and> ft_size t \<le> MAX_FLOW_SIZE
     \<and> (\<forall>i<ft_size t. flow_used (ft_flows t ! i))
     \<and> (\<forall>i<MAX_FLOW_SIZE. ft_size t \<le> i \<longrightarrow> flow_unused (ft_flows t ! i))
     \<and> (\<forall>gid p. ft_map t gid = Some p \<longrightarrow> p < ft_size t)"

definition flow_has :: "int \<Rightarrow> dataflow \<Rightarrow> bool" where
  "flow_has dev f \<longleftrightarrow> dev \<in> set (take (df_dst_dev_size f) (df_dst_dev f))"

lemma flow_used_dst: "flow_used f \<Longrightarrow> flow_has dev f \<longleftrightarrow> df_dst_dev f ! 0 = dev"
  by (cases "df_dst_dev f") (auto simp: flow_used_def flow_has_def)

lemma new_flow_used:
  assumes "table_ok t" "ft_size t < MAX_FLOW_SIZE" "\<forall>b. base = Some b \<longrightarrow> b < ft_size t"
  shows "flow_used (new_flow src base dst t)" "flow_has dst (new_flow src base dst t)"
    "df_src_dev (new_flow src base dst t) = src"
proof -
  have u: "flow_unused (ft_flows t ! ft_size t)" using assms by (simp add: table_ok_def)
  have b: "flow_used (ft_flows t ! b)" if "base = Some b" for b
    using assms that by (simp add: table_ok_def)
  show "flow_used (new_flow src base dst t)"
    using u b by (auto simp: new_flow_def flow_used_def flow_unused_def Let_def split: option.split)
  show "flow_has dst (new_flow src base dst t)"
    using u b
    by (auto simp: new_flow_def flow_used_def flow_unused_def flow_has_def Let_def qsort_sorts
        take_Suc_conv_app_nth split: option.split)
  show "df_src_dev (new_flow src base dst t) = src"
    by (simp add: new_flow_def Let_def split: option.split)
qed

text \<open>
  What the updates rely on of the allocation of a flow, for both tables: a full table is
  returned unchanged with \<^verbatim>\<open>NULL\<close>, otherwise the next element becomes a flow from the
  source to the destination.
\<close>

locale flow_maker =
  fixes new_fl :: "int \<Rightarrow> nat option \<Rightarrow> int \<Rightarrow> flow_table \<Rightarrow> flow_table \<times> nat option"
  assumes full: "MAX_FLOW_SIZE \<le> ft_size t \<Longrightarrow> new_fl src base dst t = (t, None)"
    and fresh: "\<lbrakk>table_ok t; ft_size t < MAX_FLOW_SIZE; \<forall>b. base = Some b \<longrightarrow> b < ft_size t\<rbrakk> \<Longrightarrow>
      \<exists>f. flow_used f \<and> flow_has dst f \<and> df_src_dev f = src \<and>
        new_fl src base dst t =
          (t\<lparr>ft_flows := (ft_flows t)[ft_size t := f], ft_size := ft_size t + 1\<rparr>, Some (ft_size t))"
begin

lemma table_ok_extend:
  assumes "table_ok t" "ft_size t < MAX_FLOW_SIZE" "flow_used f"
  shows "table_ok (t\<lparr>ft_flows := (ft_flows t)[ft_size t := f], ft_size := ft_size t + 1\<rparr>)"
  using assms by (auto simp: table_ok_def nth_list_update less_Suc_eq)

lemma new_fl_table:
  assumes "table_ok t" "\<forall>b. base = Some b \<longrightarrow> b < ft_size t" "new_fl src base dst t = (t', r)"
  shows "table_ok t' \<and> ft_size t \<le> ft_size t' \<and> ft_size t' \<le> ft_size t + 1 \<and> ft_map t' = ft_map t
    \<and> (case r of
         None \<Rightarrow> MAX_FLOW_SIZE \<le> ft_size t
       | Some p \<Rightarrow> p < ft_size t' \<and> flow_has dst (ft_flows t' ! p) \<and> df_src_dev (ft_flows t' ! p) = src)"
proof (cases "ft_size t < MAX_FLOW_SIZE")
  case True
  obtain f where f: "flow_used f" "flow_has dst f" "df_src_dev f = src"
      and eq: "new_fl src base dst t =
        (t\<lparr>ft_flows := (ft_flows t)[ft_size t := f], ft_size := ft_size t + 1\<rparr>, Some (ft_size t))"
    using fresh [OF assms(1) True assms(2), of dst src] by blast
  with assms(3) have "t' = t\<lparr>ft_flows := (ft_flows t)[ft_size t := f], ft_size := ft_size t + 1\<rparr>"
      "r = Some (ft_size t)" by simp_all
  with f table_ok_extend [OF assms(1) True f(1)] True assms(1) show ?thesis
    by (simp add: table_ok_def)
next
  case False
  with full [of t src base dst] assms show ?thesis by simp
qed

text \<open>
  The chosen flow is used and leads to the reading device, unless the buffer already
  belongs to a flow from another source.
\<close>

lemma choose_flow_table:
  assumes ok: "table_ok t"
    and eq: "choose_flow (\<lambda>base. new_fl last_dev base dev) gid last_dev dev t = (t', r)"
  shows "table_ok t' \<and> ft_size t \<le> ft_size t' \<and> ft_size t' \<le> ft_size t + 1
    \<and> (case r of
         None \<Rightarrow> MAX_FLOW_SIZE \<le> ft_size t
       | Some p \<Rightarrow> p < ft_size t'
           \<and> (df_src_dev (ft_flows t' ! p) = last_dev \<longrightarrow> flow_has dev (ft_flows t' ! p)))"
proof (cases "ft_map t gid")
  case None
  show ?thesis
  proof (cases "find_flow (flow_matches last_dev dev) (take (ft_size t) (ft_flows t)) 0")
    case (Some i)
    with None eq have "t' = t" "r = Some i" by (simp_all add: choose_flow_def hg_get_flow_def)
    with find_flow_used [OF Some] ok show ?thesis
      by (simp add: table_ok_def flow_matches_def flow_has_def)
  next
    case None2: None
    with None eq have "new_fl last_dev None dev t = (t', r)" by (simp add: choose_flow_def hg_get_flow_def)
    from new_fl_table [OF ok _ this] show ?thesis by (auto split: option.splits)
  qed
next
  case (Some p)
  with ok have p: "p < ft_size t" by (simp add: table_ok_def)
  show ?thesis
  proof (cases "last_dev = df_src_dev (ft_flows t ! p) \<and> \<not> flow_has dev (ft_flows t ! p)")
    case False
    with Some eq have "t' = t" "r = Some p"
      by (auto simp: choose_flow_def hg_get_flow_def Let_def flow_has_def split: if_splits)
    with False p ok show ?thesis by (auto simp: table_ok_def)
  next
    case True
    have none: "find_flow (flow_extends (ft_flows t ! p) dev) (take (ft_size t) (ft_flows t)) 0 = None"
    proof (rule ccontr)
      assume "\<not> ?thesis"
      then obtain i where i: "find_flow (flow_extends (ft_flows t ! p) dev) (take (ft_size t) (ft_flows t)) 0 = Some i"
        by auto
      from ok have "ft_size t \<le> length (ft_flows t)" by (simp add: table_ok_def)
      from find_flow_used [OF i this] ok p show False
        by (simp add: flow_extends_def table_ok_def flow_used_def)
    qed
    with True Some eq have "new_fl last_dev (Some p) dev t = (t', r)"
      by (simp add: choose_flow_def hg_get_flow_def Let_def flow_has_def)
    from new_fl_table [OF ok _ this] p show ?thesis by (auto split: option.splits)
  qed
qed

end

lemma new_virt_flow_eq:
  "ft_size t < MAX_FLOW_SIZE \<Longrightarrow> hg_new_virt_flow src base dst slack t =
     (t\<lparr>ft_flows := (ft_flows t)[ft_size t := (new_flow src base dst t)\<lparr>df_slack_interval := slack\<rparr>],
        ft_size := ft_size t + 1\<rparr>, Some (ft_size t))"
  by (simp add: hg_new_virt_flow_def)

interpretation vf: flow_maker "\<lambda>src base dst. hg_new_virt_flow src base dst (c_int slack)" for slack
proof
  fix t src base dst
  assume a: "table_ok t" "ft_size t < MAX_FLOW_SIZE" "\<forall>b. base = Some b \<longrightarrow> b < ft_size t"
  define f where "f = (new_flow src base dst t)\<lparr>df_slack_interval := c_int slack\<rparr>"
  have "flow_used f" "flow_has dst f" "df_src_dev f = src"
    using new_flow_used [OF a, where src = src and dst = dst] c_int_bounds [of slack]
    by (simp_all add: f_def flow_used_def flow_has_def)
  then show "\<exists>f. flow_used f \<and> flow_has dst f \<and> df_src_dev f = src \<and>
      hg_new_virt_flow src base dst (c_int slack) t =
        (t\<lparr>ft_flows := (ft_flows t)[ft_size t := f], ft_size := ft_size t + 1\<rparr>, Some (ft_size t))"
    using a(2) by (intro exI [of _ f]) (simp add: new_virt_flow_eq f_def)
qed (simp add: hg_new_virt_flow_def)

interpretation pf: flow_maker hg_new_phy_flow
proof
  fix t src base dst
  assume a: "table_ok t" "ft_size t < MAX_FLOW_SIZE" "\<forall>b. base = Some b \<longrightarrow> b < ft_size t"
  then show "\<exists>f. flow_used f \<and> flow_has dst f \<and> df_src_dev f = src \<and>
      hg_new_phy_flow src base dst t =
        (t\<lparr>ft_flows := (ft_flows t)[ft_size t := f], ft_size := ft_size t + 1\<rparr>, Some (ft_size t))"
    using new_flow_used [OF a, where src = src and dst = dst]
    by (intro exI [of _ "new_flow src base dst t"]) (simp add: hg_new_phy_flow_def)
qed (simp add: hg_new_phy_flow_def)

section \<open>Histories of uses\<close>

datatype usage = Use_virt int int int int | Use_phy int int int

text \<open>
  Uses of the buffers by virtual and physical devices, in any order: the buffer id, the
  device, the write flag and, for virtual devices, the time.
\<close>

fun use_step :: "usage \<Rightarrow> (int \<Rightarrow> hardware_buffer) \<times> global_stats \<Rightarrow> ((int \<Rightarrow> hardware_buffer) \<times> global_stats) option" where
  "use_step (Use_virt i dev write time) (bufs, g) =
     map_option (\<lambda>(b, g'). (bufs(i := b), g')) (update_gbuffer_virt_usage (bufs i) dev write time g)"
| "use_step (Use_phy i dev write) (bufs, g) =
     (case update_gbuffer_phy_usage (bufs i) dev write g of (b, g') \<Rightarrow> Some (bufs(i := b), g'))"

fun use_run :: "usage list \<Rightarrow> (int \<Rightarrow> hardware_buffer) \<times> global_stats \<Rightarrow> ((int \<Rightarrow> hardware_buffer) \<times> global_stats) option" where
  "use_run [] s = Some s"
| "use_run (u # us) s = Option.bind (use_step u s) (use_run us)"

definition empty_flow :: dataflow where
  "empty_flow = \<lparr>df_src_dev = 0, df_dst_dev = replicate 16 0, df_dst_dev_size = 0, df_slack_interval = 0\<rparr>"

definition empty_table :: flow_table where
  "empty_table = \<lparr>ft_flows = replicate MAX_FLOW_SIZE empty_flow, ft_size = 0, ft_map = (\<lambda>_. None)\<rparr>"

definition stats_init :: global_stats where
  "stats_init = \<lparr>gs_virt = empty_table, gs_phy = empty_table, gs_bandwidth = (\<lambda>_ _. 0)\<rparr>"

definition stats_ok :: "global_stats \<Rightarrow> bool" where
  "stats_ok g \<longleftrightarrow> table_ok (gs_virt g) \<and> table_ok (gs_phy g)"

lemma stats_ok_init: "stats_ok stats_init"
  by (simp add: stats_ok_def stats_init_def table_ok_def empty_table_def flow_unused_def empty_flow_def)

lemma table_ok_map:
  "table_ok t \<Longrightarrow> (\<forall>p. r = Some p \<longrightarrow> p < ft_size t) \<Longrightarrow> table_ok (hg_update_flow gid r t)"
  by (auto simp: table_ok_def hg_update_flow_def)

lemma hg_update_flow_simps [simp]:
  "ft_flows (hg_update_flow gid r t) = ft_flows t" "ft_size (hg_update_flow gid r t) = ft_size t"
  "ft_map (hg_update_flow gid r t) = (ft_map t)(gid := r)"
  by (simp_all add: hg_update_flow_def)

lemma table_ok_slack:
  assumes "table_ok t" "p < ft_size t" "- 2147483648 \<le> s" "s \<le> 2147483648"
  shows "table_ok (t\<lparr>ft_flows := (ft_flows t)[p := (ft_flows t ! p)\<lparr>df_slack_interval := s\<rparr>]\<rparr>)"
  using assms by (auto simp: table_ok_def nth_list_update flow_used_def)

lemma update_virt_ok:
  assumes ok: "stats_ok g" and eq: "update_gbuffer_virt_usage b dev write time g = Some (b', g')"
  shows "stats_ok g' \<and> gs_phy g' = gs_phy g \<and> ft_size (gs_virt g') \<le> ft_size (gs_virt g) + 1"
proof (cases "gb_last_virt_dev b = 0 \<or> gb_last_virt_usage b \<noteq> 1 \<or> write \<noteq> 0")
  case True
  with assms show ?thesis by (auto simp: update_gbuffer_virt_usage_def Let_def)
next
  case False
  define slack where "slack = c_int time - gb_last_virt_time b"
  obtain t r where ch: "choose_flow (\<lambda>base. hg_new_virt_flow (gb_last_virt_dev b) base dev (c_int slack))
      (gb_id b) (gb_last_virt_dev b) dev (gs_virt g) = (t, r)" by fastforce
  note tab = vf.choose_flow_table [OF _ ch]
  with ok have t: "table_ok t" "ft_size t \<le> ft_size (gs_virt g) + 1" by (simp_all add: stats_ok_def)
  from False eq ch obtain p where r: "r = Some p"
    by (cases r) (auto simp: update_gbuffer_virt_usage_def Let_def slack_def)
  with tab ok have p: "p < ft_size t" by (simp add: stats_ok_def)
  define s where "s = smooth_interval (c_int slack) (df_slack_interval (ft_flows t ! p))"
  define t' where "t' = hg_update_flow (gb_id b) r t"
  have g': "g' = g\<lparr>gs_virt := t'\<lparr>ft_flows := (ft_flows t')[p := (ft_flows t' ! p)\<lparr>df_slack_interval := s\<rparr>]\<rparr>\<rparr>"
    using False eq ch r by (auto simp: update_gbuffer_virt_usage_def Let_def slack_def s_def t'_def)
  have "- 2147483648 \<le> s \<and> s \<le> 2147483648" unfolding s_def
    using t p c_int_bounds [of slack] by (intro smooth_interval_bounds) (auto simp: table_ok_def flow_used_def)
  moreover have "table_ok t'" unfolding t'_def using t r p by (intro table_ok_map) auto
  ultimately have "table_ok (t'\<lparr>ft_flows := (ft_flows t')[p := (ft_flows t' ! p)\<lparr>df_slack_interval := s\<rparr>]\<rparr>)"
    using p by (intro table_ok_slack) (auto simp: t'_def)
  with ok t g' show ?thesis by (simp add: stats_ok_def t'_def)
qed

lemma update_virt_returns:
  assumes ok: "stats_ok g" and size: "ft_size (gs_virt g) < MAX_FLOW_SIZE"
  shows "\<exists>b' g'. update_gbuffer_virt_usage b dev write time g = Some (b', g')"
proof (cases "gb_last_virt_dev b = 0 \<or> gb_last_virt_usage b \<noteq> 1 \<or> write \<noteq> 0")
  case True
  then show ?thesis by (auto simp: update_gbuffer_virt_usage_def Let_def)
next
  case False
  obtain t r where ch: "choose_flow (\<lambda>base. hg_new_virt_flow (gb_last_virt_dev b) base dev
        (c_int (c_int time - gb_last_virt_time b))) (gb_id b) (gb_last_virt_dev b) dev (gs_virt g) = (t, r)"
    by fastforce
  from vf.choose_flow_table [OF _ ch] ok size obtain p where "r = Some p"
    by (cases r) (auto simp: stats_ok_def)
  with False ch show ?thesis by (simp add: update_gbuffer_virt_usage_def Let_def)
qed

lemma update_phy_ok:
  assumes ok: "stats_ok g" and eq: "update_gbuffer_phy_usage b dev write g = (b', g')"
  shows "stats_ok g' \<and> gs_virt g' = gs_virt g"
proof (cases "gb_last_phy_dev b = 0 \<or> gb_last_phy_usage b \<noteq> 1 \<or> write \<noteq> 0")
  case True
  with assms show ?thesis by (auto simp: update_gbuffer_phy_usage_def Let_def)
next
  case False
  obtain t r where ch: "choose_flow (\<lambda>base. hg_new_phy_flow (gb_last_phy_dev b) base dev)
      (gb_id b) (gb_last_phy_dev b) dev (gs_phy g) = (t, r)" by fastforce
  note tab = pf.choose_flow_table [OF _ ch]
  with ok have "table_ok t" "\<forall>p. r = Some p \<longrightarrow> p < ft_size t"
    by (auto simp: stats_ok_def split: option.splits)
  then have "table_ok (hg_update_flow (gb_id b) r t)" by (rule table_ok_map)
  with False eq ch ok show ?thesis by (auto simp: update_gbuffer_phy_usage_def Let_def stats_ok_def)
qed

lemma update_virt_dep:
  assumes "gb_last_virt_dev b \<noteq> 0" "gb_last_virt_usage b = 1"
    and "update_gbuffer_virt_usage b dev 0 time g = Some (b', g')"
  shows "\<exists>p. ft_map (gs_virt g') (gb_id b) = Some p"
    and "b' = b\<lparr>gb_last_virt_dev := dev, gb_last_virt_usage := 0, gb_last_virt_time := c_int time\<rparr>"
  using assms by (auto simp: update_gbuffer_virt_usage_def Let_def split: prod.splits option.splits)

lemma update_phy_dep:
  assumes "stats_ok g" "ft_size (gs_phy g) < MAX_FLOW_SIZE" "gb_last_phy_dev b \<noteq> 0" "gb_last_phy_usage b = 1"
  shows "\<exists>g' p. update_gbuffer_phy_usage b dev 0 g =
      (b\<lparr>gb_last_phy_dev := dev, gb_last_phy_usage := 0, gb_pref_phy_dev := EXPRESS_MEM_TYPE_UNKNOWN\<rparr>, g')
      \<and> gs_virt g' = gs_virt g \<and> ft_map (gs_phy g') (gb_id b) = Some p"
proof -
  obtain t r where ch: "choose_flow (\<lambda>base. hg_new_phy_flow (gb_last_phy_dev b) base dev)
      (gb_id b) (gb_last_phy_dev b) dev (gs_phy g) = (t, r)" by fastforce
  from pf.choose_flow_table [OF _ ch] assms(1,2) obtain p where "r = Some p"
    by (cases r) (auto simp: stats_ok_def)
  with ch assms show ?thesis by (simp add: update_gbuffer_phy_usage_def Let_def)
qed

lemma update_write:
  "update_gbuffer_virt_usage b dev 1 time g =
     Some (b\<lparr>gb_last_virt_dev := dev, gb_last_virt_usage := 1, gb_last_virt_time := c_int time\<rparr>, g)"
  "update_gbuffer_phy_usage b dev 1 g =
     (b\<lparr>gb_last_phy_dev := dev, gb_last_phy_usage := 1, gb_pref_phy_dev := EXPRESS_MEM_TYPE_UNKNOWN\<rparr>, g)"
  by (simp_all add: update_gbuffer_virt_usage_def update_gbuffer_phy_usage_def Let_def)

lemma predict_last_reader:
  assumes "\<not> mem_transfer_is_busy n" "gb_last_phy_usage b = 0" "gb_last_phy_dev b \<noteq> 0"
    and "ft_map (gs_phy g) (gb_id b) = Some p" "ft_map (gs_virt g) (gb_id b) = Some v"
  shows "\<exists>b' g' block. mem_predict_prefetch rnd n (Some b) dev g = Some (b', g', gb_last_phy_dev b, Some block)
    \<and> 0 \<le> block"
  using assms by (simp add: mem_predict_prefetch_def update_write hg_get_flow_def EXPRESS_MEM_TYPE_UNKNOWN_def Let_def)

section \<open>Properties\<close>

fun virt_uses :: "usage list \<Rightarrow> nat" where
  "virt_uses [] = 0"
| "virt_uses (Use_virt _ _ _ _ # us) = Suc (virt_uses us)"
| "virt_uses (Use_phy _ _ _ # us) = virt_uses us"

lemma use_run_ok:
  assumes "stats_ok g" "ft_size (gs_virt g) + virt_uses us \<le> MAX_FLOW_SIZE"
  shows "\<exists>bufs' g'. use_run us (bufs, g) = Some (bufs', g') \<and> stats_ok g'"
  using assms
proof (induction us arbitrary: bufs g)
  case (Cons u us)
  show ?case
  proof (cases u)
    case (Use_virt i dev wr time)
    with Cons.prems(2) have "ft_size (gs_virt g) < MAX_FLOW_SIZE" by simp
    from update_virt_returns [OF Cons.prems(1) this] obtain b' g' where
      eq: "update_gbuffer_virt_usage (bufs i) dev wr time g = Some (b', g')" by blast
    from update_virt_ok [OF Cons.prems(1) eq] Cons.prems(2) Use_virt
    have "stats_ok g'" "ft_size (gs_virt g') + virt_uses us \<le> MAX_FLOW_SIZE" by simp_all
    from Cons.IH [OF this, of "bufs(i := b')"] show ?thesis unfolding Use_virt by (simp add: eq del: fun_upd_apply)
  next
    case (Use_phy i dev wr)
    obtain b' g' where eq: "update_gbuffer_phy_usage (bufs i) dev wr g = (b', g')" by fastforce
    from update_phy_ok [OF Cons.prems(1) eq] Cons.prems(2) Use_phy
    have "stats_ok g'" "ft_size (gs_virt g') + virt_uses us \<le> MAX_FLOW_SIZE" by simp_all
    from Cons.IH [OF this, of "bufs(i := b')"] show ?thesis unfolding Use_phy by (simp add: eq del: fun_upd_apply)
  qed
qed simp

text \<open>
  C28. A history of buffer uses with at most 32 uses by virtual devices is recorded without
  fault: every update returns, and afterwards the hash tables point to used flows,
  each used flow has exactly one destination and its slack interval fits a 32-bit
  integer.
\<close>

theorem flow_history_ok:
  assumes "virt_uses us \<le> 32"
  shows "\<exists>bufs g. use_run us (bufs0, stats_init) = Some (bufs, g) \<and> table_ok (gs_virt g) \<and> table_ok (gs_phy g)"
proof -
  have "\<exists>bufs g. use_run us (bufs0, stats_init) = Some (bufs, g) \<and> stats_ok g"
    using assms by (intro use_run_ok stats_ok_init) (simp add: stats_init_def empty_table_def MAX_FLOW_SIZE_def)
  then show ?thesis by (auto simp: stats_ok_def)
qed

definition demo_buffer :: hardware_buffer where
  "demo_buffer = \<lparr>gb_id = 7, gb_width = 2, gb_height = 2, gb_format = 0, gb_pixel_type = 0, gb_internal_format = 0,
     gb_stride = 8, gb_pixel_size = 4, gb_usage = 0, gb_size = 16, gb_guest_data = None, gb_is_dying = 0,
     gb_remain_life_time = 0, gb_last_phy_dev = 0, gb_last_phy_usage = 0, gb_pref_phy_dev = 0,
     gb_last_virt_dev = 0, gb_last_virt_usage = 0, gb_last_virt_time = 0\<rparr>"

theorem flow_history_ok_witness:
  "virt_uses [Use_virt 7 1 1 10, Use_phy 7 2 1, Use_virt 7 2 0 20, Use_phy 7 3 0] \<le> 32
   \<and> (\<exists>bufs g. use_run [Use_virt 7 1 1 10, Use_phy 7 2 1, Use_virt 7 2 0 20, Use_phy 7 3 0]
         (\<lambda>_. demo_buffer, stats_init) = Some (bufs, g) \<and> table_ok (gs_virt g) \<and> table_ok (gs_phy g))"
  using flow_history_ok [of "[Use_virt 7 1 1 10, Use_phy 7 2 1, Use_virt 7 2 0 20, Use_phy 7 3 0]" "\<lambda>_. demo_buffer"]
  by simp

text \<open>
  C29. After a buffer is written by one device and read by another, and both uses are
  recorded, the next prediction names the memory of the reader, whatever flows the
  tables hold, as long as they are not full and the transfer queue is not busy.
\<close>

theorem predict_after_use:
  assumes ok: "stats_ok g"
    and size: "ft_size (gs_virt g) < MAX_FLOW_SIZE" "ft_size (gs_phy g) < MAX_FLOW_SIZE"
    and dev: "writer \<noteq> 0" "src \<noteq> 0" "dst \<noteq> 0" and n: "n \<le> MAX_MEM_WORKER_THREADS"
  shows "\<exists>bufs' g' b g'' block.
      use_run [Use_virt i writer 1 t1, Use_phy i src 1, Use_virt i reader 0 t2, Use_phy i dst 0] (bufs, g)
        = Some (bufs', g')
      \<and> mem_predict_prefetch rnd n (Some (bufs' i)) src g' = Some (b, g'', dst, Some block) \<and> 0 \<le> block"
proof -
  define b1 where "b1 = (bufs i)\<lparr>gb_last_virt_dev := writer, gb_last_virt_usage := 1, gb_last_virt_time := c_int t1,
    gb_last_phy_dev := src, gb_last_phy_usage := 1, gb_pref_phy_dev := EXPRESS_MEM_TYPE_UNKNOWN\<rparr>"
  have b1: "gb_last_virt_dev b1 \<noteq> 0" "gb_last_virt_usage b1 = 1" using dev by (simp_all add: b1_def)
  obtain b2 g2 where v: "update_gbuffer_virt_usage b1 reader 0 t2 g = Some (b2, g2)"
    using update_virt_returns [OF ok size(1)] by blast
  note v_dep = update_virt_dep [OF b1 v]
  from update_virt_ok [OF ok v] size(2) have g2: "stats_ok g2" "ft_size (gs_phy g2) < MAX_FLOW_SIZE" by simp_all
  have b2: "gb_last_phy_dev b2 \<noteq> 0" "gb_last_phy_usage b2 = 1" "gb_id b2 = gb_id b1"
    using v_dep(2) dev by (simp_all add: b1_def)
  from update_phy_dep [OF g2 b2(1,2), of dst] obtain g3 p where
    ph: "update_gbuffer_phy_usage b2 dst 0 g2 =
      (b2\<lparr>gb_last_phy_dev := dst, gb_last_phy_usage := 0, gb_pref_phy_dev := EXPRESS_MEM_TYPE_UNKNOWN\<rparr>, g3)"
    and g3: "gs_virt g3 = gs_virt g2" "ft_map (gs_phy g3) (gb_id b2) = Some p" by blast
  define b3 where "b3 = b2\<lparr>gb_last_phy_dev := dst, gb_last_phy_usage := 0, gb_pref_phy_dev := EXPRESS_MEM_TYPE_UNKNOWN\<rparr>"
  from v_dep(1) obtain q where q: "ft_map (gs_virt g3) (gb_id b2) = Some q" using g3(1) b2(3) by auto
  have "\<exists>b g'' block. mem_predict_prefetch rnd n (Some b3) src g3 = Some (b, g'', gb_last_phy_dev b3, Some block) \<and> 0 \<le> block"
    using n dev g3(2) q by (intro predict_last_reader [of n b3 g3 p q]) (simp_all add: b3_def mem_transfer_is_busy_def)
  moreover have "use_run [Use_virt i writer 1 t1, Use_phy i src 1, Use_virt i reader 0 t2, Use_phy i dst 0] (bufs, g)
      = Some (bufs(i := b3), g3)"
    using v ph by (simp add: update_write b1_def b3_def)
  ultimately show ?thesis by (auto simp: b3_def)
qed

theorem predict_after_use_witness:
  "stats_ok stats_init \<and> ft_size (gs_virt stats_init) < MAX_FLOW_SIZE \<and> ft_size (gs_phy stats_init) < MAX_FLOW_SIZE
   \<and> (\<exists>bufs' g' b g'' block.
      use_run [Use_virt 7 1 1 10, Use_phy 7 2 1, Use_virt 7 2 0 20, Use_phy 7 3 0] (\<lambda>_. demo_buffer, stats_init)
        = Some (bufs', g')
      \<and> mem_predict_prefetch id 0 (Some (bufs' 7)) 2 g' = Some (b, g'', 3, Some block) \<and> 0 \<le> block)"
proof -
  have s: "ft_size (gs_virt stats_init) < MAX_FLOW_SIZE" "ft_size (gs_phy stats_init) < MAX_FLOW_SIZE"
    by (simp_all add: stats_init_def empty_table_def MAX_FLOW_SIZE_def)
  from predict_after_use [OF stats_ok_init s, of 1 2 3 0 7 10 2 20 "\<lambda>_. demo_buffer" id] s stats_ok_init
  show ?thesis by simp
qed

text \<open>
  A buffer that two devices read in turn makes every read fork another flow, since a
  forked flow does not contain the destinations of its base. The 33rd fork finds the
  table full and the update follows a \<^verbatim>\<open>NULL\<close> pointer.
\<close>

lemma flow_table_exhausted:
  "use_run (concat (replicate 17 [Use_virt 7 1 1 0, Use_virt 7 2 0 0, Use_virt 7 1 1 0, Use_virt 7 3 0 0]))
     (\<lambda>_. demo_buffer, stats_init) = None"
  by code_simp

end
