(* ===== verification/Call_Cache.thy ===== *)
theory Call_Cache
  imports Vsoc_Prelude
begin

text \<open>
  The allocator behind \<^verbatim>\<open>alloc_one_call\<close> and \<^verbatim>\<open>alloc_one_guest_mem\<close> in
  \<^verbatim>\<open>hw/teleport-express/teleport_express_call.c\<close>: \<^verbatim>\<open>Fast_Alloc_Date_Cache\<close> with
  \<^verbatim>\<open>pre_alloc_cache_init\<close>, \<^verbatim>\<open>get_one_cache\<close> and \<^verbatim>\<open>release_one_cache\<close>. A block is named
  by its position in \<^verbatim>\<open>data\<close>; its leading \<^verbatim>\<open>int\<close> is \<open>c_index\<close>, its payload \<open>c_data\<close>, and
  \<open>z\<close> is the all-zero payload. The locale \<open>slot_pool\<close> is the contract of an allocator.
\<close>

section \<open>State and operations\<close>

record 'a cache =
  c_data :: "'a list"
  c_index :: "nat list"
  c_flag :: "bool list"
  c_need_release_flag :: "bool list option"
  c_alloc_loc :: nat
  c_remain_num :: int
  c_num :: nat

definition INIT_CACHE_SIZE :: nat where
  "INIT_CACHE_SIZE = 128"

definition pre_alloc_cache_init :: "'a \<Rightarrow> 'a cache" where
  "pre_alloc_cache_init z =
     \<lparr>c_data = replicate INIT_CACHE_SIZE z, c_index = replicate INIT_CACHE_SIZE 0,
      c_flag = replicate INIT_CACHE_SIZE False, c_need_release_flag = None,
      c_alloc_loc = 0, c_remain_num = int INIT_CACHE_SIZE, c_num = INIT_CACHE_SIZE\<rparr>"

text \<open>The doubling step that \<^verbatim>\<open>get_one_cache\<close> makes under the lock when nothing is left.\<close>

definition cache_grow :: "'a \<Rightarrow> 'a cache \<Rightarrow> 'a cache" where
  "cache_grow z c =
     c\<lparr>c_data := c_data c @ replicate (c_num c) z,
       c_index := c_index c @ replicate (c_num c) 0,
       c_need_release_flag :=
         (case c_need_release_flag c of None \<Rightarrow> None | Some old \<Rightarrow> Some (c_flag c)),
       c_flag := c_flag c @ replicate (c_num c) False,
       c_remain_num := c_remain_num c + int (c_num c),
       c_num := c_num c * 2\<rparr>"

definition get_one_cache :: "'a \<Rightarrow> 'a cache \<Rightarrow> (nat \<times> 'a cache) option" where
  "get_one_cache z c0 =
     (let c = (if c_remain_num c0 = 0 then cache_grow z c0 else c0) in
      case ring_scan (\<lambda>i. c_flag c ! i) (c_num c) (c_alloc_loc c) of
        None \<Rightarrow> None
      | Some now_loc \<Rightarrow>
          Some (now_loc,
            c\<lparr>c_flag := (c_flag c)[now_loc := True],
              c_index := (c_index c)[now_loc := now_loc],
              c_alloc_loc := now_loc,
              c_remain_num := c_remain_num c - 1\<rparr>))"

definition release_one_cache :: "'a \<Rightarrow> 'a cache \<Rightarrow> nat \<Rightarrow> 'a cache" where
  "release_one_cache z c block =
     (let index = c_index c ! block in
      c\<lparr>c_data := (c_data c)[block := z],
        c_flag := (c_flag c)[index := False],
        c_remain_num := c_remain_num c + 1\<rparr>)"

text \<open>The owner of a block fills in its payload.\<close>

definition cache_put :: "'a cache \<Rightarrow> nat \<Rightarrow> 'a \<Rightarrow> 'a cache" where
  "cache_put c block v = c\<lparr>c_data := (c_data c)[block := v]\<rparr>"

text \<open>\<^verbatim>\<open>alloc_one_call\<close> and \<^verbatim>\<open>alloc_one_guest_mem\<close> create their cache on first use.\<close>

definition alloc_one :: "'a \<Rightarrow> 'a cache option \<Rightarrow> (nat \<times> 'a cache) option" where
  "alloc_one z co =
     (case co of
        None \<Rightarrow> get_one_cache z (pre_alloc_cache_init z)
      | Some c \<Rightarrow> get_one_cache z c)"

definition cache_live :: "'a cache \<Rightarrow> nat set" where
  "cache_live c = {i. i < c_num c \<and> c_flag c ! i}"

definition cache_inv :: "'a \<Rightarrow> 'a cache \<Rightarrow> bool" where
  "cache_inv z c \<longleftrightarrow>
     0 < c_num c \<and> length (c_data c) = c_num c \<and> length (c_index c) = c_num c \<and>
     length (c_flag c) = c_num c \<and> c_alloc_loc c < c_num c \<and>
     c_remain_num c = int (count_list (c_flag c) False) \<and>
     (\<forall>i < c_num c. \<not> c_flag c ! i \<longrightarrow> c_data c ! i = z) \<and>
     (\<forall>i < c_num c. c_flag c ! i \<longrightarrow> c_index c ! i = i) \<and>
     c_need_release_flag c = None"

section \<open>Preservation of the invariant\<close>

lemma cache_init_inv: "cache_inv z (pre_alloc_cache_init z)"
  by (simp add: cache_inv_def pre_alloc_cache_init_def INIT_CACHE_SIZE_def)

lemma cache_init_live: "cache_live (pre_alloc_cache_init z) = {}"
  by (auto simp: cache_live_def pre_alloc_cache_init_def)

lemma cache_grow_inv: "cache_inv z c \<Longrightarrow> cache_inv z (cache_grow z c)"
  by (auto simp: cache_inv_def cache_grow_def nth_append)

lemma cache_grow_live: "cache_inv z c \<Longrightarrow> cache_live (cache_grow z c) = cache_live c"
  by (auto simp: cache_inv_def cache_live_def cache_grow_def nth_append)

lemma cache_grow_remain: "cache_inv z c \<Longrightarrow> c_remain_num c = 0 \<Longrightarrow> c_remain_num (cache_grow z c) \<noteq> 0"
  by (simp add: cache_inv_def cache_grow_def)

lemma count_list_pos_ex: "0 < count_list xs x \<Longrightarrow> \<exists>i < length xs. xs ! i = x"
  by (metis count_notin in_set_conv_nth less_irrefl)

lemma cache_take_inv:
  assumes "cache_inv z c" "k < c_num c" "\<not> c_flag c ! k"
  defines "c' \<equiv> c\<lparr>c_flag := (c_flag c)[k := True], c_index := (c_index c)[k := k],
                 c_alloc_loc := k, c_remain_num := c_remain_num c - 1\<rparr>"
  shows "cache_inv z c'" "cache_live c' = insert k (cache_live c)" "c_data c' = c_data c"
proof -
  have "Suc (count_list ((c_flag c)[k := True]) False) = count_list (c_flag c) False"
    using assms by (intro count_list_list_update) (auto simp: cache_inv_def)
  then show "cache_inv z c'"
    using assms by (auto simp: cache_inv_def nth_list_update)
  show "cache_live c' = insert k (cache_live c)"
    using assms by (auto simp: cache_inv_def cache_live_def nth_list_update)
  show "c_data c' = c_data c" by (simp add: c'_def)
qed

lemma get_one_cache_spec:
  assumes "cache_inv z c"
  shows "\<exists>k c'. get_one_cache z c = Some (k, c') \<and> k \<notin> cache_live c \<and>
    cache_live c' = insert k (cache_live c) \<and> cache_inv z c' \<and> c_data c' ! k = z \<and>
    (\<forall>i \<in> cache_live c. c_data c' ! i = c_data c ! i)"
proof -
  define c1 where "c1 = (if c_remain_num c = 0 then cache_grow z c else c)"
  have c1: "cache_inv z c1" "cache_live c1 = cache_live c" "c_remain_num c1 \<noteq> 0"
    using cache_grow_inv [OF assms] cache_grow_live [OF assms] cache_grow_remain [OF assms] assms
    by (simp_all add: c1_def)
  have old: "\<forall>i \<in> cache_live c. c_data c1 ! i = c_data c ! i"
    using assms by (auto simp: c1_def cache_grow_def cache_live_def cache_inv_def nth_append)
  have "0 < count_list (c_flag c1) False"
    using c1 by (simp add: cache_inv_def)
  then obtain j where "j < c_num c1" "\<not> c_flag c1 ! j"
    using count_list_pos_ex [of "c_flag c1" False] c1 by (auto simp: cache_inv_def)
  then obtain k where k: "ring_scan (\<lambda>i. c_flag c1 ! i) (c_num c1) (c_alloc_loc c1) = Some k"
      "k < c_num c1" "\<not> c_flag c1 ! k"
    using ring_scan_finds [of "c_alloc_loc c1" "c_num c1" j "\<lambda>i. c_flag c1 ! i"] c1
    by (auto simp: cache_inv_def)
  note take = cache_take_inv [OF c1(1) k(2,3)]
  have "c_data c1 ! k = z" using c1 k by (simp add: cache_inv_def)
  with k take c1 old show ?thesis
    by (auto simp: get_one_cache_def c1_def [symmetric] cache_live_def)
qed

lemma release_one_cache_spec:
  assumes "cache_inv z c" "k \<in> cache_live c"
  shows "cache_inv z (release_one_cache z c k)"
    "cache_live (release_one_cache z c k) = cache_live c - {k}"
    "\<forall>i \<in> cache_live c - {k}. c_data (release_one_cache z c k) ! i = c_data c ! i"
proof -
  have idx: "c_index c ! k = k" "k < c_num c" "c_flag c ! k"
    using assms by (auto simp: cache_inv_def cache_live_def)
  have "count_list ((c_flag c)[k := False]) False = Suc (count_list (c_flag c) False)"
    using assms idx by (intro count_list_list_update) (auto simp: cache_inv_def)
  then show "cache_inv z (release_one_cache z c k)"
    using assms idx by (auto simp: cache_inv_def release_one_cache_def nth_list_update)
  show "cache_live (release_one_cache z c k) = cache_live c - {k}"
    using assms idx by (auto simp: cache_inv_def cache_live_def release_one_cache_def nth_list_update)
  show "\<forall>i \<in> cache_live c - {k}. c_data (release_one_cache z c k) ! i = c_data c ! i"
    using idx by (simp add: release_one_cache_def)
qed

lemma cache_put_inv:
  "cache_inv z c \<Longrightarrow> k \<in> cache_live c \<Longrightarrow> cache_inv z (cache_put c k v)"
  "cache_live (cache_put c k v) = cache_live c"
  by (auto simp: cache_inv_def cache_put_def cache_live_def nth_list_update)

section \<open>The allocator contract\<close>

fun alloc_n :: "('p \<Rightarrow> (nat \<times> 'p) option) \<Rightarrow> nat \<Rightarrow> 'p \<Rightarrow> (nat list \<times> 'p) option" where
  "alloc_n alloc 0 p = Some ([], p)"
| "alloc_n alloc (Suc n) p =
     (case alloc p of
        None \<Rightarrow> None
      | Some (k, p') \<Rightarrow>
          (case alloc_n alloc n p' of None \<Rightarrow> None | Some (ks, p'') \<Rightarrow> Some (k # ks, p'')))"

locale slot_pool =
  fixes alloc :: "'p \<Rightarrow> (nat \<times> 'p) option"
    and release :: "'p \<Rightarrow> nat \<Rightarrow> 'p"
    and live :: "'p \<Rightarrow> nat set"
    and inv :: "'p \<Rightarrow> bool"
  assumes alloc_law: "inv p \<Longrightarrow>
      \<exists>k p'. alloc p = Some (k, p') \<and> k \<notin> live p \<and> live p' = insert k (live p) \<and> inv p'"
    and release_law: "inv p \<Longrightarrow> k \<in> live p \<Longrightarrow>
      inv (release p k) \<and> live (release p k) = live p - {k}"
begin

lemma alloc_cases:
  assumes "inv p"
  obtains k p' where "alloc p = Some (k, p')" "k \<notin> live p" "live p' = insert k (live p)" "inv p'"
  using alloc_law [OF assms] by blast

lemma alloc_n_fresh:
  "inv p \<Longrightarrow> \<exists>ks p'. alloc_n alloc n p = Some (ks, p') \<and> length ks = n \<and> distinct ks \<and>
     set ks \<inter> live p = {} \<and> live p' = set ks \<union> live p \<and> inv p'"
proof (induction n arbitrary: p)
  case 0
  then show ?case by simp
next
  case (Suc n)
  obtain k p1 where k: "alloc p = Some (k, p1)" "k \<notin> live p" "live p1 = insert k (live p)" "inv p1"
    using Suc.prems by (rule alloc_cases)
  obtain ks p2 where ks: "alloc_n alloc n p1 = Some (ks, p2)" "length ks = n" "distinct ks"
      "set ks \<inter> live p1 = {}" "live p2 = set ks \<union> live p1" "inv p2"
    using Suc.IH [OF k(4)] by blast
  show ?case
    by (intro exI [of _ "k # ks"] exI [of _ p2]) (use k ks in auto)
qed

lemma release_all:
  "inv p \<Longrightarrow> distinct ks \<Longrightarrow> set ks \<subseteq> live p \<Longrightarrow>
     inv (fold (\<lambda>k p. release p k) ks p) \<and> live (fold (\<lambda>k p. release p k) ks p) = live p - set ks"
proof (induction ks arbitrary: p)
  case Nil
  then show ?case by simp
next
  case (Cons k ks)
  have "inv (release p k)" "live (release p k) = live p - {k}"
    using release_law [of p k] Cons.prems by auto
  with Cons.IH [of "release p k"] Cons.prems show ?case by auto
qed

lemma alloc_release_round:
  assumes "inv p" "alloc_n alloc n p = Some (ks, p')"
  shows "inv (fold (\<lambda>k p. release p k) ks p')" "live (fold (\<lambda>k p. release p k) ks p') = live p"
proof -
  have p': "distinct ks" "set ks \<inter> live p = {}" "live p' = set ks \<union> live p" "inv p'"
    using alloc_n_fresh [OF assms(1), of n] assms(2) by auto
  have rel: "inv (fold (\<lambda>k p. release p k) ks p') \<and>
      live (fold (\<lambda>k p. release p k) ks p') = live p' - set ks"
    using p' by (intro release_all) auto
  then show "inv (fold (\<lambda>k p. release p k) ks p')" by simp
  show "live (fold (\<lambda>k p. release p k) ks p') = live p" using rel p' by auto
qed

end

interpretation cp: slot_pool "get_one_cache z" "release_one_cache z" cache_live "cache_inv z"
proof unfold_locales
  fix p :: "'a cache"
  assume "cache_inv z p"
  from get_one_cache_spec [OF this]
  show "\<exists>k p'. get_one_cache z p = Some (k, p') \<and> k \<notin> cache_live p \<and>
      cache_live p' = insert k (cache_live p) \<and> cache_inv z p'"
    by (elim exE conjE) (intro exI conjI)
next
  fix p :: "'a cache" and k
  assume "cache_inv z p" "k \<in> cache_live p"
  then show "cache_inv z (release_one_cache z p k) \<and>
      cache_live (release_one_cache z p k) = cache_live p - {k}"
    by (simp add: release_one_cache_spec)
qed

definition cache_opt_live :: "'a cache option \<Rightarrow> nat set" where
  "cache_opt_live co = (case co of None \<Rightarrow> {} | Some c \<Rightarrow> cache_live c)"

definition cache_opt_inv :: "'a \<Rightarrow> 'a cache option \<Rightarrow> bool" where
  "cache_opt_inv z co \<longleftrightarrow> (case co of None \<Rightarrow> True | Some c \<Rightarrow> cache_inv z c)"

definition release_one :: "'a \<Rightarrow> 'a cache option \<Rightarrow> nat \<Rightarrow> 'a cache option" where
  "release_one z co k = map_option (\<lambda>c. release_one_cache z c k) co"

definition alloc_opt :: "'a \<Rightarrow> 'a cache option \<Rightarrow> (nat \<times> 'a cache option) option" where
  "alloc_opt z co = map_option (map_prod id Some) (alloc_one z co)"

text \<open>The lazily created caches of the file satisfy the same contract.\<close>

interpretation lp: slot_pool "alloc_opt z" "release_one z" cache_opt_live "cache_opt_inv z"
proof unfold_locales
  fix p :: "'a cache option"
  assume inv: "cache_opt_inv z p"
  define c where "c = (case p of None \<Rightarrow> pre_alloc_cache_init z | Some c \<Rightarrow> c)"
  have c: "cache_inv z c" "cache_live c = cache_opt_live p" "alloc_one z p = get_one_cache z c"
    using inv cache_init_inv [of z] cache_init_live [of z]
    by (auto simp: c_def cache_opt_inv_def cache_opt_live_def alloc_one_def split: option.splits)
  obtain k c' where "get_one_cache z c = Some (k, c')" "k \<notin> cache_live c"
      "cache_live c' = insert k (cache_live c)" "cache_inv z c'"
    using c(1) by (rule cp.alloc_cases)
  with c show "\<exists>k p'. alloc_opt z p = Some (k, p') \<and> k \<notin> cache_opt_live p \<and>
      cache_opt_live p' = insert k (cache_opt_live p) \<and> cache_opt_inv z p'"
    by (intro exI [of _ k] exI [of _ "Some c'"])
      (auto simp: alloc_opt_def cache_opt_inv_def cache_opt_live_def split: option.splits)
next
  fix p :: "'a cache option" and k
  assume "cache_opt_inv z p" "k \<in> cache_opt_live p"
  then show "cache_opt_inv z (release_one z p k) \<and>
      cache_opt_live (release_one z p k) = cache_opt_live p - {k}"
    using cp.release_law [of z _ k]
    by (auto simp: cache_opt_inv_def cache_opt_live_def release_one_def split: option.splits)
qed

section \<open>Properties\<close>

text \<open>
  C13. On a consistent cache \<^verbatim>\<open>get_one_cache\<close> always returns, also when every block is
  taken (it doubles the cache first); the block it returns was not in use, is zeroed,
  carries its own index, and no live block's payload changes.
\<close>

theorem get_one_cache_fresh:
  assumes "cache_inv z c"
  shows "\<exists>k c'. get_one_cache z c = Some (k, c') \<and> k \<notin> cache_live c \<and>
    cache_live c' = insert k (cache_live c) \<and> cache_inv z c' \<and> c_data c' ! k = z \<and>
    (\<forall>i \<in> cache_live c. c_data c' ! i = c_data c ! i)"
  using assms by (rule get_one_cache_spec)

definition full_cache :: "nat cache" where
  "full_cache = \<lparr>c_data = [7, 8], c_index = [0, 1], c_flag = [True, True],
     c_need_release_flag = None, c_alloc_loc = 1, c_remain_num = 0, c_num = 2\<rparr>"

lemma full_cache_inv: "cache_inv 0 full_cache"
  by (auto simp: cache_inv_def full_cache_def less_Suc_eq numeral_2_eq_2)

lemma full_cache_live: "cache_live full_cache = {0, 1}"
  by (auto simp: cache_live_def full_cache_def less_Suc_eq numeral_2_eq_2)

theorem get_one_cache_fresh_witness:
  "\<exists>k c'. get_one_cache 0 full_cache = Some (k, c') \<and> k \<notin> {0, 1} \<and> cache_live c' = insert k {0, 1} \<and>
     c_data c' ! k = 0 \<and> c_data c' ! 0 = 7 \<and> c_data c' ! 1 = 8"
proof -
  have old: "c_data full_cache ! 0 = 7" "c_data full_cache ! 1 = 8"
    by (simp_all add: full_cache_def)
  obtain k c' where "get_one_cache 0 full_cache = Some (k, c')" "k \<notin> {0, 1}"
      "cache_live c' = insert k {0, 1}" "c_data c' ! k = 0"
      "\<forall>i \<in> {0, 1}. c_data c' ! i = c_data full_cache ! i"
    using get_one_cache_fresh [OF full_cache_inv, unfolded full_cache_live] by blast
  with old show ?thesis by (intro exI [of _ k] exI [of _ c']) simp
qed

text \<open>
  Allocating any number of blocks from a consistent cache yields pairwise distinct
  blocks, and releasing them in the order of allocation restores exactly the blocks that
  were in use before, whatever growth happened in between.
\<close>

theorem cache_alloc_release_roundtrip:
  assumes "cache_inv z c"
  shows "\<exists>ks c'. alloc_n (get_one_cache z) n c = Some (ks, c') \<and> length ks = n \<and> distinct ks \<and>
    set ks \<inter> cache_live c = {} \<and>
    cache_inv z (fold (\<lambda>k c. release_one_cache z c k) ks c') \<and>
    cache_live (fold (\<lambda>k c. release_one_cache z c k) ks c') = cache_live c"
proof -
  obtain ks c' where ks: "alloc_n (get_one_cache z) n c = Some (ks, c')" "length ks = n"
      "distinct ks" "set ks \<inter> cache_live c = {}"
    using cp.alloc_n_fresh [OF assms, of n] by blast
  with cp.alloc_release_round [OF assms ks(1)] show ?thesis
    by (intro exI [of _ ks] exI [of _ c'] conjI)
qed

theorem cache_alloc_release_roundtrip_witness:
  "\<exists>ks c'. alloc_n (get_one_cache 0) 5 full_cache = Some (ks, c') \<and> distinct ks \<and> length ks = 5 \<and>
     cache_live (fold (\<lambda>k c. release_one_cache 0 c k) ks c') = {0, 1}"
  using cache_alloc_release_roundtrip [OF full_cache_inv, of 5, unfolded full_cache_live] by blast

end
