(* ===== verification/Call_Packing.thy ===== *)
theory Call_Packing
  imports Guest_Memory Call_Cache "HOL-Library.Multiset"
begin

text \<open>
  From virtqueue elements to calls, after \<^verbatim>\<open>hw/teleport-express/teleport_express_call.c\<close>
  (\<^verbatim>\<open>fill_teleport_express_queue_elem\<close>, \<^verbatim>\<open>pack_call_from_queue\<close>, \<^verbatim>\<open>release_one_call\<close>,
  \<^verbatim>\<open>get_para_from_call\<close>, \<^verbatim>\<open>copy_guest_mem_from_call\<close>, \<^verbatim>\<open>common_call_callback\<close>,
  \<^verbatim>\<open>call_is_interrupt\<close>, \<^verbatim>\<open>guest_null_ptr_init\<close>) and the id macros of
  \<^verbatim>\<open>include/hw/teleport-express/express_device_common.h\<close>. A virtqueue is its list of
  available elements, oldest first, and the list of elements pushed back; elements and
  calls are carried by value together with the cache slot they occupy.
\<close>

section \<open>Call identifiers\<close>

definition GET_DEVICE_ID :: "int \<Rightarrow> int" where
  "GET_DEVICE_ID i = c_uint (drop_bit 32 i)"

definition GET_FUN_ID :: "int \<Rightarrow> int" where
  "GET_FUN_ID i = c_uint (i AND 0xffffff)"

definition FUN_NEED_SYNC :: "int \<Rightarrow> int" where
  "FUN_NEED_SYNC i = (drop_bit 24 i) AND 1"

definition FUN_HAS_HOST_SYNC :: "int \<Rightarrow> int" where
  "FUN_HAS_HOST_SYNC i = (drop_bit 24 i) AND 2"

definition SYNC_FUN_ID :: "int \<Rightarrow> int" where
  "SYNC_FUN_ID i = push_bit 24 1 OR c_size i"

definition HOST_SYNC_FUN_ID :: "int \<Rightarrow> int" where
  "HOST_SYNC_FUN_ID i = push_bit 25 1 OR c_size i"

definition DEVICE_FUN_ID :: "int \<Rightarrow> int \<Rightarrow> int" where
  "DEVICE_FUN_ID device_id i = c_size (push_bit 32 (c_size device_id)) OR i"

section \<open>Data\<close>

record queue_elem =
  qe_index :: nat
  qe_out :: "scatter_data list"
  qe_in :: "scatter_data list"
  qe_para :: "(nat \<times> guest_mem) option"
  qe_len :: int

record express_call =
  ec_slot :: nat
  ec_id :: int
  ec_thread_id :: int
  ec_process_id :: int
  ec_unique_id :: int
  ec_spend_time :: int
  ec_para_num :: int
  ec_elems :: "queue_elem list"
  ec_vq :: nat
  ec_is_end :: bool

record flag_buf =
  fb_id :: int
  fb_para_num :: int
  fb_thread_id :: int
  fb_process_id :: int
  fb_unique_id :: int

record pack_queue =
  pq_avail :: "queue_elem list"
  pq_used :: "queue_elem list"
  pq_packaging :: "express_call option"
  pq_remain :: int

record pack_state =
  pk_calls :: "unit cache option"
  pk_mems :: "unit cache option"
  pk_queue :: "nat \<Rightarrow> pack_queue"
  pk_notified :: "nat list"

definition MAX_PARA_NUM :: int where
  "MAX_PARA_NUM = 32"

definition u64_at :: "byte list \<Rightarrow> nat \<Rightarrow> int" where
  "u64_at b off = le_int (take 8 (drop off b))"

text \<open>The layout of \<^verbatim>\<open>Teleport_Express_Flag_Buf\<close>: eight 64-bit fields.\<close>

definition FLAG_OFF :: int where "FLAG_OFF = 0"
definition MEM_SPEND_TIME_OFF :: int where "MEM_SPEND_TIME_OFF = 8"
definition RET_DATA_OFF :: int where "RET_DATA_OFF = 16"

definition read_flag_buf :: "store \<Rightarrow> addr \<Rightarrow> flag_buf" where
  "read_flag_buf m p =
     (let b = mem_read m p 64 in
      \<lparr>fb_id = u64_at b 24, fb_para_num = u64_at b 32, fb_thread_id = u64_at b 40,
       fb_process_id = u64_at b 48, fb_unique_id = u64_at b 56\<rparr>)"

section \<open>Filling an element\<close>

text \<open>
  \<open>Fill_bad_shape\<close> is the return of 0 before \<^verbatim>\<open>para\<close> and \<^verbatim>\<open>next\<close> are initialised,
  \<open>Fill_failed\<close> a later return of 0, \<open>Fill_ok\<close> the return of 1, with the header fields
  when the caller asked for them.
\<close>

datatype fill_result = Fill_bad_shape | Fill_failed queue_elem | Fill_ok queue_elem "flag_buf option"

definition fill_seg :: "addr \<Rightarrow> bool \<Rightarrow> scatter_data \<Rightarrow> scatter_data" where
  "fill_seg guest_null_ptr single s =
     (if slen s = 4 \<and> sdata s = guest_null_ptr \<and> single then \<lparr>sdata = 0, slen = 0\<rparr> else s)"

definition fill_buf_len :: "scatter_data list \<Rightarrow> int" where
  "fill_buf_len sg = foldl (\<lambda>a s. c_int (a + slen s)) 0 sg"

definition fill_teleport_express_queue_elem ::
  "store \<Rightarrow> addr \<Rightarrow> bool \<Rightarrow> queue_elem \<Rightarrow> unit cache option \<Rightarrow> (fill_result \<times> unit cache option) option"
where
  "fill_teleport_express_queue_elem m guest_null_ptr want e mems =
     (let out_num = length (qe_out e); in_num = length (qe_in e) in
      if out_num \<noteq> 0 \<and> in_num \<noteq> 0 \<or> out_num = 0 \<and> in_num = 0 then Some (Fill_bad_shape, mems)
      else
        (case alloc_opt () mems of
           None \<Rightarrow> None
         | Some (k, mems') \<Rightarrow>
             (let single = (out_num = 1 \<and> in_num = 0);
                  sg = map (fill_seg guest_null_ptr single) (if in_num \<noteq> 0 then qe_in e else qe_out e);
                  buf_len = fill_buf_len sg;
                  guest_mem = \<lparr>gm_scatter = sg, gm_all_len = buf_len\<rparr>;
                  e' = e\<lparr>qe_out := (if in_num \<noteq> 0 then qe_out e else sg),
                         qe_in := (if in_num \<noteq> 0 then sg else qe_in e),
                         qe_para := Some (k, guest_mem), qe_len := c_size buf_len\<rparr> in
              if want then
                (if in_num \<noteq> 1 \<or> out_num \<noteq> 0 then Some (Fill_failed e', mems')
                 else
                   (case get_direct_ptr guest_mem of
                      (null_flag, p) \<Rightarrow>
                        if null_flag then
                          (if p = 0 then Some (Fill_failed e', mems')
                           else Some (Fill_ok e' (Some (read_flag_buf m p)), mems'))
                        else None))
              else Some (Fill_ok e' None, mems'))))"

section \<open>Releasing a call\<close>

definition elem_slots :: "queue_elem \<Rightarrow> nat list" where
  "elem_slots e = (case qe_para e of None \<Rightarrow> [] | Some (k, g) \<Rightarrow> [k])"

definition elems_slots :: "queue_elem list \<Rightarrow> nat list" where
  "elems_slots es = concat (map elem_slots es)"

definition TELEPORT_EXPRESS_QUEUE_ELEMS_FREE ::
  "queue_elem list \<Rightarrow> unit cache option \<Rightarrow> unit cache option" where
  "TELEPORT_EXPRESS_QUEUE_ELEMS_FREE es mems = fold (\<lambda>k c. release_one () c k) (elems_slots es) mems"

definition upd_queue :: "nat \<Rightarrow> (pack_queue \<Rightarrow> pack_queue) \<Rightarrow> pack_state \<Rightarrow> pack_state" where
  "upd_queue i f s = s\<lparr>pk_queue := (pk_queue s)(i := f (pk_queue s i))\<rparr>"

definition VIRTIO_ELEM_PUSH_ALL :: "nat \<Rightarrow> queue_elem list \<Rightarrow> pack_state \<Rightarrow> pack_state" where
  "VIRTIO_ELEM_PUSH_ALL vq es s = upd_queue vq (\<lambda>q. q\<lparr>pq_used := pq_used q @ es\<rparr>) s"

definition release_elems :: "nat \<Rightarrow> queue_elem list \<Rightarrow> pack_state \<Rightarrow> pack_state" where
  "release_elems vq es s =
     (let s1 = VIRTIO_ELEM_PUSH_ALL vq es s in
      s1\<lparr>pk_mems := TELEPORT_EXPRESS_QUEUE_ELEMS_FREE es (pk_mems s1)\<rparr>)"

definition release_one_call :: "express_call \<Rightarrow> bool \<Rightarrow> pack_state \<Rightarrow> pack_state" where
  "release_one_call call notify s =
     (let s1 = release_elems (ec_vq call) (ec_elems call) s;
          s2 = (if notify then s1\<lparr>pk_notified := pk_notified s1 @ [ec_vq call]\<rparr> else s1) in
      s2\<lparr>pk_calls := release_one () (pk_calls s2) (ec_slot call)\<rparr>)"

section \<open>Packing\<close>

text \<open>
  The inner \<^verbatim>\<open>for\<close> loop with \<open>r = para_num - i\<close>. It ends with the call complete, with
  the queue run dry (\<open>r\<close> parameters missing), or on an element that cannot be a
  parameter, which has been popped but not attached.
\<close>

datatype para_result =
    Para_done express_call "queue_elem list" "unit cache option"
  | Para_dry express_call int "unit cache option"
  | Para_broken express_call queue_elem "queue_elem list" "unit cache option"

definition call_add_elem :: "express_call \<Rightarrow> queue_elem \<Rightarrow> express_call" where
  "call_add_elem call e = call\<lparr>ec_elems := ec_elems call @ [e]\<rparr>"

fun pack_paras ::
  "store \<Rightarrow> addr \<Rightarrow> int \<Rightarrow> express_call \<Rightarrow> queue_elem list \<Rightarrow> unit cache option \<Rightarrow> para_result option"
where
  "pack_paras m np r call [] mems =
     Some (if r \<le> 0 then Para_done call [] mems else Para_dry call r mems)"
| "pack_paras m np r call (e # es) mems =
     (if r \<le> 0 then Some (Para_done call (e # es) mems)
      else if qe_in e \<noteq> [] \<or> qe_out e = [] then Some (Para_broken call e es mems)
      else
        (case fill_teleport_express_queue_elem m np False e mems of
           None \<Rightarrow> None
         | Some (Fill_ok e' fb, mems') \<Rightarrow> pack_paras m np (r - 1) (call_add_elem call e') es mems'
         | Some (Fill_failed e', mems') \<Rightarrow> Some (Para_broken call e' es mems')
         | Some (Fill_bad_shape, mems') \<Rightarrow> Some (Para_broken call e es mems')))"

text \<open>
  The part of the \<^verbatim>\<open>while\<close> body before the parameters: continue the suspended call with
  the element, or start a new call from it. \<open>Begin_stop\<close> leaves the function with
  \<^verbatim>\<open>NULL\<close>. When the first element is no header, the code pushes it back and frees it, and
  then reads its fields for the error message: a use of freed memory.
\<close>

datatype begin_result = Begin_stop pack_state | Begin_call int express_call pack_state

definition resume_call :: "store \<Rightarrow> addr \<Rightarrow> nat \<Rightarrow> express_call \<Rightarrow> queue_elem \<Rightarrow> pack_state \<Rightarrow> begin_result option"
where
  "resume_call m np index call e s =
     (let para_num = c_size (pq_remain (pk_queue s index) - 1);
          s1 = upd_queue index (\<lambda>q. q\<lparr>pq_packaging := None, pq_remain := 0\<rparr>) s in
      if qe_in e \<noteq> [] \<or> qe_out e = [] then Some (Begin_stop (release_one_call call False s1))
      else
        (case fill_teleport_express_queue_elem m np False e (pk_mems s1) of
           None \<Rightarrow> None
         | Some (Fill_ok e' fb, mems) \<Rightarrow>
             Some (Begin_call para_num (call_add_elem call e') (s1\<lparr>pk_mems := mems\<rparr>))
         | Some (r, mems) \<Rightarrow> Some (Begin_stop (release_one_call call False (s1\<lparr>pk_mems := mems\<rparr>)))))"

definition start_call :: "store \<Rightarrow> addr \<Rightarrow> nat \<Rightarrow> queue_elem \<Rightarrow> pack_state \<Rightarrow> begin_result option" where
  "start_call m np index e s =
     (case fill_teleport_express_queue_elem m np True e (pk_mems s) of
        None \<Rightarrow> None
      | Some (Fill_bad_shape, mems) \<Rightarrow> None
      | Some (Fill_failed e', mems) \<Rightarrow> None
      | Some (Fill_ok e' None, mems) \<Rightarrow> None
      | Some (Fill_ok e' (Some fb), mems) \<Rightarrow>
          (case alloc_opt () (pk_calls s) of
             None \<Rightarrow> None
           | Some (k, calls) \<Rightarrow>
               Some (Begin_call (fb_para_num fb)
                 \<lparr>ec_slot = k, ec_id = fb_id fb, ec_thread_id = fb_thread_id fb,
                  ec_process_id = fb_process_id fb, ec_unique_id = fb_unique_id fb,
                  ec_spend_time = 0, ec_para_num = fb_para_num fb, ec_elems = [e'],
                  ec_vq = index, ec_is_end = False\<rparr>
                 (s\<lparr>pk_mems := mems, pk_calls := calls\<rparr>))))"

definition pack_begin :: "store \<Rightarrow> addr \<Rightarrow> nat \<Rightarrow> queue_elem \<Rightarrow> pack_state \<Rightarrow> begin_result option" where
  "pack_begin m np index e s =
     (case pq_packaging (pk_queue s index) of
        Some call \<Rightarrow> resume_call m np index call e s
      | None \<Rightarrow> start_call m np index e s)"

definition set_avail :: "nat \<Rightarrow> queue_elem list \<Rightarrow> pack_state \<Rightarrow> pack_state" where
  "set_avail index es s = upd_queue index (\<lambda>q. q\<lparr>pq_avail := es\<rparr>) s"

abbreviation avail :: "nat \<Rightarrow> pack_state \<Rightarrow> queue_elem list" where
  "avail index s \<equiv> pq_avail (pk_queue s index)"

lemma upd_queue_simps [simp]:
  "pk_queue (upd_queue i f s) i = f (pk_queue s i)"
  "j \<noteq> i \<Longrightarrow> pk_queue (upd_queue i f s) j = pk_queue s j"
  "pk_calls (upd_queue i f s) = pk_calls s" "pk_mems (upd_queue i f s) = pk_mems s"
  "pk_notified (upd_queue i f s) = pk_notified s"
  by (simp_all add: upd_queue_def)

lemma avail_upd_queue:
  "(\<And>q. pq_avail (f q) = pq_avail q) \<Longrightarrow> avail i (upd_queue j f s) = avail i s"
  by (cases "i = j") simp_all

lemma avail_set_avail: "avail j (set_avail i es s) = (if j = i then es else avail j s)"
  by (simp add: set_avail_def)

lemma avail_release_elems [simp]: "avail i (release_elems vq es s) = avail i s"
  by (simp add: release_elems_def VIRTIO_ELEM_PUSH_ALL_def Let_def avail_upd_queue)

lemma avail_release [simp]: "avail i (release_one_call call notify s) = avail i s"
  by (simp add: release_one_call_def Let_def)

lemma pack_begin_avail:
  "pack_begin m np index e s = Some (Begin_call r call s') \<Longrightarrow> avail i s' = avail i s"
  by (auto simp: pack_begin_def resume_call_def start_call_def Let_def avail_upd_queue
      split: option.splits if_splits prod.splits fill_result.splits)

lemma pack_paras_shorter:
  "pack_paras m np r call es mems = Some (Para_broken call' e es' mems') \<Longrightarrow> length es' < length es"
  by (induction es arbitrary: r call mems)
    (fastforce split: if_splits option.splits prod.splits fill_result.splits)+

function pack_loop ::
  "store \<Rightarrow> addr \<Rightarrow> nat \<Rightarrow> queue_elem \<Rightarrow> pack_state \<Rightarrow> (express_call option \<times> pack_state) option"
where
  "pack_loop m np index e s =
     (case pack_begin m np index e s of
        None \<Rightarrow> None
      | Some (Begin_stop s1) \<Rightarrow> Some (None, s1)
      | Some (Begin_call para_num call s1) \<Rightarrow>
          (case pack_paras m np para_num call (avail index s1) (pk_mems s1) of
             None \<Rightarrow> None
           | Some (Para_done call' es mems) \<Rightarrow>
               Some (Some call', set_avail index es (s1\<lparr>pk_mems := mems\<rparr>))
           | Some (Para_dry call' r mems) \<Rightarrow>
               Some (None, upd_queue index
                 (\<lambda>q. q\<lparr>pq_avail := [], pq_packaging := Some call', pq_remain := c_int r\<rparr>)
                 (s1\<lparr>pk_mems := mems\<rparr>))
           | Some (Para_broken call' e' es mems) \<Rightarrow>
               pack_loop m np index e'
                 (release_one_call call' False (set_avail index es (s1\<lparr>pk_mems := mems\<rparr>)))))"
  by pat_completeness auto
termination
proof (relation "measure (\<lambda>(m, np, index, e, s). length (avail index s))", goal_cases)
  case 1
  show ?case by simp
next
  case 2
  then show ?case
    using pack_begin_avail pack_paras_shorter by (fastforce simp: set_avail_def)
qed

declare pack_loop.simps [simp del]

definition pack_call_from_queue ::
  "store \<Rightarrow> addr \<Rightarrow> nat \<Rightarrow> pack_state \<Rightarrow> (express_call option \<times> pack_state) option" where
  "pack_call_from_queue m np index s =
     (case avail index s of
        [] \<Rightarrow> Some (None, s)
      | e # es \<Rightarrow> pack_loop m np index e (set_avail index es s))"

section \<open>Parameters, completion flag\<close>

fun get_para_loop :: "int \<Rightarrow> queue_elem list \<Rightarrow> (bool \<times> call_para list) option" where
  "get_para_loop n [] = Some (n \<le> 0, [])"
| "get_para_loop n (e # es) =
     (if n \<le> 0 then Some (True, [])
      else
        (case (qe_para e, get_para_loop (n - 1) es) of
           (Some (k, g), Some (ok, ps)) \<Rightarrow> Some (ok, \<lparr>cp_data = g, cp_len = qe_len e\<rparr> # ps)
         | _ \<Rightarrow> None))"

definition get_para_from_call :: "int \<Rightarrow> express_call \<Rightarrow> int \<Rightarrow> (int \<times> call_para list \<times> express_call) option" where
  "get_para_from_call now call max_para_num =
     (if max_para_num < ec_para_num call then Some (0, [], call)
      else
        (case get_para_loop (ec_para_num call) (tl (ec_elems call)) of
           None \<Rightarrow> None
         | Some (ok, ps) \<Rightarrow>
             Some (if ok then c_int (ec_para_num call) else 0, ps, call\<lparr>ec_spend_time := now\<rparr>)))"

definition copy_guest_mem_from_call ::
  "int \<Rightarrow> express_call \<Rightarrow> int \<Rightarrow> (guest_mem option \<times> express_call) option" where
  "copy_guest_mem_from_call now call index =
     (case get_para_from_call now call MAX_PARA_NUM of
        None \<Rightarrow> None
      | Some (para_num, ps, call') \<Rightarrow>
          (if para_num \<ge> index then
             (if 1 \<le> index then Some (Some (cp_data (ps ! nat (index - 1))), call') else None)
           else Some (None, call')))"

definition call_header_mem :: "express_call \<Rightarrow> guest_mem option" where
  "call_header_mem call = (case ec_elems call of [] \<Rightarrow> None | e # es \<Rightarrow> map_option snd (qe_para e))"

definition common_call_callback :: "int \<Rightarrow> store \<Rightarrow> express_call \<Rightarrow> (store \<times> express_call) option" where
  "common_call_callback now m call =
     (let call' = (if ec_spend_time call \<noteq> 0
                   then call\<lparr>ec_spend_time := now - ec_spend_time call\<rparr> else call);
          mem = call_header_mem call' in
      case write_to_guest_mem m mem (Some (le_bytes 8 1)) FLAG_OFF 8 of
        None \<Rightarrow> None
      | Some m1 \<Rightarrow>
          map_option (\<lambda>m2. (m2, call'))
            (write_to_guest_mem m1 mem (Some (le_bytes 8 (ec_spend_time call'))) MEM_SPEND_TIME_OFF 8))"

definition call_is_interrupt :: "store \<Rightarrow> express_call \<Rightarrow> bool option" where
  "call_is_interrupt m call =
     (case read_from_guest_mem m (call_header_mem call) (Some (le_bytes 8 0)) FLAG_OFF 8 of
        Some (Some h) \<Rightarrow> Some (le_int h = 2)
      | _ \<Rightarrow> None)"

text \<open>
  The first element of the output queue registers the guest's stand-in for \<^verbatim>\<open>NULL\<close>;
  \<open>t_spend\<close> is the time measured for the 24 MB copy. The spin until the first element
  arrives is the argument \<open>e\<close>: the element that ended it.
\<close>

definition guest_null_ptr_init :: "int \<Rightarrow> queue_elem \<Rightarrow> store \<Rightarrow> addr \<Rightarrow> pack_state \<Rightarrow>
    nat \<Rightarrow> (store \<times> addr \<times> pack_state) option" where
  "guest_null_ptr_init t_spend e m np s vq =
     (case qe_out e of
        [] \<Rightarrow> None
      | sg # sgs \<Rightarrow>
          (if slen sg = 4 \<and> sgs = [] \<and> qe_in e = [] then
             (if c_uint t_spend = 0 then None
              else Some (mem_write m (sdata sg) (le_bytes 4 (1024 * 1024 * 24 div c_uint t_spend)),
                         sdata sg, VIRTIO_ELEM_PUSH_ALL vq [e] s))
           else Some (m, np, VIRTIO_ELEM_PUSH_ALL vq [e] s)))"

section \<open>Element by element\<close>

text \<open>What filling makes of an element: \<open>k\<close> is the slot of its \<^verbatim>\<open>Guest_Mem\<close>.\<close>

definition elem_segs :: "addr \<Rightarrow> queue_elem \<Rightarrow> scatter_data list" where
  "elem_segs np e = map (fill_seg np (length (qe_out e) = 1 \<and> qe_in e = []))
     (if qe_in e \<noteq> [] then qe_in e else qe_out e)"

definition elem_mem :: "addr \<Rightarrow> queue_elem \<Rightarrow> guest_mem" where
  "elem_mem np e = \<lparr>gm_scatter = elem_segs np e, gm_all_len = fill_buf_len (elem_segs np e)\<rparr>"

definition filled :: "addr \<Rightarrow> nat \<Rightarrow> queue_elem \<Rightarrow> queue_elem" where
  "filled np k e =
     e\<lparr>qe_out := (if qe_in e \<noteq> [] then qe_out e else elem_segs np e),
       qe_in := (if qe_in e \<noteq> [] then elem_segs np e else qe_in e),
       qe_para := Some (k, elem_mem np e), qe_len := c_size (gm_all_len (elem_mem np e))\<rparr>"

definition elem_shape_ok :: "queue_elem \<Rightarrow> bool" where
  "elem_shape_ok e \<longleftrightarrow> (qe_out e = []) \<noteq> (qe_in e = [])"

definition param_ok :: "queue_elem \<Rightarrow> bool" where
  "param_ok e \<longleftrightarrow> qe_in e = [] \<and> qe_out e \<noteq> []"

lemma param_ok_shape: "param_ok e \<Longrightarrow> elem_shape_ok e"
  by (simp add: param_ok_def elem_shape_ok_def)

lemma filled_sel [simp]:
  "qe_index (filled np k e) = qe_index e" "qe_para (filled np k e) = Some (k, elem_mem np e)"
  "elem_slots (filled np k e) = [k]"
  by (simp_all add: filled_def elem_slots_def)

lemma filled_shape: "elem_shape_ok (filled np k e) = elem_shape_ok e"
  by (simp add: filled_def elem_shape_ok_def elem_segs_def)

lemma fill_param:
  assumes "elem_shape_ok e"
  shows "fill_teleport_express_queue_elem m np False e mems =
    map_option (\<lambda>(k, mems'). (Fill_ok (filled np k e) None, mems')) (alloc_opt () mems)"
  using assms
  by (auto simp: fill_teleport_express_queue_elem_def elem_shape_ok_def Let_def filled_def elem_mem_def
      elem_segs_def split: option.splits prod.splits)

lemma fill_header:
  assumes "elem_shape_ok e"
  shows "fill_teleport_express_queue_elem m np True e mems =
    map_option (\<lambda>(k, mems').
        (if length (qe_in e) = 1 \<and> sdata (hd (qe_in e)) \<noteq> 0
         then Fill_ok (filled np k e) (Some (read_flag_buf m (sdata (hd (qe_in e)))))
         else Fill_failed (filled np k e), mems'))
      (alloc_opt () mems)"
proof (cases "length (qe_in e) = 1")
  case True
  then obtain s where "qe_in e = [s]" by (auto simp: length_Suc_conv)
  moreover with assms have "qe_out e = []" by (simp add: elem_shape_ok_def)
  ultimately show ?thesis
    by (auto simp: fill_teleport_express_queue_elem_def Let_def filled_def elem_mem_def elem_segs_def
        get_direct_ptr_def fill_seg_def split: option.splits prod.splits)
next
  case False
  then show ?thesis
    using assms
    by (auto simp: fill_teleport_express_queue_elem_def elem_shape_ok_def Let_def filled_def
        elem_mem_def elem_segs_def split: option.splits prod.splits)
qed

lemma fill_bad_shape:
  "\<not> elem_shape_ok e \<Longrightarrow> fill_teleport_express_queue_elem m np want e mems = Some (Fill_bad_shape, mems)"
  by (auto simp: fill_teleport_express_queue_elem_def elem_shape_ok_def Let_def)

lemma pack_paras_step:
  assumes "0 < r" "param_ok e" "alloc_opt () mems = Some (k, mems')"
  shows "pack_paras m np r call (e # es) mems =
    pack_paras m np (r - 1) (call_add_elem call (filled np k e)) es mems'"
  using assms by (simp add: param_ok_def fill_param param_ok_shape [unfolded param_ok_def])

lemma pack_paras_break:
  assumes "0 < r" "\<not> param_ok e"
  shows "pack_paras m np r call (e # es) mems = Some (Para_broken call e es mems)"
  using assms by (auto simp: param_ok_def)

lemma pack_paras_end: "r \<le> 0 \<Longrightarrow> pack_paras m np r call es mems = Some (Para_done call es mems)"
  by (cases es) simp_all

declare pack_paras.simps [simp del]

lemma call_add_elem_sel [simp]:
  "ec_slot (call_add_elem c e) = ec_slot c" "ec_elems (call_add_elem c e) = ec_elems c @ [e]"
  "ec_vq (call_add_elem c e) = ec_vq c" "ec_para_num (call_add_elem c e) = ec_para_num c"
  by (simp_all add: call_add_elem_def)

section \<open>Ownership of slots and elements\<close>

definition call_mems :: "express_call \<Rightarrow> nat multiset" where
  "call_mems c = mset (elems_slots (ec_elems c))"

definition call_ids :: "express_call \<Rightarrow> nat multiset" where
  "call_ids c = mset (map qe_index (ec_elems c))"

definition owns :: "express_call multiset \<Rightarrow> unit cache option \<Rightarrow> unit cache option \<Rightarrow> bool" where
  "owns C calls mems \<longleftrightarrow>
     cache_opt_inv () calls \<and> cache_opt_inv () mems \<and>
     image_mset ec_slot C = mset_set (cache_opt_live calls) \<and>
     \<Sum>\<^sub># (image_mset call_mems C) = mset_set (cache_opt_live mems) \<and>
     (\<forall>c \<in># C. ec_vq c < 2)"

definition opt_mset :: "'a option \<Rightarrow> 'a multiset" where
  "opt_mset x = (case x of None \<Rightarrow> {#} | Some y \<Rightarrow> {#y#})"

lemma opt_mset_simps [simp]: "opt_mset None = {#}" "opt_mset (Some x) = {#x#}"
  by (simp_all add: opt_mset_def)

definition held :: "pack_state \<Rightarrow> express_call multiset" where
  "held s = opt_mset (pq_packaging (pk_queue s 0)) + opt_mset (pq_packaging (pk_queue s 1))"

definition pk_inv :: "express_call multiset \<Rightarrow> pack_state \<Rightarrow> bool" where
  "pk_inv out s \<longleftrightarrow> owns (held s + out) (pk_calls s) (pk_mems s)"

definition queue_ids :: "pack_queue \<Rightarrow> nat multiset" where
  "queue_ids q = mset (map qe_index (pq_avail q)) + mset (map qe_index (pq_used q))"

definition all_ids :: "express_call multiset \<Rightarrow> pack_state \<Rightarrow> nat multiset" where
  "all_ids C s = queue_ids (pk_queue s 0) + queue_ids (pk_queue s 1) + \<Sum>\<^sub># (image_mset call_ids C)"

lemma cache_opt_live_finite: "finite (cache_opt_live co)"
  by (auto simp: cache_opt_live_def cache_live_def split: option.splits)

lemma elems_slots_simps [simp]:
  "elems_slots [] = []" "elems_slots (e # es) = elem_slots e @ elems_slots es"
  "elems_slots (es @ fs) = elems_slots es @ elems_slots fs"
  by (simp_all add: elems_slots_def)

lemma call_mems_add [simp]: "call_mems (call_add_elem c (filled np k e)) = add_mset k (call_mems c)"
  by (simp add: call_mems_def)

lemma call_ids_add [simp]: "call_ids (call_add_elem c e) = add_mset (qe_index e) (call_ids c)"
  by (simp add: call_ids_def)

lemma owns_alloc_mem:
  assumes "owns (add_mset c C) calls mems"
  obtains k mems' where "alloc_opt () mems = Some (k, mems')"
    "owns (add_mset (call_add_elem c (filled np k e)) C) calls mems'"
proof -
  have "cache_opt_inv () mems" using assms by (simp add: owns_def)
  then obtain k mems' where k: "alloc_opt () mems = Some (k, mems')" "k \<notin> cache_opt_live mems"
      "cache_opt_live mems' = insert k (cache_opt_live mems)" "cache_opt_inv () mems'"
    by (rule lp.alloc_cases)
  have "owns (add_mset (call_add_elem c (filled np k e)) C) calls mems'"
    using assms k cache_opt_live_finite [of mems] by (simp add: owns_def)
  with k(1) show thesis by (rule that)
qed

lemma mset_below_mset_set:
  assumes "finite A" "mset xs \<subseteq># mset_set A"
  shows "distinct xs" "set xs \<subseteq> A"
proof -
  show "set xs \<subseteq> A" using set_mset_mono [OF assms(2)] assms(1) by simp
  have le: "count (mset xs) x \<le> 1" for x
    by (rule order_trans [OF mset_subset_eq_count [OF assms(2)]]) (simp add: count_mset_set')
  have "count (mset xs) x = (if x \<in> set xs then 1 else 0)" for x
    using le [of x] by (cases "x \<in> set xs") (simp_all add: le_Suc_eq)
  then show "distinct xs" by (simp add: distinct_count_atmost_1)
qed

lemma owns_release:
  assumes "owns (add_mset c C) calls mems"
  shows "owns C (release_one () calls (ec_slot c))
    (TELEPORT_EXPRESS_QUEUE_ELEMS_FREE (ec_elems c) mems)"
proof -
  let ?ks = "elems_slots (ec_elems c)"
  have inv: "cache_opt_inv () calls" "cache_opt_inv () mems"
    and slots: "add_mset (ec_slot c) (image_mset ec_slot C) = mset_set (cache_opt_live calls)"
    and ks: "mset ?ks + \<Sum>\<^sub># (image_mset call_mems C) = mset_set (cache_opt_live mems)"
    and vq: "\<forall>c \<in># C. ec_vq c < 2"
    using assms by (simp_all add: owns_def call_mems_def)
  note fin = cache_opt_live_finite
  have live: "ec_slot c \<in> cache_opt_live calls"
    using slots fin [of calls] by (metis finite_set_mset_mset_set union_single_eq_member)
  have "mset ?ks \<subseteq># mset_set (cache_opt_live mems)"
    using ks by (metis mset_subset_eq_add_left)
  note dist = mset_below_mset_set [OF fin this]
  have rc: "cache_opt_inv () (release_one () calls (ec_slot c))"
      "cache_opt_live (release_one () calls (ec_slot c)) = cache_opt_live calls - {ec_slot c}"
    using lp.release_law [OF inv(1) live] by simp_all
  have rm: "cache_opt_inv () (TELEPORT_EXPRESS_QUEUE_ELEMS_FREE (ec_elems c) mems)"
      "cache_opt_live (TELEPORT_EXPRESS_QUEUE_ELEMS_FREE (ec_elems c) mems) = cache_opt_live mems - set ?ks"
    using lp.release_all [OF inv(2) dist] by (simp_all add: TELEPORT_EXPRESS_QUEUE_ELEMS_FREE_def)
  have "image_mset ec_slot C = mset_set (cache_opt_live calls - {ec_slot c})"
    using slots live fin [of calls] by (simp add: mset_set_Diff flip: slots)
  moreover have "\<Sum>\<^sub># (image_mset call_mems C) = mset_set (cache_opt_live mems - set ?ks)"
    using ks dist fin [of mems] by (simp add: mset_set_Diff mset_set_set flip: ks)
  ultimately show ?thesis using rc rm vq by (simp add: owns_def)
qed

text \<open>
  What the parameter loop owes its caller: the slots of the working call, and every
  element it popped in the call, in the rest of the queue, or in its hands.
\<close>

definition para_result_ok :: "express_call multiset \<Rightarrow> unit cache option \<Rightarrow> nat multiset \<Rightarrow>
    queue_elem list \<Rightarrow> para_result \<Rightarrow> bool" where
  "para_result_ok C calls ids es r \<longleftrightarrow>
     (case r of
        Para_done c' es' mems' \<Rightarrow> owns (add_mset c' C) calls mems' \<and> set es' \<subseteq> set es \<and>
          call_ids c' + mset (map qe_index es') = ids + mset (map qe_index es)
      | Para_dry c' n mems' \<Rightarrow> owns (add_mset c' C) calls mems' \<and>
          call_ids c' = ids + mset (map qe_index es)
      | Para_broken c' e es' mems' \<Rightarrow> owns (add_mset c' C) calls mems' \<and> e \<in> set es \<and>
          set es' \<subseteq> set es \<and>
          add_mset (qe_index e) (call_ids c' + mset (map qe_index es')) = ids + mset (map qe_index es))"

lemma pack_paras_owns:
  assumes "owns (add_mset c C) calls mems"
  shows "\<exists>r'. pack_paras m np r c es mems = Some r' \<and> para_result_ok C calls (call_ids c) es r'"
  using assms
proof (induction es arbitrary: r c mems)
  case Nil
  then show ?case by (simp add: pack_paras.simps para_result_ok_def)
next
  case (Cons e es)
  consider "r \<le> 0" | "0 < r" "param_ok e" | "0 < r" "\<not> param_ok e" by linarith
  then show ?case
  proof cases
    case 1
    then show ?thesis using Cons.prems by (simp add: pack_paras_end para_result_ok_def)
  next
    case 2
    obtain k mems' where k: "alloc_opt () mems = Some (k, mems')"
        "owns (add_mset (call_add_elem c (filled np k e)) C) calls mems'"
      using Cons.prems by (rule owns_alloc_mem)
    obtain r' where "pack_paras m np (r - 1) (call_add_elem c (filled np k e)) es mems' = Some r'"
        "para_result_ok C calls (call_ids (call_add_elem c (filled np k e))) es r'"
      using Cons.IH [OF k(2), of "r - 1"] by blast
    then show ?thesis
      unfolding pack_paras_step [OF 2 k(1)]
      by (intro exI [of _ r']) (auto simp: para_result_ok_def split: para_result.splits)
  next
    case 3
    then show ?thesis using Cons.prems by (auto simp: pack_paras_break para_result_ok_def)
  qed
qed

section \<open>Accounting across the operations\<close>

abbreviation total :: "express_call multiset \<Rightarrow> pack_state \<Rightarrow> nat multiset" where
  "total out s \<equiv> all_ids (held s + out) s"

lemma index2 [elim_format]: "(i::nat) < 2 \<Longrightarrow> i = 0 \<or> i = 1"
  by linarith

lemma held_caches [simp]:
  "held (s\<lparr>pk_mems := x\<rparr>) = held s" "held (s\<lparr>pk_calls := y\<rparr>) = held s"
  "all_ids C (s\<lparr>pk_mems := x\<rparr>) = all_ids C s" "all_ids C (s\<lparr>pk_calls := y\<rparr>) = all_ids C s"
  by (simp_all add: held_def all_ids_def)

lemma held_upd_queue:
  "(\<And>q. pq_packaging (f q) = pq_packaging q) \<Longrightarrow> held (upd_queue i f s) = held s"
  by (simp add: held_def upd_queue_def)

lemma held_set_avail [simp]: "held (set_avail i es s) = held s"
  by (simp add: set_avail_def held_upd_queue)

lemma packaging_release_elems [simp]:
  "pq_packaging (pk_queue (release_elems vq es s) i) = pq_packaging (pk_queue s i)"
  by (cases "i = vq") (simp_all add: release_elems_def VIRTIO_ELEM_PUSH_ALL_def Let_def)

lemma packaging_release [simp]:
  "pq_packaging (pk_queue (release_one_call c n s) i) = pq_packaging (pk_queue s i)"
  by (simp add: release_one_call_def Let_def)

lemma held_release_elems [simp]: "held (release_elems vq es s) = held s"
  by (simp add: held_def)

lemma held_release [simp]: "held (release_one_call c n s) = held s"
  by (simp add: held_def)

lemma caches_release_elems [simp]:
  "pk_mems (release_elems vq es s) = TELEPORT_EXPRESS_QUEUE_ELEMS_FREE es (pk_mems s)"
  "pk_calls (release_elems vq es s) = pk_calls s"
  by (simp_all add: release_elems_def VIRTIO_ELEM_PUSH_ALL_def Let_def)

lemma caches_release [simp]:
  "pk_mems (release_one_call c n s) = TELEPORT_EXPRESS_QUEUE_ELEMS_FREE (ec_elems c) (pk_mems s)"
  "pk_calls (release_one_call c n s) = release_one () (pk_calls s) (ec_slot c)"
  by (simp_all add: release_one_call_def Let_def)

lemma all_ids_release_elems:
  "vq < 2 \<Longrightarrow> all_ids C (release_elems vq es s) = mset (map qe_index es) + all_ids C s"
  by (elim index2 disjE)
    (simp_all add: release_elems_def VIRTIO_ELEM_PUSH_ALL_def Let_def all_ids_def queue_ids_def)

lemma all_ids_release:
  "ec_vq c < 2 \<Longrightarrow> all_ids C (release_one_call c n s) = all_ids (add_mset c C) s"
  using all_ids_release_elems [of "ec_vq c" C "ec_elems c" s]
  by (simp add: release_one_call_def Let_def all_ids_def call_ids_def)

lemma all_ids_set_avail:
  "i < 2 \<Longrightarrow> all_ids C (set_avail i es s) + mset (map qe_index (avail i s)) =
     all_ids C s + mset (map qe_index es)"
  by (elim index2 disjE) (simp_all add: set_avail_def all_ids_def queue_ids_def)

lemma pk_inv_release:
  "pk_inv (add_mset c out) s \<Longrightarrow> pk_inv out (release_one_call c n s)"
  using owns_release [of c "held s + out" "pk_calls s" "pk_mems s"]
  by (simp add: pk_inv_def)

lemma pk_inv_set_avail [simp]: "pk_inv out (set_avail i es s) = pk_inv out s"
  by (simp add: pk_inv_def set_avail_def held_upd_queue)

lemma pk_inv_vq: "pk_inv (add_mset c out) s \<Longrightarrow> ec_vq c < 2"
  by (simp add: pk_inv_def owns_def)

lemma all_ids_add: "all_ids (add_mset c C) s = call_ids c + all_ids C s"
  by (simp add: all_ids_def)

lemma set_avail_account:
  assumes "i < 2" "E + call_ids c' + mset (map qe_index es) = call_ids c + mset (map qe_index (avail i s))"
  shows "E + all_ids (add_mset c' X) (set_avail i es s) = all_ids (add_mset c X) s"
proof -
  let ?a = "mset (map qe_index (avail i s))"
  have "E + all_ids (add_mset c' X) (set_avail i es s) + ?a =
      E + call_ids c' + (all_ids X (set_avail i es s) + ?a)"
    by (simp add: all_ids_add ac_simps)
  also have "\<dots> = (E + call_ids c' + mset (map qe_index es)) + all_ids X s"
    using all_ids_set_avail [OF assms(1), of X es s] by (simp add: ac_simps)
  also have "\<dots> = all_ids (add_mset c X) s + ?a"
    unfolding assms(2) by (simp add: all_ids_add ac_simps)
  finally show ?thesis by simp
qed

lemma dry_state:
  fixes c :: express_call and y :: int
  assumes "i < 2" "pq_packaging (pk_queue s i) = None"
  defines "s' \<equiv> upd_queue i (\<lambda>q. q\<lparr>pq_avail := [], pq_packaging := Some c, pq_remain := y\<rparr>) s"
  shows "held s' = add_mset c (held s)" "all_ids C s' = all_ids C (set_avail i [] s)"
  using assms by (auto simp: held_def all_ids_def queue_ids_def set_avail_def elim!: index2)

definition begin_result_ok :: "express_call multiset \<Rightarrow> nat \<Rightarrow> queue_elem \<Rightarrow> pack_state \<Rightarrow> begin_result \<Rightarrow> bool" where
  "begin_result_ok out index e s r \<longleftrightarrow>
     (case r of
        Begin_stop s' \<Rightarrow> pk_inv out s' \<and> (\<forall>j. avail j s' = avail j s) \<and>
          (total out s' = add_mset (qe_index e) (total out s) \<or>
           pq_packaging (pk_queue s index) \<noteq> None \<and> \<not> param_ok e \<and> total out s' = total out s)
      | Begin_call n c s' \<Rightarrow> pk_inv (add_mset c out) s' \<and> (\<forall>j. avail j s' = avail j s) \<and>
          pq_packaging (pk_queue s' index) = None \<and>
          total (add_mset c out) s' = add_mset (qe_index e) (total out s))"

definition header_ok :: "queue_elem \<Rightarrow> bool" where
  "header_ok h \<longleftrightarrow> qe_out h = [] \<and> length (qe_in h) = 1 \<and> sdata (hd (qe_in h)) \<noteq> 0"

lemma header_ok_shape: "header_ok h \<Longrightarrow> elem_shape_ok h"
  by (auto simp: header_ok_def elem_shape_ok_def)

text \<open>A call is started from a header only.\<close>

lemma start_call_header:
  assumes "start_call m np index e s = Some r"
  shows "header_ok e"
proof (cases "elem_shape_ok e")
  case True
  then show ?thesis
    using assms by (auto simp: start_call_def fill_header header_ok_def elem_shape_ok_def
        split: option.splits prod.splits if_splits)
next
  case False
  then show ?thesis using assms by (simp add: start_call_def fill_bad_shape)
qed

lemma start_call_ok:
  assumes "pk_inv out s" "index < 2" "pq_packaging (pk_queue s index) = None" "start_call m np index e s = Some r"
  shows "begin_result_ok out index e s r"
proof -
  note header = start_call_header [OF assms(4)]
  have inv: "cache_opt_inv () (pk_mems s)" "cache_opt_inv () (pk_calls s)"
    using assms(1) by (simp_all add: pk_inv_def owns_def)
  obtain k mems' where k: "alloc_opt () (pk_mems s) = Some (k, mems')" "k \<notin> cache_opt_live (pk_mems s)"
      "cache_opt_live mems' = insert k (cache_opt_live (pk_mems s))" "cache_opt_inv () mems'"
    using inv(1) by (rule lp.alloc_cases)
  obtain j calls' where j: "alloc_opt () (pk_calls s) = Some (j, calls')" "j \<notin> cache_opt_live (pk_calls s)"
      "cache_opt_live calls' = insert j (cache_opt_live (pk_calls s))" "cache_opt_inv () calls'"
    using inv(2) by (rule lp.alloc_cases)
  have "r = Begin_call (fb_para_num (read_flag_buf m (sdata (hd (qe_in e)))))
      \<lparr>ec_slot = j, ec_id = fb_id (read_flag_buf m (sdata (hd (qe_in e)))),
       ec_thread_id = fb_thread_id (read_flag_buf m (sdata (hd (qe_in e)))),
       ec_process_id = fb_process_id (read_flag_buf m (sdata (hd (qe_in e)))),
       ec_unique_id = fb_unique_id (read_flag_buf m (sdata (hd (qe_in e)))), ec_spend_time = 0,
       ec_para_num = fb_para_num (read_flag_buf m (sdata (hd (qe_in e)))), ec_elems = [filled np k e],
       ec_vq = index, ec_is_end = False\<rparr> (s\<lparr>pk_mems := mems', pk_calls := calls'\<rparr>)"
    using assms(4) k(1) j(1) header
    by (simp add: start_call_def fill_header [OF header_ok_shape [OF header]] header_ok_def)
  then show ?thesis
    using assms(1-3) k j cache_opt_live_finite [of "pk_mems s"] cache_opt_live_finite [of "pk_calls s"]
    by (simp add: begin_result_ok_def pk_inv_def owns_def call_mems_def all_ids_add call_ids_def Let_def)
qed

lemma held_resume:
  fixes C :: "express_call multiset"
  assumes "index < 2" "pq_packaging (pk_queue s index) = Some call"
  defines "s1 \<equiv> upd_queue index (\<lambda>q. q\<lparr>pq_packaging := None, pq_remain := 0\<rparr>) s"
  shows "held s = add_mset call (held s1)" "all_ids C s1 = all_ids C s"
  using assms by (auto simp: held_def all_ids_def queue_ids_def elim!: index2)

lemma resume_call_ok:
  assumes "pk_inv out s" "index < 2" "pq_packaging (pk_queue s index) = Some call"
  shows "\<exists>r. resume_call m np index call e s = Some r \<and> begin_result_ok out index e s r"
proof -
  define s1 where "s1 = upd_queue index (\<lambda>q. q\<lparr>pq_packaging := None, pq_remain := 0\<rparr>) s"
  note held = held_resume [OF assms(2,3), folded s1_def]
  have s1 [simp]: "pk_mems s1 = pk_mems s" "pk_calls s1 = pk_calls s"
      "\<And>j. avail j s1 = avail j s" "pq_packaging (pk_queue s1 index) = None"
    by (simp_all add: s1_def avail_upd_queue)
  have inv1: "pk_inv (add_mset call out) s1"
    using assms(1) held(1) by (simp add: pk_inv_def)
  show ?thesis
  proof (cases "param_ok e")
    case True
    obtain k mems' where k: "alloc_opt () (pk_mems s) = Some (k, mems')"
        "owns (add_mset (call_add_elem call (filled np k e)) (held s1 + out)) (pk_calls s) mems'"
      using inv1 by (auto simp: pk_inv_def intro: owns_alloc_mem)
    have "resume_call m np index call e s = Some (Begin_call (c_size (pq_remain (pk_queue s index) - 1))
        (call_add_elem call (filled np k e)) (s1\<lparr>pk_mems := mems'\<rparr>))"
      using True k(1) param_ok_shape [OF True]
      by (simp add: resume_call_def Let_def s1_def [symmetric] param_ok_def fill_param)
    with k(2) show ?thesis
      by (simp add: begin_result_ok_def pk_inv_def all_ids_add held)
  next
    case False
    have "resume_call m np index call e s = Some (Begin_stop (release_one_call call False s1))"
      using False by (auto simp: resume_call_def Let_def s1_def [symmetric] param_ok_def)
    with False show ?thesis
      using pk_inv_release [OF inv1] all_ids_release [OF pk_inv_vq [OF inv1]] assms(3)
      by (simp add: begin_result_ok_def held)
  qed
qed

lemma pack_begin_ok:
  assumes "pk_inv out s" "index < 2" "pack_begin m np index e s = Some r"
  shows "begin_result_ok out index e s r"
proof (cases "pq_packaging (pk_queue s index)")
  case None
  then show ?thesis using start_call_ok [OF assms(1,2)] assms(3) by (simp add: pack_begin_def)
next
  case (Some call)
  then show ?thesis using resume_call_ok [OF assms(1,2) Some, of m np e] assms(3) by (auto simp: pack_begin_def)
qed

definition pack_result_ok :: "express_call multiset \<Rightarrow> nat \<Rightarrow> queue_elem \<Rightarrow> pack_state \<Rightarrow>
    express_call option \<times> pack_state \<Rightarrow> bool" where
  "pack_result_ok out index e s r \<longleftrightarrow>
     (case r of (co, s') \<Rightarrow>
        pk_inv (opt_mset co + out) s' \<and> (\<forall>j. set (avail j s') \<subseteq> set (avail j s)) \<and>
        (total (opt_mset co + out) s' = add_mset (qe_index e) (total out s) \<or>
         pq_packaging (pk_queue s index) \<noteq> None \<and> \<not> param_ok e \<and>
         total (opt_mset co + out) s' = total out s))"

lemma pack_loop_ok:
  assumes "pk_inv out s" "index < 2" "pack_loop m np index e s = Some res"
  shows "pack_result_ok out index e s res"
  using assms
proof (induction m np index e s rule: pack_loop.induct)
  case (1 m np index e s)
  obtain r where r: "pack_begin m np index e s = Some r"
    using 1(4) by (auto simp: pack_loop.simps [of m np index e s] split: option.splits)
  note rok = pack_begin_ok [OF 1(2,3) r]
  show ?case
  proof (cases r)
    case (Begin_stop s1)
    then show ?thesis
      using r rok 1(4) by (auto simp: pack_loop.simps [of m np index e s] begin_result_ok_def pack_result_ok_def)
  next
    case (Begin_call n c s1)
    have b: "pk_inv (add_mset c out) s1" "\<And>j. avail j s1 = avail j s"
        "pq_packaging (pk_queue s1 index) = None"
        "total (add_mset c out) s1 = add_mset (qe_index e) (total out s)"
      using rok Begin_call by (simp_all add: begin_result_ok_def)
    obtain r' where r': "pack_paras m np n c (avail index s1) (pk_mems s1) = Some r'"
        "para_result_ok (held s1 + out) (pk_calls s1) (call_ids c) (avail index s1) r'"
      using pack_paras_owns [of c "held s1 + out" "pk_calls s1" "pk_mems s1" m np n "avail index s1"] b(1)
      by (auto simp: pk_inv_def)
    show ?thesis
    proof (cases r')
      case (Para_done c' es mems)
      let ?s2 = "set_avail index es (s1\<lparr>pk_mems := mems\<rparr>)"
      have "total (add_mset c' out) ?s2 = total (add_mset c out) s1"
        using set_avail_account [of index "{#}" c' es c "s1\<lparr>pk_mems := mems\<rparr>" "held s1 + out"] r'(2)
          Para_done 1(3) by (simp add: para_result_ok_def)
      moreover have "res = (Some c', ?s2)"
        using 1(4) r r'(1) Begin_call Para_done by (simp add: pack_loop.simps [of m np index e s])
      ultimately show ?thesis
        using r'(2) Para_done b
        by (simp add: pack_result_ok_def para_result_ok_def pk_inv_def avail_set_avail) (simp add: set_avail_def)
    next
      case (Para_dry c' n' mems)
      let ?s1 = "s1\<lparr>pk_mems := mems\<rparr>"
      note dry = dry_state [where s = ?s1 and c = c' and y = "c_int n'", OF 1(3)]
      have "all_ids (add_mset c' (held s1 + out)) (set_avail index [] ?s1) = total (add_mset c out) s1"
        using set_avail_account [of index "{#}" c' "[]" c ?s1 "held s1 + out"] r'(2)
          Para_dry 1(3) by (simp add: para_result_ok_def)
      moreover have "res = (None, upd_queue index
          (\<lambda>q. q\<lparr>pq_avail := [], pq_packaging := Some c', pq_remain := c_int n'\<rparr>) ?s1)"
        using 1(4) r r'(1) Begin_call Para_dry by (simp add: pack_loop.simps [of m np index e s])
      ultimately show ?thesis
        using r'(2) Para_dry b dry by (simp add: pack_result_ok_def para_result_ok_def pk_inv_def upd_queue_def)
    next
      case (Para_broken c' e' es mems)
      let ?s2 = "set_avail index es (s1\<lparr>pk_mems := mems\<rparr>)"
      let ?s3 = "release_one_call c' False ?s2"
      have es: "e' \<in> set (avail index s)" "set es \<subseteq> set (avail index s)"
        using r'(2) Para_broken b(2) by (auto simp: para_result_ok_def)
      have inv2: "pk_inv (add_mset c' out) ?s2"
        using r'(2) Para_broken by (simp add: para_result_ok_def pk_inv_def) (simp add: set_avail_def)
      have "add_mset (qe_index e') (total (add_mset c' out) ?s2) = total (add_mset c out) s1"
        using set_avail_account [of index "{#qe_index e'#}" c' es c "s1\<lparr>pk_mems := mems\<rparr>" "held s1 + out"]
          r'(2) Para_broken 1(3) by (simp add: para_result_ok_def)
      then have tot: "add_mset (qe_index e') (total out ?s3) = add_mset (qe_index e) (total out s)"
        using all_ids_release [OF pk_inv_vq [OF inv2]] b(4) by simp
      have av: "avail index ?s3 = es" "\<And>j. j \<noteq> index \<Longrightarrow> avail j ?s3 = avail j s"
          "pq_packaging (pk_queue ?s3 index) = None"
        using b(2,3) by (simp_all add: set_avail_def)
      then have sub: "set (avail j ?s3) \<subseteq> set (avail j s)" for j
        using es(2) by (cases "j = index") simp_all
      have "pack_loop m np index e' ?s3 = Some res"
        using 1(4) r r' Begin_call Para_broken by (simp add: pack_loop.simps [of m np index e s])
      then have "pack_result_ok out index e' ?s3 res"
        using 1(1) [OF r Begin_call r'(1) Para_broken pk_inv_release [OF inv2] 1(3)] by blast
      then show ?thesis
        using av(3) sub tot by (fastforce simp: pack_result_ok_def)
    qed
  qed
qed

section \<open>What a packed call contains\<close>

abbreviation fills :: "addr \<Rightarrow> queue_elem list \<Rightarrow> queue_elem list \<Rightarrow> bool" where
  "fills np \<equiv> list_all2 (\<lambda>e e'. \<exists>k. e' = filled np k e)"

abbreviation header_buf :: "store \<Rightarrow> queue_elem \<Rightarrow> flag_buf" where
  "header_buf m h \<equiv> read_flag_buf m (sdata (hd (qe_in h)))"

definition is_call_of :: "store \<Rightarrow> addr \<Rightarrow> nat \<Rightarrow> queue_elem \<Rightarrow> queue_elem list \<Rightarrow> express_call \<Rightarrow> bool" where
  "is_call_of m np index h ps c \<longleftrightarrow>
     ec_id c = fb_id (header_buf m h) \<and> ec_thread_id c = fb_thread_id (header_buf m h) \<and>
     ec_process_id c = fb_process_id (header_buf m h) \<and> ec_unique_id c = fb_unique_id (header_buf m h) \<and>
     ec_para_num c = fb_para_num (header_buf m h) \<and> ec_vq c = index \<and> ec_spend_time c = 0 \<and>
     fills np (h # ps) (ec_elems c)"

lemma is_call_of_add:
  assumes "is_call_of m np index h ps c" "fills np qs qs'"
  shows "is_call_of m np index h (ps @ qs) (c\<lparr>ec_elems := ec_elems c @ qs'\<rparr>)"
  using assms list_all2_appendI [of _ "h # ps" "ec_elems c" qs qs'] by (simp add: is_call_of_def)

lemma pack_paras_run:
  assumes "cache_opt_inv () mems" "list_all param_ok ps" "int (length ps) \<le> r"
  shows "\<exists>ps' mems'. fills np ps ps' \<and> cache_opt_inv () mems' \<and>
    pack_paras m np r c (ps @ rest) mems =
      pack_paras m np (r - int (length ps)) (c\<lparr>ec_elems := ec_elems c @ ps'\<rparr>) rest mems'"
  using assms
proof (induction ps arbitrary: r c mems)
  case Nil
  then show ?case by (intro exI [of _ "[]"] exI [of _ mems]) simp
next
  case (Cons e ps)
  obtain k mems1 where k: "alloc_opt () mems = Some (k, mems1)" "cache_opt_inv () mems1"
    using Cons.prems(1) by (rule lp.alloc_cases)
  have "pack_paras m np r c ((e # ps) @ rest) mems =
      pack_paras m np (r - 1) (call_add_elem c (filled np k e)) (ps @ rest) mems1"
    using Cons.prems k pack_paras_step [of r e mems k mems1] by simp
  moreover obtain ps' mems' where "fills np ps ps'" "cache_opt_inv () mems'"
      "pack_paras m np (r - 1) (call_add_elem c (filled np k e)) (ps @ rest) mems1 =
        pack_paras m np (r - 1 - int (length ps))
          (call_add_elem c (filled np k e)
             \<lparr>ec_elems := ec_elems (call_add_elem c (filled np k e)) @ ps'\<rparr>) rest mems'"
    using Cons.IH [OF k(2), of "r - 1" "call_add_elem c (filled np k e)"] Cons.prems by auto
  ultimately show ?case
    by (intro exI [of _ "filled np k e # ps'"] exI [of _ mems'])
      (auto simp: call_add_elem_def algebra_simps)
qed

lemma start_call_run:
  assumes "cache_opt_inv () (pk_mems s)" "cache_opt_inv () (pk_calls s)" "header_ok h"
  shows "\<exists>c s'. start_call m np index h s = Some (Begin_call (fb_para_num (header_buf m h)) c s') \<and>
    is_call_of m np index h [] c \<and> cache_opt_inv () (pk_mems s') \<and> pk_queue s' = pk_queue s"
proof -
  obtain k mems' where k: "alloc_opt () (pk_mems s) = Some (k, mems')" "cache_opt_inv () mems'"
    using assms(1) by (rule lp.alloc_cases)
  obtain j calls' where j: "alloc_opt () (pk_calls s) = Some (j, calls')"
    using assms(2) by (rule lp.alloc_cases)
  show ?thesis
    using assms(3) k j
    by (auto simp: start_call_def fill_header [OF header_ok_shape [OF assms(3)]] header_ok_def
        is_call_of_def)
qed

lemma resume_call_run:
  assumes "cache_opt_inv () (pk_mems s)" "pq_packaging (pk_queue s index) = Some c" "param_ok e"
    and "pq_remain (pk_queue s index) = r" "1 \<le> r" "r < 2147483648" "is_call_of m0 np index h qs c"
  shows "\<exists>c' s'. pack_begin m np index e s = Some (Begin_call (r - 1) c' s') \<and>
    is_call_of m0 np index h (qs @ [e]) c' \<and> cache_opt_inv () (pk_mems s') \<and> avail index s' = avail index s"
proof -
  obtain k mems' where k: "alloc_opt () (pk_mems s) = Some (k, mems')" "cache_opt_inv () mems'"
    using assms(1) by (rule lp.alloc_cases)
  have "is_call_of m0 np index h (qs @ [e]) (call_add_elem c (filled np k e))"
    unfolding call_add_elem_def by (rule is_call_of_add [OF assms(7)]) auto
  with assms k show ?thesis
    by (simp add: pack_begin_def resume_call_def Let_def param_ok_def
        fill_param [OF param_ok_shape [OF assms(3)]] avail_upd_queue)
qed

lemma pack_loop_complete:
  assumes "pack_begin m np index e s = Some (Begin_call n c s1)" "cache_opt_inv () (pk_mems s1)"
    and "is_call_of m0 np index h qs c" "list_all param_ok ps" "n = int (length ps)"
    and "avail index s1 = ps @ rest"
  shows "\<exists>c' s'. pack_loop m np index e s = Some (Some c', s') \<and>
    is_call_of m0 np index h (qs @ ps) c' \<and> avail index s' = rest"
proof -
  obtain ps' mems' where "fills np ps ps'"
    "pack_paras m np n c (ps @ rest) (pk_mems s1) =
       pack_paras m np (n - int (length ps)) (c\<lparr>ec_elems := ec_elems c @ ps'\<rparr>) rest mems'"
    using pack_paras_run [OF assms(2,4), of n np m c rest] assms(5) by auto
  with assms show ?thesis
    by (auto simp: pack_loop.simps [of m np index e s] pack_paras_end set_avail_def intro: is_call_of_add)
qed

lemma pack_loop_dry:
  assumes "pack_begin m np index e s = Some (Begin_call n c s1)" "cache_opt_inv () (pk_mems s1)"
    and "is_call_of m0 np index h qs c" "list_all param_ok ps" "n = int (length ps) + r"
    and "0 < r" "r < 2147483648" "avail index s1 = ps"
  shows "\<exists>c' s'. pack_loop m np index e s = Some (None, s') \<and>
    is_call_of m0 np index h (qs @ ps) c' \<and> pk_queue s' index = (pk_queue s1 index)
      \<lparr>pq_avail := [], pq_packaging := Some c', pq_remain := r\<rparr> \<and> cache_opt_inv () (pk_mems s')"
proof -
  obtain ps' mems' where ps': "fills np ps ps'" "cache_opt_inv () mems'"
    "pack_paras m np n c (ps @ []) (pk_mems s1) =
       pack_paras m np (n - int (length ps)) (c\<lparr>ec_elems := ec_elems c @ ps'\<rparr>) [] mems'"
    using pack_paras_run [OF assms(2,4), of n np m c "[]"] assms(5,6) by auto
  then have "pack_paras m np n c (avail index s1) (pk_mems s1) =
      Some (Para_dry (c\<lparr>ec_elems := ec_elems c @ ps'\<rparr>) r mems')"
    using assms by (simp add: pack_paras.simps)
  then have "pack_loop m np index e s = Some (None, upd_queue index
      (\<lambda>q. q\<lparr>pq_avail := [], pq_packaging := Some (c\<lparr>ec_elems := ec_elems c @ ps'\<rparr>), pq_remain := r\<rparr>)
      (s1\<lparr>pk_mems := mems'\<rparr>))"
    using assms(1,6,7) by (simp add: pack_loop.simps [of m np index e s])
  then show ?thesis
    using ps'(2) is_call_of_add [OF assms(3) ps'(1)] by auto
qed

section \<open>Histories\<close>

text \<open>
  What can happen to the two queues: the guest submits an element, the host packs,
  the host releases a call it holds. \<open>out\<close> are the calls handed out and not released,
  \<open>sub\<close> the indices of all elements submitted so far.
\<close>

definition pk_init :: pack_state where
  "pk_init = \<lparr>pk_calls = None, pk_mems = None,
     pk_queue = (\<lambda>_. \<lparr>pq_avail = [], pq_used = [], pq_packaging = None, pq_remain = 0\<rparr>), pk_notified = []\<rparr>"

inductive pk_reach :: "pack_state \<Rightarrow> express_call multiset \<Rightarrow> nat multiset \<Rightarrow> bool" where
  reach_init: "pk_reach pk_init {#} {#}"
| reach_submit: "pk_reach s out sub \<Longrightarrow> i < 2 \<Longrightarrow> elem_shape_ok e \<Longrightarrow>
    pk_reach (set_avail i (avail i s @ [e]) s) out (add_mset (qe_index e) sub)"
| reach_pack: "pk_reach s out sub \<Longrightarrow> i < 2 \<Longrightarrow> pack_call_from_queue m np i s = Some (co, s') \<Longrightarrow>
    pk_reach s' (opt_mset co + out) sub"
| reach_release: "pk_reach s (add_mset c out) sub \<Longrightarrow> pk_reach (release_one_call c notify s) out sub"

lemma pk_init_inv: "pk_inv {#} pk_init"
  by (simp add: pk_inv_def owns_def pk_init_def held_def cache_opt_inv_def cache_opt_live_def)

lemma pack_call_ok:
  assumes "pk_inv out s" "i < 2" "pack_call_from_queue m np i s = Some (co, s')"
  shows "pk_inv (opt_mset co + out) s' \<and> (\<forall>j. set (avail j s') \<subseteq> set (avail j s)) \<and>
    total (opt_mset co + out) s' \<subseteq># total out s"
proof (cases "avail i s")
  case Nil
  with assms show ?thesis by (auto simp: pack_call_from_queue_def)
next
  case (Cons e es)
  let ?s = "set_avail i es s"
  have tot: "add_mset (qe_index e) (total out ?s) = total out s"
    using all_ids_set_avail [OF assms(2), of "held s + out" es s] Cons by simp
  have r: "pack_result_ok out i e ?s (co, s')"
    using pack_loop_ok [of out ?s i m np e "(co, s')"] assms Cons by (simp add: pack_call_from_queue_def)
  have "set (avail j ?s) \<subseteq> set (avail j s)" for j
    using Cons by (auto simp: avail_set_avail)
  then have "\<forall>j. set (avail j s') \<subseteq> set (avail j s)"
    using r by (fastforce simp: pack_result_ok_def)
  moreover have "total (opt_mset co + out) s' \<subseteq># total out s"
    using r by (auto simp: pack_result_ok_def simp flip: tot)
  ultimately show ?thesis using r by (simp add: pack_result_ok_def)
qed

lemma pk_reach_facts: "pk_reach s out sub \<Longrightarrow> pk_inv out s \<and> total out s \<subseteq># sub"
proof (induction rule: pk_reach.induct)
  case reach_init
  show ?case by (simp add: pk_init_inv) (simp add: pk_init_def all_ids_def queue_ids_def held_def)
next
  case (reach_submit s out sub i e)
  then have "total out (set_avail i (avail i s @ [e]) s) = add_mset (qe_index e) (total out s)"
    using all_ids_set_avail [of i "held s + out" "avail i s @ [e]" s] by simp
  with reach_submit show ?case by simp
next
  case (reach_pack s out sub i m np co s')
  have inv: "pk_inv out s" and tot: "total out s \<subseteq># sub" using reach_pack.IH by blast+
  have r: "pk_inv (opt_mset co + out) s'" "total (opt_mset co + out) s' \<subseteq># total out s"
    using pack_call_ok [OF inv reach_pack.hyps(2,3)] by blast+
  show ?case using r(1) subset_mset.order_trans [OF r(2) tot] by blast
next
  case (reach_release s c out sub notify)
  then show ?case
    using pk_inv_release [of c out s notify] all_ids_release [of c "held s + out" notify s] pk_inv_vq [of c out s]
    by simp
qed

section \<open>Well-formed streams\<close>

text \<open>
  The elements of a queue when \<open>r\<close> parameters of a call are still to come: parameters, then
  headers, each followed by as many parameters as its flag buffer announces. The queue may
  end anywhere.
\<close>

fun stream_ok :: "store \<Rightarrow> int \<Rightarrow> queue_elem list \<Rightarrow> bool" where
  "stream_ok m r [] = True"
| "stream_ok m r (e # es) =
     (if r \<le> 0
      then header_ok e \<and> fb_para_num (header_buf m e) < 2147483648 \<and> stream_ok m (fb_para_num (header_buf m e)) es
      else param_ok e \<and> stream_ok m (r - 1) es)"

definition stream_ready :: "store \<Rightarrow> nat \<Rightarrow> pack_state \<Rightarrow> bool" where
  "stream_ready m i s \<longleftrightarrow>
     (case pq_packaging (pk_queue s i) of
        None \<Rightarrow> stream_ok m 0 (avail i s)
      | Some c \<Rightarrow> 1 \<le> pq_remain (pk_queue s i) \<and> pq_remain (pk_queue s i) < 2147483648 \<and>
          stream_ok m (pq_remain (pk_queue s i)) (avail i s))"

lemma stream_ok_start: "r \<le> 0 \<Longrightarrow> stream_ok m r es = stream_ok m 0 es"
  by (cases es) simp_all

lemma pack_paras_stream:
  assumes "cache_opt_inv () mems" "stream_ok m r es"
  shows "(\<exists>c' es' mems'. pack_paras m np r c es mems = Some (Para_done c' es' mems') \<and> stream_ok m 0 es') \<or>
    (\<exists>c' r' mems'. pack_paras m np r c es mems = Some (Para_dry c' r' mems') \<and> 1 \<le> r' \<and> r' \<le> r)"
  using assms
proof (induction es arbitrary: r c mems)
  case Nil
  then show ?case by (simp add: pack_paras.simps)
next
  case (Cons e es)
  show ?case
  proof (cases "r \<le> 0")
    case True
    then show ?thesis using Cons.prems(2) stream_ok_start [OF True, of m "e # es"] by (simp add: pack_paras_end)
  next
    case False
    obtain k mems1 where k: "alloc_opt () mems = Some (k, mems1)" "cache_opt_inv () mems1"
      using Cons.prems(1) by (rule lp.alloc_cases)
    have "pack_paras m np r c (e # es) mems = pack_paras m np (r - 1) (call_add_elem c (filled np k e)) es mems1"
      using pack_paras_step [of r e mems k mems1] k False Cons.prems(2) by simp
    moreover have "stream_ok m (r - 1) es" using False Cons.prems(2) by simp
    ultimately show ?thesis
      using Cons.IH [OF k(2), of "r - 1" "call_add_elem c (filled np k e)"] by fastforce
  qed
qed

lemma pack_begin_stream:
  assumes "pk_inv out s" "stream_ready m i (set_avail i (e # avail i s) s)"
  shows "\<exists>n c s1. pack_begin m np i e s = Some (Begin_call n c s1) \<and> stream_ok m n (avail i s1) \<and> n < 2147483648 \<and>
    cache_opt_inv () (pk_mems s1) \<and> pq_packaging (pk_queue s1 i) = None"
proof -
  have inv: "cache_opt_inv () (pk_mems s)" "cache_opt_inv () (pk_calls s)"
    using assms(1) by (simp_all add: pk_inv_def owns_def)
  show ?thesis
  proof (cases "pq_packaging (pk_queue s i)")
    case None
    then have e: "header_ok e" "fb_para_num (header_buf m e) < 2147483648" "stream_ok m (fb_para_num (header_buf m e)) (avail i s)"
      using assms(2) by (simp_all add: stream_ready_def set_avail_def)
    obtain c s1 where "start_call m np i e s = Some (Begin_call (fb_para_num (header_buf m e)) c s1)"
        "cache_opt_inv () (pk_mems s1)" "pk_queue s1 = pk_queue s"
      using start_call_run [OF inv e(1), of m np i] by blast
    then show ?thesis using None e by (simp add: pack_begin_def)
  next
    case (Some c)
    let ?r = "pq_remain (pk_queue s i)"
    have e: "param_ok e" "1 \<le> ?r" "?r < 2147483648" "stream_ok m (?r - 1) (avail i s)"
      using assms(2) Some by (auto simp: stream_ready_def set_avail_def split: if_splits)
    obtain k mems' where k: "alloc_opt () (pk_mems s) = Some (k, mems')" "cache_opt_inv () mems'"
      using inv(1) by (rule lp.alloc_cases)
    have "pack_begin m np i e s = Some (Begin_call (?r - 1) (call_add_elem c (filled np k e))
        (upd_queue i (\<lambda>q. q\<lparr>pq_packaging := None, pq_remain := 0\<rparr>) s\<lparr>pk_mems := mems'\<rparr>))"
      using Some e k(1) by (simp add: pack_begin_def resume_call_def Let_def param_ok_def
          fill_param [OF param_ok_shape [OF e(1)]])
    then show ?thesis using e k(2) by (simp add: avail_upd_queue)
  qed
qed

lemma pack_stream:
  assumes "pk_inv out s" "stream_ready m i s" "i < 2"
  shows "\<exists>co s'. pack_call_from_queue m np i s = Some (co, s') \<and> stream_ready m i s' \<and> (co = None \<longrightarrow> avail i s' = [])"
proof (cases "avail i s")
  case Nil
  then show ?thesis using assms(2) by (simp add: pack_call_from_queue_def)
next
  case (Cons e es)
  let ?s = "set_avail i es s"
  have "set_avail i (e # avail i ?s) ?s = s"
    using Cons by (simp add: set_avail_def upd_queue_def fun_upd_idem)
  then obtain n c s1 where b: "pack_begin m np i e ?s = Some (Begin_call n c s1)" "stream_ok m n (avail i s1)"
      "n < 2147483648" "cache_opt_inv () (pk_mems s1)" "pq_packaging (pk_queue s1 i) = None"
    using pack_begin_stream [of out ?s m i e np] assms(1,2) by auto
  from pack_paras_stream [OF b(4,2), of np c] show ?thesis
  proof (elim disjE exE conjE)
    fix c' es' mems'
    assume "pack_paras m np n c (avail i s1) (pk_mems s1) = Some (Para_done c' es' mems')" "stream_ok m 0 es'"
    then show ?thesis using b(1,5) Cons
      by (simp add: pack_call_from_queue_def pack_loop.simps [of m np i e] stream_ready_def set_avail_def)
  next
    fix c' r' mems'
    assume "pack_paras m np n c (avail i s1) (pk_mems s1) = Some (Para_dry c' r' mems')" "1 \<le> r'" "r' \<le> n"
    then show ?thesis using b(1,3) Cons
      by (simp add: pack_call_from_queue_def pack_loop.simps [of m np i e] stream_ready_def)
  qed
qed

section \<open>Properties\<close>

lemma pack_complete:
  assumes "pk_inv out s" "pq_packaging (pk_queue s index) = None" "header_ok h" "list_all param_ok ps"
    and "fb_para_num (header_buf m h) = int (length ps)" "avail index s = h # ps @ rest"
  shows "\<exists>c s'. pack_call_from_queue m np index s = Some (Some c, s') \<and>
    is_call_of m np index h ps c \<and> avail index s' = rest"
proof -
  let ?s = "set_avail index (ps @ rest) s"
  obtain c s1 where "start_call m np index h ?s = Some (Begin_call (int (length ps)) c s1)"
      "is_call_of m np index h [] c" "cache_opt_inv () (pk_mems s1)" "pk_queue s1 = pk_queue ?s"
    using start_call_run [of ?s h m np index] assms(1,3,5) by (auto simp: pk_inv_def owns_def set_avail_def)
  moreover from this have "pack_begin m np index h ?s = Some (Begin_call (int (length ps)) c s1)"
    using assms(2) by (simp add: pack_begin_def set_avail_def)
  ultimately show ?thesis
    using pack_loop_complete [of m np index h ?s "int (length ps)" c s1 m h "[]" ps rest] assms(4,6)
    by (simp add: pack_call_from_queue_def avail_set_avail)
qed

text \<open>
  C3. When a complete call is available (a header element whose flag buffer announces
  \<open>n\<close> parameters, then \<open>n\<close> guest-readable elements), packing returns one call with the ids
  of the flag buffer and exactly these elements in order, and leaves the rest of the queue.
\<close>

theorem pack_complete_call:
  assumes "pk_inv out s" "pq_packaging (pk_queue s index) = None" "header_ok h" "list_all param_ok ps"
    and "fb_para_num (header_buf m h) = int (length ps)" "avail index s = h # ps @ rest"
  shows "\<exists>c s'. pack_call_from_queue m np index s = Some (Some c, s') \<and>
    is_call_of m np index h ps c \<and> avail index s' = rest"
  by (rule pack_complete [OF assms])

definition pack_demo_store :: store where
  "pack_demo_store = mem_write (\<lambda>_. 0) 1000
     (concat (map (le_bytes 8) [0, 0, 0, 4294967303, 2, 11, 12, 13]))"

definition pack_demo_header :: queue_elem where
  "pack_demo_header = \<lparr>qe_index = 0, qe_out = [], qe_in = [\<lparr>sdata = 1000, slen = 64\<rparr>], qe_para = None, qe_len = 0\<rparr>"

definition pack_demo_para :: "nat \<Rightarrow> queue_elem" where
  "pack_demo_para i = \<lparr>qe_index = i, qe_out = [\<lparr>sdata = 2000 + 10 * int i, slen = 10\<rparr>], qe_in = [],
     qe_para = None, qe_len = 0\<rparr>"

lemma pack_demo_facts:
  "header_ok pack_demo_header" "param_ok (pack_demo_para i)"
  "header_buf pack_demo_store pack_demo_header = \<lparr>fb_id = 4294967303, fb_para_num = 2, fb_thread_id = 11,
     fb_process_id = 12, fb_unique_id = 13\<rparr>"
proof -
  have "mem_read pack_demo_store 1000 64 = concat (map (le_bytes 8) [0, 0, 0, 4294967303, 2, 11, 12, 13])"
    unfolding pack_demo_store_def by (rule mem_read_write_same) simp
  then show "header_buf pack_demo_store pack_demo_header = \<lparr>fb_id = 4294967303, fb_para_num = 2,
      fb_thread_id = 11, fb_process_id = 12, fb_unique_id = 13\<rparr>"
    by (simp add: read_flag_buf_def pack_demo_header_def u64_at_def Let_def le_int_le_bytes)
qed (simp_all add: header_ok_def pack_demo_header_def param_ok_def pack_demo_para_def)

lemma pack_demo_init:
  "pk_inv {#} (set_avail 0 es pk_init)" "pq_packaging (pk_queue (set_avail 0 es pk_init) 0) = None"
  using pk_init_inv by (simp_all, simp add: set_avail_def pk_init_def)

definition pack_demo_state :: pack_state where
  "pack_demo_state =
     set_avail 0 [pack_demo_header, pack_demo_para 1, pack_demo_para 2, pack_demo_para 3] pk_init"

lemma is_call_of_length: "is_call_of m np index h ps c \<Longrightarrow> length (ec_elems c) = Suc (length ps)"
  by (auto simp: is_call_of_def dest: list_all2_lengthD)

theorem pack_complete_call_witness:
  "\<exists>c s'. pack_call_from_queue pack_demo_store 0 0 pack_demo_state = Some (Some c, s') \<and>
     ec_id c = 4294967303 \<and> length (ec_elems c) = 3 \<and> avail 0 s' = [pack_demo_para 3]"
proof -
  let ?ps = "[pack_demo_para 1, pack_demo_para 2]"
  have "avail 0 pack_demo_state = pack_demo_header # ?ps @ [pack_demo_para 3]"
    by (simp add: pack_demo_state_def avail_set_avail)
  then obtain c s' where c: "pack_call_from_queue pack_demo_store 0 0 pack_demo_state = Some (Some c, s')"
      "is_call_of pack_demo_store 0 0 pack_demo_header ?ps c" "avail 0 s' = [pack_demo_para 3]"
    using pack_complete_call [of "{#}" pack_demo_state 0 pack_demo_header ?ps pack_demo_store]
      pack_demo_init pack_demo_facts by (fastforce simp: pack_demo_state_def)
  moreover have "ec_id c = 4294967303" "length (ec_elems c) = 3"
    using c(2) is_call_of_length [OF c(2)] by (simp_all add: is_call_of_def pack_demo_facts)
  ultimately show ?thesis by blast
qed

text \<open>
  C4. Packing does not depend on how the elements of a call arrive. If the queue runs dry
  after the header and some parameters, \<^verbatim>\<open>NULL\<close> is returned and the call is remembered;
  when the missing parameters have arrived the next packing returns the same call it would
  have returned at once.
\<close>

theorem pack_resumes:
  assumes "pk_inv out s" "pq_packaging (pk_queue s index) = None" "header_ok h"
    and "list_all param_ok (a @ b)" "b \<noteq> []" "int (length (a @ b)) < 2147483648"
    and "fb_para_num (header_buf m h) = int (length (a @ b))"
  shows "\<exists>s1 c s2. pack_call_from_queue m np index (set_avail index (h # a) s) = Some (None, s1) \<and>
    avail index s1 = [] \<and>
    pack_call_from_queue m' np index (set_avail index (b @ rest) s1) = Some (Some c, s2) \<and>
    is_call_of m np index h (a @ b) c \<and> avail index s2 = rest"
proof -
  let ?s = "set_avail index a s" and ?n = "int (length a) + int (length b)"
  obtain c0 s0 where c0: "start_call m np index h ?s = Some (Begin_call ?n c0 s0)"
      "is_call_of m np index h [] c0" "cache_opt_inv () (pk_mems s0)" "pk_queue s0 = pk_queue ?s"
    using start_call_run [of ?s h m np index] assms(1,3,7) by (auto simp: pk_inv_def owns_def set_avail_def)
  then have "pack_begin m np index h ?s = Some (Begin_call ?n c0 s0)"
    using assms(2) by (simp add: pack_begin_def set_avail_def)
  then obtain c1 s1 where s1: "pack_loop m np index h ?s = Some (None, s1)"
      "is_call_of m np index h a c1" "cache_opt_inv () (pk_mems s1)"
      "pk_queue s1 index = (pk_queue s0 index)
         \<lparr>pq_avail := [], pq_packaging := Some c1, pq_remain := int (length b)\<rparr>"
    using pack_loop_dry [of m np index h ?s ?n c0 s0 m h "[]" a "int (length b)"] c0 assms(4,5,6)
    by (auto simp: avail_set_avail)
  obtain e b' where b: "b = e # b'" using assms(5) by (cases b) auto
  let ?t = "set_avail index (b' @ rest) s1"
  obtain c2 t1 where c2: "pack_begin m' np index e ?t = Some (Begin_call (int (length b')) c2 t1)"
      "is_call_of m np index h (a @ [e]) c2" "cache_opt_inv () (pk_mems t1)" "avail index t1 = b' @ rest"
    using resume_call_run [of ?t index c1 e "int (length b)" m np h a m'] s1 b assms(4,6)
    by (auto simp: set_avail_def)
  obtain c s2 where "pack_loop m' np index e ?t = Some (Some c, s2)"
      "is_call_of m np index h ((a @ [e]) @ b') c" "avail index s2 = rest"
    using pack_loop_complete [OF c2(1,3,2), of b' rest] c2(4) assms(4) b by auto
  then show ?thesis
    using s1 b by (auto simp: pack_call_from_queue_def avail_set_avail)
      (auto simp: set_avail_def upd_queue_def)
qed

theorem pack_resumes_witness:
  "\<exists>s1 c s2. pack_call_from_queue pack_demo_store 0 0
       (set_avail 0 [pack_demo_header, pack_demo_para 1] pk_init) = Some (None, s1) \<and>
     pack_call_from_queue (\<lambda>_. 0) 0 0 (set_avail 0 [pack_demo_para 2] s1) = Some (Some c, s2) \<and>
     is_call_of pack_demo_store 0 0 pack_demo_header [pack_demo_para 1, pack_demo_para 2] c"
proof -
  have "pq_packaging (pk_queue pk_init 0) = None" by (simp add: pk_init_def)
  from pack_resumes [OF pk_init_inv this pack_demo_facts(1), of "[pack_demo_para 1]" "[pack_demo_para 2]"
      pack_demo_store 0 "\<lambda>_. 0" "[]"]
  show ?thesis by (simp add: pack_demo_facts) blast
qed

text \<open>
  C5. In every history of submissions, packings and releases the two caches stay
  consistent, their live slots are exactly those of the calls in flight and of their
  elements, each once, and no element is in two places or delivered twice: what is
  queued, used, or held by calls is a sub-multiset of what the guest submitted.
\<close>

theorem pack_history_safe:
  assumes "pk_reach s out sub"
  shows "pk_inv out s \<and> all_ids (held s + out) s \<subseteq># sub"
  using pk_reach_facts [OF assms] by blast

lemma pack_demo_reach:
  "pk_reach (set_avail 1 [pack_demo_para 9] pk_init) {#} {#9#}"
  using reach_submit [OF reach_init, of 1 "pack_demo_para 9"] param_ok_shape [OF pack_demo_facts(2)]
  by (simp add: pk_init_def) (simp add: pack_demo_para_def)

theorem pack_history_safe_witness:
  "pk_inv {#} (set_avail 1 [pack_demo_para 9] pk_init) \<and>
   all_ids (held (set_avail 1 [pack_demo_para 9] pk_init) + {#}) (set_avail 1 [pack_demo_para 9] pk_init) \<subseteq># {#9#}"
  by (rule pack_history_safe [OF pack_demo_reach])

text \<open>
  C6. On a queue that holds a well-formed stream packing always returns: the loops end and
  no freed or uninitialised object is used. It returns no call only when the queue has run
  empty, and what it leaves is again a well-formed stream with consistent caches, also
  when a call is suspended, so that packing can go on. A stream is a sequence of headers,
  each followed by the parameters that its flag buffer announces, cut off anywhere.
\<close>

theorem pack_returns:
  assumes "pk_inv out s" "stream_ready m i s" "i < 2"
  shows "\<exists>co s'. pack_call_from_queue m np i s = Some (co, s') \<and> pk_inv (opt_mset co + out) s' \<and>
    stream_ready m i s' \<and> (co = None \<longrightarrow> avail i s' = [])"
  using pack_stream [OF assms] pack_call_ok [OF assms(1,3)] by blast

theorem pack_returns_witness:
  "\<exists>co s'. pack_call_from_queue pack_demo_store 0 0
       (set_avail 0 [pack_demo_header, pack_demo_para 1, pack_demo_para 2, pack_demo_header, pack_demo_para 3] pk_init) = Some (co, s') \<and>
     pk_inv (opt_mset co + {#}) s' \<and> stream_ready pack_demo_store 0 s'"
proof -
  let ?s = "set_avail 0 [pack_demo_header, pack_demo_para 1, pack_demo_para 2, pack_demo_header, pack_demo_para 3] pk_init"
  have "stream_ready pack_demo_store 0 ?s"
    using pack_demo_facts pack_demo_init(2) by (simp add: stream_ready_def avail_set_avail)
  then show ?thesis using pack_returns [OF pack_demo_init(1), of pack_demo_store 0 _ 0] by force
qed

text \<open>
  A first element that is no header makes the code use freed or uninitialised memory.
\<close>

lemma stray_element_undefined:
  assumes "pq_packaging (pk_queue s i) = None" "avail i s = e # es" "\<not> header_ok e"
  shows "pack_call_from_queue m np i s = None"
proof -
  have "start_call m np i e (set_avail i es s) = None"
    using start_call_header [of m np i e "set_avail i es s"] assms(3) by (cases "start_call m np i e (set_avail i es s)") auto
  then have "pack_begin m np i e (set_avail i es s) = None" using assms(1) by (simp add: pack_begin_def set_avail_def)
  then show ?thesis using assms(2) by (simp add: pack_call_from_queue_def pack_loop.simps [of m np i e])
qed

text \<open>
  The exception to conservation: when a suspended call meets an element that cannot
  be a parameter, the call is released but the element is neither pushed back nor tried as
  the first element of a new call; its index disappears from the accounting.
\<close>

theorem resume_loses_element:
  assumes "pk_inv out s" "i < 2" "pq_packaging (pk_queue s i) = Some call" "avail i s = e # es" "\<not> param_ok e"
  shows "\<exists>s'. pack_call_from_queue m np i s = Some (None, s') \<and> avail i s' = es \<and>
    add_mset (qe_index e) (all_ids (held s' + out) s') = all_ids (held s + out) s"
proof -
  let ?s = "set_avail i es s"
  define s1 where "s1 = upd_queue i (\<lambda>q. q\<lparr>pq_packaging := None, pq_remain := 0\<rparr>) ?s"
  have pk: "pq_packaging (pk_queue ?s i) = Some call" using assms(3) by (simp add: set_avail_def)
  note held = held_resume [OF assms(2) pk, folded s1_def]
  have "pk_calls s1 = pk_calls s" "pk_mems s1 = pk_mems s" by (simp_all add: s1_def set_avail_def)
  then have "pk_inv (add_mset call out) s1"
    using assms(1) held(1) by (simp add: pk_inv_def)
  note vq = pk_inv_vq [OF this]
  have "pack_begin m np i e ?s = Some (Begin_stop (release_one_call call False s1))"
    using assms(5) pk by (auto simp: pack_begin_def resume_call_def Let_def s1_def param_ok_def)
  moreover have "add_mset (qe_index e) (all_ids (held s + out) ?s) = all_ids (held s + out) s"
    using all_ids_set_avail [OF assms(2), of "held s + out" es s] assms(4) by simp
  ultimately show ?thesis
    using assms(4) held all_ids_release [OF vq]
    by (simp add: pack_call_from_queue_def pack_loop.simps [of m np i e])
      (simp add: s1_def set_avail_def)
qed

definition one_slot :: "unit cache" where
  "one_slot = \<lparr>c_data = [()], c_index = [0], c_flag = [True], c_need_release_flag = None,
     c_alloc_loc = 0, c_remain_num = 0, c_num = 1\<rparr>"

definition suspended_call :: express_call where
  "suspended_call = \<lparr>ec_slot = 0, ec_id = 7, ec_thread_id = 0, ec_process_id = 0, ec_unique_id = 0,
     ec_spend_time = 0, ec_para_num = 1, ec_elems = [filled 0 0 pack_demo_header], ec_vq = 0, ec_is_end = False\<rparr>"

definition suspended_state :: pack_state where
  "suspended_state = \<lparr>pk_calls = Some one_slot, pk_mems = Some one_slot,
     pk_queue = (\<lambda>i. if i = 0 then \<lparr>pq_avail = [pack_demo_header\<lparr>qe_index := 5\<rparr>], pq_used = [],
         pq_packaging = Some suspended_call, pq_remain = 1\<rparr>
       else \<lparr>pq_avail = [], pq_used = [], pq_packaging = None, pq_remain = 0\<rparr>), pk_notified = []\<rparr>"

lemma suspended_state_inv: "pk_inv {#} suspended_state"
proof -
  have "cache_live one_slot = {0}" by (auto simp: cache_live_def one_slot_def)
  moreover have "cache_inv () one_slot" by (simp add: cache_inv_def one_slot_def)
  ultimately show ?thesis
    by (simp add: pk_inv_def owns_def held_def suspended_state_def suspended_call_def cache_opt_inv_def
        cache_opt_live_def call_mems_def)
qed

theorem resume_loses_element_witness:
  "\<exists>s'. pack_call_from_queue (\<lambda>_. 0) 0 0 suspended_state = Some (None, s') \<and> avail 0 s' = [] \<and>
     add_mset 5 (all_ids (held s') s') = all_ids (held suspended_state) suspended_state"
  using resume_loses_element [OF suspended_state_inv, of 0 suspended_call "pack_demo_header\<lparr>qe_index := 5\<rparr>" "[]"
      "\<lambda>_. 0" 0]
  by (simp add: suspended_state_def param_ok_def pack_demo_header_def)

section \<open>Parameters and the completion flag\<close>

definition para_of :: "addr \<Rightarrow> queue_elem \<Rightarrow> call_para" where
  "para_of np e = \<lparr>cp_data = elem_mem np e, cp_len = c_size (gm_all_len (elem_mem np e))\<rparr>"

lemma get_para_loop_fills:
  "fills np ps ps' \<Longrightarrow> get_para_loop (int (length ps)) ps' = Some (True, map (para_of np) ps)"
  by (induction rule: list_all2_induct) (auto simp: para_of_def filled_def)

text \<open>
  A handler that asks a packed call for its parameters gets all of them in order, as
  the guest memory the elements describe, when its array is large enough, and 0 otherwise.
\<close>

theorem get_para_from_packed_call:
  assumes "is_call_of m np index h ps c" "fb_para_num (header_buf m h) = int (length ps)"
    and "int (length ps) < 2147483648"
  shows "get_para_from_call now c max_num =
    (if max_num < int (length ps) then Some (0, [], c)
     else Some (int (length ps), map (para_of np) ps, c\<lparr>ec_spend_time := now\<rparr>))"
proof -
  obtain h' ps' where "ec_elems c = h' # ps'" "fills np ps ps'"
    using assms(1) by (auto simp: is_call_of_def list_all2_Cons1)
  then show ?thesis
    using assms get_para_loop_fills [of np ps ps'] by (simp add: get_para_from_call_def is_call_of_def)
qed

definition demo_call :: express_call where
  "demo_call = suspended_call\<lparr>ec_id := 4294967303, ec_thread_id := 11, ec_process_id := 12,
     ec_unique_id := 13, ec_para_num := 2,
     ec_elems := [filled 0 0 pack_demo_header, filled 0 1 (pack_demo_para 1), filled 0 2 (pack_demo_para 2)]\<rparr>"

lemma demo_call_of:
  "is_call_of pack_demo_store 0 0 pack_demo_header [pack_demo_para 1, pack_demo_para 2] demo_call"
  by (auto simp: is_call_of_def pack_demo_facts demo_call_def suspended_call_def)

theorem get_para_from_packed_call_witness:
  "\<exists>c. get_para_from_call 50 demo_call 10 =
     Some (2, [para_of 0 (pack_demo_para 1), para_of 0 (pack_demo_para 2)], c)"
  using get_para_from_packed_call [OF demo_call_of, of 50 10] by (simp add: pack_demo_facts)

text \<open>
  Completing a call writes 1 to the \<^verbatim>\<open>flag\<close> word and the time spent to the
  \<^verbatim>\<open>mem_spend_time\<close> word of the guest's flag buffer and leaves the other bytes of the
  buffer alone, so the guest never sees the interrupt value 2 afterwards.
\<close>

theorem common_call_callback_flags:
  assumes "call_header_mem c = Some g" "gm_wf g" "16 \<le> gm_all_len g"
  shows "\<exists>m' c'. common_call_callback now m c = Some (m', c') \<and>
    ec_spend_time c' = (if ec_spend_time c = 0 then 0 else now - ec_spend_time c) \<and>
    gm_bytes m' g = le_bytes 8 1 @ le_bytes 8 (ec_spend_time c') @ drop 16 (gm_bytes m g) \<and>
    call_is_interrupt m' c' = Some False"
proof -
  define c' where "c' = (if ec_spend_time c \<noteq> 0 then c\<lparr>ec_spend_time := now - ec_spend_time c\<rparr> else c)"
  have hd: "call_header_mem c' = Some g"
    using assms(1) by (simp add: c'_def call_header_mem_def)
  note len = length_gm_bytes [OF assms(2)]
  obtain m1 where m1: "guest_write m g (le_bytes 8 1) 0 8 = Some m1"
      "gm_bytes m1 g = le_bytes 8 1 @ drop 8 (gm_bytes m g)"
    using gc.wr_view [OF assms(2), of 0 8 m "le_bytes 8 1"] len [of m] assms(3) by auto
  obtain m2 where m2: "guest_write m1 g (le_bytes 8 (ec_spend_time c')) 8 8 = Some m2"
      "gm_bytes m2 g = take 8 (gm_bytes m1 g) @ le_bytes 8 (ec_spend_time c') @ drop 16 (gm_bytes m1 g)"
    using gc.wr_view [OF assms(2), of 8 8 m1 "le_bytes 8 (ec_spend_time c')"] len [of m1] assms(3) by auto
  have cb: "common_call_callback now m c = Some (m2, c')"
    using m1(1) m2(1) hd
    by (simp add: common_call_callback_def Let_def c'_def [symmetric] guest_write_def FLAG_OFF_def
        MEM_SPEND_TIME_OFF_def)
  have bytes: "gm_bytes m2 g = le_bytes 8 1 @ le_bytes 8 (ec_spend_time c') @ drop 16 (gm_bytes m g)"
    using m2(2) m1(2) by simp
  have "guest_read m2 g (le_bytes 8 0) 0 8 = Some (le_bytes 8 1)"
    using gc.rd_view [OF assms(2), of 0 8 m2 "le_bytes 8 0"] len [of m2] assms(3) bytes by simp
  then have "call_is_interrupt m2 c' = Some False"
    using hd by (auto simp: call_is_interrupt_def guest_read_def FLAG_OFF_def le_int_le_bytes
        split: option.splits)
  moreover have "ec_spend_time c' = (if ec_spend_time c = 0 then 0 else now - ec_spend_time c)"
    by (simp add: c'_def)
  ultimately show ?thesis using cb bytes by blast
qed

lemma demo_header_mem:
  "call_header_mem demo_call = Some \<lparr>gm_scatter = [\<lparr>sdata = 1000, slen = 64\<rparr>], gm_all_len = 64\<rparr>"
  "gm_wf \<lparr>gm_scatter = [\<lparr>sdata = 1000, slen = 64\<rparr>], gm_all_len = 64\<rparr>"
  by (simp_all add: call_header_mem_def demo_call_def elem_mem_def elem_segs_def pack_demo_header_def
      fill_seg_def fill_buf_len_def gm_wf_def)

theorem common_call_callback_flags_witness:
  "\<exists>m' c'. common_call_callback 70 pack_demo_store demo_call = Some (m', c') \<and>
     call_is_interrupt m' c' = Some False"
proof -
  obtain m' c' where "common_call_callback 70 pack_demo_store demo_call = Some (m', c')"
      "call_is_interrupt m' c' = Some False"
    using common_call_callback_flags [OF demo_header_mem, of 70 pack_demo_store] by auto
  then show ?thesis by blast
qed

section \<open>The id layout\<close>

lemma bit_below:
  fixes x :: int
  assumes "0 \<le> x" "x < 2 ^ k" "bit x n"
  shows "n < k"
proof -
  have "take_bit k x = x" using assms(1,2) by (rule take_bit_int_eq_self)
  then show ?thesis using assms(3) by (metis bit_take_bit_iff)
qed

lemma bit_DEVICE_FUN_ID:
  assumes "0 \<le> d" "d < 2 ^ 32"
  shows "bit (DEVICE_FUN_ID d x) n \<longleftrightarrow> 32 \<le> n \<and> bit d (n - 32) \<or> bit x n"
  using bit_below [OF assms, of "n - 32"] assms
  by (auto simp: DEVICE_FUN_ID_def bit_or_iff bit_take_bit_iff bit_push_bit_iff)

lemma fun_id_mask: "(0xffffff :: int) = mask 24"
  by (simp add: mask_eq_exp_minus_1)

lemmas id_bits = GET_DEVICE_ID_def GET_FUN_ID_def fun_id_mask bit_take_bit_iff bit_drop_bit_eq bit_and_iff
  bit_mask_iff bit_or_iff bit_push_bit_iff bit_1_iff

lemma DEVICE_FUN_ID_decode:
  assumes "0 \<le> d" "d < 2 ^ 32" "\<And>n. bit x n \<Longrightarrow> n < 32"
  shows "GET_DEVICE_ID (DEVICE_FUN_ID d x) = d" "GET_FUN_ID (DEVICE_FUN_ID d x) = take_bit 24 x"
    "FUN_NEED_SYNC (DEVICE_FUN_ID d x) = of_bool (bit x 24)"
    "FUN_HAS_HOST_SYNC (DEVICE_FUN_ID d x) = 2 * of_bool (bit x 25)"
proof -
  note D = bit_DEVICE_FUN_ID [OF assms(1,2)]
  show "GET_DEVICE_ID (DEVICE_FUN_ID d x) = d"
    using bit_below [OF assms(1,2)] assms(3) by (intro bit_eqI) (fastforce simp: id_bits D)
  show "GET_FUN_ID (DEVICE_FUN_ID d x) = take_bit 24 x"
    by (intro bit_eqI) (auto simp: id_bits D)
  show "FUN_NEED_SYNC (DEVICE_FUN_ID d x) = of_bool (bit x 24)"
    by (simp add: FUN_NEED_SYNC_def and_one_eq mod_2_eq_odd even_drop_bit_iff_not_bit D)
  show "FUN_HAS_HOST_SYNC (DEVICE_FUN_ID d x) = 2 * of_bool (bit x 25)"
    by (intro bit_eqI) (auto simp: FUN_HAS_HOST_SYNC_def bit_and_iff bit_2_iff bit_drop_bit_eq D)
qed

lemma bit_SYNC_FUN_ID:
  assumes "0 \<le> f" "f < 2 ^ 24"
  shows "bit (SYNC_FUN_ID f) n \<longleftrightarrow> n = 24 \<or> bit f n" "bit (HOST_SYNC_FUN_ID f) n \<longleftrightarrow> n = 25 \<or> bit f n"
  using bit_below [OF assms, of n]
  unfolding SYNC_FUN_ID_def HOST_SYNC_FUN_ID_def bit_or_iff bit_push_bit_iff bit_1_iff bit_take_bit_iff
  by auto

text \<open>
  The 64-bit call id keeps device id, sync bits and function id apart: decoding what
  \<^verbatim>\<open>DEVICE_FUN_ID\<close> built from a 32-bit device id and a 24-bit function id, with or without
  the sync marks, returns the same device id, function id and marks.
\<close>

theorem device_fun_id_roundtrip:
  assumes "0 \<le> d" "d < 2 ^ 32" "0 \<le> f" "f < 2 ^ 24"
  shows "GET_DEVICE_ID (DEVICE_FUN_ID d f) = d \<and> GET_FUN_ID (DEVICE_FUN_ID d f) = f \<and>
    FUN_NEED_SYNC (DEVICE_FUN_ID d f) = 0 \<and> FUN_HAS_HOST_SYNC (DEVICE_FUN_ID d f) = 0 \<and>
    GET_DEVICE_ID (DEVICE_FUN_ID d (SYNC_FUN_ID f)) = d \<and> GET_FUN_ID (DEVICE_FUN_ID d (SYNC_FUN_ID f)) = f \<and>
    FUN_NEED_SYNC (DEVICE_FUN_ID d (SYNC_FUN_ID f)) = 1 \<and>
    GET_FUN_ID (DEVICE_FUN_ID d (HOST_SYNC_FUN_ID f)) = f \<and>
    FUN_HAS_HOST_SYNC (DEVICE_FUN_ID d (HOST_SYNC_FUN_ID f)) = 2"
proof -
  note below = bit_below [OF assms(3,4)] and sb = bit_SYNC_FUN_ID [OF assms(3,4)]
  have lim: "bit f n \<Longrightarrow> n < 32" "bit (SYNC_FUN_ID f) n \<Longrightarrow> n < 32"
      "bit (HOST_SYNC_FUN_ID f) n \<Longrightarrow> n < 32" for n
    using below [of n] sb by auto
  have f: "take_bit 24 f = f" "\<not> bit f 24" "\<not> bit f 25"
    using assms(3,4) below [of 24] below [of 25] by (auto simp: take_bit_int_eq_self)
  have "take_bit 24 (SYNC_FUN_ID f) = f" "take_bit 24 (HOST_SYNC_FUN_ID f) = f"
    using below by (auto intro!: bit_eqI simp: bit_take_bit_iff sb)
  then show ?thesis
    using DEVICE_FUN_ID_decode [where x = f, OF assms(1,2) lim(1)] f sb
      DEVICE_FUN_ID_decode [where x = "SYNC_FUN_ID f", OF assms(1,2) lim(2)]
      DEVICE_FUN_ID_decode [where x = "HOST_SYNC_FUN_ID f", OF assms(1,2) lim(3)] by simp
qed

theorem device_fun_id_roundtrip_witness:
  "GET_DEVICE_ID (DEVICE_FUN_ID 60 (SYNC_FUN_ID 1000001)) = 60 \<and>
   GET_FUN_ID (DEVICE_FUN_ID 60 (SYNC_FUN_ID 1000001)) = 1000001"
  using device_fun_id_roundtrip [of 60 1000001] by simp

end
