(* ===== verification/Handle_Thread.thy ===== *)
theory Handle_Thread
  imports Call_Packing
begin

text \<open>
  The hand-over of calls to a device thread, after
  \<^verbatim>\<open>hw/teleport-express/express_handle_thread.c\<close>: the ring \<^verbatim>\<open>call_buf\<close> with \<^verbatim>\<open>call_push\<close>
  and \<^verbatim>\<open>call_pop\<close>, and the thread body \<^verbatim>\<open>handle_thread_run\<close>. The operations are given once
  as atomic functions and once as the interleaving of the single memory accesses of one
  pushing and one popping thread. The locale \<open>bounded_fifo\<close> is the contract of a bounded
  queue. The ring is polymorphic in what it stores.
\<close>

section \<open>The ring\<close>

definition CALL_BUF_SIZE :: nat where
  "CALL_BUF_SIZE = 512"

record 'c call_ring =
  cr_buf :: "'c option list"
  cr_read :: nat
  cr_write :: nat

definition ring_init :: "'c call_ring" where
  "ring_init = \<lparr>cr_buf = replicate (CALL_BUF_SIZE + 2) None, cr_read = 0, cr_write = 0\<rparr>"

text \<open>
  \<open>None\<close>: the loop waits for \<^verbatim>\<open>data_event\<close>. \<open>Some (None, r)\<close>: a null entry was met and
  \<^verbatim>\<open>NULL\<close> is returned.
\<close>

definition call_pop :: "'c call_ring \<Rightarrow> ('c option \<times> 'c call_ring) option" where
  "call_pop r =
     (if cr_write r = cr_read r then None
      else
        (case cr_buf r ! cr_read r of
           None \<Rightarrow> Some (None, r)
         | Some c \<Rightarrow>
             Some (Some c, r\<lparr>cr_buf := (cr_buf r)[cr_read r := None],
                             cr_read := (cr_read r + 1) mod CALL_BUF_SIZE\<rparr>)))"

definition call_push :: "'c call_ring \<Rightarrow> 'c \<Rightarrow> 'c call_ring option" where
  "call_push r c =
     (if (cr_write r + 1) mod CALL_BUF_SIZE = cr_read r then None
      else Some (r\<lparr>cr_buf := (cr_buf r)[cr_write r := Some c],
                   cr_write := (cr_write r + 1) mod CALL_BUF_SIZE\<rparr>))"

section \<open>The contract of a bounded queue\<close>

locale bounded_fifo =
  fixes push :: "'q \<Rightarrow> 'c \<Rightarrow> 'q option"
    and pop :: "'q \<Rightarrow> ('c \<times> 'q) option"
    and contents :: "'q \<Rightarrow> 'c list \<Rightarrow> bool"
    and cap :: nat
  assumes push_law: "contents q xs \<Longrightarrow> length xs < cap \<Longrightarrow> \<exists>q'. push q x = Some q' \<and> contents q' (xs @ [x])"
    and pop_law: "contents q (x # xs) \<Longrightarrow> \<exists>q'. pop q = Some (x, q') \<and> contents q' xs"
    and pop_empty: "contents q [] \<Longrightarrow> pop q = None"
begin

lemma pop_some:
  assumes "contents q xs" "pop q = Some (x, q')"
  shows "\<exists>ys. xs = x # ys \<and> contents q' ys"
  using assms pop_empty pop_law by (cases xs) fastforce+

end

fun push_all :: "('q \<Rightarrow> 'c \<Rightarrow> 'q option) \<Rightarrow> 'q \<Rightarrow> 'c list \<Rightarrow> 'q option" where
  "push_all push q [] = Some q"
| "push_all push q (x # xs) = (case push q x of None \<Rightarrow> None | Some q' \<Rightarrow> push_all push q' xs)"

fun pop_n :: "('q \<Rightarrow> ('c \<times> 'q) option) \<Rightarrow> nat \<Rightarrow> 'q \<Rightarrow> 'c list \<times> 'q" where
  "pop_n pop 0 q = ([], q)"
| "pop_n pop (Suc n) q =
     (case pop q of None \<Rightarrow> ([], q) | Some (x, q') \<Rightarrow> (case pop_n pop n q' of (xs, q'') \<Rightarrow> (x # xs, q'')))"

context bounded_fifo
begin

lemma push_all_contents:
  "contents q xs \<Longrightarrow> length xs + length ys \<le> cap \<Longrightarrow>
     \<exists>q'. push_all push q ys = Some q' \<and> contents q' (xs @ ys)"
proof (induction ys arbitrary: q xs)
  case Nil
  then show ?case by simp
next
  case (Cons y ys)
  then obtain q1 where "push q y = Some q1" "contents q1 (xs @ [y])"
    using push_law [of q xs y] by auto
  with Cons.IH [of q1 "xs @ [y]"] Cons.prems show ?case by simp
qed

lemma pop_n_contents:
  "contents q (xs @ ys) \<Longrightarrow> \<exists>q'. pop_n pop (length xs) q = (xs, q') \<and> contents q' ys"
proof (induction xs arbitrary: q)
  case Nil
  then show ?case by simp
next
  case (Cons x xs)
  then obtain q1 where "pop q = Some (x, q1)" "contents q1 (xs @ ys)"
    using pop_law [of q x "xs @ ys"] by auto
  with Cons.IH [of q1] show ?case by auto
qed

lemma push_pop_order:
  assumes "contents q []" "length ys \<le> cap"
  shows "\<exists>q1 q2. push_all push q ys = Some q1 \<and> pop_n pop (length ys) q1 = (ys, q2) \<and> contents q2 []"
proof -
  obtain q1 where q1: "push_all push q ys = Some q1" "contents q1 ys"
    using push_all_contents [OF assms(1), of ys] assms(2) by auto
  with pop_n_contents [of q1 ys "[]"] show ?thesis by auto
qed

end

section \<open>The ring is a queue of capacity 511\<close>

text \<open>
  \<open>ring_at b p xs\<close>: from position \<open>p\<close> on, the array holds \<open>xs\<close>, wrapping round after 512
  places.
\<close>

definition ring_at :: "'c option list \<Rightarrow> nat \<Rightarrow> 'c list \<Rightarrow> bool" where
  "ring_at b p xs \<longleftrightarrow> (\<forall>i < length xs. b ! ((p + i) mod CALL_BUF_SIZE) = Some (xs ! i))"

definition ring_contents :: "'c call_ring \<Rightarrow> 'c list \<Rightarrow> bool" where
  "ring_contents r xs \<longleftrightarrow>
     length (cr_buf r) = CALL_BUF_SIZE + 2 \<and> cr_read r < CALL_BUF_SIZE \<and> length xs < CALL_BUF_SIZE \<and>
     cr_write r = (cr_read r + length xs) mod CALL_BUF_SIZE \<and> ring_at (cr_buf r) (cr_read r) xs"

definition ring_pop :: "'c call_ring \<Rightarrow> ('c \<times> 'c call_ring) option" where
  "ring_pop r = (case call_pop r of Some (Some c, r') \<Rightarrow> Some (c, r') | _ \<Rightarrow> None)"

lemma mod_add_inj_le:
  fixes n :: nat
  assumes "i \<le> j" "j < n" "(p + i) mod n = (p + j) mod n"
  shows "i = j"
proof -
  have "n dvd (p + j) - (p + i)"
    using assms mod_eq_dvd_iff_nat [of "p + i" "p + j" n] by simp
  then have "n dvd j - i" by simp
  with assms(1,2) show ?thesis by (auto dest: dvd_imp_le)
qed

lemma mod_add_inj:
  fixes n :: nat
  assumes "i < n" "j < n"
  shows "(p + i) mod n = (p + j) mod n \<longleftrightarrow> i = j"
  using mod_add_inj_le [of i j n p] mod_add_inj_le [of j i n p] assms by (metis nat_le_linear)

lemma ring_at_Cons:
  "ring_at b p (x # xs) \<longleftrightarrow> b ! (p mod CALL_BUF_SIZE) = Some x \<and> ring_at b (Suc p mod CALL_BUF_SIZE) xs"
  by (auto simp: ring_at_def less_Suc_eq_0_disj mod_simps all_conj_distrib)

lemma ring_at_update_other:
  assumes "ring_at b p xs" "\<And>i. i < length xs \<Longrightarrow> (p + i) mod CALL_BUF_SIZE \<noteq> q"
  shows "ring_at (b[q := v]) p xs"
  using assms unfolding ring_at_def by (metis nth_list_update_neq)

lemma ring_at_snoc:
  assumes "ring_at b p xs" "length xs < CALL_BUF_SIZE" "length b = CALL_BUF_SIZE + 2"
  shows "ring_at (b[(p + length xs) mod CALL_BUF_SIZE := Some x]) p (xs @ [x])"
proof -
  let ?q = "(p + length xs) mod CALL_BUF_SIZE"
  have "0 < CALL_BUF_SIZE" by (simp add: CALL_BUF_SIZE_def)
  then have "?q < CALL_BUF_SIZE" by simp
  then have "?q < length b" using assms(3) by simp
  moreover have "ring_at (b[?q := Some x]) p xs"
    using assms(1,2) by (intro ring_at_update_other) (auto simp: mod_add_inj)
  ultimately show ?thesis
    by (auto simp: ring_at_def nth_append less_Suc_eq)
qed

lemma call_push_contents:
  assumes "ring_contents r xs" "length xs < CALL_BUF_SIZE - 1"
  shows "\<exists>r'. call_push r x = Some r' \<and> ring_contents r' (xs @ [x])"
proof -
  have r: "cr_read r < CALL_BUF_SIZE" "cr_write r = (cr_read r + length xs) mod CALL_BUF_SIZE"
      "length xs < CALL_BUF_SIZE" "length (cr_buf r) = CALL_BUF_SIZE + 2"
    using assms by (auto simp: ring_contents_def)
  have "(cr_write r + 1) mod CALL_BUF_SIZE = (cr_read r + (length xs + 1)) mod CALL_BUF_SIZE"
    using r(2) by (simp add: mod_simps)
  moreover have "(cr_read r + (length xs + 1)) mod CALL_BUF_SIZE \<noteq> (cr_read r + 0) mod CALL_BUF_SIZE"
    using assms(2) by (subst mod_add_inj) auto
  ultimately have "(cr_write r + 1) mod CALL_BUF_SIZE \<noteq> cr_read r" using r(1) by simp
  moreover have "ring_at ((cr_buf r)[cr_write r := Some x]) (cr_read r) (xs @ [x])"
    unfolding r(2) using assms(1) r(3,4) by (intro ring_at_snoc) (auto simp: ring_contents_def)
  ultimately show ?thesis
    using r assms(2) by (simp add: call_push_def ring_contents_def mod_simps)
qed

lemma ring_pop_contents:
  assumes "ring_contents r (x # xs)"
  shows "\<exists>r'. ring_pop r = Some (x, r') \<and> ring_contents r' xs"
proof -
  have r: "cr_read r < CALL_BUF_SIZE" "cr_write r = (cr_read r + Suc (length xs)) mod CALL_BUF_SIZE"
      "Suc (length xs) < CALL_BUF_SIZE" "length (cr_buf r) = CALL_BUF_SIZE + 2"
    and at: "cr_buf r ! cr_read r = Some x" "ring_at (cr_buf r) (Suc (cr_read r) mod CALL_BUF_SIZE) xs"
    using assms by (auto simp: ring_contents_def ring_at_Cons)
  have ne: "(cr_read r + Suc i) mod CALL_BUF_SIZE \<noteq> cr_read r" if "i \<le> length xs" for i
    using mod_add_inj [of "Suc i" CALL_BUF_SIZE 0 "cr_read r"] that r(1,3) by simp
  have "ring_at ((cr_buf r)[cr_read r := None]) (Suc (cr_read r) mod CALL_BUF_SIZE) xs"
    using at(2) ne by (intro ring_at_update_other) (auto simp: mod_simps)
  then show ?thesis
    using r at(1) ne [of "length xs"]
    by (simp add: ring_pop_def call_pop_def ring_contents_def mod_simps)
qed

lemma ring_pop_empty: "ring_contents r [] \<Longrightarrow> ring_pop r = None"
  by (simp add: ring_contents_def ring_pop_def call_pop_def)

lemma ring_init_contents: "ring_contents ring_init []"
  by (simp add: ring_contents_def ring_init_def ring_at_def CALL_BUF_SIZE_def)

interpretation rf: bounded_fifo call_push ring_pop ring_contents "CALL_BUF_SIZE - 1"
  by unfold_locales (auto intro: call_push_contents ring_pop_contents ring_pop_empty)

section \<open>One pushing and one popping thread\<close>

text \<open>
  \<^verbatim>\<open>call_push\<close> runs on the distribution thread and \<^verbatim>\<open>call_pop\<close> on the device thread
  without a lock. A step is one access to the shared ring; the program counters say what
  the thread does next. \<open>sp_in\<close> and \<open>sp_out\<close> record the completed pushes and pops.
\<close>

datatype 'c push_pc = P_idle | P_store 'c | P_advance 'c

datatype 'c pop_pc = C_idle | C_load | C_clear 'c | C_advance 'c

record 'c spsc =
  sp_buf :: "'c option list"
  sp_read :: nat
  sp_write :: nat
  sp_push :: "'c push_pc"
  sp_pop :: "'c pop_pc"
  sp_in :: "'c list"
  sp_out :: "'c list"

definition spsc_init :: "'c spsc" where
  "spsc_init = \<lparr>sp_buf = replicate (CALL_BUF_SIZE + 2) None, sp_read = 0, sp_write = 0,
     sp_push = P_idle, sp_pop = C_idle, sp_in = [], sp_out = []\<rparr>"

inductive spsc_step :: "'c spsc \<Rightarrow> 'c spsc \<Rightarrow> bool" where
  push_check: "sp_push s = P_idle \<Longrightarrow> (sp_write s + 1) mod CALL_BUF_SIZE \<noteq> sp_read s \<Longrightarrow>
    spsc_step s (s\<lparr>sp_push := P_store c\<rparr>)"
| push_store: "sp_push s = P_store c \<Longrightarrow>
    spsc_step s (s\<lparr>sp_buf := (sp_buf s)[sp_write s := Some c], sp_push := P_advance c\<rparr>)"
| push_advance: "sp_push s = P_advance c \<Longrightarrow>
    spsc_step s (s\<lparr>sp_write := (sp_write s + 1) mod CALL_BUF_SIZE, sp_push := P_idle, sp_in := sp_in s @ [c]\<rparr>)"
| pop_check: "sp_pop s = C_idle \<Longrightarrow> sp_write s \<noteq> sp_read s \<Longrightarrow> spsc_step s (s\<lparr>sp_pop := C_load\<rparr>)"
| pop_load: "sp_pop s = C_load \<Longrightarrow> sp_buf s ! sp_read s = Some c \<Longrightarrow> spsc_step s (s\<lparr>sp_pop := C_clear c\<rparr>)"
| pop_null: "sp_pop s = C_load \<Longrightarrow> sp_buf s ! sp_read s = None \<Longrightarrow> spsc_step s (s\<lparr>sp_pop := C_idle\<rparr>)"
| pop_clear: "sp_pop s = C_clear c \<Longrightarrow>
    spsc_step s (s\<lparr>sp_buf := (sp_buf s)[sp_read s := None], sp_pop := C_advance c\<rparr>)"
| pop_advance: "sp_pop s = C_advance c \<Longrightarrow>
    spsc_step s (s\<lparr>sp_read := (sp_read s + 1) mod CALL_BUF_SIZE, sp_pop := C_idle, sp_out := sp_out s @ [c]\<rparr>)"

definition spsc_cell :: "'c spsc \<Rightarrow> nat \<Rightarrow> 'c option" where
  "spsc_cell s k =
     (if k < length (sp_in s) \<and> \<not> (k = length (sp_out s) \<and> (\<exists>c. sp_pop s = C_advance c)) then Some (sp_in s ! k)
      else if k = length (sp_in s) then (case sp_push s of P_advance c \<Rightarrow> Some c | _ \<Rightarrow> None)
      else None)"

text \<open>
  The \<open>k\<close>-th call ever pushed lives in cell \<open>k mod 512\<close>; the cells in the window from the
  next call to be popped hold what \<open>spsc_cell\<close> says.
\<close>

definition spsc_inv :: "'c spsc \<Rightarrow> bool" where
  "spsc_inv s \<longleftrightarrow>
     (let R = length (sp_out s); W = length (sp_in s) in
      sp_out s = take R (sp_in s) \<and> R \<le> W \<and> W < R + CALL_BUF_SIZE \<and>
      length (sp_buf s) = CALL_BUF_SIZE + 2 \<and>
      sp_read s = R mod CALL_BUF_SIZE \<and> sp_write s = W mod CALL_BUF_SIZE \<and>
      (\<forall>k. R \<le> k \<longrightarrow> k < R + CALL_BUF_SIZE \<longrightarrow> sp_buf s ! (k mod CALL_BUF_SIZE) = spsc_cell s k) \<and>
      (sp_push s \<noteq> P_idle \<longrightarrow> Suc W < R + CALL_BUF_SIZE) \<and>
      (sp_pop s \<noteq> C_idle \<longrightarrow> R < W) \<and>
      (\<forall>c. sp_pop s = C_clear c \<or> sp_pop s = C_advance c \<longrightarrow> c = sp_in s ! R))"

lemma mod_window:
  fixes R n :: nat
  assumes "R \<le> i" "i < R + n" "R \<le> j" "j < R + n"
  shows "i mod n = j mod n \<longleftrightarrow> i = j"
proof -
  obtain a b where "i = R + a" "j = R + b" using assms(1,3) by (auto simp: le_iff_add)
  with assms show ?thesis using mod_add_inj [of a n b R] by simp
qed

lemma ring_pos: "k mod CALL_BUF_SIZE < CALL_BUF_SIZE" "k mod CALL_BUF_SIZE < CALL_BUF_SIZE + 2"
  using mod_less_divisor [of 512 k] by (simp_all add: CALL_BUF_SIZE_def)

lemma window_update:
  assumes "\<forall>k. R \<le> k \<longrightarrow> k < R + CALL_BUF_SIZE \<longrightarrow> b ! (k mod CALL_BUF_SIZE) = f k"
    and "R \<le> p" "p < R + CALL_BUF_SIZE" "length b = CALL_BUF_SIZE + 2" "R \<le> k" "k < R + CALL_BUF_SIZE"
  shows "b[p mod CALL_BUF_SIZE := v] ! (k mod CALL_BUF_SIZE) = (if k = p then v else f k)"
proof -
  have "p mod CALL_BUF_SIZE < length b" unfolding assms(4) by (rule ring_pos)
  then show ?thesis
    using assms(1,5,6) mod_window [OF assms(5,6,2,3)] by (auto simp: nth_list_update)
qed

lemma spsc_init_inv: "spsc_inv spsc_init"
proof -
  have "replicate (CALL_BUF_SIZE + 2) None ! (k mod CALL_BUF_SIZE) = None" for k
    by (rule nth_replicate [OF ring_pos(2)])
  then show ?thesis
    by (simp add: spsc_inv_def spsc_init_def spsc_cell_def CALL_BUF_SIZE_def)
qed

lemma spsc_push_ok:
  assumes "spsc_inv s"
  shows "sp_push s = P_idle \<Longrightarrow> (sp_write s + 1) mod CALL_BUF_SIZE \<noteq> sp_read s \<Longrightarrow>
      spsc_inv (s\<lparr>sp_push := P_store c\<rparr>)"
    and "sp_push s = P_store c \<Longrightarrow>
      spsc_inv (s\<lparr>sp_buf := (sp_buf s)[sp_write s := Some c], sp_push := P_advance c\<rparr>)"
    and "sp_push s = P_advance c \<Longrightarrow>
      spsc_inv (s\<lparr>sp_write := (sp_write s + 1) mod CALL_BUF_SIZE, sp_push := P_idle, sp_in := sp_in s @ [c]\<rparr>)"
proof -
  let ?R = "length (sp_out s)" and ?W = "length (sp_in s)"
  assume idle: "sp_push s = P_idle" and nf: "(sp_write s + 1) mod CALL_BUF_SIZE \<noteq> sp_read s"
  have "Suc ?W \<noteq> ?R + CALL_BUF_SIZE"
    using nf assms by (auto simp: spsc_inv_def Let_def mod_simps)
  then show "spsc_inv (s\<lparr>sp_push := P_store c\<rparr>)"
    using idle assms by (simp add: spsc_inv_def Let_def spsc_cell_def)
next
  let ?R = "length (sp_out s)" and ?W = "length (sp_in s)"
  let ?s = "s\<lparr>sp_buf := (sp_buf s)[sp_write s := Some c], sp_push := P_advance c\<rparr>"
  assume st: "sp_push s = P_store c"
  have "sp_buf ?s ! (k mod CALL_BUF_SIZE) = spsc_cell ?s k" if "?R \<le> k" "k < ?R + CALL_BUF_SIZE" for k
    using assms st that window_update [of ?R "sp_buf s" "spsc_cell s" ?W k "Some c"]
    by (simp add: spsc_inv_def Let_def spsc_cell_def)
  then show "spsc_inv ?s"
    using assms st by (simp add: spsc_inv_def Let_def)
next
  let ?R = "length (sp_out s)" and ?W = "length (sp_in s)"
  let ?s = "s\<lparr>sp_write := (sp_write s + 1) mod CALL_BUF_SIZE, sp_push := P_idle, sp_in := sp_in s @ [c]\<rparr>"
  assume adv: "sp_push s = P_advance c"
  have pop: "sp_pop s = C_advance d \<Longrightarrow> ?R < ?W" for d
    using assms by (simp add: spsc_inv_def Let_def)
  have "spsc_cell ?s k = spsc_cell s k" for k
  proof -
    consider "k < ?W" | "k = ?W" | "?W < k" by linarith
    then show ?thesis
      by cases (auto simp: spsc_cell_def nth_append adv dest: pop)
  qed
  moreover have "take ?R (sp_in s @ [c]) = take ?R (sp_in s)"
    "sp_pop s \<noteq> C_idle \<Longrightarrow> (sp_in s @ [c]) ! ?R = sp_in s ! ?R"
    using assms by (simp_all add: spsc_inv_def Let_def nth_append)
  ultimately show "spsc_inv ?s"
    using assms adv by (fastforce simp: spsc_inv_def Let_def mod_simps)
qed

lemma spsc_pop_ok:
  assumes "spsc_inv s"
  shows "sp_pop s = C_idle \<Longrightarrow> sp_write s \<noteq> sp_read s \<Longrightarrow> spsc_inv (s\<lparr>sp_pop := C_load\<rparr>)"
    and "sp_pop s = C_load \<Longrightarrow> sp_buf s ! sp_read s = Some c \<Longrightarrow> spsc_inv (s\<lparr>sp_pop := C_clear c\<rparr>)"
    and "sp_pop s = C_load \<Longrightarrow> sp_buf s ! sp_read s \<noteq> None"
    and "sp_pop s = C_clear c \<Longrightarrow>
      spsc_inv (s\<lparr>sp_buf := (sp_buf s)[sp_read s := None], sp_pop := C_advance c\<rparr>)"
    and "sp_pop s = C_advance c \<Longrightarrow>
      spsc_inv (s\<lparr>sp_read := (sp_read s + 1) mod CALL_BUF_SIZE, sp_pop := C_idle, sp_out := sp_out s @ [c]\<rparr>)"
proof -
  let ?R = "length (sp_out s)" and ?W = "length (sp_in s)"
  have cell: "sp_buf s ! (k mod CALL_BUF_SIZE) = spsc_cell s k" if "?R \<le> k" "k < ?R + CALL_BUF_SIZE" for k
    using assms that by (simp add: spsc_inv_def Let_def)
  show "spsc_inv (s\<lparr>sp_pop := C_load\<rparr>)" if "sp_pop s = C_idle" "sp_write s \<noteq> sp_read s"
  proof -
    have "?R < ?W" using assms that(2) by (auto simp: spsc_inv_def Let_def le_less)
    with assms that(1) show ?thesis by (simp add: spsc_inv_def Let_def spsc_cell_def)
  qed
  have ld: "sp_buf s ! sp_read s = Some (sp_in s ! ?R)" if "sp_pop s = C_load"
    using assms that cell [of ?R] ring_pos(1) [of 0] by (simp add: spsc_inv_def Let_def spsc_cell_def)
  show "sp_buf s ! sp_read s \<noteq> None" if "sp_pop s = C_load"
    using ld [OF that] by simp
  show "spsc_inv (s\<lparr>sp_pop := C_clear c\<rparr>)" if "sp_pop s = C_load" "sp_buf s ! sp_read s = Some c"
    using assms that ld by (simp add: spsc_inv_def Let_def spsc_cell_def)
  show "spsc_inv (s\<lparr>sp_buf := (sp_buf s)[sp_read s := None], sp_pop := C_advance c\<rparr>)" (is "spsc_inv ?s")
    if cl: "sp_pop s = C_clear c"
  proof -
    have "sp_buf ?s ! (k mod CALL_BUF_SIZE) = spsc_cell ?s k" if "?R \<le> k" "k < ?R + CALL_BUF_SIZE" for k
      using assms cl that window_update [of ?R "sp_buf s" "spsc_cell s" ?R k None]
      by (simp add: spsc_inv_def Let_def spsc_cell_def)
    then show ?thesis using assms cl by (simp add: spsc_inv_def Let_def)
  qed
  show "spsc_inv (s\<lparr>sp_read := (sp_read s + 1) mod CALL_BUF_SIZE, sp_pop := C_idle, sp_out := sp_out s @ [c]\<rparr>)"
      (is "spsc_inv ?s") if adv: "sp_pop s = C_advance c"
  proof -
    have R: "?R < ?W" "c = sp_in s ! ?R" "?W < ?R + CALL_BUF_SIZE" "sp_out s = take ?R (sp_in s)"
      using assms adv by (auto simp: spsc_inv_def Let_def)
    have new: "sp_buf ?s ! (k mod CALL_BUF_SIZE) = spsc_cell ?s k"
      if k: "Suc ?R \<le> k" "k < Suc ?R + CALL_BUF_SIZE" for k
    proof (cases "k = ?R + CALL_BUF_SIZE")
      case True
      then show ?thesis using cell [of ?R] R adv ring_pos(1) [of 0] by (simp add: spsc_cell_def)
    next
      case False
      then show ?thesis using cell [of k] k adv by (simp add: spsc_cell_def)
    qed
    have "sp_out s @ [c] = take (Suc ?R) (sp_in s)"
      using R by (metis take_Suc_conv_app_nth)
    with new R assms adv show ?thesis
      by (simp add: spsc_inv_def Let_def mod_simps)
  qed
qed

lemma spsc_step_inv: "spsc_step s t \<Longrightarrow> spsc_inv s \<Longrightarrow> spsc_inv t"
  by (induction rule: spsc_step.induct)
    (blast intro: spsc_push_ok spsc_pop_ok(1,2,4,5) dest: spsc_pop_ok(3))+

lemma spsc_reach_inv: "spsc_step\<^sup>*\<^sup>* spsc_init s \<Longrightarrow> spsc_inv s"
  by (induction rule: rtranclp_induct) (auto intro: spsc_init_inv spsc_step_inv)

section \<open>The thread body\<close>

datatype thread_event =
    Ev_context_init | Ev_call_handle express_call | Ev_callback express_call int
  | Ev_delete_event | Ev_context_destroy

datatype thread_status = Thread_running | Thread_stopped | Thread_exited

text \<open>
  A list element is one return of \<^verbatim>\<open>call_pop\<close> with the value of
  \<^verbatim>\<open>teleport_express_should_stop\<close> read after it.
\<close>

fun handle_loop :: "bool \<Rightarrow> (bool \<times> express_call option) list \<Rightarrow> thread_event list \<times> thread_status" where
  "handle_loop has_handle [] = ([], Thread_running)"
| "handle_loop has_handle ((should_stop, pop) # pops) =
     (if should_stop then ([], Thread_stopped)
      else
        (case pop of
           None \<Rightarrow> handle_loop has_handle pops
         | Some call \<Rightarrow>
             (if ec_is_end call then ([Ev_callback call 0], Thread_exited)
              else
                (case handle_loop has_handle pops of
                   (evs, st) \<Rightarrow> (if has_handle then Ev_call_handle call # evs else evs, st)))))"

definition handle_thread_run ::
  "bool \<Rightarrow> bool \<Rightarrow> bool \<Rightarrow> (bool \<times> express_call option) list \<Rightarrow> thread_event list \<times> thread_status" where
  "handle_thread_run has_init has_handle has_destroy pops =
     (case handle_loop has_handle pops of
        (evs, st) \<Rightarrow>
          ((if has_init then [Ev_context_init] else []) @ evs @
             (if st = Thread_exited
              then Ev_delete_event # (if has_destroy then [Ev_context_destroy] else []) else []), st))"

lemma handle_loop_prefix:
  "list_all (\<lambda>c. \<not> ec_is_end c) cs \<Longrightarrow>
     handle_loop True (map (\<lambda>c. (False, Some c)) cs @ pops) =
       (case handle_loop True pops of (evs, st) \<Rightarrow> (map Ev_call_handle cs @ evs, st))"
  by (induction cs) (auto split: prod.splits)

section \<open>Properties\<close>

text \<open>
  The atomic \<^verbatim>\<open>call_push\<close> and \<^verbatim>\<open>call_pop\<close> make the ring a first-in-first-out queue
  of 511 calls: up to 511 calls can be pushed into an empty ring and come out in the
  order they went in, leaving it empty, wherever the two positions stand.
\<close>

theorem call_ring_fifo:
  assumes "ring_contents r []" "length cs \<le> 511"
  shows "\<exists>r1 r2. push_all call_push r cs = Some r1 \<and> pop_n ring_pop (length cs) r1 = (cs, r2) \<and>
    ring_contents r2 []"
  using rf.push_pop_order [OF assms(1), of cs] assms(2) by (simp add: CALL_BUF_SIZE_def)

definition late_ring :: "nat call_ring" where
  "late_ring = \<lparr>cr_buf = replicate 514 None, cr_read = 511, cr_write = 511\<rparr>"

theorem call_ring_fifo_witness:
  "\<exists>r1 r2. push_all call_push late_ring [4, 5, 6] = Some r1 \<and> pop_n ring_pop 3 r1 = ([4, 5, 6], r2) \<and>
     ring_contents r2 []"
proof -
  have "ring_contents late_ring []"
    by (simp add: ring_contents_def late_ring_def ring_at_def CALL_BUF_SIZE_def)
  from call_ring_fifo [OF this, of "[4, 5, 6]"] show ?thesis by (simp add: numeral_3_eq_3)
qed

text \<open>
  C7. Under every interleaving of the accesses of one pushing and one popping thread the
  calls popped so far are an initial segment of the calls pushed so far, at most 511 are
  in between, a pusher never overwrites a call and a popper never loads a null entry, and
  an idle popper sees a waiting call.
\<close>

theorem call_ring_interleaved:
  assumes "spsc_step\<^sup>*\<^sup>* spsc_init s"
  shows "sp_out s = take (length (sp_out s)) (sp_in s) \<and>
    length (sp_out s) \<le> length (sp_in s) \<and> length (sp_in s) \<le> length (sp_out s) + 511 \<and>
    (\<forall>c. sp_push s = P_store c \<longrightarrow> sp_buf s ! sp_write s = None) \<and>
    (sp_pop s = C_load \<longrightarrow> sp_buf s ! sp_read s \<noteq> None) \<and>
    (length (sp_out s) < length (sp_in s) \<longrightarrow> sp_write s \<noteq> sp_read s)"
proof -
  note inv = spsc_reach_inv [OF assms]
  let ?R = "length (sp_out s)" and ?W = "length (sp_in s)"
  have i: "sp_out s = take ?R (sp_in s)" "?R \<le> ?W" "?W < ?R + CALL_BUF_SIZE"
      "sp_read s = ?R mod CALL_BUF_SIZE" "sp_write s = ?W mod CALL_BUF_SIZE"
    using inv by (simp_all add: spsc_inv_def Let_def)
  have "sp_buf s ! sp_write s = None" if "sp_push s = P_store c" for c
    using inv that i(2,3,5) by (simp add: spsc_inv_def Let_def spsc_cell_def)
  moreover have "sp_write s \<noteq> sp_read s" if "?R < ?W"
    using mod_window [of ?R ?W CALL_BUF_SIZE ?R] that i(3-5) by simp
  ultimately show ?thesis
    using i(1-3) spsc_pop_ok(3) [OF inv] by (simp add: CALL_BUF_SIZE_def)
qed

definition spsc_demo :: "nat spsc" where
  "spsc_demo = spsc_init\<lparr>sp_push := P_store 7\<rparr>"

theorem call_ring_interleaved_witness: "sp_buf spsc_demo ! sp_write spsc_demo = None"
proof -
  have "spsc_step spsc_init spsc_demo"
    unfolding spsc_demo_def by (rule push_check) (simp_all add: spsc_init_def CALL_BUF_SIZE_def)
  then have "spsc_step\<^sup>*\<^sup>* spsc_init spsc_demo" by blast
  moreover have "sp_push spsc_demo = P_store 7" by (simp add: spsc_demo_def)
  ultimately show ?thesis using call_ring_interleaved [of spsc_demo] by blast
qed

text \<open>
  A device thread initialises its context, handles the calls in the order it pops
  them up to the first one marked as the end, completes that one without handling it,
  destroys the context and exits; calls behind it are not touched.
\<close>

theorem handle_thread_serves:
  assumes "list_all (\<lambda>c. \<not> ec_is_end c) cs" "ec_is_end last_call"
  shows "handle_thread_run True True True (map (\<lambda>c. (False, Some c)) (cs @ last_call # rest)) =
    (Ev_context_init # map Ev_call_handle cs @
       [Ev_callback last_call 0, Ev_delete_event, Ev_context_destroy], Thread_exited)"
  using handle_loop_prefix [OF assms(1)] assms(2) by (simp add: handle_thread_run_def)

theorem handle_thread_serves_witness:
  "handle_thread_run True True True (map (\<lambda>c. (False, Some c))
     ([demo_call] @ demo_call\<lparr>ec_is_end := True\<rparr> # [demo_call])) =
   ([Ev_context_init, Ev_call_handle demo_call, Ev_callback (demo_call\<lparr>ec_is_end := True\<rparr>) 0,
     Ev_delete_event, Ev_context_destroy], Thread_exited)"
  using handle_thread_serves [of "[demo_call]" "demo_call\<lparr>ec_is_end := True\<rparr>" "[demo_call]"]
  by (simp add: demo_call_def suspended_call_def)

end
