(* ===== verification/Recycle_Queue.thy ===== *)
theory Recycle_Queue
  imports Handle_Thread
begin

text \<open>
  The recycle queue through which device threads return finished calls. The code is in
  \<^verbatim>\<open>push_free_callback\<close> and \<^verbatim>\<open>virtqueue_data_distribute_and_recycle\<close> of
  \<^verbatim>\<open>hw/teleport-express/teleport_express_distribute.c\<close> and again in \<^verbatim>\<open>input_call_release\<close>
  and \<^verbatim>\<open>express_input_device_sync\<close> of \<^verbatim>\<open>hw/teleport-express/teleport_express_register.c\<close>.
  The theory has the queue with enqueue and dequeue as atomic operations, and as the
  interleaving of the single accesses of any number of enqueuing threads and the one
  dequeuing thread.
\<close>

section \<open>Atomic operations\<close>

definition RECYCLE_SIZE :: nat where
  "RECYCLE_SIZE = CALL_BUF_SIZE + 2"

record 'c recycle_queue =
  rq_slot :: "nat \<Rightarrow> 'c option"
  rq_header :: nat
  rq_tail :: nat

definition rq_init :: "'c recycle_queue" where
  "rq_init = \<lparr>rq_slot = (\<lambda>_. None), rq_header = 0, rq_tail = 0\<rparr>"

definition recycle_push :: "'c recycle_queue \<Rightarrow> 'c \<Rightarrow> 'c recycle_queue option" where
  "recycle_push q call =
     (case ring_scan (\<lambda>i. rq_slot q i \<noteq> None) RECYCLE_SIZE ((rq_tail q + 1) mod RECYCLE_SIZE) of
        None \<Rightarrow> None
      | Some p \<Rightarrow> Some (q\<lparr>rq_slot := (rq_slot q)(p := Some call), rq_tail := p\<rparr>))"

definition recycle_pop :: "'c recycle_queue \<Rightarrow> ('c \<times> 'c recycle_queue) option" where
  "recycle_pop q =
     (let p = (rq_header q + 1) mod RECYCLE_SIZE in
      case rq_slot q p of
        None \<Rightarrow> None
      | Some call \<Rightarrow> Some (call, q\<lparr>rq_slot := (rq_slot q)(p := None), rq_header := p\<rparr>))"

section \<open>Interleaved operations\<close>

text \<open>
  What an enqueuing thread does next: walk on from \<open>t\<close>, try to claim the slot after \<open>t\<close>,
  or move the tail from the value it read first. The dequeuing thread clears the slot it
  has read and then moves the header.
\<close>

datatype 'c enq_pc = E_idle | E_scan nat nat 'c | E_claim nat nat 'c | E_tail nat nat

datatype 'c deq_pc = D_idle | D_clear 'c | D_header 'c

record 'c recycle_state =
  rs_queue :: "'c recycle_queue"
  rs_enq :: "nat \<Rightarrow> 'c enq_pc"
  rs_deq :: "'c deq_pc"
  rs_in :: "'c multiset"
  rs_out :: "'c multiset"

datatype 'c recycle_action = Enq_start nat 'c | Enq_step nat | Deq_step

definition rs_init :: "'c recycle_state" where
  "rs_init = \<lparr>rs_queue = rq_init, rs_enq = (\<lambda>_. E_idle), rs_deq = D_idle, rs_in = {#}, rs_out = {#}\<rparr>"

definition set_enq :: "nat \<Rightarrow> 'c enq_pc \<Rightarrow> 'c recycle_state \<Rightarrow> 'c recycle_state" where
  "set_enq i pc s = s\<lparr>rs_enq := (rs_enq s)(i := pc)\<rparr>"

definition enq_step :: "nat \<Rightarrow> 'c recycle_state \<Rightarrow> 'c recycle_state option" where
  "enq_step i s =
     (let q = rs_queue s in
      case rs_enq s i of
        E_idle \<Rightarrow> None
      | E_scan origin t call \<Rightarrow>
          Some (set_enq i
            (if rq_slot q ((t + 1) mod RECYCLE_SIZE) \<noteq> None
             then E_scan origin ((t + 1) mod RECYCLE_SIZE) call else E_claim origin t call) s)
      | E_claim origin t call \<Rightarrow>
          (let p = (t + 1) mod RECYCLE_SIZE in
           if rq_slot q p = None
           then Some (set_enq i (E_tail origin p)
                  (s\<lparr>rs_queue := q\<lparr>rq_slot := (rq_slot q)(p := Some call)\<rparr>, rs_in := add_mset call (rs_in s)\<rparr>))
           else Some (set_enq i (E_scan origin t call) s))
      | E_tail origin p \<Rightarrow>
          Some (set_enq i E_idle
            (if rq_tail q = origin then s\<lparr>rs_queue := q\<lparr>rq_tail := p\<rparr>\<rparr> else s)))"

definition deq_step :: "'c recycle_state \<Rightarrow> 'c recycle_state option" where
  "deq_step s =
     (let q = rs_queue s; p = (rq_header q + 1) mod RECYCLE_SIZE in
      case rs_deq s of
        D_idle \<Rightarrow> map_option (\<lambda>call. s\<lparr>rs_deq := D_clear call\<rparr>) (rq_slot q p)
      | D_clear call \<Rightarrow>
          Some (s\<lparr>rs_queue := q\<lparr>rq_slot := (rq_slot q)(p := None)\<rparr>, rs_deq := D_header call,
                  rs_out := add_mset call (rs_out s)\<rparr>)
      | D_header call \<Rightarrow> Some (s\<lparr>rs_queue := q\<lparr>rq_header := p\<rparr>, rs_deq := D_idle\<rparr>))"

fun recycle_exec :: "'c recycle_action \<Rightarrow> 'c recycle_state \<Rightarrow> 'c recycle_state option" where
  "recycle_exec (Enq_start i call) s =
     (if rs_enq s i = E_idle
      then Some (set_enq i (E_scan (rq_tail (rs_queue s)) (rq_tail (rs_queue s)) call) s) else None)"
| "recycle_exec (Enq_step i) s = enq_step i s"
| "recycle_exec Deq_step s = deq_step s"

fun recycle_run :: "'c recycle_action list \<Rightarrow> 'c recycle_state \<Rightarrow> 'c recycle_state option" where
  "recycle_run [] s = Some s"
| "recycle_run (a # as) s = (case recycle_exec a s of None \<Rightarrow> None | Some s' \<Rightarrow> recycle_run as s')"

section \<open>The atomic queue is a queue of capacity 514\<close>

definition rq_contents :: "'c recycle_queue \<Rightarrow> 'c list \<Rightarrow> bool" where
  "rq_contents q xs \<longleftrightarrow>
     rq_header q < RECYCLE_SIZE \<and> length xs \<le> RECYCLE_SIZE \<and>
     rq_tail q = (rq_header q + length xs) mod RECYCLE_SIZE \<and>
     (\<forall>i < RECYCLE_SIZE. rq_slot q ((rq_header q + 1 + i) mod RECYCLE_SIZE) =
        (if i < length xs then Some (xs ! i) else None))"

lemma recycle_pos: "0 < RECYCLE_SIZE" "k mod RECYCLE_SIZE < RECYCLE_SIZE"
  by (simp_all add: RECYCLE_SIZE_def)

lemma recycle_push_contents:
  assumes "rq_contents q xs" "length xs < RECYCLE_SIZE"
  shows "\<exists>q'. recycle_push q x = Some q' \<and> rq_contents q' (xs @ [x])"
proof -
  let ?h = "rq_header q" and ?p = "(rq_header q + 1 + length xs) mod RECYCLE_SIZE"
  have p: "(rq_tail q + 1) mod RECYCLE_SIZE = ?p"
    using assms(1) by (simp add: rq_contents_def mod_simps ac_simps)
  have "rq_slot q ?p = None"
    using assms by (simp add: rq_contents_def)
  then have push: "recycle_push q x = Some (q\<lparr>rq_slot := (rq_slot q)(?p := Some x), rq_tail := ?p\<rparr>)"
    unfolding recycle_push_def p by simp
  have "((rq_slot q)(?p := Some x)) ((?h + 1 + i) mod RECYCLE_SIZE) =
      (if i < length (xs @ [x]) then Some ((xs @ [x]) ! i) else None)" if "i < RECYCLE_SIZE" for i
    using assms that mod_add_inj [OF that assms(2), of "?h + 1"]
    by (auto simp: rq_contents_def nth_append less_Suc_eq)
  with push assms show ?thesis
    by (simp add: rq_contents_def)
qed

lemma recycle_pop_contents:
  assumes "rq_contents q (x # xs)"
  shows "\<exists>q'. recycle_pop q = Some (x, q') \<and> rq_contents q' xs"
proof -
  let ?h = "rq_header q" and ?p = "(rq_header q + 1) mod RECYCLE_SIZE"
  have cell: "rq_slot q ((?h + 1 + i) mod RECYCLE_SIZE) = (if i < Suc (length xs) then Some ((x # xs) ! i) else None)"
    if "i < RECYCLE_SIZE" for i
    using assms that by (simp add: rq_contents_def)
  have pop: "recycle_pop q = Some (x, q\<lparr>rq_slot := (rq_slot q)(?p := None), rq_header := ?p\<rparr>)"
    using cell [of 0] recycle_pos(1) by (simp add: recycle_pop_def Let_def)
  have "((rq_slot q)(?p := None)) ((?p + 1 + i) mod RECYCLE_SIZE) = (if i < length xs then Some (xs ! i) else None)"
    if i: "i < RECYCLE_SIZE" for i
  proof (cases "Suc i = RECYCLE_SIZE")
    case True
    then have "?p + 1 + i = ?p + RECYCLE_SIZE" by simp
    then have "(?p + 1 + i) mod RECYCLE_SIZE = ?p" by (simp only: mod_add_self2 mod_mod_trivial)
    moreover have "\<not> i < length xs" using True assms by (simp add: rq_contents_def)
    ultimately show ?thesis by simp
  next
    case False
    then have si: "Suc i < RECYCLE_SIZE" using i by simp
    have eq: "(?p + 1 + i) mod RECYCLE_SIZE = (?h + 1 + Suc i) mod RECYCLE_SIZE"
      using mod_add_left_eq [of "?h + 1" RECYCLE_SIZE "Suc i"] by simp
    have "(?h + 1 + Suc i) mod RECYCLE_SIZE \<noteq> (?h + 1 + 0) mod RECYCLE_SIZE"
      by (subst mod_add_inj [OF si recycle_pos(1)]) simp
    then show ?thesis unfolding eq using cell [OF si] by simp
  qed
  with pop assms recycle_pos show ?thesis
    by (simp add: rq_contents_def mod_simps)
qed

lemma recycle_pop_empty: "rq_contents q [] \<Longrightarrow> recycle_pop q = None"
  using recycle_pos(1) by (auto simp: rq_contents_def recycle_pop_def Let_def dest: spec [of _ 0])

interpretation rqf: bounded_fifo recycle_push recycle_pop rq_contents RECYCLE_SIZE
  by unfold_locales (auto intro: recycle_push_contents recycle_pop_contents recycle_pop_empty)

section \<open>Conservation under interleaving\<close>

definition rq_stored :: "'c recycle_queue \<Rightarrow> 'c multiset" where
  "rq_stored q = (\<Sum>i<RECYCLE_SIZE. opt_mset (rq_slot q i))"

definition rs_inv :: "'c recycle_state \<Rightarrow> bool" where
  "rs_inv s \<longleftrightarrow> rs_in s = rs_out s + rq_stored (rs_queue s) \<and>
     (\<forall>c. rs_deq s = D_clear c \<longrightarrow>
        rq_slot (rs_queue s) ((rq_header (rs_queue s) + 1) mod RECYCLE_SIZE) = Some c)"

lemma rq_stored_split:
  "p < RECYCLE_SIZE \<Longrightarrow>
     rq_stored q = opt_mset (rq_slot q p) + (\<Sum>i \<in> {..<RECYCLE_SIZE} - {p}. opt_mset (rq_slot q i))"
  unfolding rq_stored_def by (subst sum.remove [of _ p]) auto

lemma rq_stored_upd:
  assumes "p < RECYCLE_SIZE"
  shows "rq_stored (q\<lparr>rq_slot := (rq_slot q)(p := v)\<rparr>) + opt_mset (rq_slot q p) = rq_stored q + opt_mset v"
proof -
  have "(\<Sum>i \<in> {..<RECYCLE_SIZE} - {p}. opt_mset (((rq_slot q)(p := v)) i)) =
      (\<Sum>i \<in> {..<RECYCLE_SIZE} - {p}. opt_mset (rq_slot q i))"
    by (rule sum.cong) auto
  then show ?thesis
    using rq_stored_split [OF assms, of q] rq_stored_split [OF assms, of "q\<lparr>rq_slot := (rq_slot q)(p := v)\<rparr>"]
    by simp
qed

lemma rq_stored_frame [simp]:
  "rq_stored (q\<lparr>rq_tail := t\<rparr>) = rq_stored q" "rq_stored (q\<lparr>rq_header := h\<rparr>) = rq_stored q"
  by (simp_all add: rq_stored_def)

lemma set_enq_sel [simp]:
  "rs_queue (set_enq i pc s) = rs_queue s" "rs_deq (set_enq i pc s) = rs_deq s"
  "rs_in (set_enq i pc s) = rs_in s" "rs_out (set_enq i pc s) = rs_out s"
  by (simp_all add: set_enq_def)

lemma rs_inv_set_enq [simp]: "rs_inv (set_enq i pc s) = rs_inv s"
  by (simp add: rs_inv_def)

lemma enq_step_inv:
  assumes "rs_inv s" "enq_step i s = Some t"
  shows "rs_inv t"
proof (cases "rs_enq s i")
  case (E_claim origin t0 call)
  let ?p = "(t0 + 1) mod RECYCLE_SIZE"
  show ?thesis
  proof (cases "rq_slot (rs_queue s) ?p")
    case None
    then have t: "t = set_enq i (E_tail origin ?p)
        (s\<lparr>rs_queue := (rs_queue s)\<lparr>rq_slot := (rq_slot (rs_queue s))(?p := Some call)\<rparr>,
           rs_in := add_mset call (rs_in s)\<rparr>)"
      using assms(2) E_claim by (simp add: enq_step_def Let_def)
    have "rq_stored ((rs_queue s)\<lparr>rq_slot := (rq_slot (rs_queue s))(?p := Some call)\<rparr>) =
        add_mset call (rq_stored (rs_queue s))"
      using rq_stored_upd [OF recycle_pos(2), of "rs_queue s" "t0 + 1" "Some call"] None by simp
    with assms(1) None show ?thesis
      unfolding t by (auto simp: rs_inv_def)
  next
    case (Some c)
    with assms E_claim show ?thesis by (auto simp: enq_step_def Let_def rs_inv_def)
  qed
qed (use assms in \<open>auto simp: enq_step_def Let_def rs_inv_def split: if_splits\<close>)

lemma deq_step_inv:
  assumes "rs_inv s" "deq_step s = Some t"
  shows "rs_inv t"
proof (cases "rs_deq s")
  case (D_clear c)
  let ?q = "rs_queue s" and ?p = "(rq_header (rs_queue s) + 1) mod RECYCLE_SIZE"
  have "rq_slot ?q ?p = Some c" using assms(1) D_clear by (simp add: rs_inv_def)
  then have "add_mset c (rq_stored (?q\<lparr>rq_slot := (rq_slot ?q)(?p := None)\<rparr>)) = rq_stored ?q"
    using rq_stored_upd [OF recycle_pos(2), of ?q "rq_header ?q + 1" None] by simp
  with assms D_clear show ?thesis
    by (auto simp: deq_step_def Let_def rs_inv_def)
qed (use assms in \<open>auto simp: deq_step_def Let_def rs_inv_def\<close>)

lemma recycle_exec_inv: "rs_inv s \<Longrightarrow> recycle_exec a s = Some t \<Longrightarrow> rs_inv t"
  by (cases a) (auto intro: enq_step_inv deq_step_inv split: if_splits)

lemma recycle_run_inv: "rs_inv s \<Longrightarrow> recycle_run as s = Some t \<Longrightarrow> rs_inv t"
  by (induction as s rule: recycle_run.induct) (auto intro: recycle_exec_inv split: option.splits)

lemma rs_init_inv: "rs_inv rs_init"
  by (simp add: rs_inv_def rs_init_def rq_init_def rq_stored_def)

section \<open>Properties\<close>

text \<open>
  Used by one thread at a time the recycle queue is a first-in-first-out queue of
  514 calls: what is pushed into an empty queue is popped in the same order.
\<close>

theorem recycle_queue_fifo:
  assumes "rq_contents q []" "length cs \<le> 514"
  shows "\<exists>q1 q2. push_all recycle_push q cs = Some q1 \<and> pop_n recycle_pop (length cs) q1 = (cs, q2) \<and>
    rq_contents q2 []"
  using rqf.push_pop_order [OF assms(1), of cs] assms(2) by (simp add: RECYCLE_SIZE_def CALL_BUF_SIZE_def)

lemma rq_init_contents: "rq_contents rq_init []"
  by (simp add: rq_contents_def rq_init_def RECYCLE_SIZE_def)

theorem recycle_queue_fifo_witness:
  "\<exists>q1 q2. push_all recycle_push rq_init [4::nat, 5] = Some q1 \<and> pop_n recycle_pop 2 q1 = ([4, 5], q2) \<and>
     rq_contents q2 []"
  using recycle_queue_fifo [OF rq_init_contents, of "[4, 5]"] by (simp add: numeral_2_eq_2)

text \<open>
  C8. Under every interleaving of enqueuing threads and the dequeuing thread no call is
  lost, overwritten or returned twice: the calls enqueued are, with multiplicity, the
  calls dequeued together with the calls stored in the array.
\<close>

theorem recycle_queue_conserves:
  assumes "recycle_run as rs_init = Some s"
  shows "rs_in s = rs_out s + rq_stored (rs_queue s)"
  using recycle_run_inv [OF rs_init_inv assms] by (simp add: rs_inv_def)

definition recycle_demo :: "nat recycle_action list" where
  "recycle_demo =
     [Enq_start 0 10, Enq_start 1 11, Enq_step 0, Enq_step 0, Enq_step 1, Enq_step 1, Enq_step 1,
      Enq_step 0, Enq_step 1,
      Deq_step, Deq_step, Deq_step, Deq_step, Deq_step, Deq_step,
      Enq_start 0 12, Enq_step 0, Enq_step 0, Enq_step 0]"

lemma recycle_demo_run:
  "\<exists>s. recycle_run recycle_demo rs_init = Some s \<and> rs_enq s 0 = E_idle \<and> rs_enq s 1 = E_idle \<and>
     rs_deq s = D_idle \<and> rq_header (rs_queue s) = 2 \<and> rq_tail (rs_queue s) = 2 \<and>
     rq_slot (rs_queue s) = (\<lambda>_. None)(2 := Some 12)"
  by (simp add: recycle_demo_def rs_init_def rq_init_def enq_step_def deq_step_def set_enq_def Let_def
      RECYCLE_SIZE_def CALL_BUF_SIZE_def fun_upd_twist numeral_2_eq_2)

theorem recycle_queue_conserves_witness:
  "\<exists>s. recycle_run recycle_demo rs_init = Some s \<and> rs_in s = rs_out s + rq_stored (rs_queue s)"
  using recycle_demo_run recycle_queue_conserves by blast

text \<open>
  The queue is not first-in-first-out for concurrent enqueuers: a thread whose update
  of the tail fails leaves the tail behind the header once both calls are dequeued, the
  next call is stored in the slot at the header, and with all threads at rest the
  dequeuing side finds the queue empty although a call is stored.
\<close>

theorem recycle_queue_strands:
  "\<exists>s. recycle_run recycle_demo rs_init = Some s \<and>
     rs_enq s 0 = E_idle \<and> rs_enq s 1 = E_idle \<and> rs_deq s = D_idle \<and>
     recycle_pop (rs_queue s) = None \<and> rq_slot (rs_queue s) 2 = Some 12"
proof -
  obtain s where s: "recycle_run recycle_demo rs_init = Some s" "rs_enq s 0 = E_idle" "rs_enq s 1 = E_idle"
      "rs_deq s = D_idle" "rq_header (rs_queue s) = 2" "rq_slot (rs_queue s) = (\<lambda>_. None)(2 := Some 12)"
    using recycle_demo_run by blast
  moreover from s have "recycle_pop (rs_queue s) = None"
    by (simp add: recycle_pop_def RECYCLE_SIZE_def CALL_BUF_SIZE_def)
  ultimately show ?thesis by auto
qed

end
