(* ===== verification/Device_Registry.thy ===== *)
theory Device_Registry
  imports Vsoc_Prelude "HOL-Library.AList"
begin

text \<open>
  Registration of the express devices, after \<^verbatim>\<open>hw/teleport-express/teleport_express_pci.c\<close>:
  the hash table of \<^verbatim>\<open>Express_Device_Info\<close> (\<^verbatim>\<open>express_device_init_common\<close>,
  \<^verbatim>\<open>get_express_device_info\<close>), the command line properties (\<^verbatim>\<open>fill_property\<close>) and the list
  of kernel driver names (\<^verbatim>\<open>init_express_driver_names\<close>). The table is an association list
  whose order stands for the unspecified order of \<^verbatim>\<open>g_hash_table_foreach\<close>. Accesses
  outside of \<^verbatim>\<open>express_device_enable\<close> or of the name buffer are \<open>None\<close>.
\<close>

section \<open>State and operations\<close>

definition EXPRESS_CTRL_DEVICE_ID :: int where "EXPRESS_CTRL_DEVICE_ID = 0"
definition EXPRESS_GPU_DEVICE_ID :: int where "EXPRESS_GPU_DEVICE_ID = 1"
definition EXPRESS_BRIDGE_DEVICE_ID :: int where "EXPRESS_BRIDGE_DEVICE_ID = 40"
definition INPUT_DEVICE_TYPE :: int where "INPUT_DEVICE_TYPE = 1"
definition OUTPUT_DEVICE_TYPE :: int where "OUTPUT_DEVICE_TYPE = 2"

record express_device_info =
  di_device_index :: int
  di_enable :: bool
  di_enable_default :: bool
  di_name :: string
  di_option_name :: "string option"
  di_driver_name :: "string option"
  di_device_id :: int
  di_device_type :: int
  di_static_prop :: "byte list"

type_synonym registry = "(int \<times> express_device_info) list"

definition express_device_init_common :: "express_device_info \<Rightarrow> registry \<Rightarrow> registry" where
  "express_device_init_common info r = AList.update (c_uint (di_device_id info)) info r"

definition get_express_device_info :: "registry \<Rightarrow> int \<Rightarrow> express_device_info option" where
  "get_express_device_info r device_id = map_of r device_id"

text \<open>\<open>fill_property\<close> for one entry; the accumulator is the next free index.\<close>

definition fill_property :: "express_device_info \<Rightarrow> int \<Rightarrow> express_device_info \<times> (string \<times> bool) list \<times> int" where
  "fill_property info index =
     (case di_option_name info of
        Some opt \<Rightarrow> (info\<lparr>di_device_index := index\<rparr>, [(opt, di_enable_default info)], index + 1)
      | None \<Rightarrow> (info\<lparr>di_device_index := - 1\<rparr>, [], index))"

fun fill_properties :: "registry \<Rightarrow> int \<Rightarrow> registry \<times> (string \<times> bool) list \<times> int" where
  "fill_properties [] index = ([], [], index)"
| "fill_properties ((k, info) # r) index =
     (case fill_property info index of
        (info', ps, index') \<Rightarrow>
          (case fill_properties r index' of (r', qs, index'') \<Rightarrow> ((k, info') # r', ps @ qs, index'')))"

definition get_express_device_property ::
  "(string \<times> bool) list \<Rightarrow> registry \<Rightarrow> registry \<times> (string \<times> bool) list" where
  "get_express_device_property base r =
     (if r = [] then (r, base)
      else (case fill_properties r 0 of (r', ps, index) \<Rightarrow> (r', ps @ base)))"

record driver_names =
  dn_buf :: "char list"
  dn_len :: nat
  dn_num :: int

definition device_enabled :: "bool list \<Rightarrow> int \<Rightarrow> bool option" where
  "device_enabled en index = (if 0 \<le> index \<and> index < int (length en) then Some (en ! nat index) else None)"

definition copy_express_driver_name :: "express_device_info \<Rightarrow> driver_names \<Rightarrow> driver_names option" where
  "copy_express_driver_name info d =
     (case di_driver_name info of
        None \<Rightarrow> Some d
      | Some n \<Rightarrow>
          (if dn_len d + length n + 1 \<le> length (dn_buf d) then
             Some (d\<lparr>dn_buf := take (dn_len d) (dn_buf d) @ n @ '' '' @ drop (dn_len d + length n + 1) (dn_buf d),
                     dn_len := dn_len d + length n + 1, dn_num := dn_num d + 1\<rparr>)
           else None))"

definition enabled_or_default :: "bool list \<Rightarrow> express_device_info \<Rightarrow> bool option" where
  "enabled_or_default en info =
     (if di_device_index info = - 1 then Some True else device_enabled en (di_device_index info))"

definition fill_kernel_driver_name ::
  "bool list \<Rightarrow> express_device_info \<Rightarrow> driver_names \<Rightarrow> (express_device_info \<times> driver_names) option" where
  "fill_kernel_driver_name en info d =
     (if di_device_id info = EXPRESS_GPU_DEVICE_ID \<or> di_device_id info = EXPRESS_BRIDGE_DEVICE_ID
      then Some (info, d)
      else
        (case enabled_or_default en info of
           None \<Rightarrow> None
         | Some True \<Rightarrow> map_option (Pair (info\<lparr>di_enable := True\<rparr>)) (copy_express_driver_name info d)
         | Some False \<Rightarrow> Some (info\<lparr>di_enable := False\<rparr>, d)))"

fun fill_kernel_driver_names :: "bool list \<Rightarrow> registry \<Rightarrow> driver_names \<Rightarrow> (registry \<times> driver_names) option" where
  "fill_kernel_driver_names en [] d = Some ([], d)"
| "fill_kernel_driver_names en ((k, info) # r) d =
     (case fill_kernel_driver_name en info d of
        None \<Rightarrow> None
      | Some (info', d') \<Rightarrow>
          (case fill_kernel_driver_names en r d' of
             None \<Rightarrow> None
           | Some (r', d'') \<Rightarrow> Some ((k, info') # r', d'')))"

definition calc_driver_names_len :: "bool list \<Rightarrow> express_device_info \<Rightarrow> nat option" where
  "calc_driver_names_len en info =
     (case di_driver_name info of
        None \<Rightarrow> Some 0
      | Some n \<Rightarrow> map_option (\<lambda>b. if b then length n + 1 else 0) (enabled_or_default en info))"

fun calc_driver_names_total :: "bool list \<Rightarrow> registry \<Rightarrow> nat option" where
  "calc_driver_names_total en [] = Some 0"
| "calc_driver_names_total en ((k, info) # r) =
     (case (calc_driver_names_len en info, calc_driver_names_total en r) of
        (Some a, Some b) \<Rightarrow> Some (a + b) | _ \<Rightarrow> None)"

text \<open>The two devices that are loaded first: \<^verbatim>\<open>info\<close> is dereferenced without a check.\<close>

definition first_driver :: "bool list \<Rightarrow> int \<Rightarrow> registry \<times> driver_names \<Rightarrow> (registry \<times> driver_names) option" where
  "first_driver en device_id rd =
     (case rd of (r, d) \<Rightarrow>
        (case map_of r device_id of
           None \<Rightarrow> None
         | Some info \<Rightarrow>
             (case device_enabled en (di_device_index info) of
                None \<Rightarrow> None
              | Some True \<Rightarrow>
                  map_option (Pair (AList.update device_id (info\<lparr>di_enable := True\<rparr>) r))
                    (copy_express_driver_name info d)
              | Some False \<Rightarrow> Some (r, d))))"

definition init_express_driver_names ::
  "bool list \<Rightarrow> registry \<Rightarrow> driver_names \<Rightarrow> (registry \<times> driver_names) option" where
  "init_express_driver_names en r d =
     (case calc_driver_names_total en r of
        None \<Rightarrow> None
      | Some names_len \<Rightarrow>
          (let d0 = d\<lparr>dn_buf := replicate (names_len + 1) (CHR 0x00), dn_len := 0\<rparr> in
           case first_driver en EXPRESS_GPU_DEVICE_ID (r, d0) of
             None \<Rightarrow> None
           | Some rd1 \<Rightarrow>
               (case first_driver en EXPRESS_BRIDGE_DEVICE_ID rd1 of
                  None \<Rightarrow> None
                | Some (r2, d2) \<Rightarrow>
                    (case fill_kernel_driver_names en r2 d2 of
                       None \<Rightarrow> None
                     | Some (r3, d3) \<Rightarrow>
                         (if dn_len d3 < length (dn_buf d3)
                          then Some (r3, d3\<lparr>dn_buf := (dn_buf d3)[dn_len d3 := CHR 0x00]\<rparr>)
                          else None)))))"

section \<open>The list of names\<close>

definition selected_names :: "bool list \<Rightarrow> express_device_info \<Rightarrow> string list" where
  "selected_names en info =
     (case (di_driver_name info, enabled_or_default en info) of (Some n, Some True) \<Rightarrow> [n] | _ \<Rightarrow> [])"

definition ordinary :: "int \<times> express_device_info \<Rightarrow> bool" where
  "ordinary p \<longleftrightarrow> fst p \<noteq> EXPRESS_GPU_DEVICE_ID \<and> fst p \<noteq> EXPRESS_BRIDGE_DEVICE_ID"

definition driver_list :: "bool list \<Rightarrow> registry \<Rightarrow> string list" where
  "driver_list en r =
     (case map_of r EXPRESS_GPU_DEVICE_ID of None \<Rightarrow> [] | Some i \<Rightarrow> selected_names en i) @
     (case map_of r EXPRESS_BRIDGE_DEVICE_ID of None \<Rightarrow> [] | Some i \<Rightarrow> selected_names en i) @
     concat (map (selected_names en \<circ> snd) (filter ordinary r))"

definition spaced :: "string list \<Rightarrow> string" where
  "spaced ns = concat (map (\<lambda>n. n @ '' '') ns)"

definition registry_ok :: "bool list \<Rightarrow> registry \<Rightarrow> bool" where
  "registry_ok en r \<longleftrightarrow>
     distinct (map fst r) \<and> (\<forall>(k, i) \<in> set r. k = di_device_id i \<and> enabled_or_default en i \<noteq> None)"

text \<open>\<open>names_ok d ns\<close>: the buffer of \<open>d\<close> starts with the names \<open>ns\<close>, each followed by a blank.\<close>

definition names_ok :: "driver_names \<Rightarrow> string list \<Rightarrow> bool" where
  "names_ok d ns \<longleftrightarrow> dn_len d = length (spaced ns) \<and> dn_len d < length (dn_buf d) \<and>
     take (dn_len d) (dn_buf d) = spaced ns"

lemma spaced_simps [simp]:
  "spaced [] = []" "spaced (n # ns) = n @ '' '' @ spaced ns" "spaced (ns @ ms) = spaced ns @ spaced ms"
  by (simp_all add: spaced_def)

lemma copy_names:
  assumes "names_ok d ns" "enabled_or_default en info = Some True"
    and "length (spaced (ns @ selected_names en info)) < length (dn_buf d)"
  shows "\<exists>d'. copy_express_driver_name info d = Some d' \<and> names_ok d' (ns @ selected_names en info) \<and>
    length (dn_buf d') = length (dn_buf d) \<and> dn_num d' = dn_num d + int (length (selected_names en info))"
proof (cases "di_driver_name info")
  case None
  with assms(1,2) show ?thesis by (simp add: copy_express_driver_name_def selected_names_def)
next
  case (Some n)
  with assms show ?thesis
    by (auto simp: copy_express_driver_name_def selected_names_def names_ok_def)
qed

lemma fill_names:
  assumes "\<forall>(k, i) \<in> set r. k = di_device_id i \<and> enabled_or_default en i \<noteq> None" "names_ok d ns"
    and "length (spaced (ns @ concat (map (selected_names en \<circ> snd) (filter ordinary r)))) < length (dn_buf d)"
  shows "\<exists>r' d'. fill_kernel_driver_names en r d = Some (r', d') \<and> length (dn_buf d') = length (dn_buf d) \<and>
    names_ok d' (ns @ concat (map (selected_names en \<circ> snd) (filter ordinary r))) \<and>
    dn_num d' = dn_num d + int (length (concat (map (selected_names en \<circ> snd) (filter ordinary r))))"
  using assms
proof (induction r arbitrary: d ns)
  case Nil
  then show ?case by simp
next
  case (Cons p r)
  obtain k info where p: "p = (k, info)" by (cases p)
  have k: "k = di_device_id info" "enabled_or_default en info \<noteq> None" using Cons.prems(1) p by auto
  consider "\<not> ordinary p" | "ordinary p" "enabled_or_default en info = Some True"
    | "ordinary p" "enabled_or_default en info = Some False" using k(2) by (metis (full_types) option.exhaust)
  then show ?case
  proof cases
    case 1
    then have "fill_kernel_driver_name en info d = Some (info, d)"
      using k p by (auto simp: ordinary_def fill_kernel_driver_name_def)
    with 1 Cons.IH [of d ns] Cons.prems p show ?thesis by auto
  next
    case 2
    obtain d1 where d1: "copy_express_driver_name info d = Some d1" "names_ok d1 (ns @ selected_names en info)"
        "length (dn_buf d1) = length (dn_buf d)" "dn_num d1 = dn_num d + int (length (selected_names en info))"
      using copy_names [OF Cons.prems(2) 2(2)] Cons.prems(3) 2 p by auto
    have "fill_kernel_driver_name en info d = Some (info\<lparr>di_enable := True\<rparr>, d1)"
      using 2 k p d1(1) by (simp add: ordinary_def fill_kernel_driver_name_def)
    with Cons.IH [OF _ d1(2)] Cons.prems d1 2(1) p show ?thesis by auto
  next
    case 3
    then have "fill_kernel_driver_name en info d = Some (info\<lparr>di_enable := False\<rparr>, d)" "selected_names en info = []"
      using k p by (auto simp: ordinary_def fill_kernel_driver_name_def selected_names_def split: option.splits)
    with 3 Cons.IH [of d ns] Cons.prems p show ?thesis by auto
  qed
qed

definition entries_ok :: "bool list \<Rightarrow> registry \<Rightarrow> bool" where
  "entries_ok en r \<longleftrightarrow> (\<forall>(k, i) \<in> set r. k = di_device_id i \<and> enabled_or_default en i \<noteq> None)"

lemma calc_total:
  "entries_ok en r \<Longrightarrow>
     calc_driver_names_total en r = Some (\<Sum>p\<leftarrow>r. length (spaced (selected_names en (snd p))))"
proof (induction r)
  case (Cons p r)
  obtain k i where p: "p = (k, i)" by (cases p)
  then obtain b where "enabled_or_default en i = Some b" using Cons.prems by (auto simp: entries_ok_def)
  then have "calc_driver_names_len en i = Some (length (spaced (selected_names en i)))"
    by (cases b) (auto simp: calc_driver_names_len_def selected_names_def split: option.splits)
  with Cons p show ?case by (simp add: entries_ok_def)
qed simp

lemma sum_list_key:
  "distinct (map fst r) \<Longrightarrow> map_of r k = Some i \<Longrightarrow>
     (\<Sum>p\<leftarrow>r. f p) = (f (k, i) + (\<Sum>p\<leftarrow>filter (\<lambda>p. fst p \<noteq> k) r. f p) :: nat)"
proof (induction r)
  case (Cons p r)
  show ?case
  proof (cases "fst p = k")
    case True
    moreover from this Cons.prems have "k \<notin> fst ` set r" by simp
    then have "filter (\<lambda>p. fst p \<noteq> k) r = r"
      by (intro filter_True) (auto intro: rev_image_eqI)
    ultimately show ?thesis using Cons.prems by (cases p) auto
  next
    case False
    with Cons show ?thesis by (cases p) (auto split: if_splits)
  qed
qed simp

lemma filter_update: "filter (\<lambda>p. fst p \<noteq> k) (AList.update k v r) = filter (\<lambda>p. fst p \<noteq> k) r"
  by (induction r) auto

lemma map_of_filter_key: "j \<noteq> k \<Longrightarrow> map_of (filter (\<lambda>p. fst p \<noteq> k) r) j = map_of r j"
  by (induction r) auto

lemma entries_ok_update:
  "entries_ok en r \<Longrightarrow> k = di_device_id i \<Longrightarrow> enabled_or_default en i \<noteq> None \<Longrightarrow>
     entries_ok en (AList.update k i r)"
  unfolding entries_ok_def by (induction r) auto

lemma first_driver_names:
  assumes "entries_ok en r" "map_of r k = Some i" "device_enabled en (di_device_index i) \<noteq> None"
    and "names_ok d ns" "length (spaced (ns @ selected_names en i)) < length (dn_buf d)"
  shows "\<exists>r' d'. first_driver en k (r, d) = Some (r', d') \<and> names_ok d' (ns @ selected_names en i) \<and>
    length (dn_buf d') = length (dn_buf d) \<and> dn_num d' = dn_num d + int (length (selected_names en i)) \<and>
    entries_ok en r' \<and> filter (\<lambda>p. fst p \<noteq> k) r' = filter (\<lambda>p. fst p \<noteq> k) r"
proof -
  obtain b where b: "device_enabled en (di_device_index i) = Some b" using assms(3) by auto
  then have e: "enabled_or_default en i = Some b"
    by (auto simp: enabled_or_default_def device_enabled_def split: if_splits)
  have k: "k = di_device_id i" using assms(1,2) by (auto simp: entries_ok_def dest: map_of_SomeD)
  show ?thesis
  proof (cases b)
    case True
    obtain d' where "copy_express_driver_name i d = Some d'" "names_ok d' (ns @ selected_names en i)"
        "length (dn_buf d') = length (dn_buf d)" "dn_num d' = dn_num d + int (length (selected_names en i))"
      using copy_names [OF assms(4) _ assms(5)] e True by auto
    moreover have "entries_ok en (AList.update k (i\<lparr>di_enable := True\<rparr>) r)"
      using e k by (intro entries_ok_update [OF assms(1)]) (auto simp: enabled_or_default_def)
    ultimately show ?thesis
      using assms(2) b True by (simp add: first_driver_def filter_update)
  next
    case False
    with assms b e show ?thesis by (auto simp: first_driver_def selected_names_def split: option.splits)
  qed
qed

lemma ordinary_filter:
  "filter ordinary (filter (\<lambda>p. fst p \<noteq> EXPRESS_GPU_DEVICE_ID) r) = filter ordinary r"
  "filter ordinary (filter (\<lambda>p. fst p \<noteq> EXPRESS_BRIDGE_DEVICE_ID) r) = filter ordinary r"
  by (induction r) (auto simp: ordinary_def)

lemma ordinary_filter2:
  "filter (\<lambda>p. fst p \<noteq> EXPRESS_BRIDGE_DEVICE_ID) (filter (\<lambda>p. fst p \<noteq> EXPRESS_GPU_DEVICE_ID) r) = filter ordinary r"
  by (induction r) (auto simp: ordinary_def)

lemma gpu_not_bridge: "EXPRESS_BRIDGE_DEVICE_ID \<noteq> EXPRESS_GPU_DEVICE_ID"
  by (simp add: EXPRESS_GPU_DEVICE_ID_def EXPRESS_BRIDGE_DEVICE_ID_def)

lemma length_spaced_concat:
  "(\<Sum>p\<leftarrow>r. length (spaced (selected_names en (snd p)))) =
     length (spaced (concat (map (selected_names en \<circ> snd) r)))"
  by (induction r) auto

text \<open>The size computed by the first pass is the length of the list the second pass writes.\<close>

lemma calc_total_driver_list:
  assumes "registry_ok en r" "map_of r EXPRESS_GPU_DEVICE_ID = Some g" "map_of r EXPRESS_BRIDGE_DEVICE_ID = Some b"
  shows "calc_driver_names_total en r = Some (length (spaced (driver_list en r)))"
proof -
  let ?f = "\<lambda>p. length (spaced (selected_names en (snd p)))"
  have ok: "entries_ok en r" "distinct (map fst r)"
    using assms(1) by (simp_all add: registry_ok_def entries_ok_def)
  have "(\<Sum>p\<leftarrow>filter (\<lambda>p. fst p \<noteq> EXPRESS_GPU_DEVICE_ID) r. ?f p) =
      ?f (EXPRESS_BRIDGE_DEVICE_ID, b) + (\<Sum>p\<leftarrow>filter ordinary r. ?f p)"
    using sum_list_key [of "filter (\<lambda>p. fst p \<noteq> EXPRESS_GPU_DEVICE_ID) r" EXPRESS_BRIDGE_DEVICE_ID b ?f]
      map_of_filter_key [OF gpu_not_bridge, of r] assms(3) ok(2)
    by (simp add: distinct_map_filter ordinary_filter2 del: filter_filter)
  then have "(\<Sum>p\<leftarrow>r. ?f p) =
      ?f (EXPRESS_GPU_DEVICE_ID, g) + (?f (EXPRESS_BRIDGE_DEVICE_ID, b) + (\<Sum>p\<leftarrow>filter ordinary r. ?f p))"
    using sum_list_key [OF ok(2) assms(2), of ?f] by simp
  then show ?thesis
    using assms(2,3) by (simp add: calc_total [OF ok(1)] driver_list_def length_spaced_concat)
qed

section \<open>Properties\<close>

lemma device_registry_lookup:
  "get_express_device_info (express_device_init_common info r) (c_uint (di_device_id info)) = Some info \<and>
   (\<forall>j. j \<noteq> c_uint (di_device_id info) \<longrightarrow>
      get_express_device_info (express_device_init_common info r) j = get_express_device_info r j)"
  by (simp add: get_express_device_info_def express_device_init_common_def update_conv)

text \<open>
  C14. When the GPU and the bridge are registered with a command line option, building the
  list of kernel driver names stays inside the buffer whose size was computed before, and
  the buffer holds the names of the enabled devices, GPU and bridge first, each followed by
  a blank, closed by a zero byte; the counter grows by their number.
\<close>

theorem driver_names_correct:
  assumes "registry_ok en r"
    and "map_of r EXPRESS_GPU_DEVICE_ID = Some g" "device_enabled en (di_device_index g) \<noteq> None"
    and "map_of r EXPRESS_BRIDGE_DEVICE_ID = Some b" "device_enabled en (di_device_index b) \<noteq> None"
  shows "\<exists>r' d'. init_express_driver_names en r d = Some (r', d') \<and>
    dn_buf d' = spaced (driver_list en r) @ [CHR 0x00] \<and> dn_len d' = length (spaced (driver_list en r)) \<and>
    dn_num d' = dn_num d + int (length (driver_list en r))"
proof -
  let ?rest = "concat (map (selected_names en \<circ> snd) (filter ordinary r))"
  let ?L = "length (spaced (driver_list en r))"
  have ok: "entries_ok en r" using assms(1) by (simp add: registry_ok_def entries_ok_def)
  have dl: "driver_list en r = selected_names en g @ selected_names en b @ ?rest"
    using assms(2,4) by (simp add: driver_list_def)
  define d0 where "d0 = d\<lparr>dn_buf := replicate (?L + 1) (CHR 0x00), dn_len := 0\<rparr>"
  have d0: "names_ok d0 []" "length (dn_buf d0) = ?L + 1" "dn_num d0 = dn_num d"
    by (simp_all add: d0_def names_ok_def)
  obtain r1 d1 where s1: "first_driver en EXPRESS_GPU_DEVICE_ID (r, d0) = Some (r1, d1)"
      "names_ok d1 ([] @ selected_names en g)" "length (dn_buf d1) = length (dn_buf d0)"
      "dn_num d1 = dn_num d0 + int (length (selected_names en g))" "entries_ok en r1"
      "filter (\<lambda>p. fst p \<noteq> EXPRESS_GPU_DEVICE_ID) r1 = filter (\<lambda>p. fst p \<noteq> EXPRESS_GPU_DEVICE_ID) r"
    using first_driver_names [OF ok assms(2,3) d0(1)] d0(2) dl by fastforce
  have b1: "map_of r1 EXPRESS_BRIDGE_DEVICE_ID = Some b"
    using map_of_filter_key [OF gpu_not_bridge, of r1] map_of_filter_key [OF gpu_not_bridge, of r] s1(6) assms(4)
    by simp
  obtain r2 d2 where s2: "first_driver en EXPRESS_BRIDGE_DEVICE_ID (r1, d1) = Some (r2, d2)"
      "names_ok d2 (([] @ selected_names en g) @ selected_names en b)" "length (dn_buf d2) = length (dn_buf d1)"
      "dn_num d2 = dn_num d1 + int (length (selected_names en b))" "entries_ok en r2"
      "filter (\<lambda>p. fst p \<noteq> EXPRESS_BRIDGE_DEVICE_ID) r2 = filter (\<lambda>p. fst p \<noteq> EXPRESS_BRIDGE_DEVICE_ID) r1"
    using first_driver_names [OF s1(5) b1 assms(5) s1(2)] s1(3) d0(2) dl by fastforce
  have o2: "filter ordinary r2 = filter ordinary r"
    using ordinary_filter(2) [of r2] ordinary_filter(2) [of r1] ordinary_filter(1) [of r1] ordinary_filter(1) [of r]
      s1(6) s2(6) by (simp del: filter_filter)
  obtain r3 d3 where s3: "fill_kernel_driver_names en r2 d2 = Some (r3, d3)"
      "length (dn_buf d3) = length (dn_buf d2)" "names_ok d3 (driver_list en r)"
      "dn_num d3 = dn_num d2 + int (length ?rest)"
    using fill_names [OF s2(5) [unfolded entries_ok_def] s2(2)] s1(3) s2(3) d0(2) dl o2 by fastforce
  have L: "dn_len d3 = ?L" "length (dn_buf d3) = Suc ?L" "take ?L (dn_buf d3) = spaced (driver_list en r)"
    using s3(2,3) s2(3) s1(3) d0(2) by (auto simp: names_ok_def)
  then have "(dn_buf d3)[?L := CHR 0x00] = spaced (driver_list en r) @ [CHR 0x00]"
    by (simp add: upd_conv_take_nth_drop)
  moreover have "dn_num d3 = dn_num d + int (length (driver_list en r))"
    using s3(4) s2(4) s1(4) d0(3) dl by simp
  moreover have "init_express_driver_names en r d = Some (r3, d3\<lparr>dn_buf := (dn_buf d3)[dn_len d3 := CHR 0x00]\<rparr>)"
    unfolding init_express_driver_names_def calc_total_driver_list [OF assms(1,2,4)] option.case Let_def
      d0_def [symmetric] s1(1) s2(1) prod.case s3(1) using L by simp
  ultimately show ?thesis using L by simp
qed

definition demo_registry :: registry where
  "demo_registry =
     (let dev = (\<lambda>i nm. \<lparr>di_device_index = i, di_enable = False, di_enable_default = True, di_name = nm,
        di_option_name = Some nm, di_driver_name = Some nm, di_device_id = 0, di_device_type = 2, di_static_prop = []\<rparr>) in
      [(60, (dev 0 ''mem'')\<lparr>di_device_id := 60\<rparr>), (40, (dev 1 ''bridge'')\<lparr>di_device_id := 40\<rparr>),
       (1, (dev 2 ''gpu'')\<lparr>di_device_id := 1\<rparr>), (13, (dev 3 ''codec'')\<lparr>di_device_id := 13\<rparr>)])"

theorem driver_names_correct_witness:
  "\<exists>r' d'. init_express_driver_names [True, True, True, False] demo_registry \<lparr>dn_buf = [], dn_len = 0, dn_num = 0\<rparr> =
       Some (r', d') \<and> dn_buf d' = ''gpu bridge mem '' @ [CHR 0x00] \<and> dn_num d' = 3"
proof -
  let ?en = "[True, True, True, False]" and ?d = "\<lparr>dn_buf = [], dn_len = 0, dn_num = 0\<rparr>"
  have ok: "registry_ok ?en demo_registry"
    by (auto simp: registry_ok_def demo_registry_def enabled_or_default_def device_enabled_def Let_def)
  have "driver_list ?en demo_registry = [''gpu'', ''bridge'', ''mem'']"
    by (simp add: driver_list_def demo_registry_def selected_names_def enabled_or_default_def device_enabled_def
        ordinary_def Let_def EXPRESS_GPU_DEVICE_ID_def EXPRESS_BRIDGE_DEVICE_ID_def)
  moreover have m: "map_of demo_registry EXPRESS_GPU_DEVICE_ID = Some (snd (demo_registry ! 2))"
      "map_of demo_registry EXPRESS_BRIDGE_DEVICE_ID = Some (snd (demo_registry ! 1))"
    by (simp_all add: demo_registry_def Let_def EXPRESS_GPU_DEVICE_ID_def EXPRESS_BRIDGE_DEVICE_ID_def)
  moreover have e: "device_enabled ?en (di_device_index (snd (demo_registry ! 2))) \<noteq> None"
      "device_enabled ?en (di_device_index (snd (demo_registry ! 1))) \<noteq> None"
    by (simp_all add: demo_registry_def Let_def device_enabled_def)
  ultimately obtain r' d' where "init_express_driver_names ?en demo_registry ?d = Some (r', d')"
      "dn_buf d' = ''gpu bridge mem '' @ [CHR 0x00]" "dn_num d' = 3"
    using driver_names_correct [OF ok m(1) e(1) m(2) e(2), of ?d] by auto
  then show ?thesis by blast
qed

end
