(* ===== verification/Device_Ctrl.thy ===== *)
theory Device_Ctrl
  imports Call_Packing Device_Registry
begin

text \<open>
  The control device and clustered calls, after
  \<^verbatim>\<open>hw/teleport-express/express_device_ctrl.c\<close>: \<^verbatim>\<open>express_device_ctrl_invoke\<close>,
  \<^verbatim>\<open>cluster_decode_invoke\<close> and \<^verbatim>\<open>create_call_from_cluster\<close>. A clustered call carries many
  calls in two parameters: a stream of 64-bit words describing the calls and a buffer
  with the parameter data. Reads behind the word stream and more parameters than the
  fixed arrays have room for are \<open>None\<close>.
\<close>

section \<open>The control device\<close>

definition FUNID_getExpressDeviceNum :: int where
  "FUNID_getExpressDeviceNum = push_bit 32 EXPRESS_CTRL_DEVICE_ID + push_bit 24 1 + 1"

definition FUNID_getExpressDeviceNames :: int where
  "FUNID_getExpressDeviceNames = push_bit 32 EXPRESS_CTRL_DEVICE_ID + push_bit 24 1 + 2"

definition FUNID_getExpressDeviceLogSettingInfo :: int where
  "FUNID_getExpressDeviceLogSettingInfo = push_bit 32 EXPRESS_CTRL_DEVICE_ID + push_bit 24 1 + 3"

text \<open>What the control device reports: driver count, driver names, log settings.\<close>

record ctrl_info =
  ci_driver_num :: int
  ci_driver_names :: "byte list"
  ci_log_setting :: "byte list"

text \<open>
  \<^verbatim>\<open>all_para[0]\<close> is read whatever \<^verbatim>\<open>get_para_from_call\<close> returned; with no parameter it is
  uninitialised stack memory.
\<close>

definition ctrl_reply :: "store \<Rightarrow> call_para list \<Rightarrow> (int \<Rightarrow> (byte list \<times> int) option) \<Rightarrow> store option" where
  "ctrl_reply m ps answer =
     (case ps of
        [] \<Rightarrow> None
      | p # _ \<Rightarrow>
          (case answer (c_int (cp_len p)) of
             None \<Rightarrow> Some m
           | Some (bs, n) \<Rightarrow> write_to_guest_mem m (Some (cp_data p)) (Some bs) 0 n))"

definition express_device_ctrl_invoke ::
  "ctrl_info \<Rightarrow> int \<Rightarrow> store \<Rightarrow> express_call \<Rightarrow> (store \<times> express_call \<times> int) option" where
  "express_device_ctrl_invoke ci now m call =
     (if ec_id call = FUNID_getExpressDeviceNum then
        (case get_para_from_call now call MAX_PARA_NUM of
           None \<Rightarrow> None
         | Some (n, ps, call') \<Rightarrow>
             map_option (\<lambda>m'. (m', call', 1))
               (ctrl_reply m ps (\<lambda>temp_len. if temp_len \<noteq> 8 then None
                  else Some (le_bytes 8 (push_bit 32 (ci_driver_num ci) + int (length (ci_driver_names ci) + 1)), 8))))
      else if ec_id call = FUNID_getExpressDeviceNames then
        (if ci_driver_num ci = 0 then Some (m, call, 1)
         else
           (case get_para_from_call now call MAX_PARA_NUM of
              None \<Rightarrow> None
            | Some (n, ps, call') \<Rightarrow>
                map_option (\<lambda>m'. (m', call', 1))
                  (ctrl_reply m ps (\<lambda>temp_len.
                     (let name_len = int (length (ci_driver_names ci)) + 1 in
                      if temp_len < name_len then None else Some (ci_driver_names ci @ [0], name_len))))))
      else if ec_id call = FUNID_getExpressDeviceLogSettingInfo then
        (if ci_driver_num ci = 0 then Some (m, call, 1)
         else
           (case get_para_from_call now call MAX_PARA_NUM of
              None \<Rightarrow> None
            | Some (n, ps, call') \<Rightarrow>
                map_option (\<lambda>m'. (m', call', 1))
                  (ctrl_reply m ps (\<lambda>temp_len.
                     if c_size temp_len > int (length (ci_log_setting ci)) then None
                     else Some (ci_log_setting ci, c_size temp_len)))))
      else Some (m, call, 1))"

section \<open>Clustered calls\<close>

definition EXPRESS_CLUSTER_FUN_ID :: int where
  "EXPRESS_CLUSTER_FUN_ID = 9999"

text \<open>
  A parameter of an unpacked call: \<open>cl_len\<close> is \<^verbatim>\<open>pre_elem[i+1].len\<close>, \<open>cl_data\<close> the offset
  into the data buffer or \<open>None\<close> for \<^verbatim>\<open>NULL\<close>, \<open>cl_seg_len\<close> the length of its one segment and
  \<open>cl_all_len\<close> that of its \<^verbatim>\<open>Guest_Mem\<close>, an \<^verbatim>\<open>int\<close>.
\<close>

record cluster_para =
  cl_len :: int
  cl_data :: "int option"
  cl_seg_len :: int
  cl_all_len :: int

record cluster_call =
  cc_id :: int
  cc_paras :: "cluster_para list"

definition cluster_para_of :: "int \<Rightarrow> int \<Rightarrow> cluster_para" where
  "cluster_para_of len off =
     (if off \<noteq> 0 then \<lparr>cl_len = len, cl_data = Some off, cl_seg_len = len, cl_all_len = c_int len\<rparr>
      else \<lparr>cl_len = len, cl_data = None, cl_seg_len = 0, cl_all_len = 0\<rparr>)"

fun cluster_paras :: "nat \<Rightarrow> int list \<Rightarrow> (cluster_para list \<times> int list) option" where
  "cluster_paras 0 ws = Some ([], ws)"
| "cluster_paras (Suc n) (len # off # ws) =
     (case cluster_paras n ws of
        None \<Rightarrow> None | Some (ps, ws') \<Rightarrow> Some (cluster_para_of len off # ps, ws'))"
| "cluster_paras (Suc n) ws = None"

text \<open>\<open>Some None\<close> is the return of 0; otherwise the call and the words behind it.\<close>

definition create_call_from_cluster :: "int list \<Rightarrow> (cluster_call \<times> int list) option option" where
  "create_call_from_cluster ws =
     (case ws of
        [] \<Rightarrow> None
      | i # ws1 \<Rightarrow>
          (if GET_FUN_ID i = EXPRESS_CLUSTER_FUN_ID then Some None
           else
             (case ws1 of
                [] \<Rightarrow> None
              | para_num # ws2 \<Rightarrow>
                  (if para_num > MAX_PARA_NUM then None
                   else map_option (\<lambda>(ps, ws3). Some (\<lparr>cc_id = i, cc_paras = ps\<rparr>, ws3))
                          (cluster_paras (nat para_num) ws2)))))"

lemma cluster_paras_shorter: "cluster_paras n ws = Some (ps, ws') \<Longrightarrow> length ws' \<le> length ws"
  by (induction n ws arbitrary: ps rule: cluster_paras.induct) (auto split: option.splits)

lemma create_call_shorter: "create_call_from_cluster ws = Some (Some (c, ws')) \<Longrightarrow> length ws' < length ws"
  by (auto simp: create_call_from_cluster_def split: list.splits if_splits dest: cluster_paras_shorter)

text \<open>The loop over the stream: the calls passed to \<^verbatim>\<open>real_decode_fun\<close>, in order.\<close>

function cluster_loop :: "int list \<Rightarrow> cluster_call list option" where
  "cluster_loop ws =
     (if ws = [] then Some []
      else
        (case create_call_from_cluster ws of
           None \<Rightarrow> None
         | Some None \<Rightarrow> Some []
         | Some (Some (c, ws')) \<Rightarrow> map_option (Cons c) (cluster_loop ws')))"
  by pat_completeness auto
termination
  by (relation "measure length") (auto dest: create_call_shorter)

declare cluster_loop.simps [simp del]

fun words_of :: "nat \<Rightarrow> byte list \<Rightarrow> int list" where
  "words_of 0 bs = []"
| "words_of (Suc n) bs = le_int (take 8 bs) # words_of n (drop 8 bs)"

text \<open>
  The copy of one parameter into a fresh host buffer, \<open>Some None\<close> when the call is given
  up; \<open>uninit\<close> is the content of memory from \<^verbatim>\<open>g_malloc\<close>.
\<close>

definition cluster_fetch :: "(nat \<Rightarrow> byte) \<Rightarrow> store \<Rightarrow> call_para \<Rightarrow> byte list option option" where
  "cluster_fetch uninit m para =
     (case get_direct_ptr (cp_data para) of
        (null_flag, temp) \<Rightarrow>
          if temp = 0 then
            (if cp_len para \<noteq> 0 \<and> \<not> null_flag then
               read_from_guest_mem m (Some (cp_data para)) (Some (map uninit [0..<nat (cp_len para)])) 0 (cp_len para)
             else Some None)
          else Some (Some (mem_read m temp (cp_len para))))"

record cluster_result =
  cr_invoked :: "cluster_call list"
  cr_save_buf :: "byte list"
  cr_notify :: int

definition cluster_decode_invoke ::
  "(nat \<Rightarrow> byte) \<Rightarrow> int \<Rightarrow> store \<Rightarrow> express_call \<Rightarrow> cluster_result option" where
  "cluster_decode_invoke uninit now m call =
     (case get_para_from_call now call MAX_PARA_NUM of
        None \<Rightarrow> None
      | Some (para_num, ps, call') \<Rightarrow>
          (if para_num \<noteq> 2 then Some \<lparr>cr_invoked = [], cr_save_buf = [], cr_notify = 0\<rparr>
           else if cp_len (ps ! 0) mod 8 \<noteq> 0 then Some \<lparr>cr_invoked = [], cr_save_buf = [], cr_notify = 0\<rparr>
           else
             (case cluster_fetch uninit m (ps ! 0) of
                None \<Rightarrow> None
              | Some None \<Rightarrow> Some \<lparr>cr_invoked = [], cr_save_buf = [], cr_notify = 0\<rparr>
              | Some (Some send_buf) \<Rightarrow>
                  (case cluster_fetch uninit m (ps ! 1) of
                     None \<Rightarrow> None
                   | Some None \<Rightarrow> Some \<lparr>cr_invoked = [], cr_save_buf = [], cr_notify = 0\<rparr>
                   | Some (Some save_buf) \<Rightarrow>
                       map_option (\<lambda>cs. \<lparr>cr_invoked = cs, cr_save_buf = save_buf, cr_notify = 1\<rparr>)
                         (cluster_loop (words_of (length send_buf div 8) send_buf))))))"

section \<open>What the guest encodes\<close>

text \<open>
  A call of the guest is its id with its parameters, each given by its length and its
  offset into the data buffer, where offset 0 stands for a null pointer. The words of the
  stream are the id, the number of parameters and the pairs.
\<close>

type_synonym guest_call = "int \<times> (int \<times> int) list"

definition cluster_words :: "guest_call \<Rightarrow> int list" where
  "cluster_words g = (case g of (i, ps) \<Rightarrow> i # int (length ps) # concat (map (\<lambda>(len, off). [len, off]) ps))"

definition guest_call_ok :: "byte list \<Rightarrow> guest_call \<Rightarrow> bool" where
  "guest_call_ok save g = (case g of (i, ps) \<Rightarrow>
     0 \<le> i \<and> i < 2 ^ 64 \<and> GET_FUN_ID i \<noteq> EXPRESS_CLUSTER_FUN_ID \<and> length ps \<le> 32 \<and>
     (\<forall>(len, off) \<in> set ps. 0 \<le> len \<and> len < 2 ^ 31 \<and> 0 \<le> off \<and> off < 2 ^ 63 \<and> off + len \<le> int (length save)))"

text \<open>
  What the decoder gets for a parameter: the bytes of its one segment in the copied data
  buffer, and a segment list whose total length is that of the parameter.
\<close>

definition cluster_para_data :: "byte list \<Rightarrow> cluster_para \<Rightarrow> byte list option" where
  "cluster_para_data save p = Option.bind (cl_data p) (\<lambda>off. buf_read save off (cl_seg_len p))"

definition passes_para :: "byte list \<Rightarrow> int \<times> int \<Rightarrow> cluster_para \<Rightarrow> bool" where
  "passes_para save lo p = (case lo of (len, off) \<Rightarrow> cl_len p = len \<and>
     (if off = 0 then cl_data p = None \<and> cl_seg_len p = 0 \<and> cl_all_len p = 0
      else cluster_para_data save p = Some (take (nat len) (drop (nat off) save)) \<and> cl_all_len p = len))"

definition passes_call :: "byte list \<Rightarrow> guest_call \<Rightarrow> cluster_call \<Rightarrow> bool" where
  "passes_call save g c \<longleftrightarrow> cc_id c = fst g \<and> list_all2 (passes_para save) (snd g) (cc_paras c)"

definition words_bytes :: "int list \<Rightarrow> byte list" where
  "words_bytes ws = concat (map (le_bytes 8) ws)"

lemma cluster_para_passes:
  assumes "0 \<le> len" "len < 2 ^ 31" "0 \<le> off" "off + len \<le> int (length save)"
  shows "passes_para save (len, off) (cluster_para_of len off)"
  using assms by (simp add: passes_para_def cluster_para_of_def cluster_para_data_def buf_read_def)

lemma cluster_paras_encode:
  assumes "\<forall>(len, off) \<in> set ps. 0 \<le> len \<and> len < 2 ^ 31 \<and> 0 \<le> off \<and> off < 2 ^ 63 \<and> off + len \<le> int (length save)"
  shows "\<exists>qs. cluster_paras (length ps) (concat (map (\<lambda>(len, off). [len, off]) ps) @ ws) = Some (qs, ws) \<and>
    list_all2 (passes_para save) ps qs"
  using assms
proof (induction ps)
  case (Cons lo ps)
  obtain len off where lo: "lo = (len, off)" by (cases lo)
  obtain qs where "cluster_paras (length ps) (concat (map (\<lambda>(len, off). [len, off]) ps) @ ws) = Some (qs, ws)"
      "list_all2 (passes_para save) ps qs" using Cons by auto
  moreover have "passes_para save lo (cluster_para_of len off)"
    unfolding lo by (rule cluster_para_passes) (use Cons.prems lo in auto)
  ultimately show ?case by (simp add: lo)
qed simp

lemma create_call_encode:
  assumes "guest_call_ok save g"
  shows "\<exists>c. create_call_from_cluster (cluster_words g @ ws) = Some (Some (c, ws)) \<and> passes_call save g c"
proof -
  obtain i ps where g: "g = (i, ps)" by (cases g)
  obtain qs where "cluster_paras (length ps) (concat (map (\<lambda>(len, off). [len, off]) ps) @ ws) = Some (qs, ws)"
      "list_all2 (passes_para save) ps qs"
    using cluster_paras_encode [of ps save ws] assms by (auto simp: guest_call_ok_def g)
  with assms show ?thesis
    by (simp add: create_call_from_cluster_def cluster_words_def guest_call_ok_def passes_call_def g MAX_PARA_NUM_def)
qed

lemma cluster_loop_encode:
  "list_all (guest_call_ok save) gs \<Longrightarrow>
     \<exists>cs. cluster_loop (concat (map cluster_words gs)) = Some cs \<and> list_all2 (passes_call save) gs cs"
proof (induction gs)
  case Nil
  then show ?case by (simp add: cluster_loop.simps)
next
  case (Cons g gs)
  then obtain cs where cs: "cluster_loop (concat (map cluster_words gs)) = Some cs" "list_all2 (passes_call save) gs cs" by auto
  obtain c where c: "create_call_from_cluster (cluster_words g @ concat (map cluster_words gs)) =
      Some (Some (c, concat (map cluster_words gs)))" "passes_call save g c"
    using create_call_encode [of save g] Cons.prems by auto
  have "cluster_words g \<noteq> []" by (simp add: cluster_words_def split: prod.split)
  with cs c show ?case by (simp add: cluster_loop.simps [of "cluster_words g @ _"])
qed

lemma cluster_words_range1:
  assumes "guest_call_ok save g" "w \<in> set (cluster_words g)"
  shows "0 \<le> w \<and> w < 2 ^ 64"
proof -
  obtain i ps where g: "g = (i, ps)" by (cases g)
  consider "w = i" | "w = int (length ps)" | len off where "(len, off) \<in> set ps" "w = len \<or> w = off"
    using assms(2) by (auto simp: cluster_words_def g)
  then show ?thesis
  proof cases
    case 3
    with assms(1) have "0 \<le> len" "len < 2 ^ 31" "0 \<le> off" "off < 2 ^ 63" by (auto simp: guest_call_ok_def g)
    with 3 show ?thesis by auto
  qed (use assms(1) in \<open>simp_all add: guest_call_ok_def g\<close>)
qed

lemma cluster_words_range:
  "list_all (guest_call_ok save) gs \<Longrightarrow> \<forall>w \<in> set (concat (map cluster_words gs)). 0 \<le> w \<and> w < 2 ^ 64"
  using cluster_words_range1 by (auto simp: list_all_iff)

lemma words_of_bytes:
  "\<forall>w \<in> set ws. 0 \<le> w \<and> w < 2 ^ 64 \<Longrightarrow> words_of (length ws) (words_bytes ws) = ws"
  by (induction ws) (auto simp: words_bytes_def le_int_le_bytes)

lemma length_words_bytes [simp]: "length (words_bytes ws) = 8 * length ws"
  by (induction ws) (auto simp: words_bytes_def)

lemma cluster_fetch_bytes:
  assumes "gm_wf (cp_data p)" "cp_len p = gm_all_len (cp_data p)" "0 < cp_len p"
  shows "cluster_fetch uninit m p = Some (Some (gm_bytes m (cp_data p)))"
proof -
  let ?g = "cp_data p"
  have len: "int (length (gm_bytes m ?g)) = cp_len p"
    using assms length_gm_bytes by simp
  have rd: "read_from_guest_mem m (Some ?g) (Some (map uninit [0..<nat (cp_len p)])) 0 (cp_len p) =
      Some (Some (gm_bytes m ?g))"
    using assms len by (subst read_eq) auto
  show ?thesis
  proof (cases "gm_scatter ?g")
    case Nil
    with assms show ?thesis by (simp add: gm_wf_def)
  next
    case (Cons s sg)
    then show ?thesis
      using assms rd
      by (cases sg) (simp_all add: cluster_fetch_def get_direct_ptr_def gm_wf_def gm_bytes_def)
  qed
qed

section \<open>Properties\<close>

text \<open>
  C11. Unpacking a clustered call invokes the decoder once for every call the guest
  packed, in order, with its id, and each parameter of such a call is exactly the bytes the
  guest announced: those at its offset of the data buffer with its length, or a null
  pointer for offset 0. This holds for every segmentation of the two parameters in guest
  memory. Then the cluster itself is completed with a notification.
\<close>

theorem cluster_decode_roundtrip:
  assumes "get_para_from_call now call 32 = Some (2, [p0, p1], call')"
    and "gm_wf (cp_data p0)" "cp_len p0 = gm_all_len (cp_data p0)"
    and "gm_wf (cp_data p1)" "cp_len p1 = gm_all_len (cp_data p1)" "0 < cp_len p1"
    and "gm_bytes m (cp_data p0) = words_bytes (concat (map cluster_words gs))" "gs \<noteq> []"
    and "list_all (guest_call_ok (gm_bytes m (cp_data p1))) gs"
  shows "\<exists>cs. cluster_decode_invoke uninit now m call =
      Some \<lparr>cr_invoked = cs, cr_save_buf = gm_bytes m (cp_data p1), cr_notify = 1\<rparr> \<and>
    list_all2 (passes_call (gm_bytes m (cp_data p1))) gs cs"
proof -
  let ?ws = "concat (map cluster_words gs)"
  have len: "cp_len p0 = int (8 * length ?ws)"
    using length_gm_bytes [OF assms(2), of m] assms(3,7) by simp
  have "?ws \<noteq> []" using assms(8) by (cases gs) (auto simp: cluster_words_def split: prod.splits)
  then have "0 < cp_len p0" "cp_len p0 mod 8 = 0" using len by auto
  moreover obtain cs where "cluster_loop ?ws = Some cs" "list_all2 (passes_call (gm_bytes m (cp_data p1))) gs cs"
    using cluster_loop_encode [OF assms(9)] by blast
  ultimately show ?thesis
    using assms(1,7) cluster_fetch_bytes [OF assms(2,3)] cluster_fetch_bytes [OF assms(4-6)]
      words_of_bytes [OF cluster_words_range [OF assms(9)]]
    by (simp add: cluster_decode_invoke_def MAX_PARA_NUM_def)
qed

definition cl_demo_calls :: "guest_call list" where
  "cl_demo_calls = [(257698037765, [(4, 8)])]"

definition cl_demo_store :: store where
  "cl_demo_store = mem_write (mem_write (\<lambda>_. 0) 6000 (replicate 8 0 @ [1, 2, 3, 4] @ replicate 4 0)) 5000
     (words_bytes [257698037765, 1, 4, 8])"

definition cl_demo_mem :: "addr \<Rightarrow> int \<Rightarrow> guest_mem" where
  "cl_demo_mem a n = \<lparr>gm_scatter = [\<lparr>sdata = a, slen = n\<rparr>], gm_all_len = n\<rparr>"

definition cl_demo_elem :: "addr \<Rightarrow> int \<Rightarrow> queue_elem" where
  "cl_demo_elem a n = \<lparr>qe_index = 0, qe_out = [\<lparr>sdata = a, slen = n\<rparr>], qe_in = [],
     qe_para = Some (0, cl_demo_mem a n), qe_len = n\<rparr>"

definition cl_demo_call :: express_call where
  "cl_demo_call = demo_call\<lparr>ec_id := 257698047759,
     ec_elems := [cl_demo_elem 1000 64, cl_demo_elem 5000 32, cl_demo_elem 6000 16]\<rparr>"

lemma cl_demo_facts:
  "get_para_from_call 9 cl_demo_call 32 = Some (2, [\<lparr>cp_data = cl_demo_mem 5000 32, cp_len = 32\<rparr>,
     \<lparr>cp_data = cl_demo_mem 6000 16, cp_len = 16\<rparr>], cl_demo_call\<lparr>ec_spend_time := 9\<rparr>)"
  "gm_wf (cl_demo_mem 5000 32)" "gm_wf (cl_demo_mem 6000 16)"
  "gm_bytes cl_demo_store (cl_demo_mem 5000 32) = words_bytes [257698037765, 1, 4, 8]"
proof -
  show "get_para_from_call 9 cl_demo_call 32 = Some (2, [\<lparr>cp_data = cl_demo_mem 5000 32, cp_len = 32\<rparr>,
     \<lparr>cp_data = cl_demo_mem 6000 16, cp_len = 16\<rparr>], cl_demo_call\<lparr>ec_spend_time := 9\<rparr>)"
    by (simp add: get_para_from_call_def cl_demo_call_def cl_demo_elem_def demo_call_def)
  have "mem_read cl_demo_store 5000 32 = words_bytes [257698037765, 1, 4, 8]"
    unfolding cl_demo_store_def by (rule mem_read_write_same) simp
  then show "gm_bytes cl_demo_store (cl_demo_mem 5000 32) = words_bytes [257698037765, 1, 4, 8]"
    by (simp add: gm_bytes_def cl_demo_mem_def)
qed (simp_all add: gm_wf_def cl_demo_mem_def)

lemma cl_demo_words: "concat (map cluster_words cl_demo_calls) = [257698037765, 1, 4, 8]"
  by (simp add: cl_demo_calls_def cluster_words_def)

lemma cl_demo_save: "gm_bytes cl_demo_store (cl_demo_mem 6000 16) = replicate 8 0 @ [1, 2, 3, 4] @ replicate 4 0"
proof -
  have "mem_read cl_demo_store 6000 16 = replicate 8 0 @ [1, 2, 3, 4] @ replicate 4 0"
    unfolding cl_demo_store_def
    by (rule trans [OF mem_read_cong [where m' = "mem_write (\<lambda>_. 0) 6000 (replicate 8 0 @ [1, 2, 3, 4] @ replicate 4 0)"]
          mem_read_write_same]) (simp_all add: mem_write_def)
  then show ?thesis by (simp add: gm_bytes_def cl_demo_mem_def)
qed

lemma cl_demo_ok: "list_all (guest_call_ok (gm_bytes cl_demo_store (cl_demo_mem 6000 16))) cl_demo_calls" "cl_demo_calls \<noteq> []"
  by (simp_all add: cl_demo_calls_def guest_call_ok_def GET_FUN_ID_def fun_id_mask EXPRESS_CLUSTER_FUN_ID_def
      take_bit_eq_mod cl_demo_save flip: take_bit_eq_mask)

theorem cluster_decode_roundtrip_witness:
  "\<exists>r c p. cluster_decode_invoke (\<lambda>_. 0) 9 cl_demo_store cl_demo_call = Some r \<and> cr_invoked r = [c] \<and>
     cc_id c = 257698037765 \<and> cc_paras c = [p] \<and> cluster_para_data (cr_save_buf r) p = Some [1, 2, 3, 4]"
proof -
  let ?save = "gm_bytes cl_demo_store (cl_demo_mem 6000 16)"
  obtain cs where "cluster_decode_invoke (\<lambda>_. 0) 9 cl_demo_store cl_demo_call =
      Some \<lparr>cr_invoked = cs, cr_save_buf = ?save, cr_notify = 1\<rparr>" "list_all2 (passes_call ?save) cl_demo_calls cs"
    using cluster_decode_roundtrip [OF cl_demo_facts(1), where m = cl_demo_store and gs = cl_demo_calls and
        uninit = "\<lambda>_. 0"] cl_demo_facts cl_demo_ok cl_demo_words
    by (auto simp: cl_demo_mem_def)
  then show ?thesis
    by (auto simp: cl_demo_calls_def list_all2_Cons1 passes_call_def passes_para_def cl_demo_save)
qed

text \<open>
  A request for the driver names with a large enough parameter gets exactly the
  zero-terminated name list at its start, the rest of the parameter is kept, and the call
  is completed with a notification.
\<close>

theorem ctrl_names_reply:
  assumes "ec_id call = FUNID_getExpressDeviceNames" "ci_driver_num ci \<noteq> 0"
    and "get_para_from_call now call 32 = Some (n, p # ps, call')"
    and "gm_wf (cp_data p)" "cp_len p = gm_all_len (cp_data p)"
    and "int (length (ci_driver_names ci)) < cp_len p"
  shows "\<exists>m'. express_device_ctrl_invoke ci now m call = Some (m', call', 1) \<and>
    gm_bytes m' (cp_data p) = ci_driver_names ci @ [0] @ drop (length (ci_driver_names ci) + 1) (gm_bytes m (cp_data p))"
proof -
  let ?names = "ci_driver_names ci"
  have len: "c_int (cp_len p) = cp_len p"
    using assms(4,5,6) by (simp add: gm_wf_def)
  have bound: "0 + (int (length ?names) + 1) \<le> int (length (gm_bytes m (cp_data p)))"
    using assms(5,6) length_gm_bytes [OF assms(4), of m] by simp
  obtain m' where m': "guest_write m (cp_data p) (?names @ [0]) 0 (int (length ?names) + 1) = Some m'"
      "gm_bytes m' (cp_data p) = take (nat 0) (gm_bytes m (cp_data p)) @ take (nat (int (length ?names) + 1)) (?names @ [0]) @
        drop (nat (0 + (int (length ?names) + 1))) (gm_bytes m (cp_data p))"
    using gc.wr_view [OF assms(4) order_refl _ bound, of "?names @ [0]"] by auto
  have "nat (int (length ?names) + 1) = length ?names + 1" by simp
  with m' show ?thesis
    using assms(1-3) len assms(6)
    by (simp add: express_device_ctrl_invoke_def FUNID_getExpressDeviceNames_def FUNID_getExpressDeviceNum_def
        MAX_PARA_NUM_def ctrl_reply_def Let_def guest_write_def)
qed

definition ctrl_demo_info :: ctrl_info where
  "ctrl_demo_info = \<lparr>ci_driver_num = 1, ci_driver_names = [103, 112, 117], ci_log_setting = []\<rparr>"

theorem ctrl_names_reply_witness:
  "\<exists>m' c'. express_device_ctrl_invoke ctrl_demo_info 9 cl_demo_store
       (cl_demo_call\<lparr>ec_id := FUNID_getExpressDeviceNames\<rparr>) = Some (m', c', 1) \<and>
     take 4 (gm_bytes m' (cl_demo_mem 5000 32)) = [103, 112, 117, 0]"
proof -
  let ?c = "cl_demo_call\<lparr>ec_id := FUNID_getExpressDeviceNames\<rparr>"
  have gp: "get_para_from_call 9 ?c 32 = Some (2, \<lparr>cp_data = cl_demo_mem 5000 32, cp_len = 32\<rparr> #
      [\<lparr>cp_data = cl_demo_mem 6000 16, cp_len = 16\<rparr>], ?c\<lparr>ec_spend_time := 9\<rparr>)"
    by (simp add: get_para_from_call_def cl_demo_call_def cl_demo_elem_def demo_call_def)
  obtain m' where "express_device_ctrl_invoke ctrl_demo_info 9 cl_demo_store ?c = Some (m', ?c\<lparr>ec_spend_time := 9\<rparr>, 1)"
      "gm_bytes m' (cl_demo_mem 5000 32) = [103, 112, 117] @ [0] @ drop 4 (gm_bytes cl_demo_store (cl_demo_mem 5000 32))"
    using ctrl_names_reply [OF _ _ gp, of ctrl_demo_info cl_demo_store] cl_demo_facts(2)
    by (auto simp: ctrl_demo_info_def cl_demo_mem_def eval_nat_numeral)
  then show ?thesis by auto
qed

end
