(* ===== verification/Distribute.thy ===== *)
theory Distribute
  imports Recycle_Queue Device_Ctrl
begin

text \<open>
  Distribution of the calls of the output queue, after
  \<^verbatim>\<open>hw/teleport-express/teleport_express_distribute.c\<close> (\<^verbatim>\<open>push_to_thread\<close>,
  \<^verbatim>\<open>push_free_callback\<close>, \<^verbatim>\<open>virtqueue_data_distribute_and_recycle\<close>,
  \<^verbatim>\<open>call_distribute_thread\<close>) and \<^verbatim>\<open>teleport_express_output_handle\<close> of
  \<^verbatim>\<open>hw/teleport-express/teleport_express.c\<close>. The callbacks a device registers
  (\<^verbatim>\<open>get_context\<close>, \<^verbatim>\<open>remove_context\<close>) are functions in the environment. The lock
  \<^verbatim>\<open>atomic_distribute_thread_running\<close> by which the distribution thread and the virtual CPU
  take turns on the queue is an interleaving of its atomic accesses.
\<close>

section \<open>Routing a call\<close>

definition EXPRESS_TERMINATE_FUN_ID :: int where
  "EXPRESS_TERMINATE_FUN_ID = 0"

record call_ids4 =
  id_device :: int
  id_thread :: int
  id_process :: int
  id_unique :: int

record dist_env =
  de_registry :: registry
  de_get_context :: "call_ids4 \<Rightarrow> nat option"
  de_remove_context :: "int \<Rightarrow> (call_ids4 \<Rightarrow> bool) option"
  de_ctrl :: ctrl_info
  de_null_ptr :: addr

datatype route = Route_ctrl | Route_drop | Route_thread nat express_call bool

text \<open>\<open>Route_thread t c ended\<close>: \<^verbatim>\<open>call_push\<close> into context \<open>t\<close>; \<open>ended\<close> clears \<^verbatim>\<open>context->init\<close>.\<close>

definition push_to_thread_route :: "dist_env \<Rightarrow> express_call \<Rightarrow> route" where
  "push_to_thread_route env call =
     (let device_id = GET_DEVICE_ID (ec_id call); fun_id = GET_FUN_ID (ec_id call);
          ids = \<lparr>id_device = device_id, id_thread = ec_thread_id call, id_process = ec_process_id call,
                 id_unique = ec_unique_id call\<rparr> in
      if device_id = EXPRESS_CTRL_DEVICE_ID then Route_ctrl
      else
        (case get_express_device_info (de_registry env) device_id of
           None \<Rightarrow> Route_drop
         | Some info \<Rightarrow>
             (if (di_device_type info) AND OUTPUT_DEVICE_TYPE = 0 then Route_drop
              else
                (case de_get_context env ids of
                   None \<Rightarrow> Route_drop
                 | Some t \<Rightarrow>
                     (if fun_id = EXPRESS_TERMINATE_FUN_ID then
                        (case de_remove_context env device_id of
                           None \<Rightarrow> Route_thread t call False
                         | Some remove \<Rightarrow>
                             (if remove ids then Route_thread t (call\<lparr>ec_is_end := True\<rparr>) True
                              else Route_thread t call False))
                      else Route_thread t call False)))))"

section \<open>One round of the distribution\<close>

record dist_state =
  ds_store :: store
  ds_pack :: pack_state
  ds_recycle :: "express_call recycle_queue"
  ds_threads :: "express_call call_ring list"
  ds_wakeups :: nat

definition wake_up_distribute :: "dist_state \<Rightarrow> dist_state" where
  "wake_up_distribute d = d\<lparr>ds_wakeups := ds_wakeups d + 1\<rparr>"

definition push_free_callback :: "int \<Rightarrow> express_call \<Rightarrow> int \<Rightarrow> dist_state \<Rightarrow> dist_state option" where
  "push_free_callback now call notify d =
     (case common_call_callback now (ds_store d) call of
        None \<Rightarrow> None
      | Some (m, call') \<Rightarrow>
          (case recycle_push (ds_recycle d) call' of
             None \<Rightarrow> None
           | Some q \<Rightarrow>
               (let d' = d\<lparr>ds_store := m, ds_recycle := q\<rparr> in
                Some (if notify \<noteq> 0 then wake_up_distribute d' else d'))))"

definition push_to_thread :: "dist_env \<Rightarrow> int \<Rightarrow> express_call \<Rightarrow> dist_state \<Rightarrow> dist_state option" where
  "push_to_thread env now call d =
     (case push_to_thread_route env call of
        Route_ctrl \<Rightarrow>
          (case express_device_ctrl_invoke (de_ctrl env) now (ds_store d) call of
             None \<Rightarrow> None
           | Some (m, call', notify) \<Rightarrow> push_free_callback now call' notify (d\<lparr>ds_store := m\<rparr>))
      | Route_drop \<Rightarrow> push_free_callback now call 0 d
      | Route_thread t call' ended \<Rightarrow>
          (if t < length (ds_threads d) then
             map_option (\<lambda>r. d\<lparr>ds_threads := (ds_threads d)[t := r]\<rparr>) (call_push (ds_threads d ! t) call')
           else None))"

definition virtqueue_data_distribute_and_recycle ::
  "dist_env \<Rightarrow> int \<Rightarrow> bool \<Rightarrow> bool \<Rightarrow> dist_state \<Rightarrow> (bool \<times> bool \<times> bool \<times> dist_state) option" where
  "virtqueue_data_distribute_and_recycle env now pop_flag recycle_flag d =
     (case (if pop_flag then pack_call_from_queue (ds_store d) (de_null_ptr env) 0 (ds_pack d)
            else Some (None, ds_pack d)) of
        None \<Rightarrow> None
      | Some (co, pk) \<Rightarrow>
          (let d1 = d\<lparr>ds_pack := pk\<rparr> in
           case (case co of
                   None \<Rightarrow> Some d1
                 | Some call \<Rightarrow> push_to_thread env now (call\<lparr>ec_is_end := False\<rparr>) d1) of
             None \<Rightarrow> None
           | Some d2 \<Rightarrow>
               (let irq1 = (case co of None \<Rightarrow> False
                            | Some call \<Rightarrow> GET_DEVICE_ID (ec_id call) = EXPRESS_CTRL_DEVICE_ID \<and>
                                           FUN_NEED_SYNC (ec_id call) \<noteq> 0) in
                case (if recycle_flag then recycle_pop (ds_recycle d2) else None) of
                  None \<Rightarrow> Some (co \<noteq> None, False, irq1, d2)
                | Some (out_call, q) \<Rightarrow>
                    Some (co \<noteq> None, True, irq1 \<or> FUN_NEED_SYNC (ec_id out_call) \<noteq> 0,
                          d2\<lparr>ds_recycle := q, ds_pack := release_one_call out_call False (ds_pack d2)\<rparr>))))"

text \<open>
  One pass through the loop of \<^verbatim>\<open>call_distribute_thread\<close>; the result counts the
  \<^verbatim>\<open>virtio_notify\<close> calls and says whether the pass went to sleep.
\<close>

record dist_counters =
  dc_release_cnt :: int
  dc_pop_cnt :: int
  dc_in_handle_num :: int

record dist_pass =
  dp_notifies :: nat
  dp_slept :: bool

definition distribute_count :: "bool \<Rightarrow> bool \<Rightarrow> dist_counters \<Rightarrow> dist_counters \<times> dist_pass" where
  "distribute_count popped recycled c =
     (let c1 = (if popped then c\<lparr>dc_pop_cnt := dc_pop_cnt c + 1, dc_in_handle_num := dc_in_handle_num c + 1\<rparr> else c);
          c2 = (if recycled then c1\<lparr>dc_in_handle_num := dc_in_handle_num c1 - 1,
                                    dc_release_cnt := dc_release_cnt c1 + 1\<rparr> else c1);
          idle = (\<not> popped \<and> \<not> recycled);
          n1 = (if idle \<and> dc_release_cnt c2 \<noteq> 0 then 1 else 0);
          c3 = (if idle then c2\<lparr>dc_release_cnt := 0, dc_pop_cnt := 0\<rparr> else c2);
          n2 = (if dc_release_cnt c3 \<ge> 128 then 1 else 0);
          c4 = (if dc_release_cnt c3 \<ge> 128 then c3\<lparr>dc_release_cnt := 0\<rparr> else c3) in
      (c4, \<lparr>dp_notifies = n1 + n2, dp_slept = idle\<rparr>))"

definition distribute_pass ::
  "dist_env \<Rightarrow> int \<Rightarrow> dist_state \<times> dist_counters \<Rightarrow> (dist_state \<times> dist_counters \<times> dist_pass) option" where
  "distribute_pass env now dc =
     (case virtqueue_data_distribute_and_recycle env now True True (fst dc) of
        None \<Rightarrow> None
      | Some (popped, recycled, irq, d) \<Rightarrow> Some (d, distribute_count popped recycled (snd dc)))"

text \<open>
  The kick handler of the output queue. The processing loop reads the lock before each
  round; \<open>stops\<close> are the values of that test in order, its end the end of the observation.
\<close>

fun output_loop :: "dist_env \<Rightarrow> int \<Rightarrow> bool list \<Rightarrow> bool \<Rightarrow> dist_state \<Rightarrow> (bool \<times> dist_state) option" where
  "output_loop env now [] need_irq d = Some (need_irq, d)"
| "output_loop env now (stop # stops) need_irq d =
     (if stop then Some (need_irq, d)
      else
        (case virtqueue_data_distribute_and_recycle env now True True d of
           None \<Rightarrow> None
         | Some (popped, recycled, irq, d') \<Rightarrow>
             (if popped \<or> recycled then output_loop env now stops (need_irq \<or> irq) d'
              else Some (need_irq \<or> irq, d'))))"

record output_result =
  or_thread_run :: int
  or_null_ptr :: addr
  or_thread_created :: bool
  or_notified :: bool
  or_state :: dist_state

definition teleport_express_output_handle ::
  "dist_env \<Rightarrow> int \<Rightarrow> int \<Rightarrow> queue_elem \<Rightarrow> bool list \<Rightarrow> int \<Rightarrow> int \<Rightarrow> dist_state \<Rightarrow> output_result option" where
  "teleport_express_output_handle env now t_spend first_elem stops thread_run running d =
     (if thread_run = 0 then
        map_option (\<lambda>(m, np, pk). \<lparr>or_thread_run = 1, or_null_ptr = np, or_thread_created = True, or_notified = False,
            or_state = d\<lparr>ds_store := m, ds_pack := pk\<rparr>\<rparr>)
          (guest_null_ptr_init t_spend first_elem (ds_store d) (de_null_ptr env) (ds_pack d) 0)
      else if thread_run = 1 then
        Some \<lparr>or_thread_run = 1, or_null_ptr = de_null_ptr env, or_thread_created = False, or_notified = False, or_state = d\<rparr>
      else if running = 0 then
        map_option (\<lambda>(irq, d'). \<lparr>or_thread_run = thread_run, or_null_ptr = de_null_ptr env,
            or_thread_created = False, or_notified = irq, or_state = d'\<rparr>)
          (output_loop env now stops False (wake_up_distribute d))
      else
        Some \<lparr>or_thread_run = thread_run, or_null_ptr = de_null_ptr env, or_thread_created = False,
          or_notified = False, or_state = d\<rparr>)"

section \<open>Ownership across a round\<close>

definition same_owner :: "express_call \<Rightarrow> express_call \<Rightarrow> bool" where
  "same_owner c c' \<longleftrightarrow> ec_slot c' = ec_slot c \<and> ec_elems c' = ec_elems c \<and> ec_vq c' = ec_vq c"

text \<open>
  The calls in flight: waiting in a thread ring (\<open>yss\<close>), in the recycle queue (\<open>xs\<close>), or
  in the hands of a device (\<open>h\<close>).
\<close>

definition dist_inv ::
  "express_call multiset \<Rightarrow> express_call list list \<Rightarrow> express_call list \<Rightarrow> dist_state \<Rightarrow> bool" where
  "dist_inv h yss xs d \<longleftrightarrow> list_all2 ring_contents (ds_threads d) yss \<and> rq_contents (ds_recycle d) xs \<and>
     pk_inv (h + mset (concat yss) + mset xs) (ds_pack d)"

text \<open>The resources of a call: its slot, its elements and its queue.\<close>

definition owner :: "express_call \<Rightarrow> nat \<times> queue_elem list \<times> nat" where
  "owner c = (ec_slot c, ec_elems c, ec_vq c)"

lemma same_owner_iff: "same_owner c c' \<longleftrightarrow> owner c' = owner c"
  by (auto simp: same_owner_def owner_def)

lemma pk_inv_same_owner:
  "same_owner c c' \<Longrightarrow> pk_inv (add_mset c out) s \<Longrightarrow> pk_inv (add_mset c' out) s"
  by (auto simp: pk_inv_def owns_def same_owner_def call_mems_def)

lemma route_same_owner: "push_to_thread_route env c = Route_thread t c' e \<Longrightarrow> same_owner c c'"
  by (auto simp: push_to_thread_route_def Let_def same_owner_def split: if_splits option.splits)

lemma callback_same_owner: "common_call_callback now m c = Some (m', c') \<Longrightarrow> same_owner c c'"
  by (auto simp: common_call_callback_def Let_def same_owner_def split: option.splits if_splits)

lemma get_para_same_owner: "get_para_from_call now c n = Some (k, ps, c') \<Longrightarrow> same_owner c c'"
  by (auto simp: get_para_from_call_def same_owner_def split: option.splits if_splits)

lemma ctrl_same_owner: "express_device_ctrl_invoke ci now m c = Some (m', c', n) \<Longrightarrow> same_owner c c'"
  using get_para_same_owner [of now c MAX_PARA_NUM]
  by (fastforce simp: express_device_ctrl_invoke_def same_owner_def split: if_splits option.splits prod.splits)

lemma same_owner_trans: "same_owner a b \<Longrightarrow> same_owner b c \<Longrightarrow> same_owner a c"
  by (simp add: same_owner_def)

lemma call_push_room:
  assumes "ring_contents r xs" "call_push r c = Some r'"
  shows "ring_contents r' (xs @ [c])"
proof -
  have "length xs \<noteq> CALL_BUF_SIZE - 1"
  proof
    assume "length xs = CALL_BUF_SIZE - 1"
    then have eq: "cr_read r + (length xs + 1) = cr_read r + CALL_BUF_SIZE" by (simp add: CALL_BUF_SIZE_def)
    have "(cr_write r + 1) mod CALL_BUF_SIZE = (cr_read r + (length xs + 1)) mod CALL_BUF_SIZE"
      using assms(1) by (simp add: ring_contents_def mod_simps)
    also have "\<dots> = cr_read r" unfolding eq using assms(1) by (simp add: ring_contents_def)
    finally have "(cr_write r + 1) mod CALL_BUF_SIZE = cr_read r" .
    with assms(2) show False by (simp add: call_push_def)
  qed
  then have "length xs < CALL_BUF_SIZE - 1" using assms(1) by (auto simp: ring_contents_def)
  with call_push_contents [OF assms(1), of c] assms(2) show ?thesis by auto
qed

lemma recycle_push_room:
  assumes "rq_contents q xs" "recycle_push q c = Some q'"
  shows "rq_contents q' (xs @ [c])"
proof -
  have "length xs \<noteq> RECYCLE_SIZE"
  proof
    assume full: "length xs = RECYCLE_SIZE"
    have "rq_slot q i \<noteq> None" if i: "i < RECYCLE_SIZE" for i
    proof -
      obtain j where "j < RECYCLE_SIZE" "((rq_header q + 1) mod RECYCLE_SIZE + j) mod RECYCLE_SIZE = i"
        using ring_offset_ex [OF recycle_pos(2) i] by blast
      then have "j < RECYCLE_SIZE" "(rq_header q + 1 + j) mod RECYCLE_SIZE = i"
        by (simp_all add: mod_add_left_eq)
      with assms(1) full show ?thesis by (auto simp: rq_contents_def)
    qed
    then have "recycle_push q c = None"
      unfolding recycle_push_def
      using ring_scan_full_spins [of "(rq_tail q + 1) mod RECYCLE_SIZE" RECYCLE_SIZE "\<lambda>i. rq_slot q i \<noteq> None"]
        recycle_pos(2) by simp
    with assms(2) show False by simp
  qed
  then have "length xs < RECYCLE_SIZE" using assms(1) by (simp add: rq_contents_def)
  with recycle_push_contents [OF assms(1), of c] assms(2) show ?thesis by auto
qed

lemma push_free_callback_owner:
  assumes "list_all2 ring_contents (ds_threads d) yss" "rq_contents (ds_recycle d) xs"
    and "pk_inv (add_mset c (h + mset (concat yss) + mset xs)) (ds_pack d)"
    and "push_free_callback now c n d = Some d'"
  shows "\<exists>c'. same_owner c c' \<and> dist_inv h yss (xs @ [c']) d'"
proof -
  obtain m c' q where c': "common_call_callback now (ds_store d) c = Some (m, c')"
      "recycle_push (ds_recycle d) c' = Some q"
      "d' = (if n \<noteq> 0 then wake_up_distribute (d\<lparr>ds_store := m, ds_recycle := q\<rparr>) else d\<lparr>ds_store := m, ds_recycle := q\<rparr>)"
    using assms(4) by (auto simp: push_free_callback_def Let_def split: option.splits prod.splits)
  have own: "same_owner c c'" by (rule callback_same_owner [OF c'(1)])
  have "dist_inv h yss (xs @ [c']) d'"
    using assms(1) recycle_push_room [OF assms(2) c'(2)] pk_inv_same_owner [OF own assms(3)] c'(3)
    by (simp add: dist_inv_def wake_up_distribute_def)
  with own show ?thesis by blast
qed

lemma mset_concat_update:
  "t < length yss \<Longrightarrow> mset (concat (yss[t := yss ! t @ [c]])) = add_mset c (mset (concat yss))"
proof (induction yss arbitrary: t)
  case (Cons ys yss)
  then show ?case by (cases t) auto
qed simp

lemma thread_push_inv:
  assumes "list_all2 ring_contents (ds_threads d) yss" "rq_contents (ds_recycle d) xs"
    and "pk_inv (add_mset c (h + mset (concat yss) + mset xs)) (ds_pack d)"
    and r: "t < length (ds_threads d)" "call_push (ds_threads d ! t) c = Some r"
  shows "dist_inv h (yss[t := yss ! t @ [c]]) xs (d\<lparr>ds_threads := (ds_threads d)[t := r]\<rparr>)"
    and "mset (concat (yss[t := yss ! t @ [c]])) = add_mset c (mset (concat yss))"
proof -
  have len: "length yss = length (ds_threads d)" "ring_contents (ds_threads d ! t) (yss ! t)"
    using assms(1) r(1) by (auto simp: list_all2_lengthD list_all2_nthD)
  show m: "mset (concat (yss[t := yss ! t @ [c]])) = add_mset c (mset (concat yss))"
    by (rule mset_concat_update) (use r len in simp)
  have "list_all2 ring_contents ((ds_threads d)[t := r]) (yss[t := yss ! t @ [c]])"
    using call_push_room [OF len(2) r(2)] by (simp add: list_all2_update_cong assms(1))
  then show "dist_inv h (yss[t := yss ! t @ [c]]) xs (d\<lparr>ds_threads := (ds_threads d)[t := r]\<rparr>)"
    using assms(2,3) m by (simp add: dist_inv_def)
qed

lemma push_to_thread_owner:
  assumes "list_all2 ring_contents (ds_threads d) yss" "rq_contents (ds_recycle d) xs"
    and "pk_inv (add_mset c (h + mset (concat yss) + mset xs)) (ds_pack d)"
    and "push_to_thread env now c d = Some d'"
  shows "\<exists>c' yss' zs. same_owner c c' \<and> dist_inv h yss' (xs @ zs) d' \<and>
    mset (concat yss') + mset zs = add_mset c' (mset (concat yss))"
proof (cases "push_to_thread_route env c")
  case Route_ctrl
  then obtain m c1 n where c1: "express_device_ctrl_invoke (de_ctrl env) now (ds_store d) c = Some (m, c1, n)"
      "push_free_callback now c1 n (d\<lparr>ds_store := m\<rparr>) = Some d'"
    using assms(4) by (auto simp: push_to_thread_def split: option.splits prod.splits)
  note own = ctrl_same_owner [OF c1(1)]
  obtain c' where "same_owner c1 c'" "dist_inv h yss (xs @ [c']) d'"
    using push_free_callback_owner [OF _ _ _ c1(2), of yss xs h] assms(1,2) pk_inv_same_owner [OF own assms(3)] by auto
  with same_owner_trans [OF own] show ?thesis by (intro exI [of _ c'] exI [of _ yss] exI [of _ "[c']"]) auto
next
  case Route_drop
  then obtain c' where "same_owner c c'" "dist_inv h yss (xs @ [c']) d'"
    using push_free_callback_owner [OF assms(1-3), of now 0 d'] assms(4) by (auto simp: push_to_thread_def)
  then show ?thesis by (intro exI [of _ c'] exI [of _ yss] exI [of _ "[c']"]) auto
next
  case (Route_thread t c' e)
  obtain r where r: "t < length (ds_threads d)" "call_push (ds_threads d ! t) c' = Some r"
      "d' = d\<lparr>ds_threads := (ds_threads d)[t := r]\<rparr>"
    using assms(4) Route_thread by (auto simp: push_to_thread_def split: if_splits)
  note own = route_same_owner [OF Route_thread]
  note m = thread_push_inv [OF assms(1,2) pk_inv_same_owner [OF own assms(3)] r(1,2)]
  show ?thesis
    using own m r(3) by (intro exI [of _ c'] exI [of _ "yss[t := yss ! t @ [c']]"] exI [of _ "[]"]) simp
qed

section \<open>The hand-over lock\<close>

text \<open>
  \<^verbatim>\<open>atomic_distribute_thread_running\<close> is 0 when nobody works on the queue, 1 when somebody
  does, and 2 when the distribution thread asks the virtual CPU to stop. The program
  counters follow \<^verbatim>\<open>call_distribute_thread\<close> (waking up from \<^verbatim>\<open>distribute_wait\<close>) and
  \<^verbatim>\<open>teleport_express_output_handle\<close>.
\<close>

datatype dist_pc = DT_run | DT_release | DT_sleep | DT_try | DT_request | DT_spin

datatype vcpu_pc = VC_out | VC_run | VC_release

record lock_state =
  lk_running :: int
  lk_dist :: dist_pc
  lk_vcpu :: vcpu_pc
  lk_abandoned :: bool

datatype lock_action = Dist_step bool | Vcpu_step bool

text \<open>
  \<open>Dist_step idle\<close>: in the working loop, \<open>idle\<close> says that the pass found nothing to do.
  \<open>Vcpu_step done\<close>: in its loop, \<open>done\<close> says that both flags came back as 0. The branch
  marked \<open>lk_abandoned\<close> is the one in which the request fails because the virtual CPU has
  just finished.
\<close>

definition dist_lock_step :: "bool \<Rightarrow> lock_state \<Rightarrow> lock_state" where
  "dist_lock_step idle s =
     (case lk_dist s of
        DT_run \<Rightarrow> (if idle then s\<lparr>lk_dist := DT_release\<rparr> else s)
      | DT_release \<Rightarrow> s\<lparr>lk_running := 0, lk_dist := DT_sleep\<rparr>
      | DT_sleep \<Rightarrow> s\<lparr>lk_dist := DT_try\<rparr>
      | DT_try \<Rightarrow>
          (if lk_running s = 0 then s\<lparr>lk_running := 1, lk_dist := DT_run\<rparr>
           else if lk_running s = 1 then s\<lparr>lk_dist := DT_request\<rparr> else s\<lparr>lk_dist := DT_run\<rparr>)
      | DT_request \<Rightarrow>
          (if lk_running s = 1 then s\<lparr>lk_running := 2, lk_dist := DT_spin\<rparr>
           else s\<lparr>lk_dist := DT_run, lk_abandoned := True\<rparr>)
      | DT_spin \<Rightarrow> (if lk_running s = 0 then s\<lparr>lk_running := 1, lk_dist := DT_run\<rparr> else s))"

definition vcpu_lock_step :: "bool \<Rightarrow> lock_state \<Rightarrow> lock_state" where
  "vcpu_lock_step done s =
     (case lk_vcpu s of
        VC_out \<Rightarrow> (if lk_running s = 0 then s\<lparr>lk_running := 1, lk_vcpu := VC_run\<rparr> else s)
      | VC_run \<Rightarrow> (if done \<or> lk_running s = 2 then s\<lparr>lk_vcpu := VC_release\<rparr> else s)
      | VC_release \<Rightarrow> s\<lparr>lk_running := 0, lk_vcpu := VC_out\<rparr>)"

fun lock_step :: "lock_action \<Rightarrow> lock_state \<Rightarrow> lock_state" where
  "lock_step (Dist_step idle) s = dist_lock_step idle s"
| "lock_step (Vcpu_step done) s = vcpu_lock_step done s"

definition lock_init :: lock_state where
  "lock_init = \<lparr>lk_running = 1, lk_dist = DT_run, lk_vcpu = VC_out, lk_abandoned = False\<rparr>"

definition lock_run :: "lock_action list \<Rightarrow> lock_state" where
  "lock_run as = fold lock_step as lock_init"

definition lock_inv :: "lock_state \<Rightarrow> bool" where
  "lock_inv s \<longleftrightarrow> lk_abandoned s \<or>
     (if lk_dist s \<in> {DT_run, DT_release} then lk_vcpu s = VC_out \<and> lk_running s = 1
      else if lk_vcpu s = VC_out then lk_running s = 0
      else lk_running s = 1 \<or> lk_dist s = DT_spin \<and> lk_running s = 2)"

lemma lock_step_inv: "lock_inv s \<Longrightarrow> lock_inv (lock_step a s)"
  by (cases a; cases "lk_dist s"; cases "lk_vcpu s") (auto simp: lock_inv_def dist_lock_step_def vcpu_lock_step_def)

lemma lock_run_inv: "lock_inv (lock_run as)"
proof -
  have "lock_inv s \<Longrightarrow> lock_inv (fold lock_step as s)" for s
    by (induction as arbitrary: s) (auto intro: lock_step_inv)
  moreover have "lock_inv lock_init" by (simp add: lock_inv_def lock_init_def)
  ultimately show ?thesis by (simp add: lock_run_def)
qed

section \<open>The parts of a round\<close>

definition route_new :: "dist_env \<Rightarrow> int \<Rightarrow> express_call option \<Rightarrow> dist_state \<Rightarrow> dist_state option" where
  "route_new env now co d =
     (case co of None \<Rightarrow> Some d | Some call \<Rightarrow> push_to_thread env now (call\<lparr>ec_is_end := False\<rparr>) d)"

lemma route_new_owner:
  assumes "dist_inv h yss xs d" "pk_inv (opt_mset co + (h + mset (concat yss) + mset xs)) pk"
    and "route_new env now co (d\<lparr>ds_pack := pk\<rparr>) = Some d2"
  shows "\<exists>yss' zs. dist_inv h yss' (xs @ zs) d2 \<and>
    image_mset owner (mset (concat yss') + mset zs) = image_mset owner (mset (concat yss) + opt_mset co)"
proof (cases co)
  case None
  with assms have "dist_inv h yss (xs @ []) d2" by (auto simp: route_new_def dist_inv_def)
  then show ?thesis using None by (intro exI [of _ yss] exI [of _ "[]"]) simp
next
  case (Some c)
  have own: "same_owner c (c\<lparr>ec_is_end := False\<rparr>)" by (simp add: same_owner_def)
  then have "pk_inv (add_mset (c\<lparr>ec_is_end := False\<rparr>) (h + mset (concat yss) + mset xs)) pk"
    by (rule pk_inv_same_owner) (use assms(2) Some in simp)
  then obtain c' yss' zs where r: "same_owner (c\<lparr>ec_is_end := False\<rparr>) c'" "dist_inv h yss' (xs @ zs) d2"
      "mset (concat yss') + mset zs = add_mset c' (mset (concat yss))"
    using push_to_thread_owner [of "d\<lparr>ds_pack := pk\<rparr>" yss xs "c\<lparr>ec_is_end := False\<rparr>" h env now d2] assms(1,3) Some
    by (auto simp: route_new_def dist_inv_def)
  have "owner c' = owner c" using same_owner_trans [OF own r(1)] by (simp add: same_owner_iff)
  then show ?thesis using r(2,3) Some by (intro exI [of _ yss'] exI [of _ zs]) simp
qed

lemma recycle_owner:
  assumes "dist_inv h yss xs d" "recycle_pop (ds_recycle d) = Some (c, q)"
  shows "\<exists>xs'. xs = c # xs' \<and> dist_inv h yss xs' (d\<lparr>ds_recycle := q, ds_pack := release_one_call c n (ds_pack d)\<rparr>)"
proof -
  obtain xs' where xs: "xs = c # xs'" "rq_contents q xs'"
    using rqf.pop_some [of "ds_recycle d" xs c q] assms by (auto simp: dist_inv_def)
  have "pk_inv (add_mset c (h + mset (concat yss) + mset xs')) (ds_pack d)"
    using assms(1) xs by (simp add: dist_inv_def)
  then have "pk_inv (h + mset (concat yss) + mset xs') (release_one_call c n (ds_pack d))"
    by (rule pk_inv_release)
  with assms(1) xs show ?thesis by (auto simp: dist_inv_def)
qed

lemma round_cases:
  assumes "virtqueue_data_distribute_and_recycle env now pop_flag recycle_flag d = Some (p, r, irq, d')"
  obtains co pk d2 where
    "(if pop_flag then pack_call_from_queue (ds_store d) (de_null_ptr env) 0 (ds_pack d)
      else Some (None, ds_pack d)) = Some (co, pk)"
    "route_new env now co (d\<lparr>ds_pack := pk\<rparr>) = Some d2" "p = (co \<noteq> None)"
    "d' = d2 \<and> \<not> r \<or> (\<exists>c q. recycle_pop (ds_recycle d2) = Some (c, q) \<and> r \<and>
       d' = d2\<lparr>ds_recycle := q, ds_pack := release_one_call c False (ds_pack d2)\<rparr>)"
proof -
  obtain co pk where pk: "(if pop_flag then pack_call_from_queue (ds_store d) (de_null_ptr env) 0 (ds_pack d)
      else Some (None, ds_pack d)) = Some (co, pk)"
    using assms unfolding virtqueue_data_distribute_and_recycle_def by (auto split: option.splits)
  note eq = assms [unfolded virtqueue_data_distribute_and_recycle_def pk option.case prod.case Let_def,
      folded route_new_def]
  obtain d2 where d2: "route_new env now co (d\<lparr>ds_pack := pk\<rparr>) = Some d2"
    using eq by (auto split: option.splits)
  show thesis
  proof (rule that [OF pk d2])
    show "p = (co \<noteq> None)"
      using eq [unfolded d2 option.case] by (auto split: option.splits)
    show "d' = d2 \<and> \<not> r \<or> (\<exists>c q. recycle_pop (ds_recycle d2) = Some (c, q) \<and> r \<and>
        d' = d2\<lparr>ds_recycle := q, ds_pack := release_one_call c False (ds_pack d2)\<rparr>)"
    proof (cases "if recycle_flag then recycle_pop (ds_recycle d2) else None")
      case None
      with eq [unfolded d2 option.case] show ?thesis by simp
    next
      case (Some cq)
      with eq [unfolded d2 option.case] show ?thesis by (cases cq) (auto split: if_splits)
    qed
  qed
qed

section \<open>Properties\<close>

text \<open>What the first half of a round pops from the queue.\<close>

definition round_pops :: "dist_env \<Rightarrow> bool \<Rightarrow> dist_state \<Rightarrow> (express_call option \<times> pack_state) option" where
  "round_pops env pop_flag d =
     (if pop_flag then pack_call_from_queue (ds_store d) (de_null_ptr env) 0 (ds_pack d) else Some (None, ds_pack d))"

lemma round_accounts:
  assumes "dist_inv h yss xs d"
    and "virtqueue_data_distribute_and_recycle env now pop_flag recycle_flag d = Some (p, r, irq, d')"
  shows "\<exists>co pk old yss' xs'. round_pops env pop_flag d = Some (co, pk) \<and> p = (co \<noteq> None) \<and> r = (old \<noteq> None) \<and>
    dist_inv h yss' xs' d' \<and> image_mset owner (mset (concat yss') + mset xs' + opt_mset old) =
      image_mset owner (mset (concat yss) + mset xs + opt_mset co)"
proof -
  obtain co pk d2 where c: "(if pop_flag then pack_call_from_queue (ds_store d) (de_null_ptr env) 0 (ds_pack d)
      else Some (None, ds_pack d)) = Some (co, pk)" "route_new env now co (d\<lparr>ds_pack := pk\<rparr>) = Some d2" "p = (co \<noteq> None)"
      "d' = d2 \<and> \<not> r \<or> (\<exists>c q. recycle_pop (ds_recycle d2) = Some (c, q) \<and> r \<and>
         d' = d2\<lparr>ds_recycle := q, ds_pack := release_one_call c False (ds_pack d2)\<rparr>)"
    using assms(2) by (rule round_cases)
  let ?out = "h + mset (concat yss) + mset xs"
  have inv: "pk_inv ?out (ds_pack d)" using assms(1) by (simp add: dist_inv_def)
  have pop: "round_pops env pop_flag d = Some (co, pk)" using c(1) by (simp add: round_pops_def)
  have "pk_inv (opt_mset co + ?out) pk"
  proof (cases pop_flag)
    case True
    then have packed: "pack_call_from_queue (ds_store d) (de_null_ptr env) 0 (ds_pack d) = Some (co, pk)" using c(1) by simp
    show ?thesis using pack_call_ok [OF inv _ packed] by simp
  next
    case False
    with c(1) inv show ?thesis by auto
  qed
  then obtain yss2 zs where d2: "dist_inv h yss2 (xs @ zs) d2"
      "image_mset owner (mset (concat yss2) + mset zs) = image_mset owner (mset (concat yss) + opt_mset co)"
    using route_new_owner [OF assms(1) _ c(2)] by blast
  have tot: "image_mset owner (mset (concat yss2) + mset (xs @ zs)) = image_mset owner (mset (concat yss) + mset xs + opt_mset co)"
    using d2(2) by (simp add: ac_simps)
  show ?thesis
  proof (cases r)
    case False
    then have "d' = d2" using c(4) by auto
    then show ?thesis using False pop c(3) d2(1) tot
      by (intro exI [of _ co] exI [of _ pk] exI [of _ None] exI [of _ yss2] exI [of _ "xs @ zs"]) simp
  next
    case True
    then obtain o1 q where o1: "recycle_pop (ds_recycle d2) = Some (o1, q)"
        "d' = d2\<lparr>ds_recycle := q, ds_pack := release_one_call o1 False (ds_pack d2)\<rparr>" using c(4) by auto
    obtain xs' where xs': "xs @ zs = o1 # xs'" "dist_inv h yss2 xs' d'"
      using recycle_owner [OF d2(1) o1(1), of False] o1(2) by blast
    show ?thesis using True pop c(3) xs'(2) tot [unfolded xs'(1)]
      by (intro exI [of _ co] exI [of _ pk] exI [of _ "Some o1"] exI [of _ yss2] exI [of _ xs']) simp
  qed
qed

text \<open>
  A complete call waits at the front of the queue, its device is registered for output,
  and the context of the call is thread \<open>t\<close>, whose ring has room.
\<close>

definition call_waits ::
  "dist_env \<Rightarrow> queue_elem \<Rightarrow> queue_elem list \<Rightarrow> queue_elem list \<Rightarrow> nat \<Rightarrow> express_call list list \<Rightarrow> dist_state \<Rightarrow> bool" where
  "call_waits env hdr ps rest t yss d \<longleftrightarrow>
     avail 0 (ds_pack d) = hdr # ps @ rest \<and> pq_packaging (pk_queue (ds_pack d) 0) = None \<and>
     header_ok hdr \<and> list_all param_ok ps \<and> t < length yss \<and> length (yss ! t) < CALL_BUF_SIZE - 1 \<and>
     (let fb = header_buf (ds_store d) hdr; dev = GET_DEVICE_ID (fb_id fb) in
      fb_para_num fb = int (length ps) \<and> dev \<noteq> EXPRESS_CTRL_DEVICE_ID \<and>
      (case get_express_device_info (de_registry env) dev of None \<Rightarrow> False
       | Some info \<Rightarrow> di_device_type info AND OUTPUT_DEVICE_TYPE \<noteq> 0) \<and>
      de_get_context env \<lparr>id_device = dev, id_thread = fb_thread_id fb, id_process = fb_process_id fb,
        id_unique = fb_unique_id fb\<rparr> = Some t)"

lemma waiting_call_route:
  assumes "call_waits env hdr ps rest t yss d" "is_call_of (ds_store d) np 0 hdr ps c"
  shows "\<exists>c' e. push_to_thread_route env (c\<lparr>ec_is_end := False\<rparr>) = Route_thread t c' e \<and> is_call_of (ds_store d) np 0 hdr ps c'"
  using assms by (auto simp: call_waits_def is_call_of_def push_to_thread_route_def Let_def split: option.splits)

lemma waiting_call_routed:
  assumes "dist_inv h yss xs d" "call_waits env hdr ps rest t yss d"
  shows "\<exists>c d'. virtqueue_data_distribute_and_recycle env now True True d =
      Some (True, xs \<noteq> [], xs \<noteq> [] \<and> FUN_NEED_SYNC (ec_id (hd xs)) \<noteq> 0, d') \<and>
    is_call_of (ds_store d) (de_null_ptr env) 0 hdr ps c \<and> dist_inv h (yss[t := yss ! t @ [c]]) (tl xs) d' \<and>
    avail 0 (ds_pack d') = rest"
proof -
  let ?out = "h + mset (concat yss) + mset xs" and ?np = "de_null_ptr env"
  have inv: "pk_inv ?out (ds_pack d)" "list_all2 ring_contents (ds_threads d) yss" "rq_contents (ds_recycle d) xs"
    using assms(1) by (simp_all add: dist_inv_def)
  obtain c pk where c: "pack_call_from_queue (ds_store d) ?np 0 (ds_pack d) = Some (Some c, pk)"
      "is_call_of (ds_store d) ?np 0 hdr ps c" "avail 0 pk = rest"
    using pack_complete [OF inv(1), of 0 hdr ps "ds_store d" rest ?np] assms(2) by (auto simp: call_waits_def Let_def)
  have dev: "GET_DEVICE_ID (ec_id c) \<noteq> EXPRESS_CTRL_DEVICE_ID"
    using assms(2) c(2) by (simp add: call_waits_def is_call_of_def Let_def)
  obtain c' e where c': "push_to_thread_route env (c\<lparr>ec_is_end := False\<rparr>) = Route_thread t c' e"
      "is_call_of (ds_store d) ?np 0 hdr ps c'"
    using waiting_call_route [OF assms(2) c(2)] by blast
  have "same_owner c (c\<lparr>ec_is_end := False\<rparr>)" by (simp add: same_owner_def)
  note own = same_owner_trans [OF this route_same_owner [OF c'(1)]]
  have pk: "pk_inv (add_mset c' ?out) pk"
    by (rule pk_inv_same_owner [OF own]) (use pack_call_ok [OF inv(1) _ c(1)] in simp)
  have t: "t < length (ds_threads d)" "length (yss ! t) < CALL_BUF_SIZE - 1" "ring_contents (ds_threads d ! t) (yss ! t)"
    using assms(2) inv(2) by (auto simp: call_waits_def list_all2_lengthD intro: list_all2_nthD2)
  obtain ring where ring: "call_push (ds_threads d ! t) c' = Some ring" using call_push_contents [OF t(3,2)] by blast
  define d2 where "d2 = d\<lparr>ds_pack := pk, ds_threads := (ds_threads d)[t := ring]\<rparr>"
  have d2: "dist_inv h (yss[t := yss ! t @ [c']]) xs d2"
    using thread_push_inv(1) [of "d\<lparr>ds_pack := pk\<rparr>" yss xs c' h t ring] inv pk t(1) ring by (simp add: d2_def)
  have push: "push_to_thread env now (c\<lparr>ec_is_end := False\<rparr>) (d\<lparr>ds_pack := pk\<rparr>) = Some d2"
    using c'(1) t(1) ring by (simp add: push_to_thread_def d2_def)
  show ?thesis
  proof (cases xs)
    case Nil
    then have "recycle_pop (ds_recycle d2) = None" using recycle_pop_empty inv(3) by (simp add: d2_def)
    then show ?thesis
      using c c' d2 push dev Nil by (intro exI [of _ c'] exI [of _ d2])
        (simp add: virtqueue_data_distribute_and_recycle_def d2_def)
  next
    case (Cons o1 os)
    obtain q where q: "recycle_pop (ds_recycle d2) = Some (o1, q)"
      using recycle_pop_contents [of "ds_recycle d" o1 os] inv(3) Cons by (auto simp: d2_def)
    have "dist_inv h (yss[t := yss ! t @ [c']]) os (d2\<lparr>ds_recycle := q, ds_pack := release_one_call o1 False (ds_pack d2)\<rparr>)"
      using recycle_owner [OF d2 q, of False] Cons by simp
    then show ?thesis
      using c c' push q dev Cons
      by (intro exI [of _ c'] exI [of _ "d2\<lparr>ds_recycle := q, ds_pack := release_one_call o1 False (ds_pack d2)\<rparr>"])
        (simp add: virtqueue_data_distribute_and_recycle_def, simp add: d2_def)
  qed
qed

text \<open>
  C9. A round of the distribution keeps every call accounted for. Whenever a round
  returns, the calls in the thread rings, in the recycle queue and in the hands of
  devices are exactly those whose slots and elements are live, and compared with before
  they are the same, with the popped call more and the recycled call less, whether the
  popped call was routed to a thread, answered by the control device or refused. When a
  complete call for a registered output device waits and its thread has room, the round
  does return: the call goes to the end of the ring of its thread, the oldest completed
  call is released, and the rest of the queue stays.
\<close>

theorem distribute_round_owns:
  assumes "dist_inv h yss xs d"
  shows "(virtqueue_data_distribute_and_recycle env now pop_flag recycle_flag d = Some (p, r, irq, d') \<longrightarrow>
      (\<exists>co pk old yss' xs'. round_pops env pop_flag d = Some (co, pk) \<and> p = (co \<noteq> None) \<and> r = (old \<noteq> None) \<and>
        dist_inv h yss' xs' d' \<and> image_mset owner (mset (concat yss') + mset xs' + opt_mset old) =
          image_mset owner (mset (concat yss) + mset xs + opt_mset co))) \<and>
    (call_waits env hdr ps rest t yss d \<longrightarrow>
      (\<exists>c d'. virtqueue_data_distribute_and_recycle env now True True d =
          Some (True, xs \<noteq> [], xs \<noteq> [] \<and> FUN_NEED_SYNC (ec_id (hd xs)) \<noteq> 0, d') \<and>
        is_call_of (ds_store d) (de_null_ptr env) 0 hdr ps c \<and> dist_inv h (yss[t := yss ! t @ [c]]) (tl xs) d' \<and>
        avail 0 (ds_pack d') = rest))"
  using round_accounts [OF assms] waiting_call_routed [OF assms] by blast

text \<open>A call with two parameters for device 1 waits, and a completed one in the recycle queue.\<close>

definition dist_demo :: dist_state where
  "dist_demo = \<lparr>ds_store = pack_demo_store,
     ds_pack = set_avail 0 [pack_demo_header, pack_demo_para 1, pack_demo_para 2]
       (pk_init\<lparr>pk_calls := Some one_slot, pk_mems := Some one_slot\<rparr>),
     ds_recycle = the (recycle_push rq_init suspended_call), ds_threads = [ring_init], ds_wakeups = 0\<rparr>"

definition dist_demo_env :: dist_env where
  "dist_demo_env = \<lparr>de_registry = demo_registry,
     de_get_context = (\<lambda>_. Some 0), de_remove_context = (\<lambda>_. None), de_ctrl = ctrl_demo_info, de_null_ptr = 0\<rparr>"

lemma dist_demo_inv: "dist_inv {#} [[]] [suspended_call] dist_demo"
proof -
  obtain q where "recycle_push rq_init suspended_call = Some q" "rq_contents q [suspended_call]"
    using recycle_push_contents [OF rq_init_contents, of suspended_call] by (auto simp: RECYCLE_SIZE_def)
  moreover have "held suspended_state = {#suspended_call#}" by (simp add: held_def suspended_state_def)
  ultimately show ?thesis
    using suspended_state_inv
    by (simp add: dist_inv_def dist_demo_def ring_init_contents) (simp add: pk_inv_def pk_init_def held_def suspended_state_def)
qed

lemma dist_demo_waits: "call_waits dist_demo_env pack_demo_header [pack_demo_para 1, pack_demo_para 2] [] 0 [[]] dist_demo"
proof -
  have "GET_DEVICE_ID 4294967303 = 1" by code_simp
  then show ?thesis
    using pack_demo_facts
    by (simp add: call_waits_def dist_demo_def dist_demo_env_def avail_set_avail get_express_device_info_def CALL_BUF_SIZE_def
        EXPRESS_CTRL_DEVICE_ID_def OUTPUT_DEVICE_TYPE_def demo_registry_def) (simp add: set_avail_def pk_init_def)
qed

theorem distribute_round_owns_witness:
  "\<exists>c irq d'. virtqueue_data_distribute_and_recycle dist_demo_env 0 True True dist_demo = Some (True, True, irq, d') \<and>
     is_call_of pack_demo_store 0 0 pack_demo_header [pack_demo_para 1, pack_demo_para 2] c \<and> dist_inv {#} [[c]] [] d' \<and>
     (\<exists>co pk old yss' xs'. round_pops dist_demo_env True dist_demo = Some (co, pk) \<and> co \<noteq> None \<and> old \<noteq> None \<and>
        dist_inv {#} yss' xs' d' \<and> image_mset owner (mset (concat yss') + mset xs' + opt_mset old) =
          image_mset owner ({#suspended_call#} + opt_mset co))"
proof -
  have np: "de_null_ptr dist_demo_env = 0" "ds_store dist_demo = pack_demo_store"
    by (simp_all add: dist_demo_env_def dist_demo_def)
  obtain c irq d' where c: "virtqueue_data_distribute_and_recycle dist_demo_env 0 True True dist_demo = Some (True, True, irq, d')"
      "is_call_of pack_demo_store 0 0 pack_demo_header [pack_demo_para 1, pack_demo_para 2] c" "dist_inv {#} [[c]] [] d'"
    using distribute_round_owns [OF dist_demo_inv, of dist_demo_env 0 True True True True True dist_demo
        pack_demo_header "[pack_demo_para 1, pack_demo_para 2]" "[]" 0] dist_demo_waits np by auto
  with distribute_round_owns [OF dist_demo_inv, of dist_demo_env 0 True True True True irq d'] show ?thesis by simp blast
qed

text \<open>
  The distribution thread never lets more than 127 released calls wait for a
  notification of the guest, sends the notification before it goes to sleep when any is
  waiting, and keeps the number of calls in the hands of devices.
\<close>

theorem distribute_notifies:
  assumes "0 \<le> dc_release_cnt c" "dc_release_cnt c < 128" "distribute_count popped recycled c = (c', pass)"
  shows "0 \<le> dc_release_cnt c' \<and> dc_release_cnt c' < 128 \<and>
    (dp_slept pass \<longleftrightarrow> \<not> popped \<and> \<not> recycled) \<and>
    (dp_slept pass \<longrightarrow> dc_release_cnt c' = 0 \<and> (dc_release_cnt c \<noteq> 0 \<longrightarrow> dp_notifies pass = 1)) \<and>
    (dc_release_cnt c' = 0 \<or> dc_release_cnt c' = dc_release_cnt c + of_bool recycled) \<and>
    (dc_release_cnt c + of_bool recycled > 0 \<and> dc_release_cnt c' = 0 \<longrightarrow> dp_notifies pass = 1) \<and>
    dc_in_handle_num c' = dc_in_handle_num c + of_bool popped - of_bool recycled"
  using assms by (cases popped; cases recycled) (auto simp: distribute_count_def Let_def split: if_splits)

theorem distribute_notifies_witness:
  "\<exists>c' pass. distribute_count False True \<lparr>dc_release_cnt = 127, dc_pop_cnt = 3, dc_in_handle_num = 5\<rparr> = (c', pass) \<and>
     dc_release_cnt c' = 0 \<and> dp_notifies pass = 1 \<and> dc_in_handle_num c' = 4"
proof -
  let ?c = "\<lparr>dc_release_cnt = 127, dc_pop_cnt = 3, dc_in_handle_num = 5\<rparr>"
  obtain c' pass where d: "distribute_count False True ?c = (c', pass)" by fastforce
  have "dc_release_cnt c' = 0 \<or> dc_release_cnt c' = 128" "dc_release_cnt c' < 128"
      "dc_release_cnt c' = 0 \<longrightarrow> dp_notifies pass = 1" "dc_in_handle_num c' = 4"
    using distribute_notifies [OF _ _ d] by auto
  with d show ?thesis by auto
qed

text \<open>
  C12. As long as the distribution thread never takes the branch in which its request to
  stop fails, it and the virtual CPU are never both working on the queue, under every
  interleaving of their atomic accesses.
\<close>

theorem distribute_lock_exclusive:
  "lk_abandoned (lock_run as) \<or> \<not> (lk_dist (lock_run as) = DT_run \<and> lk_vcpu (lock_run as) = VC_run)"
  using lock_run_inv [of as] by (auto simp: lock_inv_def)

theorem distribute_lock_exclusive_witness:
  "\<not> (lk_dist (lock_run [Dist_step True, Dist_step False, Vcpu_step False]) = DT_run \<and>
       lk_vcpu (lock_run [Dist_step True, Dist_step False, Vcpu_step False]) = VC_run)"
  using distribute_lock_exclusive [of "[Dist_step True, Dist_step False, Vcpu_step False]"]
  by (simp add: lock_run_def lock_init_def dist_lock_step_def vcpu_lock_step_def)

text \<open>
  The failing request breaks the exclusion: the virtual CPU works while the
  distribution thread wakes up, finishes before the request is made, and enters again
  while the distribution thread, which did not take the lock, is working.
\<close>

theorem distribute_lock_race:
  "lk_dist (lock_run [Dist_step True, Dist_step False, Vcpu_step False, Dist_step False, Dist_step False,
      Vcpu_step True, Vcpu_step False, Dist_step False, Vcpu_step False]) = DT_run \<and>
   lk_vcpu (lock_run [Dist_step True, Dist_step False, Vcpu_step False, Dist_step False, Dist_step False,
      Vcpu_step True, Vcpu_step False, Dist_step False, Vcpu_step False]) = VC_run"
  by (simp add: lock_run_def lock_init_def dist_lock_step_def vcpu_lock_step_def)

end
