(* ===== verification/Irq_Register.thy ===== *)
theory Irq_Register
  imports Distribute
begin

text \<open>
  The input queue, after \<^verbatim>\<open>hw/teleport-express/teleport_express_register.c\<close>: dispatch of the
  calls of the input queue (\<^verbatim>\<open>register_input_buffer_call\<close>, \<^verbatim>\<open>push_to_device\<close>,
  \<^verbatim>\<open>send_device_prop_to_guest\<close>), completion (\<^verbatim>\<open>input_call_release\<close>,
  \<^verbatim>\<open>express_input_device_sync\<close>) and the virtual interrupts, for which the guest leaves a
  call with the device that the device completes later (\<^verbatim>\<open>common_device_irq_register\<close>,
  \<^verbatim>\<open>common_device_irq_release\<close>, \<^verbatim>\<open>set_express_device_irq\<close>, \<^verbatim>\<open>send_express_device_irq\<close>). The
  three interrupt operations are the interleaving of their atomic exchanges.
\<close>

section \<open>Dispatch of input calls\<close>

definition EXPRESS_REGISTER_BUFFER_FUN_ID :: int where "EXPRESS_REGISTER_BUFFER_FUN_ID = 999999"
definition EXPRESS_IRQ_FUN_ID :: int where "EXPRESS_IRQ_FUN_ID = 1000000"
definition EXPRESS_GET_PROP_FUN_ID :: int where "EXPRESS_GET_PROP_FUN_ID = 1000001"
definition EXPRESS_RELEASE_IRQ_FUN_ID :: int where "EXPRESS_RELEASE_IRQ_FUN_ID = 1000002"

text \<open>
  What \<^verbatim>\<open>push_to_device\<close> does with a call: complete it with a notify flag, hand its first
  parameter to the device and complete it, keep it as interrupt call of context \<open>t\<close>,
  release the interrupt of context \<open>t\<close> and complete it, or return without completing it.
\<close>

datatype input_effect =
    In_complete int
  | In_buffer "guest_mem option"
  | In_irq_register nat
  | In_irq_release nat
  | In_forgotten

record input_env =
  ie_registry :: registry
  ie_get_device_context :: "call_ids4 \<Rightarrow> nat option"

definition send_device_prop_to_guest ::
  "express_device_info \<Rightarrow> int \<Rightarrow> store \<Rightarrow> express_call \<Rightarrow> (store \<times> express_call \<times> input_effect) option" where
  "send_device_prop_to_guest info now m call =
     (case get_para_from_call now call 10 of
        None \<Rightarrow> None
      | Some (para_num, ps, call') \<Rightarrow>
          (if para_num \<noteq> 1 \<or> cp_len (ps ! 0) < int (length (di_static_prop info)) then Some (m, call', In_forgotten)
           else
             map_option (\<lambda>m'. (m', call', In_complete 1))
               (write_to_guest_mem m (Some (cp_data (ps ! 0))) (Some (di_static_prop info)) 0
                  (int (length (di_static_prop info))))))"

definition push_to_device ::
  "input_env \<Rightarrow> int \<Rightarrow> store \<Rightarrow> express_call \<Rightarrow> (store \<times> express_call \<times> input_effect) option" where
  "push_to_device env now m call =
     (let device_id = GET_DEVICE_ID (ec_id call); fun_id = GET_FUN_ID (ec_id call);
          ids = \<lparr>id_device = device_id, id_thread = ec_thread_id call, id_process = ec_process_id call,
                 id_unique = ec_unique_id call\<rparr> in
      case get_express_device_info (ie_registry env) device_id of
        None \<Rightarrow> Some (m, call, In_complete 0)
      | Some info \<Rightarrow>
          (if (di_device_type info) AND INPUT_DEVICE_TYPE = 0 then Some (m, call, In_complete 0)
           else
             (case ie_get_device_context env ids of
                None \<Rightarrow> Some (m, call, In_complete 0)
              | Some t \<Rightarrow>
                  (if fun_id = EXPRESS_REGISTER_BUFFER_FUN_ID then
                     map_option (\<lambda>(g, call'). (m, call', In_buffer g)) (copy_guest_mem_from_call now call 1)
                   else if fun_id = EXPRESS_IRQ_FUN_ID then Some (m, call, In_irq_register t)
                   else if fun_id = EXPRESS_GET_PROP_FUN_ID \<and> di_static_prop info \<noteq> [] then
                     send_device_prop_to_guest info now m call
                   else if fun_id = EXPRESS_RELEASE_IRQ_FUN_ID then Some (m, call, In_irq_release t)
                   else Some (m, call, In_complete 0)))))"

lemma pack_paras_done_len:
  "pack_paras m np r c es mems = Some (Para_done c' es' mems') \<Longrightarrow> length es' \<le> length es"
proof (induction es arbitrary: r c mems)
  case (Cons e es)
  then show ?case
    by (fastforce simp: pack_paras.simps split: if_splits option.splits prod.splits fill_result.splits)
qed (simp add: pack_paras.simps split: if_splits)

lemma pack_loop_len:
  "pack_loop m np i e s = Some (Some c, s') \<Longrightarrow> length (avail i s') \<le> length (avail i s)"
proof (induction m np i e s rule: pack_loop.induct)
  case (1 m np index e s)
  from 1(2) obtain n call s1 where b: "pack_begin m np index e s = Some (Begin_call n call s1)"
    by (auto simp: pack_loop.simps [of m np index e s] split: option.splits begin_result.splits)
  then obtain r where r: "pack_paras m np n call (avail index s1) (pk_mems s1) = Some r"
    using 1(2) by (auto simp: pack_loop.simps [of m np index e s] split: option.splits)
  show ?case
  proof (cases r)
    case (Para_done c' es mems)
    then show ?thesis
      using 1(2) b r pack_paras_done_len [OF r [unfolded Para_done]] pack_begin_avail [OF b, of index]
      by (auto simp: pack_loop.simps [of m np index e s] avail_set_avail)
  next
    case (Para_dry c' n' mems)
    then show ?thesis using 1(2) b r by (simp add: pack_loop.simps [of m np index e s])
  next
    case (Para_broken c' e' es mems)
    have "length es < length (avail index s)"
      using pack_paras_shorter [OF r [unfolded Para_broken]] pack_begin_avail [OF b, of index] by simp
    moreover have "length (avail index s') \<le> length es"
      using 1(1) [OF b refl r Para_broken] 1(2) b r Para_broken
      by (simp add: pack_loop.simps [of m np index e s] avail_set_avail)
    ultimately show ?thesis by simp
  qed
qed

lemma pack_call_len:
  "pack_call_from_queue m np i s = Some (Some c, s') \<Longrightarrow> length (avail i s') < length (avail i s)"
  using pack_loop_len [of m np i] by (fastforce simp: pack_call_from_queue_def avail_set_avail split: list.splits)

text \<open>
  The loop of \<^verbatim>\<open>register_input_buffer_call\<close>: it packs and dispatches until packing returns
  \<^verbatim>\<open>NULL\<close>. The effects are returned in order with their calls.
\<close>

function register_input_loop ::
  "input_env \<Rightarrow> addr \<Rightarrow> int \<Rightarrow> store \<Rightarrow> pack_state \<Rightarrow>
     (store \<times> pack_state \<times> (express_call \<times> input_effect) list) option" where
  "register_input_loop env np now m s =
     (case pack_call_from_queue m np 1 s of
        None \<Rightarrow> None
      | Some (None, s') \<Rightarrow> Some (m, s', [])
      | Some (Some call, s') \<Rightarrow>
          (case push_to_device env now m (call\<lparr>ec_is_end := False\<rparr>) of
             None \<Rightarrow> None
           | Some (m', call', eff) \<Rightarrow>
               map_option (\<lambda>(m'', s'', effs). (m'', s'', (call', eff) # effs))
                 (register_input_loop env np now m' s')))"
  by pat_completeness auto
termination
  by (relation "measure (\<lambda>(env, np, now, m, s). length (avail 1 s))") (auto dest: pack_call_len)

declare register_input_loop.simps [simp del]

section \<open>Sending an interrupt\<close>

definition send_express_device_irq ::
  "int \<Rightarrow> store \<Rightarrow> express_call \<Rightarrow> int \<Rightarrow> int \<Rightarrow> (store \<times> express_call) option" where
  "send_express_device_irq now m irq_call buf_index len =
     (case write_to_guest_mem m (call_header_mem irq_call)
             (Some (le_bytes 8 (c_size (push_bit 32 (c_size buf_index) + c_size len)))) RET_DATA_OFF 8 of
        None \<Rightarrow> None
      | Some m' \<Rightarrow> common_call_callback now m' irq_call)"

text \<open>
  \<^verbatim>\<open>input_call_release\<close>, the callback of input calls, and \<^verbatim>\<open>express_input_device_sync\<close>, which
  releases everything in the recycle queue and notifies the guest once if anything was
  released. \<open>is_can_set\<close> is \<^verbatim>\<open>now_can_set_event\<close>, \<open>is_signals\<close> counts the \<^verbatim>\<open>set_event\<close> calls.
\<close>

record input_state =
  is_store :: store
  is_pack :: pack_state
  is_recycle :: "express_call recycle_queue"
  is_can_set :: bool
  is_signals :: nat
  is_notifies :: nat

definition input_call_release :: "int \<Rightarrow> express_call \<Rightarrow> input_state \<Rightarrow> input_state option" where
  "input_call_release now call s =
     (case common_call_callback now (is_store s) call of
        None \<Rightarrow> None
      | Some (m, call') \<Rightarrow>
          map_option (\<lambda>q. s\<lparr>is_store := m, is_recycle := q,
              is_signals := is_signals s + of_bool (is_can_set s)\<rparr>)
            (recycle_push (is_recycle s) call'))"

fun input_sync_loop :: "nat \<Rightarrow> input_state \<Rightarrow> input_state \<times> nat" where
  "input_sync_loop 0 s = (s, 0)"
| "input_sync_loop (Suc n) s =
     (case recycle_pop (is_recycle s) of
        None \<Rightarrow> (s, 0)
      | Some (call, q) \<Rightarrow>
          (case input_sync_loop n (s\<lparr>is_recycle := q, is_pack := release_one_call call False (is_pack s)\<rparr>) of
             (s', k) \<Rightarrow> (s', Suc k)))"

definition express_input_device_sync :: "input_state \<Rightarrow> input_state" where
  "express_input_device_sync s =
     (case input_sync_loop RECYCLE_SIZE s of
        (s', k) \<Rightarrow> if 0 < k then s'\<lparr>is_notifies := is_notifies s' + 1\<rparr> else s')"

section \<open>The interrupt call of a device\<close>

datatype irq_slot = Irq_null | Irq_released | Irq_call express_call

datatype reg_pc = Reg_idle | Reg_second | Reg_reset

datatype set_pc = Set_idle | Set_xchg int int

datatype irq_ret = IRQ_SET_OK | IRQ_NOT_ENABLE | IRQ_NOT_READY | IRQ_RELEASED

record irq_state =
  ix_enabled :: bool
  ix_slot :: irq_slot
  ix_reg :: reg_pc
  ix_set :: "nat \<Rightarrow> set_pc"
  ix_registered :: "express_call multiset"
  ix_sent :: "express_call multiset"
  ix_dropped :: "express_call multiset"

datatype irq_action =
    Irq_register express_call | Irq_release | Irq_reg_step | Irq_set nat int int | Irq_set_step nat

definition irq_init :: irq_state where
  "irq_init = \<lparr>ix_enabled = False, ix_slot = Irq_null, ix_reg = Reg_idle, ix_set = (\<lambda>_. Set_idle),
     ix_registered = {#}, ix_sent = {#}, ix_dropped = {#}\<rparr>"

text \<open>
  Registering and releasing run on the thread that serves the input queue, one at a time;
  any number of device threads call \<^verbatim>\<open>set_express_device_irq\<close>. A step ends after an
  exchange. A call that is exchanged out of the slot and not sent goes to \<open>ix_dropped\<close>.
\<close>

definition slot_calls :: "irq_slot \<Rightarrow> express_call multiset" where
  "slot_calls sl = (case sl of Irq_call c \<Rightarrow> {#c#} | _ \<Rightarrow> {#})"

definition common_device_irq_register :: "express_call \<Rightarrow> irq_state \<Rightarrow> irq_state" where
  "common_device_irq_register irq_call s =
     (let s1 = s\<lparr>ix_slot := Irq_call irq_call, ix_registered := add_mset irq_call (ix_registered s)\<rparr> in
      case ix_slot s of
        Irq_null \<Rightarrow> s1\<lparr>ix_enabled := True\<rparr>
      | Irq_released \<Rightarrow> s1\<lparr>ix_reg := Reg_second\<rparr>
      | Irq_call c \<Rightarrow> s1\<lparr>ix_enabled := True, ix_dropped := add_mset c (ix_dropped s)\<rparr>)"

definition irq_register_second :: "irq_state \<Rightarrow> irq_state" where
  "irq_register_second s =
     (let s1 = s\<lparr>ix_slot := Irq_null, ix_reg := Reg_idle\<rparr> in
      case ix_slot s of
        Irq_null \<Rightarrow> s1\<lparr>ix_enabled := True\<rparr>
      | Irq_released \<Rightarrow> s1
      | Irq_call c \<Rightarrow> s1\<lparr>ix_sent := add_mset c (ix_sent s)\<rparr>)"

definition common_device_irq_release :: "irq_state \<Rightarrow> irq_state" where
  "common_device_irq_release s =
     (let s1 = s\<lparr>ix_enabled := False, ix_slot := Irq_released\<rparr> in
      case ix_slot s of
        Irq_call c \<Rightarrow> s1\<lparr>ix_sent := add_mset c (ix_sent s), ix_reg := Reg_reset\<rparr>
      | _ \<Rightarrow> s1)"

definition irq_release_reset :: "irq_state \<Rightarrow> irq_state" where
  "irq_release_reset s =
     s\<lparr>ix_slot := Irq_null, ix_reg := Reg_idle, ix_dropped := slot_calls (ix_slot s) + ix_dropped s\<rparr>"

definition set_irq_check :: "nat \<Rightarrow> int \<Rightarrow> int \<Rightarrow> irq_state \<Rightarrow> irq_state \<times> irq_ret option" where
  "set_irq_check i buf_index len s =
     (if \<not> ix_enabled s then (s, Some IRQ_NOT_ENABLE)
      else (s\<lparr>ix_set := (ix_set s)(i := Set_xchg buf_index len)\<rparr>, None))"

definition set_irq_xchg :: "nat \<Rightarrow> irq_state \<Rightarrow> irq_state \<times> irq_ret" where
  "set_irq_xchg i s =
     (let s1 = s\<lparr>ix_slot := Irq_null, ix_set := (ix_set s)(i := Set_idle)\<rparr> in
      case ix_slot s of
        Irq_null \<Rightarrow> (s1, IRQ_NOT_READY)
      | Irq_released \<Rightarrow> (s1, IRQ_RELEASED)
      | Irq_call c \<Rightarrow> (s1\<lparr>ix_sent := add_mset c (ix_sent s)\<rparr>, IRQ_SET_OK))"

fun irq_exec :: "irq_action \<Rightarrow> irq_state \<Rightarrow> irq_state option" where
  "irq_exec (Irq_register c) s =
     (if ix_reg s = Reg_idle then Some (common_device_irq_register c s) else None)"
| "irq_exec Irq_release s = (if ix_reg s = Reg_idle then Some (common_device_irq_release s) else None)"
| "irq_exec Irq_reg_step s =
     (case ix_reg s of
        Reg_idle \<Rightarrow> None
      | Reg_second \<Rightarrow> Some (irq_register_second s)
      | Reg_reset \<Rightarrow> Some (irq_release_reset s))"
| "irq_exec (Irq_set i buf_index len) s =
     (if ix_set s i = Set_idle then Some (fst (set_irq_check i buf_index len s)) else None)"
| "irq_exec (Irq_set_step i) s = (if ix_set s i = Set_idle then None else Some (fst (set_irq_xchg i s)))"

fun irq_run :: "irq_action list \<Rightarrow> irq_state \<Rightarrow> irq_state option" where
  "irq_run [] s = Some s"
| "irq_run (a # as) s = (case irq_exec a s of None \<Rightarrow> None | Some s' \<Rightarrow> irq_run as s')"

text \<open>The calls that a registration finds waiting in the slot and overwrites.\<close>

fun overwritten :: "irq_action list \<Rightarrow> irq_state \<Rightarrow> express_call multiset" where
  "overwritten [] s = {#}"
| "overwritten (a # as) s =
     (case irq_exec a s of
        None \<Rightarrow> {#}
      | Some s' \<Rightarrow> (case a of Irq_register c \<Rightarrow> slot_calls (ix_slot s) | _ \<Rightarrow> {#}) + overwritten as s')"

definition irq_inv :: "irq_state \<Rightarrow> bool" where
  "irq_inv s \<longleftrightarrow> ix_registered s = ix_sent s + slot_calls (ix_slot s) + ix_dropped s \<and>
     (ix_reg s = Reg_reset \<longrightarrow> slot_calls (ix_slot s) = {#})"

lemma slot_calls_simps [simp]:
  "slot_calls Irq_null = {#}" "slot_calls Irq_released = {#}" "slot_calls (Irq_call c) = {#c#}"
  by (simp_all add: slot_calls_def)

lemmas irq_defs = common_device_irq_register_def irq_register_second_def common_device_irq_release_def
  irq_release_reset_def set_irq_check_def set_irq_xchg_def Let_def

lemma irq_exec_inv: "irq_inv s \<Longrightarrow> irq_exec a s = Some t \<Longrightarrow> irq_inv t"
  by (cases a; cases "ix_slot s"; cases "ix_reg s") (auto simp: irq_inv_def irq_defs split: if_splits)

lemma irq_exec_dropped:
  assumes "irq_inv s" "irq_exec a s = Some t"
  shows "ix_dropped t = (case a of Irq_register c \<Rightarrow> slot_calls (ix_slot s) | _ \<Rightarrow> {#}) + ix_dropped s"
  using assms by (cases a; cases "ix_slot s"; cases "ix_reg s") (auto simp: irq_inv_def irq_defs split: if_splits)

lemma irq_run_inv:
  "irq_inv s \<Longrightarrow> irq_run as s = Some t \<Longrightarrow> irq_inv t"
  by (induction as s rule: irq_run.induct) (auto intro: irq_exec_inv split: option.splits)

lemma irq_run_dropped:
  "irq_inv s \<Longrightarrow> irq_run as s = Some t \<Longrightarrow> ix_dropped t = overwritten as s + ix_dropped s"
proof (induction as s rule: irq_run.induct)
  case (2 a as s)
  then obtain s' where s': "irq_exec a s = Some s'" "irq_run as s' = Some t" by (auto split: option.splits)
  with 2 show ?case using irq_exec_inv [OF 2(2) s'(1)] irq_exec_dropped [OF 2(2) s'(1)] by (simp add: ac_simps)
qed simp

lemma irq_init_inv: "irq_inv irq_init"
  by (simp add: irq_inv_def irq_init_def)

section \<open>Draining the recycle queue\<close>

lemma input_sync_loop_drains:
  assumes "rq_contents (is_recycle s) xs" "pk_inv (out + mset xs) (is_pack s)" "length xs \<le> n"
  shows "\<exists>s'. input_sync_loop n s = (s', length xs) \<and> rq_contents (is_recycle s') [] \<and>
    pk_inv out (is_pack s') \<and> is_notifies s' = is_notifies s"
  using assms
proof (induction xs arbitrary: n s)
  case Nil
  then show ?case by (cases n) (auto simp: recycle_pop_empty)
next
  case (Cons x xs)
  then obtain k where n: "n = Suc k" "length xs \<le> k" by (cases n) auto
  obtain q where q: "recycle_pop (is_recycle s) = Some (x, q)" "rq_contents q xs"
    using recycle_pop_contents [OF Cons.prems(1)] by blast
  let ?s = "s\<lparr>is_recycle := q, is_pack := release_one_call x False (is_pack s)\<rparr>"
  have "pk_inv (add_mset x (out + mset xs)) (is_pack s)" using Cons.prems(2) by simp
  then have "pk_inv (out + mset xs) (release_one_call x False (is_pack s))" by (rule pk_inv_release)
  with Cons.IH [of ?s k] q n show ?case by auto
qed

section \<open>Properties\<close>

text \<open>
  C10. Under every interleaving of registration, release and any number of devices raising
  the interrupt, each interrupt call the guest hands over is completed exactly once, or
  waits in the slot, or was overwritten by a registration that found it waiting there. No
  call is completed twice and none is lost in another way.
\<close>

theorem irq_calls_completed_once:
  assumes "irq_run as irq_init = Some s"
  shows "ix_registered s = ix_sent s + slot_calls (ix_slot s) + overwritten as irq_init"
  using irq_run_inv [OF irq_init_inv assms] irq_run_dropped [OF irq_init_inv assms]
  by (simp add: irq_inv_def irq_init_def)

definition irq_demo :: "irq_action list" where
  "irq_demo = [Irq_register demo_call, Irq_register (demo_call\<lparr>ec_slot := 1\<rparr>), Irq_set 0 1 2, Irq_release, Irq_set_step 0,
     Irq_reg_step]"

lemma irq_demo_run:
  "\<exists>s. irq_run irq_demo irq_init = Some s \<and> ix_slot s = Irq_null \<and> ix_sent s = {#demo_call\<lparr>ec_slot := 1\<rparr>#}"
  "overwritten irq_demo irq_init = {#demo_call#}"
  by (simp_all add: irq_demo_def irq_init_def irq_defs)

theorem irq_calls_completed_once_witness:
  "\<exists>s. irq_run irq_demo irq_init = Some s \<and> ix_registered s = {#demo_call\<lparr>ec_slot := 1\<rparr>, demo_call#}"
proof -
  obtain s where s: "irq_run irq_demo irq_init = Some s" "ix_slot s = Irq_null" "ix_sent s = {#demo_call\<lparr>ec_slot := 1\<rparr>#}"
    using irq_demo_run(1) by blast
  have "ix_registered s = ix_sent s + slot_calls (ix_slot s) + overwritten irq_demo irq_init"
    by (rule irq_calls_completed_once [OF s(1)])
  with s irq_demo_run(2) show ?thesis by simp
qed

text \<open>
  Registering while an interrupt call is waiting overwrites it: the old call is never
  completed, although it is still live.
\<close>

theorem irq_double_register_drops:
  "\<exists>s. irq_run [Irq_register c, Irq_register c'] irq_init = Some s \<and>
     ix_slot s = Irq_call c' \<and> ix_sent s = {#} \<and> ix_dropped s = {#c#}"
  by (simp add: irq_init_def irq_defs)

text \<open>
  Raising an interrupt leaves in the guest's flag buffer the flag 1, the time spent
  and \<open>buf_index * 2^32 + len\<close> as return value; the other bytes are kept.
\<close>

theorem send_irq_writes:
  assumes "call_header_mem c = Some g" "gm_wf g" "24 \<le> gm_all_len g"
    and "0 \<le> buf_index" "buf_index < 2 ^ 31" "0 \<le> len" "len < 2 ^ 31"
  shows "\<exists>m' c'. send_express_device_irq now m c buf_index len = Some (m', c') \<and>
    take 8 (gm_bytes m' g) = le_bytes 8 1 \<and>
    le_int (take 8 (drop 16 (gm_bytes m' g))) = buf_index * 2 ^ 32 + len \<and>
    drop 24 (gm_bytes m' g) = drop 24 (gm_bytes m g)"
proof -
  let ?v = "c_size (push_bit 32 (c_size buf_index) + c_size len)"
  have v: "?v = buf_index * 2 ^ 32 + len" "0 \<le> buf_index * 2 ^ 32 + len" "buf_index * 2 ^ 32 + len < 2 ^ 64"
    using assms(4-7) by (simp_all add: push_bit_eq_mult)
  note lg = length_gm_bytes [OF assms(2)]
  obtain m1 where m1: "guest_write m g (le_bytes 8 ?v) 16 8 = Some m1"
      "gm_bytes m1 g = take 16 (gm_bytes m g) @ le_bytes 8 ?v @ drop 24 (gm_bytes m g)"
    using gc.wr_view [OF assms(2), of 16 8 m "le_bytes 8 ?v"] lg [of m] assms(3) by auto
  define c' where "c' = (if ec_spend_time c \<noteq> 0 then c\<lparr>ec_spend_time := now - ec_spend_time c\<rparr> else c)"
  have hd: "call_header_mem c' = Some g" using assms(1) by (simp add: c'_def call_header_mem_def)
  obtain m2 where m2: "guest_write m1 g (le_bytes 8 1) 0 8 = Some m2"
      "gm_bytes m2 g = le_bytes 8 1 @ drop 8 (gm_bytes m1 g)"
    using gc.wr_view [OF assms(2), of 0 8 m1 "le_bytes 8 1"] lg [of m1] assms(3) by auto
  obtain m3 where m3: "guest_write m2 g (le_bytes 8 (ec_spend_time c')) 8 8 = Some m3"
      "gm_bytes m3 g = take 8 (gm_bytes m2 g) @ le_bytes 8 (ec_spend_time c') @ drop 16 (gm_bytes m2 g)"
    using gc.wr_view [OF assms(2), of 8 8 m2 "le_bytes 8 (ec_spend_time c')"] lg [of m2] assms(3) by auto
  have "send_express_device_irq now m c buf_index len = Some (m3, c')"
    using m1(1) m2(1) m3(1) assms(1) hd
    by (simp add: send_express_device_irq_def common_call_callback_def Let_def c'_def [symmetric]
        guest_write_def FLAG_OFF_def MEM_SPEND_TIME_OFF_def RET_DATA_OFF_def)
  moreover have "gm_bytes m3 g = le_bytes 8 1 @ le_bytes 8 (ec_spend_time c') @ le_bytes 8 ?v @ drop 24 (gm_bytes m g)"
    using m3(2) m2(2) m1(2) lg [of m] assms(3) by simp
  ultimately show ?thesis using v by (simp add: le_int_le_bytes)
qed

theorem send_irq_writes_witness:
  "\<exists>m' c'. send_express_device_irq 5 (\<lambda>_. 0) demo_call 3 4 = Some (m', c') \<and>
     le_int (take 8 (drop 16 (gm_bytes m' \<lparr>gm_scatter = [\<lparr>sdata = 1000, slen = 64\<rparr>], gm_all_len = 64\<rparr>))) = 12884901892"
proof -
  obtain m' c' where "send_express_device_irq 5 (\<lambda>_. 0) demo_call 3 4 = Some (m', c')"
      "le_int (take 8 (drop 16 (gm_bytes m' \<lparr>gm_scatter = [\<lparr>sdata = 1000, slen = 64\<rparr>], gm_all_len = 64\<rparr>))) =
        3 * 2 ^ 32 + 4"
    using send_irq_writes [OF demo_header_mem, of 3 4 5 "\<lambda>_. 0"] by auto
  then show ?thesis by auto
qed

text \<open>
  C15. Synchronising the input queue releases every completed call of the recycle queue
  and notifies the guest exactly once if there was any.
\<close>

theorem input_sync_releases_all:
  assumes "rq_contents (is_recycle s) xs" "pk_inv (out + mset xs) (is_pack s)"
  shows "rq_contents (is_recycle (express_input_device_sync s)) [] \<and>
    pk_inv out (is_pack (express_input_device_sync s)) \<and>
    is_notifies (express_input_device_sync s) = is_notifies s + of_bool (xs \<noteq> [])"
proof -
  have "length xs \<le> RECYCLE_SIZE" using assms(1) by (simp add: rq_contents_def)
  from input_sync_loop_drains [OF assms this] show ?thesis
    by (auto simp: express_input_device_sync_def)
qed

text \<open>The input queue with one completed call that waits in the recycle queue.\<close>

definition one_completed :: input_state where
  "one_completed = \<lparr>is_store = (\<lambda>_. 0),
     is_pack = pk_init\<lparr>pk_calls := Some one_slot, pk_mems := Some one_slot\<rparr>,
     is_recycle = the (recycle_push rq_init suspended_call), is_can_set = True, is_signals = 0, is_notifies = 7\<rparr>"

lemma one_completed_facts:
  "rq_contents (is_recycle one_completed) [suspended_call]" "pk_inv (mset [suspended_call]) (is_pack one_completed)"
proof -
  obtain q where "recycle_push rq_init suspended_call = Some q" "rq_contents q [suspended_call]"
    using recycle_push_contents [OF rq_init_contents, of suspended_call] by (auto simp: RECYCLE_SIZE_def)
  then show "rq_contents (is_recycle one_completed) [suspended_call]" by (simp add: one_completed_def)
  have "held suspended_state = {#suspended_call#}" by (simp add: held_def suspended_state_def)
  with suspended_state_inv show "pk_inv (mset [suspended_call]) (is_pack one_completed)"
    by (simp add: pk_inv_def one_completed_def pk_init_def held_def suspended_state_def)
qed

theorem input_sync_releases_all_witness:
  "rq_contents (is_recycle (express_input_device_sync one_completed)) [] \<and>
   pk_inv {#} (is_pack (express_input_device_sync one_completed)) \<and>
   is_notifies (express_input_device_sync one_completed) = 8"
  using input_sync_releases_all [OF one_completed_facts(1), of "{#}"] one_completed_facts(2)
  by (simp add: one_completed_def)

end
