(* ===== verification/Mem_Sync.thy ===== *)
theory Mem_Sync
  imports Irq_Register
begin

text \<open>
  The synchronisation device, after \<^verbatim>\<open>hw/express-mem/express_sync.c\<close>: a bitmap of 512 words
  in guest memory, \<^verbatim>\<open>signal_express_sync\<close> and \<^verbatim>\<open>wait_for_express_sync\<close>. OpenGL fences are
  numbers handed out by the driver. The macro \<^verbatim>\<open>SET_SYNC_FLAG\<close> is given as one operation
  and as the interleaving of the accesses of several signalling threads.
\<close>

section \<open>State and operations\<close>

definition MAX_SYNC_NUM :: nat where
  "MAX_SYNC_NUM = 512"

record sync_state =
  sy_flags :: "32 word list option"
  sy_guest_waiting :: int
  sy_wait_cnt :: int
  sy_fence :: "nat \<Rightarrow> nat option"
  sy_next_fence :: nat
  sy_deleted_fences :: "nat list"
  sy_events :: nat
  sy_irqs :: "int list"

definition SYNC_FLAG_SIGNAL :: "32 word list \<Rightarrow> nat \<Rightarrow> bool" where
  "SYNC_FLAG_SIGNAL flags sync_id = bit (flags ! (sync_id div 32)) (sync_id mod 32)"

definition SET_SYNC_FLAG :: "32 word list \<Rightarrow> nat \<Rightarrow> 32 word list" where
  "SET_SYNC_FLAG flags sync_id =
     flags[sync_id div 32 := flags ! (sync_id div 32) OR push_bit (sync_id mod 32) 1]"

definition sync_id_ok :: "int \<Rightarrow> bool" where
  "sync_id_ok sync_id \<longleftrightarrow> 0 \<le> sync_id \<and> sync_id < int MAX_SYNC_NUM * 32"

definition signal_gpu :: "nat \<Rightarrow> sync_state \<Rightarrow> sync_state" where
  "signal_gpu i s =
     s\<lparr>sy_deleted_fences := (case sy_fence s i of None \<Rightarrow> sy_deleted_fences s | Some f \<Rightarrow> sy_deleted_fences s @ [f]),
       sy_fence := (sy_fence s)(i := Some (sy_next_fence s)), sy_next_fence := sy_next_fence s + 1\<rparr>"

definition signal_express_sync :: "int \<Rightarrow> bool \<Rightarrow> sync_state \<Rightarrow> sync_state" where
  "signal_express_sync sync_id need_gpu_sync s =
     (if \<not> sync_id_ok sync_id then s
      else
        (case sy_flags s of
           None \<Rightarrow> s
         | Some flags \<Rightarrow>
             (let s1 = (if need_gpu_sync then signal_gpu (nat sync_id) s else s);
                  s2 = s1\<lparr>sy_flags := Some (SET_SYNC_FLAG flags (nat sync_id))\<rparr>;
                  s3 = (if sy_wait_cnt s2 \<noteq> 0 then s2\<lparr>sy_events := sy_events s2 + 1\<rparr> else s2)\<lparr>sy_wait_cnt := 0\<rparr> in
              (if sy_guest_waiting s3 \<noteq> 0 then s3\<lparr>sy_irqs := sy_irqs s3 @ [sy_guest_waiting s3]\<rparr> else s3)
                \<lparr>sy_guest_waiting := 0\<rparr>)))"

text \<open>
  The wait loop: each element is the result of one \<^verbatim>\<open>wait_event\<close> with the bitmap found
  after it. \<open>None\<close>: still waiting.
\<close>

fun wait_sync_loop :: "nat \<Rightarrow> (int \<times> 32 word list) list \<Rightarrow> sync_state \<Rightarrow> sync_state option" where
  "wait_sync_loop i obs s =
     (case sy_flags s of
        None \<Rightarrow> Some s
      | Some flags \<Rightarrow>
          (if SYNC_FLAG_SIGNAL flags i then Some s
           else
             (case obs of
                [] \<Rightarrow> None
              | (ret, flags') # obs' \<Rightarrow>
                  (let s' = s\<lparr>sy_wait_cnt := sy_wait_cnt s + 1, sy_flags := Some flags'\<rparr> in
                   if ret = - 1 then Some s' else wait_sync_loop i obs' s'))))"

declare wait_sync_loop.simps [simp del]

definition wait_gpu :: "nat \<Rightarrow> sync_state \<Rightarrow> sync_state" where
  "wait_gpu i s =
     (case sy_fence s i of
        None \<Rightarrow> s
      | Some f \<Rightarrow> s\<lparr>sy_fence := (sy_fence s)(i := None), sy_deleted_fences := sy_deleted_fences s @ [f]\<rparr>)"

definition wait_for_express_sync :: "int \<Rightarrow> bool \<Rightarrow> (int \<times> 32 word list) list \<Rightarrow> sync_state \<Rightarrow> sync_state option" where
  "wait_for_express_sync sync_id need_gpu_sync obs s =
     (if \<not> sync_id_ok sync_id then Some s
      else
        (case sy_flags s of
           None \<Rightarrow> Some s
         | Some flags \<Rightarrow>
             map_option (\<lambda>s'. if need_gpu_sync then wait_gpu (nat sync_id) s' else s')
               (wait_sync_loop (nat sync_id) obs s)))"

text \<open>Registration of the guest's bitmap: \<open>flags\<close> is what the direct pointer shows.\<close>

definition sync_buffer_register :: "guest_mem \<Rightarrow> 32 word list \<Rightarrow> sync_state \<Rightarrow> sync_state" where
  "sync_buffer_register data flags s =
     s\<lparr>sy_flags := (case get_direct_ptr data of (null_flag, p) \<Rightarrow> if p = 0 then None else Some flags)\<rparr>"

section \<open>Several signalling threads on one word\<close>

datatype sig_pc = Sig_load | Sig_cas "32 word" | Sig_check | Sig_done

record sig_state =
  sg_word :: "32 word"
  sg_pc :: "nat \<Rightarrow> sig_pc"

text \<open>Thread \<open>i\<close> sets bit \<open>b i\<close>.\<close>

definition sig_step :: "(nat \<Rightarrow> nat) \<Rightarrow> nat \<Rightarrow> sig_state \<Rightarrow> sig_state" where
  "sig_step b i s =
     (case sg_pc s i of
        Sig_load \<Rightarrow> s\<lparr>sg_pc := (sg_pc s)(i := Sig_cas (sg_word s))\<rparr>
      | Sig_cas old \<Rightarrow>
          (let w = (if sg_word s = old then old OR push_bit (b i) 1 else sg_word s) in
           s\<lparr>sg_word := w, sg_pc := (sg_pc s)(i := Sig_check)\<rparr>)
      | Sig_check \<Rightarrow>
          (if bit (sg_word s) (b i) then s\<lparr>sg_pc := (sg_pc s)(i := Sig_done)\<rparr>
           else s\<lparr>sg_pc := (sg_pc s)(i := Sig_load)\<rparr>)
      | Sig_done \<Rightarrow> s)"

definition sig_init :: "32 word \<Rightarrow> sig_state" where
  "sig_init w = \<lparr>sg_word = w, sg_pc = (\<lambda>_. Sig_load)\<rparr>"

definition sig_run :: "(nat \<Rightarrow> nat) \<Rightarrow> nat list \<Rightarrow> sig_state \<Rightarrow> sig_state" where
  "sig_run b is s = fold (sig_step b) is s"

lemma sig_step_mono: "bit (sg_word s) k \<Longrightarrow> bit (sg_word (sig_step b i s)) k"
  by (auto simp: sig_step_def Let_def bit_or_iff split: sig_pc.splits)

lemma sig_step_done:
  assumes "\<forall>j. sg_pc s j = Sig_done \<longrightarrow> bit (sg_word s) (b j)"
  shows "\<forall>j. sg_pc (sig_step b i s) j = Sig_done \<longrightarrow> bit (sg_word (sig_step b i s)) (b j)"
  using assms sig_step_mono [of s _ b i]
  by (auto simp: sig_step_def Let_def bit_or_iff split: sig_pc.splits if_splits)

lemma sig_run_done:
  "\<forall>j. sg_pc s j = Sig_done \<longrightarrow> bit (sg_word s) (b j) \<Longrightarrow>
     \<forall>j. sg_pc (sig_run b is s) j = Sig_done \<longrightarrow> bit (sg_word (sig_run b is s)) (b j)"
proof (induction "is" arbitrary: s)
  case (Cons i "is")
  from Cons.IH [OF sig_step_done [OF Cons.prems, of i]] show ?case by (simp add: sig_run_def)
qed (simp add: sig_run_def)

lemma sig_run_mono: "bit (sg_word s) k \<Longrightarrow> bit (sg_word (sig_run b is s)) k"
proof (induction "is" arbitrary: s)
  case (Cons i "is")
  from Cons.IH [OF sig_step_mono [OF Cons.prems, of b i]] show ?case by (simp add: sig_run_def)
qed (simp add: sig_run_def)

lemma set_sync_flag_signal:
  assumes "length flags = MAX_SYNC_NUM" "i < MAX_SYNC_NUM * 32" "j < MAX_SYNC_NUM * 32"
  shows "SYNC_FLAG_SIGNAL (SET_SYNC_FLAG flags i) j \<longleftrightarrow> i = j \<or> SYNC_FLAG_SIGNAL flags j"
proof -
  have "i div 32 < length flags" "j div 32 < length flags" using assms by auto
  moreover have "i = j \<longleftrightarrow> i div 32 = j div 32 \<and> i mod 32 = j mod 32"
    by (metis div_mult_mod_eq)
  moreover have "j mod 32 < 32" "i mod 32 < 32" by simp_all
  ultimately show ?thesis
    by (auto simp: SYNC_FLAG_SIGNAL_def SET_SYNC_FLAG_def nth_list_update bit_or_iff bit_exp_iff)
qed

section \<open>Properties\<close>

text \<open>
  C17. Signalling a valid id sets exactly its flag in the bitmap, wakes the host waiters
  and raises one interrupt when waiters are counted, resets both counters, and afterwards
  waiting for the id returns at once; other flags are kept.
\<close>

theorem signal_sync_correct:
  fixes gpu :: bool
  assumes "sy_flags s = Some flags" "length flags = MAX_SYNC_NUM" "0 \<le> i" "i < int MAX_SYNC_NUM * 32"
  defines "s' \<equiv> signal_express_sync i gpu s"
  shows "\<exists>flags'. sy_flags s' = Some flags' \<and> length flags' = MAX_SYNC_NUM \<and>
    (\<forall>j < MAX_SYNC_NUM * 32. SYNC_FLAG_SIGNAL flags' j \<longleftrightarrow> j = nat i \<or> SYNC_FLAG_SIGNAL flags j) \<and>
    sy_events s' = sy_events s + of_bool (sy_wait_cnt s \<noteq> 0) \<and> sy_wait_cnt s' = 0 \<and> sy_guest_waiting s' = 0 \<and>
    sy_irqs s' = sy_irqs s @ (if sy_guest_waiting s \<noteq> 0 then [sy_guest_waiting s] else []) \<and>
    wait_for_express_sync i False obs s' = Some s'"
proof -
  let ?f = "SET_SYNC_FLAG flags (nat i)"
  have ok: "sync_id_ok i" "nat i < MAX_SYNC_NUM * 32" using assms(3,4) by (auto simp: sync_id_ok_def)
  have f: "sy_flags s' = Some ?f" "sy_events s' = sy_events s + of_bool (sy_wait_cnt s \<noteq> 0)"
      "sy_wait_cnt s' = 0" "sy_guest_waiting s' = 0"
      "sy_irqs s' = sy_irqs s @ (if sy_guest_waiting s \<noteq> 0 then [sy_guest_waiting s] else [])"
    using assms(1) ok(1) by (simp_all add: s'_def signal_express_sync_def Let_def signal_gpu_def)
  have bits: "\<forall>j < MAX_SYNC_NUM * 32. SYNC_FLAG_SIGNAL ?f j \<longleftrightarrow> j = nat i \<or> SYNC_FLAG_SIGNAL flags j"
    using set_sync_flag_signal [OF assms(2) ok(2)] by auto
  then have "wait_for_express_sync i False obs s' = Some s'"
    using f(1) ok by (simp add: wait_for_express_sync_def wait_sync_loop.simps)
  moreover have "length ?f = MAX_SYNC_NUM" using assms(2) by (simp add: SET_SYNC_FLAG_def)
  ultimately show ?thesis using f bits by blast
qed

definition sync_demo :: sync_state where
  "sync_demo = \<lparr>sy_flags = Some (replicate 512 0), sy_guest_waiting = 2, sy_wait_cnt = 0, sy_fence = (\<lambda>_. None),
     sy_next_fence = 0, sy_deleted_fences = [], sy_events = 0, sy_irqs = []\<rparr>"

theorem signal_sync_correct_witness:
  "sy_irqs (signal_express_sync 31 False sync_demo) = [2] \<and> sy_events (signal_express_sync 31 False sync_demo) = 0"
proof -
  have "sy_flags sync_demo = Some (replicate 512 0)" "length (replicate 512 (0 :: 32 word)) = MAX_SYNC_NUM"
    by (simp_all add: sync_demo_def MAX_SYNC_NUM_def)
  from signal_sync_correct [OF this, of 31 False "[]"] show ?thesis
    by (auto simp: MAX_SYNC_NUM_def sync_demo_def)
qed

text \<open>
  C18. Threads that signal different ids of the same bitmap word at the same time do not
  undo each other: under every schedule a thread that has left the loop has its bit set,
  and bits that were set stay set.
\<close>

theorem sync_signals_not_lost:
  "(\<forall>i. sg_pc (sig_run b sched (sig_init w)) i = Sig_done \<longrightarrow>
          bit (sg_word (sig_run b sched (sig_init w))) (b i)) \<and>
   (\<forall>k. bit w k \<longrightarrow> bit (sg_word (sig_run b sched (sig_init w))) k)"
  using sig_run_done [of "sig_init w" b sched] sig_run_mono [of "sig_init w" _ b sched]
  by (simp add: sig_init_def)

theorem sync_signals_not_lost_witness:
  "bit (sg_word (sig_run (\<lambda>i. i) [3, 4, 4, 3, 3, 3, 3, 3] (sig_init 0))) 3"
proof -
  have "sg_pc (sig_run (\<lambda>i. i) [3, 4, 4, 3, 3, 3, 3, 3] (sig_init 0)) 3 = Sig_done"
    by (simp add: sig_run_def sig_init_def sig_step_def Let_def bit_or_iff bit_push_bit_iff)
  then show ?thesis
    using sync_signals_not_lost [of "\<lambda>i. i" "[3, 4, 4, 3, 3, 3, 3, 3]" 0] by blast
qed

end
