(* ===== verification/Gl_Enums.thy ===== *)
theory Gl_Enums
  imports Main
begin

text \<open>
  The OpenGL enumerators that the size tables of \<^verbatim>\<open>gl_helper.c\<close> and the pixel formats of the
  shared memory device use, with their values from \<^verbatim>\<open>include/glad/glad.h\<close>.
\<close>

definition GL_ALPHA :: int where "GL_ALPHA = 0x1906"
definition GL_ALPHA16F_EXT :: int where "GL_ALPHA16F_EXT = 0x881c"
definition GL_ALPHA32F_EXT :: int where "GL_ALPHA32F_EXT = 0x8816"
definition GL_ALPHA8_EXT :: int where "GL_ALPHA8_EXT = 0x803c"
definition GL_BGR :: int where "GL_BGR = 0x80e0"
definition GL_BGRA :: int where "GL_BGRA = 0x80e1"
definition GL_BGRA8_EXT :: int where "GL_BGRA8_EXT = 0x93a1"
definition GL_BGRA_EXT :: int where "GL_BGRA_EXT = 0x80e1"
definition GL_BOOL :: int where "GL_BOOL = 0x8b56"
definition GL_BOOL_VEC2 :: int where "GL_BOOL_VEC2 = 0x8b57"
definition GL_BOOL_VEC3 :: int where "GL_BOOL_VEC3 = 0x8b58"
definition GL_BOOL_VEC4 :: int where "GL_BOOL_VEC4 = 0x8b59"
definition GL_BYTE :: int where "GL_BYTE = 0x1400"
definition GL_DEPTH_COMPONENT :: int where "GL_DEPTH_COMPONENT = 0x1902"
definition GL_DEPTH_COMPONENT16 :: int where "GL_DEPTH_COMPONENT16 = 0x81a5"
definition GL_DEPTH_COMPONENT24 :: int where "GL_DEPTH_COMPONENT24 = 0x81a6"
definition GL_DEPTH_COMPONENT32F :: int where "GL_DEPTH_COMPONENT32F = 0x8cac"
definition GL_DEPTH_COMPONENT32_OES :: int where "GL_DEPTH_COMPONENT32_OES = 0x81a7"
definition GL_DOUBLE :: int where "GL_DOUBLE = 0x140a"
definition GL_DOUBLE_MAT2 :: int where "GL_DOUBLE_MAT2 = 0x8f46"
definition GL_DOUBLE_MAT2x3 :: int where "GL_DOUBLE_MAT2x3 = 0x8f49"
definition GL_DOUBLE_MAT2x4 :: int where "GL_DOUBLE_MAT2x4 = 0x8f4a"
definition GL_DOUBLE_MAT3 :: int where "GL_DOUBLE_MAT3 = 0x8f47"
definition GL_DOUBLE_MAT3x2 :: int where "GL_DOUBLE_MAT3x2 = 0x8f4b"
definition GL_DOUBLE_MAT3x4 :: int where "GL_DOUBLE_MAT3x4 = 0x8f4c"
definition GL_DOUBLE_MAT4 :: int where "GL_DOUBLE_MAT4 = 0x8f48"
definition GL_DOUBLE_MAT4x2 :: int where "GL_DOUBLE_MAT4x2 = 0x8f4d"
definition GL_DOUBLE_MAT4x3 :: int where "GL_DOUBLE_MAT4x3 = 0x8f4e"
definition GL_DOUBLE_VEC2 :: int where "GL_DOUBLE_VEC2 = 0x8ffc"
definition GL_DOUBLE_VEC3 :: int where "GL_DOUBLE_VEC3 = 0x8ffd"
definition GL_DOUBLE_VEC4 :: int where "GL_DOUBLE_VEC4 = 0x8ffe"
definition GL_FIXED :: int where "GL_FIXED = 0x140c"
definition GL_FLOAT :: int where "GL_FLOAT = 0x1406"
definition GL_FLOAT_32_UNSIGNED_INT_24_8_REV :: int where "GL_FLOAT_32_UNSIGNED_INT_24_8_REV = 0x8dad"
definition GL_FLOAT_MAT2 :: int where "GL_FLOAT_MAT2 = 0x8b5a"
definition GL_FLOAT_MAT2x3 :: int where "GL_FLOAT_MAT2x3 = 0x8b65"
definition GL_FLOAT_MAT2x4 :: int where "GL_FLOAT_MAT2x4 = 0x8b66"
definition GL_FLOAT_MAT3 :: int where "GL_FLOAT_MAT3 = 0x8b5b"
definition GL_FLOAT_MAT3x2 :: int where "GL_FLOAT_MAT3x2 = 0x8b67"
definition GL_FLOAT_MAT3x4 :: int where "GL_FLOAT_MAT3x4 = 0x8b68"
definition GL_FLOAT_MAT4 :: int where "GL_FLOAT_MAT4 = 0x8b5c"
definition GL_FLOAT_MAT4x2 :: int where "GL_FLOAT_MAT4x2 = 0x8b69"
definition GL_FLOAT_MAT4x3 :: int where "GL_FLOAT_MAT4x3 = 0x8b6a"
definition GL_FLOAT_VEC2 :: int where "GL_FLOAT_VEC2 = 0x8b50"
definition GL_FLOAT_VEC3 :: int where "GL_FLOAT_VEC3 = 0x8b51"
definition GL_FLOAT_VEC4 :: int where "GL_FLOAT_VEC4 = 0x8b52"
definition GL_HALF_FLOAT :: int where "GL_HALF_FLOAT = 0x140b"
definition GL_HALF_FLOAT_OES :: int where "GL_HALF_FLOAT_OES = 0x8d61"
definition GL_IMAGE_2D :: int where "GL_IMAGE_2D = 0x904d"
definition GL_IMAGE_2D_ARRAY :: int where "GL_IMAGE_2D_ARRAY = 0x9053"
definition GL_IMAGE_3D :: int where "GL_IMAGE_3D = 0x904e"
definition GL_IMAGE_BUFFER :: int where "GL_IMAGE_BUFFER = 0x9051"
definition GL_IMAGE_CUBE :: int where "GL_IMAGE_CUBE = 0x9050"
definition GL_INT :: int where "GL_INT = 0x1404"
definition GL_INT_2_10_10_10_REV :: int where "GL_INT_2_10_10_10_REV = 0x8d9f"
definition GL_INT_IMAGE_2D :: int where "GL_INT_IMAGE_2D = 0x9058"
definition GL_INT_IMAGE_2D_ARRAY :: int where "GL_INT_IMAGE_2D_ARRAY = 0x905e"
definition GL_INT_IMAGE_3D :: int where "GL_INT_IMAGE_3D = 0x9059"
definition GL_INT_IMAGE_BUFFER :: int where "GL_INT_IMAGE_BUFFER = 0x905c"
definition GL_INT_IMAGE_CUBE :: int where "GL_INT_IMAGE_CUBE = 0x905b"
definition GL_INT_SAMPLER_2D :: int where "GL_INT_SAMPLER_2D = 0x8dca"
definition GL_INT_SAMPLER_2D_ARRAY :: int where "GL_INT_SAMPLER_2D_ARRAY = 0x8dcf"
definition GL_INT_SAMPLER_2D_MULTISAMPLE :: int where "GL_INT_SAMPLER_2D_MULTISAMPLE = 0x9109"
definition GL_INT_SAMPLER_3D :: int where "GL_INT_SAMPLER_3D = 0x8dcb"
definition GL_INT_SAMPLER_CUBE :: int where "GL_INT_SAMPLER_CUBE = 0x8dcc"
definition GL_INT_VEC2 :: int where "GL_INT_VEC2 = 0x8b53"
definition GL_INT_VEC3 :: int where "GL_INT_VEC3 = 0x8b54"
definition GL_INT_VEC4 :: int where "GL_INT_VEC4 = 0x8b55"
definition GL_LUMINANCE :: int where "GL_LUMINANCE = 0x1909"
definition GL_LUMINANCE16F_EXT :: int where "GL_LUMINANCE16F_EXT = 0x881e"
definition GL_LUMINANCE32F_EXT :: int where "GL_LUMINANCE32F_EXT = 0x8818"
definition GL_LUMINANCE8_ALPHA8_EXT :: int where "GL_LUMINANCE8_ALPHA8_EXT = 0x8045"
definition GL_LUMINANCE8_EXT :: int where "GL_LUMINANCE8_EXT = 0x8040"
definition GL_LUMINANCE_ALPHA :: int where "GL_LUMINANCE_ALPHA = 0x190a"
definition GL_LUMINANCE_ALPHA16F_EXT :: int where "GL_LUMINANCE_ALPHA16F_EXT = 0x881f"
definition GL_LUMINANCE_ALPHA32F_EXT :: int where "GL_LUMINANCE_ALPHA32F_EXT = 0x8819"
definition GL_R16F :: int where "GL_R16F = 0x822d"
definition GL_R16I :: int where "GL_R16I = 0x8233"
definition GL_R16UI :: int where "GL_R16UI = 0x8234"
definition GL_R32F :: int where "GL_R32F = 0x822e"
definition GL_R32I :: int where "GL_R32I = 0x8235"
definition GL_R32UI :: int where "GL_R32UI = 0x8236"
definition GL_R8 :: int where "GL_R8 = 0x8229"
definition GL_R8I :: int where "GL_R8I = 0x8231"
definition GL_R8UI :: int where "GL_R8UI = 0x8232"
definition GL_R8_SNORM :: int where "GL_R8_SNORM = 0x8f94"
definition GL_RED :: int where "GL_RED = 0x1903"
definition GL_RED_INTEGER :: int where "GL_RED_INTEGER = 0x8d94"
definition GL_RG :: int where "GL_RG = 0x8227"
definition GL_RG16F :: int where "GL_RG16F = 0x822f"
definition GL_RG16I :: int where "GL_RG16I = 0x8239"
definition GL_RG16UI :: int where "GL_RG16UI = 0x823a"
definition GL_RG32F :: int where "GL_RG32F = 0x8230"
definition GL_RG32I :: int where "GL_RG32I = 0x823b"
definition GL_RG32UI :: int where "GL_RG32UI = 0x823c"
definition GL_RG8 :: int where "GL_RG8 = 0x822b"
definition GL_RG8I :: int where "GL_RG8I = 0x8237"
definition GL_RG8UI :: int where "GL_RG8UI = 0x8238"
definition GL_RG8_SNORM :: int where "GL_RG8_SNORM = 0x8f95"
definition GL_RGB :: int where "GL_RGB = 0x1907"
definition GL_RGB10_A2 :: int where "GL_RGB10_A2 = 0x8059"
definition GL_RGB16F :: int where "GL_RGB16F = 0x881b"
definition GL_RGB16I :: int where "GL_RGB16I = 0x8d89"
definition GL_RGB16UI :: int where "GL_RGB16UI = 0x8d77"
definition GL_RGB32F :: int where "GL_RGB32F = 0x8815"
definition GL_RGB32I :: int where "GL_RGB32I = 0x8d83"
definition GL_RGB32UI :: int where "GL_RGB32UI = 0x8d71"
definition GL_RGB565 :: int where "GL_RGB565 = 0x8d62"
definition GL_RGB5_A1 :: int where "GL_RGB5_A1 = 0x8057"
definition GL_RGB8 :: int where "GL_RGB8 = 0x8051"
definition GL_RGB8I :: int where "GL_RGB8I = 0x8d8f"
definition GL_RGB8UI :: int where "GL_RGB8UI = 0x8d7d"
definition GL_RGB8_SNORM :: int where "GL_RGB8_SNORM = 0x8f96"
definition GL_RGBA :: int where "GL_RGBA = 0x1908"
definition GL_RGBA16F :: int where "GL_RGBA16F = 0x881a"
definition GL_RGBA16I :: int where "GL_RGBA16I = 0x8d88"
definition GL_RGBA16UI :: int where "GL_RGBA16UI = 0x8d76"
definition GL_RGBA32F :: int where "GL_RGBA32F = 0x8814"
definition GL_RGBA32I :: int where "GL_RGBA32I = 0x8d82"
definition GL_RGBA32UI :: int where "GL_RGBA32UI = 0x8d70"
definition GL_RGBA4 :: int where "GL_RGBA4 = 0x8056"
definition GL_RGBA8 :: int where "GL_RGBA8 = 0x8058"
definition GL_RGBA8I :: int where "GL_RGBA8I = 0x8d8e"
definition GL_RGBA8UI :: int where "GL_RGBA8UI = 0x8d7c"
definition GL_RGBA8_SNORM :: int where "GL_RGBA8_SNORM = 0x8f97"
definition GL_RGBA_INTEGER :: int where "GL_RGBA_INTEGER = 0x8d99"
definition GL_RGB_INTEGER :: int where "GL_RGB_INTEGER = 0x8d98"
definition GL_RG_INTEGER :: int where "GL_RG_INTEGER = 0x8228"
definition GL_SAMPLER_2D :: int where "GL_SAMPLER_2D = 0x8b5e"
definition GL_SAMPLER_2D_ARRAY :: int where "GL_SAMPLER_2D_ARRAY = 0x8dc1"
definition GL_SAMPLER_2D_ARRAY_SHADOW :: int where "GL_SAMPLER_2D_ARRAY_SHADOW = 0x8dc4"
definition GL_SAMPLER_2D_MULTISAMPLE :: int where "GL_SAMPLER_2D_MULTISAMPLE = 0x9108"
definition GL_SAMPLER_2D_SHADOW :: int where "GL_SAMPLER_2D_SHADOW = 0x8b62"
definition GL_SAMPLER_3D :: int where "GL_SAMPLER_3D = 0x8b5f"
definition GL_SAMPLER_CUBE :: int where "GL_SAMPLER_CUBE = 0x8b60"
definition GL_SAMPLER_CUBE_SHADOW :: int where "GL_SAMPLER_CUBE_SHADOW = 0x8dc5"
definition GL_SHORT :: int where "GL_SHORT = 0x1402"
definition GL_SRGB8 :: int where "GL_SRGB8 = 0x8c41"
definition GL_SRGB8_ALPHA8 :: int where "GL_SRGB8_ALPHA8 = 0x8c43"
definition GL_UNSIGNED_BYTE :: int where "GL_UNSIGNED_BYTE = 0x1401"
definition GL_UNSIGNED_INT :: int where "GL_UNSIGNED_INT = 0x1405"
definition GL_UNSIGNED_INT_10F_11F_11F_REV :: int where "GL_UNSIGNED_INT_10F_11F_11F_REV = 0x8c3b"
definition GL_UNSIGNED_INT_24_8_OES :: int where "GL_UNSIGNED_INT_24_8_OES = 0x84fa"
definition GL_UNSIGNED_INT_2_10_10_10_REV :: int where "GL_UNSIGNED_INT_2_10_10_10_REV = 0x8368"
definition GL_UNSIGNED_INT_5_9_9_9_REV :: int where "GL_UNSIGNED_INT_5_9_9_9_REV = 0x8c3e"
definition GL_UNSIGNED_INT_8_8_8_8_REV :: int where "GL_UNSIGNED_INT_8_8_8_8_REV = 0x8367"
definition GL_UNSIGNED_INT_ATOMIC_COUNTER :: int where "GL_UNSIGNED_INT_ATOMIC_COUNTER = 0x92db"
definition GL_UNSIGNED_INT_IMAGE_2D :: int where "GL_UNSIGNED_INT_IMAGE_2D = 0x9063"
definition GL_UNSIGNED_INT_IMAGE_2D_ARRAY :: int where "GL_UNSIGNED_INT_IMAGE_2D_ARRAY = 0x9069"
definition GL_UNSIGNED_INT_IMAGE_3D :: int where "GL_UNSIGNED_INT_IMAGE_3D = 0x9064"
definition GL_UNSIGNED_INT_IMAGE_BUFFER :: int where "GL_UNSIGNED_INT_IMAGE_BUFFER = 0x9067"
definition GL_UNSIGNED_INT_IMAGE_CUBE :: int where "GL_UNSIGNED_INT_IMAGE_CUBE = 0x9066"
definition GL_UNSIGNED_INT_SAMPLER_2D :: int where "GL_UNSIGNED_INT_SAMPLER_2D = 0x8dd2"
definition GL_UNSIGNED_INT_SAMPLER_2D_ARRAY :: int where "GL_UNSIGNED_INT_SAMPLER_2D_ARRAY = 0x8dd7"
definition GL_UNSIGNED_INT_SAMPLER_2D_MULTISAMPLE :: int where "GL_UNSIGNED_INT_SAMPLER_2D_MULTISAMPLE = 0x910a"
definition GL_UNSIGNED_INT_SAMPLER_3D :: int where "GL_UNSIGNED_INT_SAMPLER_3D = 0x8dd3"
definition GL_UNSIGNED_INT_SAMPLER_CUBE :: int where "GL_UNSIGNED_INT_SAMPLER_CUBE = 0x8dd4"
definition GL_UNSIGNED_INT_VEC2 :: int where "GL_UNSIGNED_INT_VEC2 = 0x8dc6"
definition GL_UNSIGNED_INT_VEC3 :: int where "GL_UNSIGNED_INT_VEC3 = 0x8dc7"
definition GL_UNSIGNED_INT_VEC4 :: int where "GL_UNSIGNED_INT_VEC4 = 0x8dc8"
definition GL_UNSIGNED_SHORT :: int where "GL_UNSIGNED_SHORT = 0x1403"
definition GL_UNSIGNED_SHORT_1_5_5_5_REV_EXT :: int where "GL_UNSIGNED_SHORT_1_5_5_5_REV_EXT = 0x8366"
definition GL_UNSIGNED_SHORT_4_4_4_4 :: int where "GL_UNSIGNED_SHORT_4_4_4_4 = 0x8033"
definition GL_UNSIGNED_SHORT_4_4_4_4_REV_EXT :: int where "GL_UNSIGNED_SHORT_4_4_4_4_REV_EXT = 0x8365"
definition GL_UNSIGNED_SHORT_5_5_5_1 :: int where "GL_UNSIGNED_SHORT_5_5_5_1 = 0x8034"
definition GL_UNSIGNED_SHORT_5_6_5 :: int where "GL_UNSIGNED_SHORT_5_6_5 = 0x8363"
definition GL_UNSIGNED_SHORT_5_6_5_REV :: int where "GL_UNSIGNED_SHORT_5_6_5_REV = 0x8364"

lemmas gl_enum_defs =
  GL_ALPHA_def GL_ALPHA16F_EXT_def GL_ALPHA32F_EXT_def GL_ALPHA8_EXT_def GL_BGR_def GL_BGRA_def
  GL_BGRA8_EXT_def GL_BGRA_EXT_def GL_BOOL_def GL_BOOL_VEC2_def GL_BOOL_VEC3_def GL_BOOL_VEC4_def GL_BYTE_def
  GL_DEPTH_COMPONENT_def GL_DEPTH_COMPONENT16_def GL_DEPTH_COMPONENT24_def GL_DEPTH_COMPONENT32F_def
  GL_DEPTH_COMPONENT32_OES_def GL_DOUBLE_def GL_DOUBLE_MAT2_def GL_DOUBLE_MAT2x3_def GL_DOUBLE_MAT2x4_def
  GL_DOUBLE_MAT3_def GL_DOUBLE_MAT3x2_def GL_DOUBLE_MAT3x4_def GL_DOUBLE_MAT4_def GL_DOUBLE_MAT4x2_def
  GL_DOUBLE_MAT4x3_def GL_DOUBLE_VEC2_def GL_DOUBLE_VEC3_def GL_DOUBLE_VEC4_def GL_FIXED_def GL_FLOAT_def
  GL_FLOAT_32_UNSIGNED_INT_24_8_REV_def GL_FLOAT_MAT2_def GL_FLOAT_MAT2x3_def GL_FLOAT_MAT2x4_def
  GL_FLOAT_MAT3_def GL_FLOAT_MAT3x2_def GL_FLOAT_MAT3x4_def GL_FLOAT_MAT4_def GL_FLOAT_MAT4x2_def
  GL_FLOAT_MAT4x3_def GL_FLOAT_VEC2_def GL_FLOAT_VEC3_def GL_FLOAT_VEC4_def GL_HALF_FLOAT_def
  GL_HALF_FLOAT_OES_def GL_IMAGE_2D_def GL_IMAGE_2D_ARRAY_def GL_IMAGE_3D_def GL_IMAGE_BUFFER_def
  GL_IMAGE_CUBE_def GL_INT_def GL_INT_2_10_10_10_REV_def GL_INT_IMAGE_2D_def GL_INT_IMAGE_2D_ARRAY_def
  GL_INT_IMAGE_3D_def GL_INT_IMAGE_BUFFER_def GL_INT_IMAGE_CUBE_def GL_INT_SAMPLER_2D_def
  GL_INT_SAMPLER_2D_ARRAY_def GL_INT_SAMPLER_2D_MULTISAMPLE_def GL_INT_SAMPLER_3D_def GL_INT_SAMPLER_CUBE_def
  GL_INT_VEC2_def GL_INT_VEC3_def GL_INT_VEC4_def GL_LUMINANCE_def GL_LUMINANCE16F_EXT_def
  GL_LUMINANCE32F_EXT_def GL_LUMINANCE8_ALPHA8_EXT_def GL_LUMINANCE8_EXT_def GL_LUMINANCE_ALPHA_def
  GL_LUMINANCE_ALPHA16F_EXT_def GL_LUMINANCE_ALPHA32F_EXT_def GL_R16F_def GL_R16I_def GL_R16UI_def
  GL_R32F_def GL_R32I_def GL_R32UI_def GL_R8_def GL_R8I_def GL_R8UI_def GL_R8_SNORM_def GL_RED_def
  GL_RED_INTEGER_def GL_RG_def GL_RG16F_def GL_RG16I_def GL_RG16UI_def GL_RG32F_def GL_RG32I_def
  GL_RG32UI_def GL_RG8_def GL_RG8I_def GL_RG8UI_def GL_RG8_SNORM_def GL_RGB_def GL_RGB10_A2_def GL_RGB16F_def
  GL_RGB16I_def GL_RGB16UI_def GL_RGB32F_def GL_RGB32I_def GL_RGB32UI_def GL_RGB565_def GL_RGB5_A1_def
  GL_RGB8_def GL_RGB8I_def GL_RGB8UI_def GL_RGB8_SNORM_def GL_RGBA_def GL_RGBA16F_def GL_RGBA16I_def
  GL_RGBA16UI_def GL_RGBA32F_def GL_RGBA32I_def GL_RGBA32UI_def GL_RGBA4_def GL_RGBA8_def GL_RGBA8I_def
  GL_RGBA8UI_def GL_RGBA8_SNORM_def GL_RGBA_INTEGER_def GL_RGB_INTEGER_def GL_RG_INTEGER_def
  GL_SAMPLER_2D_def GL_SAMPLER_2D_ARRAY_def GL_SAMPLER_2D_ARRAY_SHADOW_def GL_SAMPLER_2D_MULTISAMPLE_def
  GL_SAMPLER_2D_SHADOW_def GL_SAMPLER_3D_def GL_SAMPLER_CUBE_def GL_SAMPLER_CUBE_SHADOW_def GL_SHORT_def
  GL_SRGB8_def GL_SRGB8_ALPHA8_def GL_UNSIGNED_BYTE_def GL_UNSIGNED_INT_def
  GL_UNSIGNED_INT_10F_11F_11F_REV_def GL_UNSIGNED_INT_24_8_OES_def GL_UNSIGNED_INT_2_10_10_10_REV_def
  GL_UNSIGNED_INT_5_9_9_9_REV_def GL_UNSIGNED_INT_8_8_8_8_REV_def GL_UNSIGNED_INT_ATOMIC_COUNTER_def
  GL_UNSIGNED_INT_IMAGE_2D_def GL_UNSIGNED_INT_IMAGE_2D_ARRAY_def GL_UNSIGNED_INT_IMAGE_3D_def
  GL_UNSIGNED_INT_IMAGE_BUFFER_def GL_UNSIGNED_INT_IMAGE_CUBE_def GL_UNSIGNED_INT_SAMPLER_2D_def
  GL_UNSIGNED_INT_SAMPLER_2D_ARRAY_def GL_UNSIGNED_INT_SAMPLER_2D_MULTISAMPLE_def
  GL_UNSIGNED_INT_SAMPLER_3D_def GL_UNSIGNED_INT_SAMPLER_CUBE_def GL_UNSIGNED_INT_VEC2_def
  GL_UNSIGNED_INT_VEC3_def GL_UNSIGNED_INT_VEC4_def GL_UNSIGNED_SHORT_def
  GL_UNSIGNED_SHORT_1_5_5_5_REV_EXT_def GL_UNSIGNED_SHORT_4_4_4_4_def GL_UNSIGNED_SHORT_4_4_4_4_REV_EXT_def
  GL_UNSIGNED_SHORT_5_5_5_1_def GL_UNSIGNED_SHORT_5_6_5_def GL_UNSIGNED_SHORT_5_6_5_REV_def

end
