(* ===== verification/Gl_Helper.thy ===== *)
theory Gl_Helper
  imports Gl_Enums Vsoc_Prelude
begin

text \<open>
  Helpers of the graphics device, after \<^verbatim>\<open>hw/express-gpu/gl_helper.c\<close>: the size tables
  \<^verbatim>\<open>pixel_size_calc\<close> and \<^verbatim>\<open>gl_sizeof\<close>, and the doubly linked list \<^verbatim>\<open>Dying_List\<close> of objects that
  wait for their destruction. The list lives in a heap of nodes; using a freed node makes
  an operation \<open>None\<close>.
\<close>

section \<open>Size tables\<close>

text \<open>
  Cases of a switch that stand next to each other and return the same size are one
  test. A case that only logs falls through to the final \<open>0\<close>.
\<close>

definition pixel_size_calc :: "int \<Rightarrow> int \<Rightarrow> int" where
  "pixel_size_calc format type =
     (if type = GL_BYTE then
        (if format \<in> set [GL_R8, GL_R8I, GL_R8_SNORM, GL_RED, GL_RED_INTEGER] then 1
         else if format \<in> set [GL_RG8, GL_RG8I, GL_RG8_SNORM, GL_RG, GL_RG_INTEGER] then 2
         else if format \<in> set [GL_RGB8, GL_RGB8I, GL_RGB8_SNORM, GL_RGB, GL_RGB_INTEGER] then 3
         else if format \<in> set [GL_RGBA8, GL_RGBA8I, GL_RGBA8_SNORM, GL_RGBA, GL_RGBA_INTEGER] then 4
         else 0)
      else if type = GL_UNSIGNED_BYTE then
        (if format \<in> set [GL_R8, GL_R8UI, GL_RED, GL_RED_INTEGER, GL_ALPHA8_EXT, GL_ALPHA,
              GL_LUMINANCE8_EXT, GL_LUMINANCE] then 1
         else if format \<in> set [GL_LUMINANCE8_ALPHA8_EXT, GL_LUMINANCE_ALPHA, GL_RG8, GL_RG8UI,
              GL_RG, GL_RG_INTEGER] then 2
         else if format \<in> set [GL_RGB8, GL_RGB8UI, GL_SRGB8, GL_RGB, GL_RGB_INTEGER] then 3
         else if format \<in> set [GL_RGBA8, GL_RGBA8UI, GL_SRGB8_ALPHA8, GL_RGBA, GL_RGBA_INTEGER,
              GL_BGRA_EXT, GL_BGRA8_EXT] then 4
         else 0)
      else if type = GL_SHORT then
        (if format \<in> set [GL_R16I, GL_RED_INTEGER] then 2
         else if format \<in> set [GL_RG16I, GL_RG_INTEGER] then 4
         else if format \<in> set [GL_RGB16I, GL_RGB_INTEGER] then 6
         else if format \<in> set [GL_RGBA16I, GL_RGBA_INTEGER] then 8
         else 0)
      else if type = GL_UNSIGNED_SHORT then
        (if format \<in> set [GL_DEPTH_COMPONENT16, GL_DEPTH_COMPONENT, GL_R16UI, GL_RED_INTEGER] then 2
         else if format \<in> set [GL_RG, GL_RG16UI, GL_RG_INTEGER] then 4
         else if format \<in> set [GL_RGB16UI, GL_RGB_INTEGER] then 6
         else if format \<in> set [GL_RGBA16UI, GL_RGBA_INTEGER] then 8
         else 0)
      else if type = GL_INT then
        (if format \<in> set [GL_R32I, GL_RED_INTEGER] then 4
         else if format \<in> set [GL_RG32I, GL_RG_INTEGER] then 8
         else if format \<in> set [GL_RGB32I, GL_RGB_INTEGER] then 12
         else if format \<in> set [GL_RGBA32I, GL_RGBA_INTEGER] then 16
         else 0)
      else if type = GL_UNSIGNED_INT then
        (if format \<in> set [GL_DEPTH_COMPONENT16, GL_DEPTH_COMPONENT24, GL_DEPTH_COMPONENT32_OES,
              GL_DEPTH_COMPONENT, GL_R32UI, GL_RED_INTEGER] then 4
         else if format \<in> set [GL_RG32UI, GL_RG_INTEGER] then 8
         else if format \<in> set [GL_RGB32UI, GL_RGB_INTEGER] then 12
         else if format \<in> set [GL_RGBA32UI, GL_RGBA_INTEGER] then 16
         else 0)
      else if type \<in> set [GL_UNSIGNED_SHORT_4_4_4_4, GL_UNSIGNED_SHORT_5_5_5_1,
          GL_UNSIGNED_SHORT_5_6_5, GL_UNSIGNED_SHORT_4_4_4_4_REV_EXT,
          GL_UNSIGNED_SHORT_1_5_5_5_REV_EXT] then 2
      else if type \<in> set [GL_UNSIGNED_INT_10F_11F_11F_REV, GL_UNSIGNED_INT_5_9_9_9_REV,
          GL_UNSIGNED_INT_2_10_10_10_REV, GL_UNSIGNED_INT_24_8_OES] then 4
      else if type = GL_FLOAT_32_UNSIGNED_INT_24_8_REV then 8
      else if type = GL_FLOAT then
        (if format \<in> set [GL_DEPTH_COMPONENT32F, GL_DEPTH_COMPONENT, GL_ALPHA32F_EXT, GL_ALPHA,
              GL_LUMINANCE32F_EXT, GL_LUMINANCE] then 4
         else if format \<in> set [GL_LUMINANCE_ALPHA32F_EXT, GL_LUMINANCE_ALPHA] then 8
         else if format \<in> set [GL_RED, GL_R32F] then 4
         else if format \<in> set [GL_RG, GL_RG32F] then 8
         else if format \<in> set [GL_RGB, GL_RGB32F] then 12
         else if format \<in> set [GL_RGBA, GL_RGBA32F] then 16
         else 0)
      else if type \<in> set [GL_HALF_FLOAT, GL_HALF_FLOAT_OES] then
        (if format \<in> set [GL_ALPHA16F_EXT, GL_ALPHA, GL_LUMINANCE16F_EXT, GL_LUMINANCE] then 2
         else if format \<in> set [GL_LUMINANCE_ALPHA16F_EXT, GL_LUMINANCE_ALPHA] then 4
         else if format \<in> set [GL_RED, GL_R16F] then 2
         else if format \<in> set [GL_RG, GL_RG16F] then 4
         else if format \<in> set [GL_RGB, GL_RGB16F] then 6
         else if format \<in> set [GL_RGBA, GL_RGBA16F] then 8
         else 0)
      else 0)"

definition gl_sizeof :: "int \<Rightarrow> int" where
  "gl_sizeof type =
     (if type \<in> set [GL_BYTE, GL_UNSIGNED_BYTE] then 1
      else if type \<in> set [GL_SHORT, GL_UNSIGNED_SHORT, GL_HALF_FLOAT] then 2
      else if type \<in> set [GL_IMAGE_2D, GL_IMAGE_3D, GL_UNSIGNED_INT, GL_INT, GL_FLOAT, GL_FIXED,
          GL_BOOL] then 4
      else if type = GL_DOUBLE then 8
      else if type = GL_DOUBLE_VEC2 then 16
      else if type = GL_DOUBLE_VEC3 then 24
      else if type = GL_DOUBLE_VEC4 then 32
      else if type = GL_DOUBLE_MAT2 then 32
      else if type = GL_DOUBLE_MAT3 then 72
      else if type = GL_DOUBLE_MAT4 then 128
      else if type \<in> set [GL_DOUBLE_MAT2x3, GL_DOUBLE_MAT3x2] then 48
      else if type \<in> set [GL_DOUBLE_MAT2x4, GL_DOUBLE_MAT4x2] then 64
      else if type \<in> set [GL_DOUBLE_MAT3x4, GL_DOUBLE_MAT4x3] then 96
      else if type \<in> set [GL_FLOAT_VEC2, GL_INT_VEC2, GL_UNSIGNED_INT_VEC2, GL_BOOL_VEC2] then 8
      else if type \<in> set [GL_INT_VEC3, GL_UNSIGNED_INT_VEC3, GL_BOOL_VEC3, GL_FLOAT_VEC3] then 12
      else if type \<in> set [GL_FLOAT_VEC4, GL_BOOL_VEC4, GL_INT_VEC4, GL_UNSIGNED_INT_VEC4,
          GL_FLOAT_MAT2] then 16
      else if type = GL_FLOAT_MAT3 then 36
      else if type = GL_FLOAT_MAT4 then 64
      else if type \<in> set [GL_FLOAT_MAT2x3, GL_FLOAT_MAT3x2] then 24
      else if type \<in> set [GL_FLOAT_MAT2x4, GL_FLOAT_MAT4x2] then 32
      else if type \<in> set [GL_FLOAT_MAT3x4, GL_FLOAT_MAT4x3] then 48
      else if type \<in> set [GL_SAMPLER_2D, GL_SAMPLER_3D, GL_SAMPLER_CUBE, GL_SAMPLER_2D_SHADOW,
          GL_SAMPLER_2D_ARRAY, GL_SAMPLER_2D_ARRAY_SHADOW, GL_SAMPLER_2D_MULTISAMPLE,
          GL_SAMPLER_CUBE_SHADOW, GL_INT_SAMPLER_2D, GL_INT_SAMPLER_3D, GL_INT_SAMPLER_CUBE,
          GL_INT_SAMPLER_2D_ARRAY, GL_INT_SAMPLER_2D_MULTISAMPLE, GL_UNSIGNED_INT_SAMPLER_2D,
          GL_UNSIGNED_INT_SAMPLER_3D, GL_UNSIGNED_INT_SAMPLER_CUBE, GL_UNSIGNED_INT_SAMPLER_2D_ARRAY,
          GL_UNSIGNED_INT_SAMPLER_2D_MULTISAMPLE, GL_IMAGE_CUBE, GL_IMAGE_2D_ARRAY, GL_INT_IMAGE_2D,
          GL_INT_IMAGE_3D, GL_INT_IMAGE_CUBE, GL_INT_IMAGE_2D_ARRAY, GL_UNSIGNED_INT_IMAGE_2D,
          GL_UNSIGNED_INT_IMAGE_3D, GL_UNSIGNED_INT_IMAGE_CUBE, GL_UNSIGNED_INT_IMAGE_2D_ARRAY,
          GL_UNSIGNED_INT_ATOMIC_COUNTER, GL_UNSIGNED_INT_IMAGE_BUFFER, GL_IMAGE_BUFFER,
          GL_INT_IMAGE_BUFFER] then 4
      else if type \<in> set [GL_UNSIGNED_SHORT_4_4_4_4, GL_UNSIGNED_SHORT_5_5_5_1,
          GL_UNSIGNED_SHORT_5_6_5, GL_UNSIGNED_SHORT_4_4_4_4_REV_EXT,
          GL_UNSIGNED_SHORT_1_5_5_5_REV_EXT] then 2
      else if type \<in> set [GL_INT_2_10_10_10_REV, GL_UNSIGNED_INT_10F_11F_11F_REV,
          GL_UNSIGNED_INT_5_9_9_9_REV, GL_UNSIGNED_INT_2_10_10_10_REV] then 4
      else if type = GL_FLOAT_32_UNSIGNED_INT_24_8_REV then 8
      else 4)"

section \<open>The list of dying objects\<close>

record 'd dying_node =
  dn_data :: 'd
  dn_next :: "nat option"
  dn_prev :: "nat option"

record dying_list =
  dl_header :: "nat option"
  dl_tail :: "nat option"
  dl_num :: int

type_synonym 'd node_heap = "nat \<Rightarrow> 'd dying_node option"

definition dying_list_append ::
  "nat \<Rightarrow> 'd \<Rightarrow> 'd node_heap \<times> dying_list option \<Rightarrow> ('d node_heap \<times> dying_list) option" where
  "dying_list_append new data hl =
     (case hl of
        (h, l0) \<Rightarrow>
          (let l = (case l0 of None \<Rightarrow> \<lparr>dl_header = None, dl_tail = None, dl_num = 0\<rparr> | Some l \<Rightarrow> l) in
           case dl_tail l of
             None \<Rightarrow>
               Some (h(new \<mapsto> \<lparr>dn_data = data, dn_next = None, dn_prev = None\<rparr>),
                     \<lparr>dl_header = Some new, dl_tail = Some new, dl_num = dl_num l + 1\<rparr>)
           | Some t \<Rightarrow>
               (case h t of
                  None \<Rightarrow> None
                | Some nd \<Rightarrow>
                    Some (h(t \<mapsto> nd\<lparr>dn_next := Some new\<rparr>,
                            new \<mapsto> \<lparr>dn_data = data, dn_next = None, dn_prev = Some t\<rparr>),
                          l\<lparr>dl_tail := Some new, dl_num := dl_num l + 1\<rparr>))))"

text \<open>The block that takes a node out of the list and frees it.\<close>

definition set_next :: "'d node_heap \<Rightarrow> nat \<Rightarrow> nat option \<Rightarrow> 'd node_heap option" where
  "set_next h i p = map_option (\<lambda>nd. h(i \<mapsto> nd\<lparr>dn_next := p\<rparr>)) (h i)"

definition set_prev :: "'d node_heap \<Rightarrow> nat \<Rightarrow> nat option \<Rightarrow> 'd node_heap option" where
  "set_prev h i p = map_option (\<lambda>nd. h(i \<mapsto> nd\<lparr>dn_prev := p\<rparr>)) (h i)"

definition unlink_prev ::
  "nat option \<Rightarrow> nat option \<Rightarrow> 'd node_heap \<times> dying_list \<Rightarrow> ('d node_heap \<times> dying_list) option" where
  "unlink_prev prev nxt hl =
     (case prev of
        None \<Rightarrow> Some (fst hl, (snd hl)\<lparr>dl_header := nxt\<rparr>)
      | Some p \<Rightarrow> map_option (\<lambda>h. (h, snd hl)) (set_next (fst hl) p nxt))"

definition unlink_next ::
  "nat option \<Rightarrow> nat option \<Rightarrow> 'd node_heap \<times> dying_list \<Rightarrow> ('d node_heap \<times> dying_list) option" where
  "unlink_next prev nxt hl =
     (case nxt of
        None \<Rightarrow> Some (fst hl, (snd hl)\<lparr>dl_tail := prev\<rparr>)
      | Some n \<Rightarrow> map_option (\<lambda>h. (h, snd hl)) (set_prev (fst hl) n prev))"

definition dying_unlink :: "nat \<Rightarrow> 'd node_heap \<times> dying_list \<Rightarrow> ('d node_heap \<times> dying_list \<times> nat option) option" where
  "dying_unlink node hl =
     (case fst hl node of
        None \<Rightarrow> None
      | Some nd \<Rightarrow>
          (case Option.bind (unlink_prev (dn_prev nd) (dn_next nd) hl) (unlink_next (dn_prev nd) (dn_next nd)) of
             None \<Rightarrow> None
           | Some (h, l) \<Rightarrow> Some (h(node := None), l\<lparr>dl_num := dl_num l - 1\<rparr>, dn_next nd)))"

partial_function (option) dying_remove_loop ::
  "'d \<Rightarrow> nat option \<Rightarrow> 'd node_heap \<times> dying_list \<Rightarrow> ('d node_heap \<times> dying_list) option" where
  "dying_remove_loop data node hl =
     (case node of
        None \<Rightarrow> Some hl
      | Some i \<Rightarrow>
          (case fst hl i of
             None \<Rightarrow> None
           | Some nd \<Rightarrow>
               (if dn_data nd = data then map_option (\<lambda>(h, l, _). (h, l)) (dying_unlink i hl)
                else dying_remove_loop data (dn_next nd) hl)))"

definition dying_list_remove ::
  "'d \<Rightarrow> 'd node_heap \<times> dying_list option \<Rightarrow> ('d node_heap \<times> dying_list option) option" where
  "dying_list_remove data hl =
     (case hl of
        (h, None) \<Rightarrow> Some (h, None)
      | (h, Some l) \<Rightarrow>
          map_option (\<lambda>(h', l'). (h', Some l')) (dying_remove_loop data (dl_header l) (h, l)))"

text \<open>The callback of \<^verbatim>\<open>dying_list_foreach\<close> returns a number and may change a state \<open>'s\<close>.\<close>

partial_function (option) dying_foreach_loop ::
  "('d \<Rightarrow> 's \<Rightarrow> int \<times> 's) \<Rightarrow> nat option \<Rightarrow> 's \<Rightarrow> 'd node_heap \<times> dying_list \<Rightarrow> ('s \<times> 'd node_heap \<times> dying_list) option" where
  "dying_foreach_loop f node s hl =
     (case node of
        None \<Rightarrow> Some (s, hl)
      | Some i \<Rightarrow>
          (case fst hl i of
             None \<Rightarrow> None
           | Some nd \<Rightarrow>
               (case f (dn_data nd) s of
                  (r, s') \<Rightarrow>
                    (if r = 1 then
                       (case dying_unlink i hl of
                          None \<Rightarrow> None
                        | Some (h', l', nxt) \<Rightarrow> dying_foreach_loop f nxt s' (h', l'))
                     else dying_foreach_loop f (dn_next nd) s' hl))))"

definition dying_list_foreach ::
  "('d \<Rightarrow> 's \<Rightarrow> int \<times> 's) \<Rightarrow> 's \<Rightarrow> 'd node_heap \<times> dying_list option \<Rightarrow> ('s \<times> 'd node_heap \<times> dying_list option) option" where
  "dying_list_foreach f s hl =
     (case hl of
        (h, None) \<Rightarrow> Some (s, h, None)
      | (h, Some l) \<Rightarrow>
          map_option (\<lambda>(s', h', l'). (s', h', Some l')) (dying_foreach_loop f (dl_header l) s (h, l)))"

section \<open>Segments of linked nodes\<close>

text \<open>
  \<open>dseg h p ns n\<close>: the nodes \<open>ns\<close>, given by address and data, are linked in this order
  between the node \<open>p\<close> before them and the node \<open>n\<close> after them.
\<close>

fun first_addr :: "(nat \<times> 'd) list \<Rightarrow> nat option \<Rightarrow> nat option" where
  "first_addr [] n = n"
| "first_addr ((i, _) # _) n = Some i"

fun last_addr :: "nat option \<Rightarrow> (nat \<times> 'd) list \<Rightarrow> nat option" where
  "last_addr p [] = p"
| "last_addr p ((i, _) # ns) = last_addr (Some i) ns"

fun dseg :: "'d node_heap \<Rightarrow> nat option \<Rightarrow> (nat \<times> 'd) list \<Rightarrow> nat option \<Rightarrow> bool" where
  "dseg h p [] n \<longleftrightarrow> True"
| "dseg h p ((i, d) # ns) n \<longleftrightarrow>
     h i = Some \<lparr>dn_data = d, dn_next = first_addr ns n, dn_prev = p\<rparr> \<and> dseg h (Some i) ns n"

definition dying_repr :: "'d node_heap \<Rightarrow> dying_list \<Rightarrow> (nat \<times> 'd) list \<Rightarrow> bool" where
  "dying_repr h l ns \<longleftrightarrow>
     distinct (map fst ns) \<and> dseg h None ns None \<and> dl_header l = first_addr ns None
     \<and> dl_tail l = last_addr None ns \<and> dl_num l = int (length ns)"

lemma first_addr_append [simp]: "first_addr (xs @ ys) n = first_addr xs (first_addr ys n)"
  by (induction xs n rule: first_addr.induct) auto

lemma last_addr_append [simp]: "last_addr p (xs @ ys) = last_addr (last_addr p xs) ys"
  by (induction p xs rule: last_addr.induct) auto

lemma dseg_append: "dseg h p (xs @ ys) n \<longleftrightarrow> dseg h p xs (first_addr ys n) \<and> dseg h (last_addr p xs) ys n"
  by (induction h p xs n rule: dseg.induct) auto

lemma dseg_cong:
  "(\<And>i. i \<in> fst ` set ns \<Longrightarrow> h i = h' i) \<Longrightarrow> dseg h p ns n = dseg h' p ns n"
  by (induction h p ns n rule: dseg.induct) auto

lemma dseg_frame: "i \<notin> fst ` set ns \<Longrightarrow> dseg (h(i := x)) p ns n = dseg h p ns n"
  by (rule dseg_cong) auto

lemma dseg_set_next:
  assumes "dseg h p (xs @ [(j, e)]) n" "j \<notin> fst ` set xs"
  shows "set_next h j n' = Some (h(j \<mapsto> \<lparr>dn_data = e, dn_next = n', dn_prev = last_addr p xs\<rparr>))"
    and "dseg (h(j \<mapsto> \<lparr>dn_data = e, dn_next = n', dn_prev = last_addr p xs\<rparr>)) p (xs @ [(j, e)]) n'"
  using assms by (simp_all add: dseg_append set_next_def dseg_frame)

lemma dseg_set_prev:
  assumes "dseg h p ((k, f) # ys) n" "k \<notin> fst ` set ys"
  shows "set_prev h k p' = Some (h(k \<mapsto> \<lparr>dn_data = f, dn_next = first_addr ys n, dn_prev = p'\<rparr>))"
    and "dseg (h(k \<mapsto> \<lparr>dn_data = f, dn_next = first_addr ys n, dn_prev = p'\<rparr>)) p' ((k, f) # ys) n"
  using assms by (simp_all add: set_prev_def dseg_frame)

text \<open>The first half of the unlinking, on the nodes \<open>xs\<close> before the node.\<close>

lemma unlink_before:
  assumes "dseg h None xs (Some i)" "distinct (map fst xs)" "dl_header l = first_addr xs (Some i)"
  shows "\<exists>h1 l1. unlink_prev (last_addr None xs) n (h, l) = Some (h1, l1)
    \<and> dseg h1 None xs n \<and> dl_header l1 = first_addr xs n \<and> dl_tail l1 = dl_tail l \<and> dl_num l1 = dl_num l
    \<and> (\<forall>j. j \<notin> fst ` set xs \<longrightarrow> h1 j = h j)"
proof (cases xs rule: rev_cases)
  case Nil
  then show ?thesis by (simp add: unlink_prev_def)
next
  case (snoc xs' a)
  obtain j e where a: "a = (j, e)" by fastforce
  have "j \<notin> fst ` set xs'" using assms(2) snoc a by auto
  from dseg_set_next [OF assms(1) [unfolded snoc a] this, of n] assms(3) snoc a show ?thesis
    by (cases xs') (auto simp: unlink_prev_def)
qed

lemma unlink_after:
  assumes "dseg h p ys None" "distinct (map fst ys)" "dl_tail l = last_addr i ys"
  shows "\<exists>h1 l1. unlink_next q (first_addr ys None) (h, l) = Some (h1, l1)
    \<and> dseg h1 q ys None \<and> dl_tail l1 = last_addr q ys \<and> dl_header l1 = dl_header l \<and> dl_num l1 = dl_num l
    \<and> (\<forall>j. j \<notin> fst ` set ys \<longrightarrow> h1 j = h j)"
proof (cases ys)
  case Nil
  then show ?thesis by (simp add: unlink_next_def)
next
  case (Cons a ys')
  obtain k f where a: "a = (k, f)" by fastforce
  have "k \<notin> fst ` set ys'" using assms(2) Cons a by auto
  from dseg_set_prev [OF assms(1) [unfolded Cons a] this, of q] assms(3) Cons a show ?thesis
    by (auto simp: unlink_next_def)
qed

lemma dying_unlink_repr:
  assumes repr: "dying_repr h l (xs @ (i, d) # ys)"
  shows "\<exists>h' l'. dying_unlink i (h, l) = Some (h', l', first_addr ys None) \<and> dying_repr h' l' (xs @ ys)"
proof -
  from repr have dist: "distinct (map fst xs)" "distinct (map fst ys)"
      "i \<notin> fst ` set xs" "i \<notin> fst ` set ys" "fst ` set xs \<inter> fst ` set ys = {}"
    and seg: "dseg h None xs (Some i)" "dseg h (Some i) ys None"
      "h i = Some \<lparr>dn_data = d, dn_next = first_addr ys None, dn_prev = last_addr None xs\<rparr>"
    and ends: "dl_header l = first_addr xs (Some i)" "dl_tail l = last_addr (Some i) ys"
      "dl_num l = 1 + int (length xs) + int (length ys)"
    by (auto simp: dying_repr_def dseg_append)
  from unlink_before [OF seg(1) dist(1) ends(1), of "first_addr ys None"] obtain h1 l1 where
    b: "unlink_prev (last_addr None xs) (first_addr ys None) (h, l) = Some (h1, l1)"
    and h1: "dseg h1 None xs (first_addr ys None)" "dl_header l1 = first_addr xs (first_addr ys None)"
      "dl_tail l1 = dl_tail l" "dl_num l1 = dl_num l" "\<forall>j. j \<notin> fst ` set xs \<longrightarrow> h1 j = h j"
    by blast
  have "dseg h1 (Some i) ys None" using seg(2) h1(5) dist(5) dseg_cong [of ys h1 h] by blast
  from unlink_after [OF this dist(2), of l1 "Some i" "last_addr None xs"] ends(2) h1(3) obtain h2 l2 where
    a: "unlink_next (last_addr None xs) (first_addr ys None) (h1, l1) = Some (h2, l2)"
    and h2: "dseg h2 (last_addr None xs) ys None" "dl_tail l2 = last_addr (last_addr None xs) ys"
      "dl_header l2 = dl_header l1" "dl_num l2 = dl_num l1" "\<forall>j. j \<notin> fst ` set ys \<longrightarrow> h2 j = h1 j"
    by auto
  have xs2: "dseg h2 None xs (first_addr ys None)"
    using h1(1) h2(5) dist(5) dseg_cong [of xs h2 h1] by blast
  have "dying_unlink i (h, l) = Some (h2(i := None), l2\<lparr>dl_num := dl_num l2 - 1\<rparr>, first_addr ys None)"
    using seg(3) b a by (simp add: dying_unlink_def)
  moreover have "dying_repr (h2(i := None)) (l2\<lparr>dl_num := dl_num l2 - 1\<rparr>) (xs @ ys)"
    using repr xs2 h2 h1 ends dist by (auto simp: dying_repr_def dseg_append dseg_frame)
  ultimately show ?thesis by blast
qed

lemma dying_append_repr:
  assumes "dying_repr h l ns" "new \<notin> fst ` set ns"
  shows "\<exists>h' l'. dying_list_append new d (h, Some l) = Some (h', l') \<and> dying_repr h' l' (ns @ [(new, d)])"
proof (cases ns rule: rev_cases)
  case Nil
  with assms show ?thesis by (simp add: dying_list_append_def dying_repr_def)
next
  case (snoc ns' a)
  obtain j e where a: "a = (j, e)" by fastforce
  from assms snoc a have seg: "dseg h None ns' (Some j)" "h j = Some \<lparr>dn_data = e, dn_next = None, dn_prev = last_addr None ns'\<rparr>"
    and dist: "j \<notin> fst ` set ns'" "new \<noteq> j" "new \<notin> fst ` set ns'" "distinct (map fst ns')"
    and ends: "dl_header l = first_addr ns' (Some j)" "dl_tail l = Some j" "dl_num l = int (length ns') + 1"
    by (auto simp: dying_repr_def dseg_append)
  then show ?thesis using snoc a
    by (auto simp: dying_list_append_def dying_repr_def dseg_append dseg_frame)
qed

text \<open>The removing walk: \<open>xs\<close> are the nodes it has passed.\<close>

lemma dying_remove_loop_repr:
  assumes "dying_repr h l (xs @ ys)"
  shows "\<exists>h' l' ns. dying_remove_loop d (first_addr ys None) (h, l) = Some (h', l') \<and> dying_repr h' l' ns
    \<and> map snd ns = map snd xs @ remove1 d (map snd ys)"
  using assms
proof (induction ys arbitrary: xs)
  case Nil
  then show ?case
    by (intro exI [of _ h] exI [of _ l] exI [of _ xs]) (simp add: dying_remove_loop.simps [of d None])
next
  case (Cons a ys)
  obtain i e where a: "a = (i, e)" by fastforce
  have hi: "h i = Some \<lparr>dn_data = e, dn_next = first_addr ys None, dn_prev = last_addr None xs\<rparr>"
    using Cons.prems a by (simp add: dying_repr_def dseg_append)
  show ?case
  proof (cases "e = d")
    case True
    from dying_unlink_repr [OF Cons.prems [unfolded a]] obtain h' l' where
      "dying_unlink i (h, l) = Some (h', l', first_addr ys None)" "dying_repr h' l' (xs @ ys)" by blast
    with True a hi show ?thesis
      by (intro exI [of _ h'] exI [of _ l'] exI [of _ "xs @ ys"])
        (simp add: dying_remove_loop.simps [of d "Some i"])
  next
    case False
    with hi a have "dying_remove_loop d (first_addr (a # ys) None) (h, l) = dying_remove_loop d (first_addr ys None) (h, l)"
      by (simp add: dying_remove_loop.simps [of d "Some i"])
    with Cons.IH [of "xs @ [a]"] Cons.prems False a show ?thesis by simp
  qed
qed

fun foreach_spec :: "('d \<Rightarrow> 's \<Rightarrow> int \<times> 's) \<Rightarrow> 'd list \<Rightarrow> 's \<Rightarrow> 'd list \<times> 's" where
  "foreach_spec f [] s = ([], s)"
| "foreach_spec f (d # ds) s =
     (case f d s of (r, s') \<Rightarrow>
        (case foreach_spec f ds s' of (ds', s'') \<Rightarrow> (if r = 1 then ds' else d # ds', s'')))"

lemma dying_foreach_loop_repr:
  assumes "dying_repr h l (xs @ ys)"
  shows "\<exists>h' l' ns. dying_foreach_loop f (first_addr ys None) s (h, l) = Some (snd (foreach_spec f (map snd ys) s), h', l')
    \<and> dying_repr h' l' ns \<and> map snd ns = map snd xs @ fst (foreach_spec f (map snd ys) s)"
  using assms
proof (induction ys arbitrary: xs h l s)
  case Nil
  then show ?case
    by (intro exI [of _ h] exI [of _ l] exI [of _ xs]) (simp add: dying_foreach_loop.simps [of f None])
next
  case (Cons a ys)
  obtain i e where a: "a = (i, e)" by fastforce
  obtain r s' where r: "f e s = (r, s')" by fastforce
  have hi: "h i = Some \<lparr>dn_data = e, dn_next = first_addr ys None, dn_prev = last_addr None xs\<rparr>"
    using Cons.prems a by (simp add: dying_repr_def dseg_append)
  show ?case
  proof (cases "r = 1")
    case True
    from dying_unlink_repr [OF Cons.prems [unfolded a]] obtain h' l' where
      u: "dying_unlink i (h, l) = Some (h', l', first_addr ys None)" "dying_repr h' l' (xs @ ys)" by blast
    with True hi r a have "dying_foreach_loop f (first_addr (a # ys) None) s (h, l) =
        dying_foreach_loop f (first_addr ys None) s' (h', l')"
      by (simp add: dying_foreach_loop.simps [of f "Some i"])
    with Cons.IH [OF u(2), of s'] True r a show ?thesis by (auto split: prod.splits)
  next
    case False
    with hi r a have "dying_foreach_loop f (first_addr (a # ys) None) s (h, l) =
        dying_foreach_loop f (first_addr ys None) s' (h, l)"
      by (simp add: dying_foreach_loop.simps [of f "Some i"])
    with Cons.IH [of h l "xs @ [a]" s'] Cons.prems False r a show ?thesis by (auto split: prod.splits)
  qed
qed

section \<open>Properties\<close>

lemma if_mem: "a \<in> S \<Longrightarrow> b \<in> S \<Longrightarrow> (if c then a else b) \<in> S"
  by simp

lemma pixel_size_calc_bounds: "pixel_size_calc format type \<in> {0..16}"
  unfolding pixel_size_calc_def by (intro if_mem) simp_all

lemma gl_sizeof_bounds: "gl_sizeof type \<in> {1..128}"
  unfolding gl_sizeof_def by (intro if_mem) simp_all

text \<open>
  C27. The doubly linked list implements lists: appending adds the object at the end,
  removing drops its first occurrence, and the walk calls the function on all objects
  in order and drops those it returns 1 for. None of them uses a freed node, and the
  walks end.
\<close>

theorem dying_list_refines:
  assumes "dying_repr h l ns" "new \<notin> fst ` set ns"
  shows "(\<exists>h' l' ns'. dying_list_append new d (h, Some l) = Some (h', l')
            \<and> dying_repr h' l' ns' \<and> map snd ns' = map snd ns @ [d])
       \<and> (\<exists>h' l' ns'. dying_list_remove d (h, Some l) = Some (h', Some l')
            \<and> dying_repr h' l' ns' \<and> map snd ns' = remove1 d (map snd ns))
       \<and> (\<exists>h' l' ns'. dying_list_foreach f s (h, Some l) = Some (snd (foreach_spec f (map snd ns) s), h', Some l')
            \<and> dying_repr h' l' ns' \<and> map snd ns' = fst (foreach_spec f (map snd ns) s))"
proof (intro conjI)
  show "\<exists>h' l' ns'. dying_list_append new d (h, Some l) = Some (h', l')
      \<and> dying_repr h' l' ns' \<and> map snd ns' = map snd ns @ [d]"
    using dying_append_repr [OF assms, of d] by fastforce
  have hd: "dl_header l = first_addr ns None" using assms(1) by (simp add: dying_repr_def)
  show "\<exists>h' l' ns'. dying_list_remove d (h, Some l) = Some (h', Some l')
      \<and> dying_repr h' l' ns' \<and> map snd ns' = remove1 d (map snd ns)"
    using dying_remove_loop_repr [of h l "[]" ns d] assms(1) hd by (auto simp: dying_list_remove_def)
  show "\<exists>h' l' ns'. dying_list_foreach f s (h, Some l) = Some (snd (foreach_spec f (map snd ns) s), h', Some l')
      \<and> dying_repr h' l' ns' \<and> map snd ns' = fst (foreach_spec f (map snd ns) s)"
    using dying_foreach_loop_repr [of h l "[]" ns f s] assms(1) hd by (auto simp: dying_list_foreach_def)
qed

definition demo_dying_heap :: "nat node_heap" where
  "demo_dying_heap = [4 \<mapsto> \<lparr>dn_data = 40, dn_next = Some 6, dn_prev = None\<rparr>,
                      6 \<mapsto> \<lparr>dn_data = 60, dn_next = None, dn_prev = Some 4\<rparr>]"

definition demo_dying_list :: dying_list where
  "demo_dying_list = \<lparr>dl_header = Some 4, dl_tail = Some 6, dl_num = 2\<rparr>"

theorem dying_list_refines_witness:
  "dying_repr demo_dying_heap demo_dying_list [(4, 40), (6, 60)]
   \<and> (\<exists>h' l' ns'. dying_list_append 8 80 (demo_dying_heap, Some demo_dying_list) = Some (h', l')
        \<and> dying_repr h' l' ns' \<and> map snd ns' = [40, 60, 80])
   \<and> (\<exists>h' l' ns'. dying_list_foreach (\<lambda>d n. (if d = 40 then 1 else 0, n + d)) 0 (demo_dying_heap, Some demo_dying_list)
          = Some (100, h', Some l')
        \<and> dying_repr h' l' ns' \<and> map snd ns' = [60])"
proof -
  have r: "dying_repr demo_dying_heap demo_dying_list [(4, 40), (6, 60)]"
    by (simp add: dying_repr_def demo_dying_heap_def demo_dying_list_def)
  have n: "8 \<notin> fst ` set [(4 :: nat, 40 :: nat), (6, 60)]" by simp
  from dying_list_refines [OF r n, of 80 "\<lambda>d n. (if d = 40 then 1 else 0, n + d)" "0 :: nat"] r
  show ?thesis by simp
qed

end
