(* ===== verification/Mem_Transfer.thy ===== *)
theory Mem_Transfer
  imports Mem_Flow Mem_Sync Gl_Helper
begin

text \<open>
  Graphic buffers and their transfers, after the second part of
  \<^verbatim>\<open>hw/express-mem/express_mem.c\<close>, \<^verbatim>\<open>hw/express-mem/express_mem_worker.c\<close> and the map of buffers
  in \<^verbatim>\<open>hw/express-gpu/express_gpu_render.c\<close>. Buffers live in a heap, so that a task which
  still refers to a destroyed buffer is seen: it is \<open>None\<close>, like every undefined
  behaviour. Textures are the bytes handed to OpenGL; what OpenGL and the allocator
  return is an argument.
\<close>

section \<open>Pixel formats\<close>

definition gralloc_gl_format :: "int \<Rightarrow> int \<times> int \<times> int" where
  "gralloc_gl_format f =
     (if f = 0 \<or> f = 1 then (GL_RGBA8, GL_RGBA, GL_UNSIGNED_BYTE)
      else if f = 2 then (GL_RGB8, GL_RGB, GL_UNSIGNED_BYTE)
      else if f = 3 then (GL_RGB565, GL_RGB, GL_UNSIGNED_SHORT_5_6_5)
      else if f = 4 \<or> f = 5 then (GL_RGB5_A1, GL_RGBA, GL_UNSIGNED_SHORT_5_5_5_1)
      else if f = 6 \<or> f = 7 then (GL_RGBA4, GL_RGBA, GL_UNSIGNED_SHORT_4_4_4_4)
      else if f = 8 \<or> f = 9 then (GL_RGBA8, GL_BGRA, GL_UNSIGNED_INT_8_8_8_8_REV)
      else if f = 10 then (GL_RGB565, GL_BGR, GL_UNSIGNED_SHORT_5_6_5_REV)
      else if f = 11 then (GL_RGB10_A2, GL_RGBA, GL_UNSIGNED_INT_2_10_10_10_REV)
      else if f = 12 then (GL_R8, GL_RED, GL_UNSIGNED_BYTE)
      else (GL_RGBA8, GL_RGBA, GL_UNSIGNED_INT))"

record gralloc_info =
  gi_gbuffer_id :: int
  gi_width :: int
  gi_height :: int
  gi_format :: int
  gi_pixel_size :: int
  gi_size :: int
  gi_stride :: int
  gi_usage :: int

definition MAX_WINDOW_LIFE_TIME :: int where "MAX_WINDOW_LIFE_TIME = 60 * 5"

text \<open>The fields \<^verbatim>\<open>create_gbuffer\<close> sets; all others are zero.\<close>

definition create_gbuffer :: "int \<Rightarrow> int \<Rightarrow> int \<Rightarrow> int \<Rightarrow> int \<Rightarrow> int \<Rightarrow> hardware_buffer" where
  "create_gbuffer width height format pixel_type internal_format gbuffer_id =
     (let pixel_size = pixel_size_calc format pixel_type in
      \<lparr>gb_id = gbuffer_id, gb_width = width, gb_height = height, gb_format = format, gb_pixel_type = pixel_type,
       gb_internal_format = internal_format, gb_stride = c_int (width * pixel_size), gb_pixel_size = pixel_size,
       gb_usage = 0, gb_size = c_int (width * height * pixel_size), gb_guest_data = None, gb_is_dying = 0,
       gb_remain_life_time = MAX_WINDOW_LIFE_TIME, gb_last_phy_dev = 0, gb_last_phy_usage = 0, gb_pref_phy_dev = 0,
       gb_last_virt_dev = 0, gb_last_virt_usage = 0, gb_last_virt_time = 0\<rparr>)"

definition create_gbuffer_from_gralloc_info :: "gralloc_info \<Rightarrow> int \<Rightarrow> hardware_buffer" where
  "create_gbuffer_from_gralloc_info info gbuffer_id =
     (case gralloc_gl_format (gi_format info) of
        (internal_format, format, pixel_type) \<Rightarrow>
          (create_gbuffer (gi_width info) (gi_height info) format pixel_type internal_format gbuffer_id)
            \<lparr>gb_usage := gi_usage info, gb_pixel_size := gi_pixel_size info, gb_size := gi_size info,
             gb_stride := gi_stride info\<rparr>)"

section \<open>Copying rows\<close>

text \<open>
  Row \<open>i\<close> of the picture is at \<open>i * stride\<close> in guest memory and at \<open>i * row\<close> in the mapped
  buffer.
\<close>

fun read_rows :: "store \<Rightarrow> guest_mem \<Rightarrow> int \<Rightarrow> int \<Rightarrow> nat \<Rightarrow> int \<Rightarrow> byte list \<Rightarrow> byte list option" where
  "read_rows m g row stride 0 i b = Some b"
| "read_rows m g row stride (Suc n) i b =
     (let off = c_int (i * row) in
      if off < 0 \<or> off > int (length b) then None
      else
        (case read_from_guest_mem m (Some g) (Some (drop (nat off) b)) (c_size (c_int (i * stride))) (c_size row) of
           Some (Some t) \<Rightarrow> read_rows m g row stride n (i + 1) (take (nat off) b @ t)
         | _ \<Rightarrow> None))"

definition guest_to_host_dma_task :: "store \<Rightarrow> hardware_buffer \<Rightarrow> guest_mem \<Rightarrow> byte list \<Rightarrow> byte list option" where
  "guest_to_host_dma_task m gbuffer mem_data mapped =
     (if gb_stride gbuffer = 0 then None
      else
        (let row_byte_len = c_int (gb_pixel_size gbuffer * gb_width gbuffer);
             all_pixel_size = c_int (row_byte_len * gb_height gbuffer) in
         if gb_stride gbuffer \<noteq> row_byte_len
         then read_rows m mem_data row_byte_len (gb_stride gbuffer) (nat (gb_height gbuffer)) 0 mapped
         else (case read_from_guest_mem m (Some mem_data) (Some mapped) 0 (c_size all_pixel_size) of
                 Some (Some b) \<Rightarrow> Some b
               | _ \<Rightarrow> None)))"

text \<open>A failed mapping is \<open>None\<close> here: only the first row is then written through \<^verbatim>\<open>NULL\<close> itself.\<close>

fun write_rows :: "guest_mem \<Rightarrow> int \<Rightarrow> int \<Rightarrow> byte list option \<Rightarrow> nat \<Rightarrow> int \<Rightarrow> store \<Rightarrow> store option" where
  "write_rows g row stride host 0 i m = Some m"
| "write_rows g row stride host (Suc n) i m =
     (let off = c_int (i * row) in
      case (case host of
              None \<Rightarrow> if off = 0 then write_to_guest_mem m (Some g) None (c_size (c_int (i * stride))) (c_size row) else None
            | Some b \<Rightarrow>
                if off < 0 \<or> off > int (length b) then None
                else write_to_guest_mem m (Some g) (Some (drop (nat off) b)) (c_size (c_int (i * stride))) (c_size row)) of
        None \<Rightarrow> None
      | Some m' \<Rightarrow> write_rows g row stride host n (i + 1) m')"

section \<open>State\<close>

datatype mem_ref = Ref_null | Ref_gbuffer nat | Ref_guest guest_mem | Ref_host nat

text \<open>
  The callbacks before a transfer: none, the one of this device, or one of another
  device, which may change guest memory and the mapped buffer.
\<close>

datatype pre_cb = Pre_none | Pre_guest_to_host | Pre_custom "store \<Rightarrow> byte list option \<Rightarrow> (store \<times> byte list option) option"

record mem_task =
  mt_dst_dev :: int
  mt_src_dev :: int
  mt_dst_data :: mem_ref
  mt_src_data :: mem_ref
  mt_dst_len :: int
  mt_src_len :: int
  mt_sync_id :: int
  mt_pre_cb :: pre_cb
  mt_post_cb :: bool

text \<open>
  \<open>ms_heap\<close>: the buffer objects, \<open>None\<close> for freed ones; \<open>ms_global\<close>: the map from buffer
  ids to them; \<open>ms_tasks\<close>: the queue of the thread pool; \<open>ms_posts\<close>: the return values given
  to callbacks after transfers.
\<close>

record mem_state =
  ms_store :: store
  ms_heap :: "nat \<Rightarrow> hardware_buffer option"
  ms_next :: nat
  ms_global :: "int \<Rightarrow> nat option"
  ms_textures :: "nat \<Rightarrow> byte list"
  ms_tasks :: "mem_task list"
  ms_stats :: global_stats
  ms_sync :: sync_state
  ms_unpack_size :: int
  ms_posts :: "int list"

definition get_gbuffer_from_global_map :: "int \<Rightarrow> mem_state \<Rightarrow> nat option" where
  "get_gbuffer_from_global_map gbuffer_id s = ms_global s gbuffer_id"

definition add_gbuffer_to_global :: "nat \<Rightarrow> mem_state \<Rightarrow> mem_state option" where
  "add_gbuffer_to_global p s =
     map_option (\<lambda>gb. s\<lparr>ms_global := (ms_global s)(gb_id gb := Some p)\<rparr>) (ms_heap s p)"

definition remove_gbuffer_from_global_map :: "int \<Rightarrow> mem_state \<Rightarrow> mem_state" where
  "remove_gbuffer_from_global_map gbuffer_id s = s\<lparr>ms_global := (ms_global s)(gbuffer_id := None)\<rparr>"

definition destroy_gbuffer :: "nat \<Rightarrow> mem_state \<Rightarrow> mem_state option" where
  "destroy_gbuffer p s = (if ms_heap s p = None then None else Some (s\<lparr>ms_heap := (ms_heap s)(p := None)\<rparr>))"

definition put_gbuffer :: "nat \<Rightarrow> hardware_buffer \<Rightarrow> mem_state \<Rightarrow> mem_state" where
  "put_gbuffer p gb s = s\<lparr>ms_heap := (ms_heap s)(p := Some gb)\<rparr>"

section \<open>Buffers for the guest\<close>

text \<open>The branch for a buffer that exists; \<open>gb\<close> is the buffer.\<close>

definition merge_gralloc_info :: "gralloc_info \<Rightarrow> guest_mem option \<Rightarrow> hardware_buffer \<Rightarrow> hardware_buffer" where
  "merge_gralloc_info info mem_data gb =
     (if gi_width info \<noteq> gb_width gb \<or> gi_height info \<noteq> gb_height gb then gb
      else
        gb\<lparr>gb_stride := (if gb_stride gb = 0 then gi_stride info else gb_stride gb),
           gb_pixel_size := (if gb_pixel_size gb = 0 then gi_pixel_size info else gb_pixel_size gb),
           gb_guest_data := mem_data\<rparr>)"

definition alloc_gbuffer_with_gralloc :: "gralloc_info \<Rightarrow> guest_mem option \<Rightarrow> mem_state \<Rightarrow> mem_state option" where
  "alloc_gbuffer_with_gralloc info mem_data s =
     (if gi_width info = 0 \<or> gi_height info = 0 \<or> gi_size info = 0 then Some s
      else
        (case get_gbuffer_from_global_map (gi_gbuffer_id info) s of
           None \<Rightarrow>
             (let p = ms_next s;
                  gb = (create_gbuffer_from_gralloc_info info (gi_gbuffer_id info))\<lparr>gb_guest_data := mem_data\<rparr> in
              add_gbuffer_to_global p (put_gbuffer p gb (s\<lparr>ms_next := p + 1\<rparr>)))
         | Some p \<Rightarrow>
             map_option (\<lambda>gb. put_gbuffer p (merge_gralloc_info info mem_data gb) s) (ms_heap s p)))"

definition info_matches :: "gralloc_info \<Rightarrow> hardware_buffer \<Rightarrow> bool" where
  "info_matches info gb \<longleftrightarrow> gi_width info = gb_width gb \<and> gi_height info = gb_height gb
     \<and> gi_stride info = gb_stride gb \<and> gi_pixel_size info = gb_pixel_size gb"

definition mem_transfer_async :: "mem_task \<Rightarrow> mem_state \<Rightarrow> mem_state" where
  "mem_transfer_async task s =
     (if mt_dst_dev task = mt_src_dev task
      then s\<lparr>ms_sync := signal_express_sync (mt_sync_id task) (mt_dst_dev task = EXPRESS_MEM_TYPE_TEXTURE) (ms_sync s)\<rparr>
      else s\<lparr>ms_tasks := ms_tasks s @ [task]\<rparr>)"

definition gbuffer_data_guest_to_host :: "gralloc_info \<Rightarrow> int \<Rightarrow> mem_state \<Rightarrow> mem_state option" where
  "gbuffer_data_guest_to_host info sync_id s =
     (case get_gbuffer_from_global_map (gi_gbuffer_id info) s of
        None \<Rightarrow> Some s
      | Some p \<Rightarrow>
          (case ms_heap s p of
             None \<Rightarrow> None
           | Some gb \<Rightarrow>
               (if \<not> info_matches info gb then Some s
                else
                  (case gb_guest_data gb of
                     None \<Rightarrow> Some s
                   | Some g \<Rightarrow>
                       Some (mem_transfer_async
                         \<lparr>mt_dst_dev = EXPRESS_MEM_TYPE_TEXTURE, mt_src_dev = EXPRESS_MEM_TYPE_GUEST_OPAQUE,
                          mt_dst_data = Ref_gbuffer p, mt_src_data = Ref_guest g, mt_dst_len = gb_size gb,
                          mt_src_len = gm_all_len g, mt_sync_id = sync_id, mt_pre_cb = Pre_guest_to_host,
                          mt_post_cb = False\<rparr> s)))))"

text \<open>
  \<open>pixels\<close> is what the mapped pack buffer holds after \<^verbatim>\<open>glGetTexImage\<close>, or \<open>None\<close> when it
  cannot be mapped.
\<close>

definition gbuffer_data_host_to_guest :: "byte list option \<Rightarrow> gralloc_info \<Rightarrow> mem_state \<Rightarrow> mem_state option" where
  "gbuffer_data_host_to_guest pixels info s =
     (case get_gbuffer_from_global_map (gi_gbuffer_id info) s of
        None \<Rightarrow> Some s
      | Some p \<Rightarrow>
          (case ms_heap s p of
             None \<Rightarrow> None
           | Some gb \<Rightarrow>
               (if \<not> info_matches info gb then Some s
                else if gi_stride info = 0 then None
                else
                  (case gb_guest_data gb of
                     None \<Rightarrow> None
                   | Some g \<Rightarrow>
                       (let row_byte_len = c_int (gi_pixel_size info * gi_width info);
                            all_pixel_size = c_int (row_byte_len * gi_height info) in
                        if all_pixel_size > gm_all_len g then Some s
                        else
                          map_option (\<lambda>m. s\<lparr>ms_store := m, ms_unpack_size := max (ms_unpack_size s) all_pixel_size\<rparr>)
                            (if gi_stride info \<noteq> row_byte_len
                             then write_rows g row_byte_len (gi_stride info) pixels (nat (gi_height info)) 0 (ms_store s)
                             else write_to_guest_mem (ms_store s) (Some g) pixels 0 (c_size all_pixel_size)))))))"

section \<open>The worker\<close>

text \<open>
  What a worker run gets from outside: the result of mapping a buffer of a size, of an
  allocation, the content of the unpack buffer, and the time before and after.
\<close>

record worker_env =
  we_map :: "int \<Rightarrow> byte list option"
  we_malloc :: "int \<Rightarrow> byte list option"
  we_unpack :: "byte list"
  we_start :: int
  we_end :: int

definition has_pre_cb :: "mem_task \<Rightarrow> bool" where
  "has_pre_cb task = (case mt_pre_cb task of Pre_none \<Rightarrow> False | _ \<Rightarrow> True)"

definition is_opaque_type :: "int \<Rightarrow> bool" where
  "is_opaque_type t \<longleftrightarrow> t = EXPRESS_MEM_TYPE_HOST_OPAQUE \<or> t = EXPRESS_MEM_TYPE_GUEST_OPAQUE"

definition worker_mapped :: "worker_env \<Rightarrow> mem_task \<Rightarrow> byte list option" where
  "worker_mapped e task =
     (if mt_dst_dev task = EXPRESS_MEM_TYPE_TEXTURE then we_map e (c_int (mt_dst_len task + 1000))
      else if mt_dst_dev task = EXPRESS_MEM_TYPE_GUEST_MEM then we_malloc e (mt_dst_len task)
      else None)"

definition worker_fails :: "worker_env \<Rightarrow> mem_task \<Rightarrow> bool" where
  "worker_fails e task \<longleftrightarrow>
     (is_opaque_type (mt_src_dev task) \<or> is_opaque_type (mt_dst_dev task)) \<and> \<not> has_pre_cb task
     \<or> (mt_dst_dev task = EXPRESS_MEM_TYPE_TEXTURE \<or> mt_dst_dev task = EXPRESS_MEM_TYPE_GUEST_MEM)
        \<and> worker_mapped e task = None"

definition worker_pre :: "mem_task \<Rightarrow> byte list option \<Rightarrow> mem_state \<Rightarrow> (mem_state \<times> byte list option) option" where
  "worker_pre task mapped s =
     (case mt_pre_cb task of
        Pre_none \<Rightarrow> Some (s, mapped)
      | Pre_guest_to_host \<Rightarrow>
          (case (mt_dst_data task, mt_src_data task, mapped) of
             (Ref_gbuffer p, Ref_guest g, Some b) \<Rightarrow>
               (case ms_heap s p of
                  None \<Rightarrow> None
                | Some gb \<Rightarrow> map_option (\<lambda>b'. (s, Some b')) (guest_to_host_dma_task (ms_store s) gb g b))
           | _ \<Rightarrow> None)
      | Pre_custom f \<Rightarrow> map_option (\<lambda>(m, b). (s\<lparr>ms_store := m\<rparr>, b)) (f (ms_store s) mapped))"

definition end_dma_to_gbuffer :: "byte list \<Rightarrow> int \<Rightarrow> mem_ref \<Rightarrow> mem_state \<Rightarrow> mem_state option" where
  "end_dma_to_gbuffer bytes dev r s =
     (case r of
        Ref_gbuffer p \<Rightarrow>
          (case ms_heap s p of
             None \<Rightarrow> None
           | Some gb \<Rightarrow>
               Some ((put_gbuffer p (gb\<lparr>gb_pref_phy_dev := dev\<rparr>) s)
                       \<lparr>ms_textures := (ms_textures s)(p := bytes)\<rparr>))
      | _ \<Rightarrow> None)"

text \<open>The switch over the destination, with the return value it leaves.\<close>

definition worker_finish :: "worker_env \<Rightarrow> mem_task \<Rightarrow> byte list option \<Rightarrow> mem_state \<Rightarrow> (mem_state \<times> int) option" where
  "worker_finish e task mapped s =
     (let dev = mt_dst_dev task in
      if dev = EXPRESS_MEM_TYPE_TEXTURE \<or> dev = EXPRESS_MEM_TYPE_GBUFFER_HOST_MEM then
        map_option (\<lambda>s'. (s', 0))
          (end_dma_to_gbuffer (case mapped of Some b \<Rightarrow> b | None \<Rightarrow> we_unpack e) dev (mt_dst_data task) s)
      else if dev = EXPRESS_MEM_TYPE_GUEST_MEM then
        (case mt_dst_data task of
           Ref_guest g \<Rightarrow>
             map_option (\<lambda>m. (s\<lparr>ms_store := m\<rparr>, 0))
               (write_to_guest_mem (ms_store s) (Some g) mapped 0 (c_size (mt_dst_len task)))
         | Ref_null \<Rightarrow> Some (s, 0)
         | _ \<Rightarrow> None)
      else if is_opaque_type dev then Some (s, 0)
      else Some (s, - 1))"

definition worker_signal :: "mem_task \<Rightarrow> mem_state \<Rightarrow> mem_state" where
  "worker_signal task s =
     (if mt_sync_id task > 0
      then s\<lparr>ms_sync := signal_express_sync (mt_sync_id task)
               (mt_src_dev task = EXPRESS_MEM_TYPE_TEXTURE \<or> mt_dst_dev task = EXPRESS_MEM_TYPE_TEXTURE) (ms_sync s)\<rparr>
      else s)"

definition worker_exit :: "(real \<Rightarrow> real) \<Rightarrow> worker_env \<Rightarrow> mem_task \<Rightarrow> int \<Rightarrow> mem_state \<Rightarrow> mem_state" where
  "worker_exit rnd e task ret s =
     (let s1 = (if mt_post_cb task then s\<lparr>ms_posts := ms_posts s @ [ret]\<rparr> else s) in
      if ret \<ge> 0 \<and> we_end e - we_start e > 0
      then s1\<lparr>ms_stats := hg_update_bandwidth rnd (mt_dst_dev task) (mt_src_dev task)
                 (rnd (of_int (mt_dst_len task) / of_int (we_end e - we_start e))) (ms_stats s1)\<rparr>
      else s1)"

definition express_mem_worker :: "(real \<Rightarrow> real) \<Rightarrow> worker_env \<Rightarrow> mem_task \<Rightarrow> mem_state \<Rightarrow> mem_state option" where
  "express_mem_worker rnd e task s =
     (if worker_fails e task then Some (worker_exit rnd e task (- 1) s)
      else
        (case worker_pre task (worker_mapped e task) s of
           None \<Rightarrow> None
         | Some (s1, mapped) \<Rightarrow>
             map_option (\<lambda>(s2, ret). worker_exit rnd e task ret (worker_signal task s2))
               (worker_finish e task mapped s1)))"

section \<open>Rows\<close>

text \<open>The part of the guest bytes that is row \<open>i\<close>.\<close>

definition guest_row :: "nat \<Rightarrow> nat \<Rightarrow> byte list \<Rightarrow> nat \<Rightarrow> byte list" where
  "guest_row row stride bs i = take row (drop (i * stride) bs)"

definition guest_rows :: "nat \<Rightarrow> nat \<Rightarrow> nat \<Rightarrow> byte list \<Rightarrow> byte list" where
  "guest_rows row stride h bs = concat (map (guest_row row stride bs) [0..<h])"

lemma row_bounds:
  assumes "i < h" "(h - 1) * stride + row \<le> len"
  shows "i * stride + row \<le> (len :: nat)"
proof -
  from assms(1) have "i * stride \<le> (h - 1) * stride" by (intro mult_le_mono1) simp
  with assms(2) show ?thesis by linarith
qed

lemma c_int_nat_mult: "a * b < 2 ^ 31 \<Longrightarrow> c_int (int a * int b) = int (a * b)"
  using c_int_id [of "int (a * b)"] by (simp flip: of_nat_mult)

lemma c_size_nat: "n < 2 ^ 31 \<Longrightarrow> c_size (int n) = int n"
  by (rule c_size_id) simp_all

lemma gm_all_len_nonneg: "gm_wf g \<Longrightarrow> 0 \<le> gm_all_len g"
  using sg_len_nonneg by (auto simp: gm_wf_def)

lemma read_eq_nat:
  assumes "gm_wf g" "st + n \<le> nat (gm_all_len g)" "n \<le> length h"
  shows "read_from_guest_mem m (Some g) (Some h) (int st) (int n) =
    Some (Some (take n (drop st (gm_bytes m g)) @ drop n h))"
proof -
  have "int st + int n \<le> gm_all_len g" using assms(2) gm_all_len_nonneg [OF assms(1)] by linarith
  with read_eq [OF assms(1), of "int st" "int n" h m] assms(3) show ?thesis by simp
qed

lemma write_ex_nat:
  assumes "gm_wf g" "st + n \<le> nat (gm_all_len g)" "n \<le> length h"
  shows "\<exists>m'. write_to_guest_mem m (Some g) (Some h) (int st) (int n) = Some m' \<and>
    gm_bytes m' g = take st (gm_bytes m g) @ take n h @ drop (st + n) (gm_bytes m g)"
proof -
  have "int st + int n \<le> gm_all_len g" using assms(2) gm_all_len_nonneg [OF assms(1)] by linarith
  with write_ex [OF assms(1), of "int st" "int n" h m] assms(3) show ?thesis by (auto simp flip: of_nat_add)
qed

lemma read_rows_eq:
  assumes wf: "gm_wf g" and len: "(h - 1) * stride + row \<le> nat (gm_all_len g)"
    and small: "h * row < 2 ^ 31" and b: "h * row \<le> length b" and i: "i + n = h"
  shows "read_rows m g (int row) (int stride) n (int i) b =
    Some (take (i * row) b @ concat (map (guest_row row stride (gm_bytes m g)) [i..<h]) @ drop (h * row) b)"
  using i b
proof (induction n arbitrary: i b)
  case 0
  then show ?case by simp
next
  case (Suc n)
  have il: "i < h" using Suc.prems(1) by simp
  have s: "i * stride + row \<le> nat (gm_all_len g)" by (rule row_bounds [OF il len])
  have all: "nat (gm_all_len g) < 2 ^ 31" "0 \<le> gm_all_len g" using wf sg_len_nonneg by (auto simp: gm_wf_def)
  have ir: "i * row + row \<le> h * row" using il by (metis Suc_leI add.commute mult_Suc mult_le_mono1)
  have off: "c_int (int i * int row) = int (i * row)" using ir small by (intro c_int_nat_mult) simp
  have st: "c_int (int i * int stride) = int (i * stride)" using s all
    by (intro c_int_nat_mult) linarith
  have st': "c_size (int (i * stride)) = int (i * stride)" "c_size (int row) = int row"
    by (rule c_size_nat, use s all ir small in linarith)+
  have rd: "read_from_guest_mem m (Some g) (Some (drop (i * row) b)) (int (i * stride)) (int row) =
      Some (Some (guest_row row stride (gm_bytes m g) i @ drop row (drop (i * row) b)))"
    using read_eq_nat [OF wf s, of "drop (i * row) b" m] ir Suc.prems(2) by (simp only: guest_row_def length_drop drop_drop)
  define b' where "b' = take (i * row) b @ guest_row row stride (gm_bytes m g) i @ drop (i * row + row) b"
  have len_row: "length (guest_row row stride (gm_bytes m g) i) = row"
    using s length_gm_bytes [OF wf, of m] by (simp add: guest_row_def)
  have lb: "length b' = length b" using ir Suc.prems(2) len_row by (simp add: b'_def)
  have "read_rows m g (int row) (int stride) (Suc n) (int i) b = read_rows m g (int row) (int stride) n (int (Suc i)) b'"
    using ir Suc.prems(2) by (simp add: off st st' rd b'_def Let_def add.commute del: of_nat_mult)
  also have "\<dots> = Some (take (Suc i * row) b' @ concat (map (guest_row row stride (gm_bytes m g)) [Suc i..<h]) @ drop (h * row) b')"
    using Suc.prems lb by (intro Suc.IH) simp_all
  also have "take (Suc i * row) b' = take (i * row) b @ guest_row row stride (gm_bytes m g) i"
    using ir Suc.prems(2) len_row by (simp add: b'_def)
  also have "drop (h * row) b' = drop (h * row) b"
    using il ir Suc.prems(2) len_row by (simp add: b'_def)
  also have "[i..<h] = i # [Suc i..<h]" using il by (rule upt_conv_Cons)
  then have "(take (i * row) b @ guest_row row stride (gm_bytes m g) i) @
      concat (map (guest_row row stride (gm_bytes m g)) [Suc i..<h]) @ drop (h * row) b =
      take (i * row) b @ concat (map (guest_row row stride (gm_bytes m g)) [i..<h]) @ drop (h * row) b" by simp
  finally show ?case .
qed

lemma take_take_same:
  assumes "take n xs = take n ys" "k \<le> n"
  shows "take k xs = take k ys"
proof -
  have "take k xs = take k (take n xs)" using assms(2) by (simp add: min_absorb1)
  also have "\<dots> = take k ys" using assms by (simp add: min_absorb1)
  finally show ?thesis .
qed

text \<open>A row inside a common prefix is the same in both lists.\<close>

lemma guest_row_prefix:
  assumes "take n bs = take n cs" "i * stride + row \<le> n"
  shows "guest_row row stride bs i = guest_row row stride cs i"
proof -
  have "take (i * stride + row) bs = take (i * stride + row) cs" using assms by (rule take_take_same)
  then show ?thesis by (simp add: guest_row_def take_drop add.commute)
qed

lemma write_rows_eq:
  assumes wf: "gm_wf g" and len: "(h - 1) * stride + row \<le> nat (gm_all_len g)" and rs: "row \<le> stride"
    and small: "h * row < 2 ^ 31" and p: "h * row \<le> length p" and i: "i + n = h"
  shows "\<exists>m'. write_rows g (int row) (int stride) (Some p) n (int i) m = Some m'
    \<and> (\<forall>j. i \<le> j \<and> j < h \<longrightarrow> guest_row row stride (gm_bytes m' g) j = take row (drop (j * row) p))
    \<and> take (i * stride) (gm_bytes m' g) = take (i * stride) (gm_bytes m g)"
  using i
proof (induction n arbitrary: i m)
  case 0
  then show ?case by auto
next
  case (Suc n)
  have il: "i < h" using Suc.prems by simp
  have s: "i * stride + row \<le> nat (gm_all_len g)" by (rule row_bounds [OF il len])
  have all: "nat (gm_all_len g) < 2 ^ 31" using wf gm_all_len_nonneg [OF wf] by (auto simp: gm_wf_def)
  have ir: "i * row + row \<le> h * row" using il by (metis Suc_leI add.commute mult_Suc mult_le_mono1)
  have off: "c_int (int i * int row) = int (i * row)" using ir small by (intro c_int_nat_mult) simp
  have st: "c_int (int i * int stride) = int (i * stride)" using s all by (intro c_int_nat_mult) linarith
  have st': "c_size (int (i * stride)) = int (i * stride)" "c_size (int row) = int row"
    by (rule c_size_nat, use s all ir small in linarith)+
  have "row \<le> length (drop (i * row) p)" using ir p by simp
  from write_ex_nat [OF wf s this, of m] obtain m1 where
    wr: "write_to_guest_mem m (Some g) (Some (drop (i * row) p)) (int (i * stride)) (int row) = Some m1"
    and m1: "gm_bytes m1 g = take (i * stride) (gm_bytes m g) @ take row (drop (i * row) p) @ drop (i * stride + row) (gm_bytes m g)"
    by blast
  have "Suc i + n = h" using Suc.prems by simp
  from Suc.IH [OF this, of m1] obtain m2 where
    w2: "write_rows g (int row) (int stride) (Some p) n (int (Suc i)) m1 = Some m2"
    and r2: "\<forall>j. Suc i \<le> j \<and> j < h \<longrightarrow> guest_row row stride (gm_bytes m2 g) j = take row (drop (j * row) p)"
    and p2: "take (Suc i * stride) (gm_bytes m2 g) = take (Suc i * stride) (gm_bytes m1 g)" by blast
  have lm: "i * stride \<le> length (gm_bytes m g)" using s length_gm_bytes [OF wf, of m] by linarith
  have "guest_row row stride (gm_bytes m2 g) i = guest_row row stride (gm_bytes m1 g) i"
    using rs by (intro guest_row_prefix [OF p2]) simp
  also have "\<dots> = take row (drop (i * row) p)" using lm ir p by (simp add: guest_row_def m1)
  finally have row_i: "guest_row row stride (gm_bytes m2 g) i = take row (drop (i * row) p)" .
  have "take (i * stride) (gm_bytes m2 g) = take (i * stride) (gm_bytes m1 g)"
    by (rule take_take_same [OF p2]) simp
  also have "\<dots> = take (i * stride) (gm_bytes m g)" using lm by (simp add: m1)
  finally have pre: "take (i * stride) (gm_bytes m2 g) = take (i * stride) (gm_bytes m g)" .
  have "write_rows g (int row) (int stride) (Some p) (Suc n) (int i) m = Some m2"
    using ir p w2 by (simp add: off st st' wr Let_def add.commute del: of_nat_mult)
  moreover have "\<forall>j. i \<le> j \<and> j < h \<longrightarrow> guest_row row stride (gm_bytes m2 g) j = take row (drop (j * row) p)"
  proof (intro allI impI)
    fix j
    assume "i \<le> j \<and> j < h"
    then show "guest_row row stride (gm_bytes m2 g) j = take row (drop (j * row) p)"
      using r2 row_i by (cases "j = i") auto
  qed
  ultimately show ?case using pre by blast
qed

lemma guest_rows_contiguous: "guest_rows row row h bs = take (h * row) bs"
proof (induction h)
  case (Suc h)
  have "guest_rows row row (Suc h) bs = take (h * row) bs @ take row (drop (h * row) bs)"
    using Suc by (simp add: guest_rows_def guest_row_def)
  also have "\<dots> = take (h * row + row) bs" by (simp add: take_add)
  finally show ?case by (simp add: add.commute)
qed (simp add: guest_rows_def)

lemma concat_rows: "length (p :: byte list) = h * row \<Longrightarrow> concat (map (\<lambda>i. take row (drop (i * row) p)) [0..<h]) = p"
  using guest_rows_contiguous [of row h p] by (simp add: guest_rows_def guest_row_def [abs_def])

text \<open>The sizes of a picture, and what is known of a buffer whose picture they describe.\<close>

definition picture :: "hardware_buffer \<Rightarrow> nat \<Rightarrow> nat \<Rightarrow> nat \<Rightarrow> bool" where
  "picture gb row stride h \<longleftrightarrow> gb_height gb = int h \<and> gb_stride gb = int stride \<and> 0 < stride
     \<and> gb_pixel_size gb * gb_width gb = int row \<and> row \<le> stride \<and> row < 2 ^ 31 \<and> h * row < 2 ^ 31"

lemma picture_sizes:
  assumes "picture gb row stride h"
  shows "c_int (gb_pixel_size gb * gb_width gb) = int row" "c_int (int row * int h) = int (h * row)"
    "c_size (int (h * row)) = int (h * row)"
proof -
  from assms have a: "gb_pixel_size gb * gb_width gb = int row" "gb_height gb = int h" "row < 2 ^ 31" "h * row < 2 ^ 31"
    by (simp_all add: picture_def)
  show "c_int (gb_pixel_size gb * gb_width gb) = int row" unfolding a using a(3) by (intro c_int_id) simp_all
  show "c_int (int row * int h) = int (h * row)"
    using c_int_nat_mult [of h row] a(4) by (simp add: mult.commute)
  show "c_size (int (h * row)) = int (h * row)" using a(4) by (rule c_size_nat)
qed

lemma dma_task_rows:
  assumes pic: "picture gb row stride h" and wf: "gm_wf g" and len: "(h - 1) * stride + row \<le> nat (gm_all_len g)"
    and b: "h * row \<le> length b"
  shows "guest_to_host_dma_task m gb g b = Some (guest_rows row stride h (gm_bytes m g) @ drop (h * row) b)"
proof -
  from pic have p: "gb_height gb = int h" "gb_stride gb = int stride" "0 < stride" "h * row < 2 ^ 31" by (simp_all add: picture_def)
  show ?thesis
  proof (cases "stride = row")
    case True
    have "h * row \<le> nat (gm_all_len g)" using len True by (cases h) auto
    from read_eq_nat [OF wf, of 0 "h * row" b m] this b True p show ?thesis
      by (simp add: guest_to_host_dma_task_def Let_def picture_sizes [OF pic] guest_rows_contiguous del: of_nat_mult)
  next
    case False
    with read_rows_eq [OF wf len p(4) b, of 0 h m] p show ?thesis
      by (simp add: guest_to_host_dma_task_def Let_def picture_sizes [OF pic] guest_rows_def del: of_nat_mult)
  qed
qed

section \<open>Properties\<close>

text \<open>
  C21. A transfer from the guest to a texture uploads exactly the rows of the picture,
  packed without the padding of the stride, marks the texture as the place of the
  newest copy and signals the sync id of the request.
\<close>

theorem guest_to_host_uploads:
  assumes "ms_heap s p = Some gb" "picture gb row stride h" "gm_wf g" "(h - 1) * stride + row \<le> nat (gm_all_len g)"
    and "we_map e (c_int (len + 1000)) = Some b" "h * row \<le> length b"
  shows "\<exists>s'. express_mem_worker rnd e
      \<lparr>mt_dst_dev = EXPRESS_MEM_TYPE_TEXTURE, mt_src_dev = EXPRESS_MEM_TYPE_GUEST_OPAQUE,
       mt_dst_data = Ref_gbuffer p, mt_src_data = Ref_guest g, mt_dst_len = len, mt_src_len = gm_all_len g,
       mt_sync_id = sync_id, mt_pre_cb = Pre_guest_to_host, mt_post_cb = False\<rparr> s = Some s'
    \<and> ms_textures s' p = guest_rows row stride h (gm_bytes (ms_store s) g) @ drop (h * row) b
    \<and> ms_heap s' p = Some (gb\<lparr>gb_pref_phy_dev := EXPRESS_MEM_TYPE_TEXTURE\<rparr>)
    \<and> ms_store s' = ms_store s
    \<and> ms_sync s' = (if sync_id > 0 then signal_express_sync sync_id True (ms_sync s) else ms_sync s)"
proof -
  have dma: "guest_to_host_dma_task (ms_store s) gb g b =
      Some (guest_rows row stride h (gm_bytes (ms_store s) g) @ drop (h * row) b)"
    using assms by (intro dma_task_rows)
  show ?thesis using assms(1,5) dma
    by (simp add: express_mem_worker_def worker_fails_def has_pre_cb_def worker_mapped_def worker_pre_def worker_finish_def
        end_dma_to_gbuffer_def put_gbuffer_def worker_signal_def worker_exit_def Let_def mem_type_defs)
qed

definition demo_mem2 :: guest_mem where
  "demo_mem2 = \<lparr>gm_scatter = [\<lparr>sdata = 100, slen = 5\<rparr>, \<lparr>sdata = 200, slen = 6\<rparr>], gm_all_len = 11\<rparr>"

definition demo_picture :: hardware_buffer where
  "demo_picture = demo_buffer\<lparr>gb_width := 2, gb_height := 2, gb_pixel_size := 2, gb_stride := 6, gb_size := 12,
     gb_guest_data := Some demo_mem2\<rparr>"

definition demo_state :: mem_state where
  "demo_state = \<lparr>ms_store = demo_store, ms_heap = [3 \<mapsto> demo_picture], ms_next = 4, ms_global = [7 \<mapsto> 3],
     ms_textures = (\<lambda>_. []), ms_tasks = [], ms_stats = stats_init, ms_sync = sync_demo, ms_unpack_size = 0, ms_posts = []\<rparr>"

definition demo_env :: worker_env where
  "demo_env = \<lparr>we_map = (\<lambda>n. Some (replicate (nat n) 0)), we_malloc = (\<lambda>n. Some (replicate (nat n) 0)), we_unpack = [],
     we_start = 0, we_end = 5\<rparr>"

lemma demo_picture_ok:
  "picture demo_picture 4 6 2" "gm_wf demo_mem2" "(2 - 1) * 6 + 4 \<le> nat (gm_all_len demo_mem2)"
  by (simp_all add: picture_def demo_picture_def demo_buffer_def demo_mem2_def gm_wf_def seg_disj_def)

theorem guest_to_host_uploads_witness:
  "\<exists>s'. express_mem_worker id demo_env
      \<lparr>mt_dst_dev = EXPRESS_MEM_TYPE_TEXTURE, mt_src_dev = EXPRESS_MEM_TYPE_GUEST_OPAQUE,
       mt_dst_data = Ref_gbuffer 3, mt_src_data = Ref_guest demo_mem2, mt_dst_len = 12, mt_src_len = gm_all_len demo_mem2,
       mt_sync_id = 1, mt_pre_cb = Pre_guest_to_host, mt_post_cb = False\<rparr> demo_state = Some s'
    \<and> ms_textures s' 3 = guest_rows 4 6 2 (gm_bytes demo_store demo_mem2) @ replicate 1004 0"
proof -
  have h: "ms_heap demo_state 3 = Some demo_picture" by (simp add: demo_state_def)
  have m: "we_map demo_env (c_int (12 + 1000)) = Some (replicate 1012 0)" by (simp add: demo_env_def)
  have l: "2 * 4 \<le> length (replicate 1012 (0 :: byte))" by simp
  from guest_to_host_uploads [OF h demo_picture_ok m l, of id 1] show ?thesis
    by (auto simp: demo_state_def)
qed

text \<open>
  C20. Pixels written back to the guest are the pixels a later transfer to the host
  reads: writing the texture of a buffer to its guest memory and reading that memory
  with the same geometry returns the pixels, for every stride and segmentation.
\<close>

theorem gbuffer_data_roundtrip:
  assumes "ms_global s (gi_gbuffer_id info) = Some p" "ms_heap s p = Some gb" "info_matches info gb"
    and "gb_guest_data gb = Some g" and pic: "picture gb row stride h" and wf: "gm_wf g"
    and len: "(h - 1) * stride + row \<le> nat (gm_all_len g)" and px: "length pixels = h * row" and b: "h * row \<le> length b"
  shows "\<exists>s'. gbuffer_data_host_to_guest (Some pixels) info s = Some s'
    \<and> guest_to_host_dma_task (ms_store s') gb g b = Some (pixels @ drop (h * row) b)"
proof -
  from pic assms(3) have p: "gi_height info = int h" "gi_stride info = int stride" "0 < stride" "h * row < 2 ^ 31"
      "row \<le> stride" "gi_pixel_size info = gb_pixel_size gb" "gi_width info = gb_width gb" "gi_height info = gb_height gb"
    by (auto simp: picture_def info_matches_def)
  have fits: "h * row \<le> nat (gm_all_len g)"
  proof (cases h)
    case (Suc k)
    have "k * row \<le> k * stride" using p(5) by (rule mult_le_mono2)
    then have "h * row \<le> (h - 1) * stride + row" using Suc by (simp only: mult_Suc diff_Suc_1)
    with len show ?thesis by linarith
  qed simp
  then have fits': "\<not> int (h * row) > gm_all_len g" using gm_all_len_nonneg [OF wf] by linarith
  have sz: "c_int (gb_pixel_size gb * gb_width gb) = int row" "c_int (int row * int h) = int (h * row)"
    by (rule picture_sizes(1,2) [OF pic])+
  obtain m' where w: "(if stride \<noteq> row then write_rows g (int row) (int stride) (Some pixels) h 0 (ms_store s)
        else write_to_guest_mem (ms_store s) (Some g) (Some pixels) 0 (c_size (int (h * row)))) = Some m'"
    and rows: "guest_rows row stride h (gm_bytes m' g) = pixels"
  proof (cases "stride = row")
    case True
    from write_ex_nat [OF wf, of 0 "h * row" pixels "ms_store s"] fits px obtain m' where
      m': "write_to_guest_mem (ms_store s) (Some g) (Some pixels) 0 (int (h * row)) = Some m'"
      "gm_bytes m' g = pixels @ drop (h * row) (gm_bytes (ms_store s) g)" by auto
    with True px p(2) show ?thesis
      by (intro that [of m']) (simp_all add: picture_sizes(3) [OF pic] guest_rows_contiguous del: of_nat_mult)
  next
    case False
    have hp: "h * row \<le> length pixels" using px by simp
    from write_rows_eq [OF wf len p(5,4) hp, of 0 h "ms_store s"] obtain m' where
      m': "write_rows g (int row) (int stride) (Some pixels) h 0 (ms_store s) = Some m'"
      "\<forall>j. j < h \<longrightarrow> guest_row row stride (gm_bytes m' g) j = take row (drop (j * row) pixels)" by auto
    have eq: "map (guest_row row stride (gm_bytes m' g)) [0..<h] = map (\<lambda>i. take row (drop (i * row) pixels)) [0..<h]"
      using m'(2) by simp
    have "guest_rows row stride h (gm_bytes m' g) = pixels"
      unfolding guest_rows_def eq by (rule concat_rows [OF px])
    with m'(1) False p(1,2) show ?thesis by (intro that [of m']) simp_all
  qed
  have "gbuffer_data_host_to_guest (Some pixels) info s =
      Some (s\<lparr>ms_store := m', ms_unpack_size := max (ms_unpack_size s) (int (h * row))\<rparr>)"
    using assms(1-4) p(2,3) w fits'
    by (simp add: gbuffer_data_host_to_guest_def get_gbuffer_from_global_map_def Let_def p(6,7,1) sz split: if_splits
        del: of_nat_mult)
  with dma_task_rows [OF pic wf len b, of m'] rows show ?thesis by simp
qed

definition demo_info :: gralloc_info where
  "demo_info = \<lparr>gi_gbuffer_id = 7, gi_width = 2, gi_height = 2, gi_format = 3, gi_pixel_size = 2, gi_size = 12,
     gi_stride = 6, gi_usage = 0\<rparr>"

theorem gbuffer_data_roundtrip_witness:
  "\<exists>s'. gbuffer_data_host_to_guest (Some [1, 2, 3, 4, 5, 6, 7, 8]) demo_info demo_state = Some s'
    \<and> guest_to_host_dma_task (ms_store s') demo_picture demo_mem2 (replicate 9 0) = Some [1, 2, 3, 4, 5, 6, 7, 8, 0]"
proof -
  have g: "ms_global demo_state (gi_gbuffer_id demo_info) = Some 3" "ms_heap demo_state 3 = Some demo_picture"
      "info_matches demo_info demo_picture" "gb_guest_data demo_picture = Some demo_mem2"
    by (simp_all add: demo_state_def demo_info_def info_matches_def demo_picture_def)
  have l: "length [1, 2, 3, 4, 5, 6, 7, 8 :: byte] = 2 * 4" "2 * 4 \<le> length (replicate 9 (0 :: byte))" by simp_all
  from gbuffer_data_roundtrip [OF g demo_picture_ok l] show ?thesis by simp
qed

text \<open>
  A buffer that is destroyed while a transfer to it waits in the queue is used by the
  worker after it was freed.
\<close>

lemma transfer_use_after_free:
  "\<exists>s1 s2 task. gbuffer_data_guest_to_host demo_info 1 demo_state = Some s1 \<and> ms_tasks s1 = [task]
    \<and> destroy_gbuffer 3 (remove_gbuffer_from_global_map 7 s1) = Some s2
    \<and> express_mem_worker rnd demo_env task s2 = None"
  by (simp add: gbuffer_data_guest_to_host_def get_gbuffer_from_global_map_def demo_state_def demo_info_def
      info_matches_def demo_picture_def mem_transfer_async_def destroy_gbuffer_def remove_gbuffer_from_global_map_def
      express_mem_worker_def worker_fails_def has_pre_cb_def worker_mapped_def demo_env_def worker_pre_def mem_type_defs)

end
