(* ===== verification/Mem_Device.thy ===== *)
theory Mem_Device
  imports Mem_Transfer
begin

text \<open>
  The handler of the shared memory device, \<^verbatim>\<open>mem_master_switch\<close> of
  \<^verbatim>\<open>hw/express-mem/express_mem.c\<close>: it decodes the parameters of a call and runs one of the
  operations on buffers, syncs and usage records. A handler that does not return because
  it waits for a sync is \<open>None\<close>, like undefined behaviour.
\<close>

section \<open>Function ids and parameters\<close>

definition EXPRESS_MEM_DEVICE_ID :: int where "EXPRESS_MEM_DEVICE_ID = 60"

definition FUNID_Terminate_Gbuffer :: int where
  "FUNID_Terminate_Gbuffer = DEVICE_FUN_ID EXPRESS_MEM_DEVICE_ID (SYNC_FUN_ID 1)"
definition FUNID_Alloc_Gbuffer :: int where
  "FUNID_Alloc_Gbuffer = DEVICE_FUN_ID EXPRESS_MEM_DEVICE_ID (HOST_SYNC_FUN_ID 2)"
definition FUNID_Gbuffer_Host_To_Guest :: int where
  "FUNID_Gbuffer_Host_To_Guest = DEVICE_FUN_ID EXPRESS_MEM_DEVICE_ID (SYNC_FUN_ID 3)"
definition FUNID_Gbuffer_Guest_To_Host :: int where
  "FUNID_Gbuffer_Guest_To_Host = DEVICE_FUN_ID EXPRESS_MEM_DEVICE_ID 4"
definition FUNID_Mem_Signal_Sync :: int where
  "FUNID_Mem_Signal_Sync = DEVICE_FUN_ID EXPRESS_MEM_DEVICE_ID 5"
definition FUNID_Mem_Wait_Sync :: int where
  "FUNID_Mem_Wait_Sync = DEVICE_FUN_ID EXPRESS_MEM_DEVICE_ID 6"
definition FUNID_Update_Gbuffer_Location :: int where
  "FUNID_Update_Gbuffer_Location = DEVICE_FUN_ID EXPRESS_MEM_DEVICE_ID 7"

text \<open>
  What the handler gets from outside: the time of the call and the wall clock, fresh
  memory of a size, the pixels OpenGL reads back, and the results of waiting.
\<close>

record mem_env =
  me_now :: int
  me_real_time :: int
  me_malloc :: "int \<Rightarrow> byte list"
  me_pixels :: "byte list option"
  me_waits :: "(int \<times> 32 word list) list"

definition ptr_bytes :: "store \<Rightarrow> para_ptr \<Rightarrow> int \<Rightarrow> byte list option" where
  "ptr_bytes m p n =
     (case p of
        Ptr_null \<Rightarrow> None
      | Ptr_direct a \<Rightarrow> Some (mem_read m a n)
      | Ptr_copy b \<Rightarrow> buf_read b 0 n)"

text \<open>
  The variables \<^verbatim>\<open>ptr\<close> and \<^verbatim>\<open>need_free\<close> of the handler. \<^verbatim>\<open>call_para_to_ptr\<close> sets \<^verbatim>\<open>need_free\<close> when
  it makes a copy and never clears it. Freeing a pointer into guest memory is undefined.
\<close>

type_synonym ptr_state = "para_ptr \<times> bool"

definition para_to_ptr :: "mem_env \<Rightarrow> store \<Rightarrow> call_para \<Rightarrow> bool \<Rightarrow> ptr_state option" where
  "para_to_ptr e m para need_free =
     map_option (\<lambda>p. (p, need_free \<or> (case p of Ptr_copy b \<Rightarrow> True | _ \<Rightarrow> False)))
       (call_para_to_ptr m (me_malloc e (cp_len para)) para)"

definition free_ok :: "ptr_state \<Rightarrow> bool" where
  "free_ok ps = (case ps of (p, need_free) \<Rightarrow> \<not> need_free \<or> (case p of Ptr_direct a \<Rightarrow> False | _ \<Rightarrow> True))"

definition int_at :: "byte list \<Rightarrow> nat \<Rightarrow> int" where
  "int_at b off = c_int (le_int (take 4 (drop off b)))"

text \<open>The packed layout of \<^verbatim>\<open>Gralloc_Gbuffer_Info\<close>, 36 bytes.\<close>

definition parse_gralloc_info :: "byte list \<Rightarrow> gralloc_info" where
  "parse_gralloc_info b =
     \<lparr>gi_gbuffer_id = u64_at b 0, gi_width = int_at b 8, gi_height = int_at b 12, gi_format = int_at b 16,
      gi_pixel_size = int_at b 20, gi_size = int_at b 24, gi_stride = int_at b 28, gi_usage = int_at b 32\<rparr>"

section \<open>The handler\<close>

text \<open>
  Every case starts alike: with too few parameters, or a first parameter shorter than
  \<open>need\<close>, nothing is done; otherwise the first \<open>need\<close> bytes are read.
\<close>

definition with_para :: "mem_env \<Rightarrow> int \<Rightarrow> call_para list \<Rightarrow> int \<Rightarrow> int \<Rightarrow> mem_state
    \<Rightarrow> (byte list \<Rightarrow> ptr_state \<Rightarrow> (mem_state \<times> ptr_state) option) \<Rightarrow> (mem_state \<times> ptr_state) option" where
  "with_para e para_num ps min_num need s f =
     (if para_num < min_num then Some (s, (Ptr_null, False))
      else if cp_len (ps ! 0) < need then Some (s, (Ptr_null, False))
      else Option.bind (para_to_ptr e (ms_store s) (ps ! 0) False)
             (\<lambda>ptr. Option.bind (ptr_bytes (ms_store s) (fst ptr) need) (\<lambda>b. f b ptr)))"

definition keep_ptr :: "ptr_state \<Rightarrow> mem_state option \<Rightarrow> (mem_state \<times> ptr_state) option" where
  "keep_ptr ptr r = map_option (\<lambda>s. (s, ptr)) r"

definition terminate_gbuffer :: "int \<Rightarrow> mem_state \<Rightarrow> mem_state option" where
  "terminate_gbuffer gbuffer_id s =
     (case get_gbuffer_from_global_map gbuffer_id s of
        None \<Rightarrow> Some s
      | Some p \<Rightarrow>
          (case ms_heap s p of
             None \<Rightarrow> None
           | Some gb \<Rightarrow>
               (if gb_is_dying gb = 1 then Some (put_gbuffer p (gb\<lparr>gb_remain_life_time := 3\<rparr>) s)
                else destroy_gbuffer p (remove_gbuffer_from_global_map gbuffer_id s))))"

definition update_gbuffer_location :: "mem_env \<Rightarrow> byte list \<Rightarrow> mem_state \<Rightarrow> mem_state option" where
  "update_gbuffer_location e b s =
     (case get_gbuffer_from_global_map (u64_at b 0) s of
        None \<Rightarrow> Some s
      | Some p \<Rightarrow>
          (case ms_heap s p of
             None \<Rightarrow> None
           | Some gb \<Rightarrow>
               map_option (\<lambda>(gb', g). put_gbuffer p gb' (s\<lparr>ms_stats := g\<rparr>))
                 (update_gbuffer_virt_usage gb (int_at b 8) (int_at b 16) (me_real_time e) (ms_stats s))))"

text \<open>
  The switch; it neither frees \<open>ptr\<close> nor completes the call. In the case
  \<^verbatim>\<open>FUNID_Gbuffer_Guest_To_Host\<close> a copy of the first parameter is freed, but \<^verbatim>\<open>need_free\<close> stays
  set while \<^verbatim>\<open>ptr\<close> moves on to the second.
\<close>

definition mem_switch ::
  "mem_env \<Rightarrow> express_call \<Rightarrow> int \<Rightarrow> call_para list \<Rightarrow> mem_state \<Rightarrow> (mem_state \<times> ptr_state) option" where
  "mem_switch e call para_num ps s =
     (if ec_id call = FUNID_Terminate_Gbuffer then
        with_para e para_num ps 1 36 s
          (\<lambda>b ptr. keep_ptr ptr (terminate_gbuffer (gi_gbuffer_id (parse_gralloc_info b)) s))
      else if ec_id call = FUNID_Gbuffer_Host_To_Guest then
        with_para e para_num ps 1 36 s
          (\<lambda>b ptr. keep_ptr ptr (gbuffer_data_host_to_guest (me_pixels e) (parse_gralloc_info b) s))
      else if ec_id call = FUNID_Gbuffer_Guest_To_Host then
        with_para e para_num ps 2 36 s
          (\<lambda>b ptr. if \<not> free_ok ptr then None
                   else Option.bind (para_to_ptr e (ms_store s) (ps ! 1) (snd ptr))
                     (\<lambda>ptr1. Option.bind (ptr_bytes (ms_store s) (fst ptr1) 8)
                        (\<lambda>b1. keep_ptr ptr1
                           (gbuffer_data_guest_to_host (parse_gralloc_info b) (c_int (c_uint (u64_at b1 0))) s))))
      else if ec_id call = FUNID_Alloc_Gbuffer then
        with_para e para_num ps 2 36 s
          (\<lambda>b ptr. case copy_guest_mem_from_call (me_now e) call 2 of
                 None \<Rightarrow> None
               | Some (gbuffer_data, _) \<Rightarrow> keep_ptr ptr (alloc_gbuffer_with_gralloc (parse_gralloc_info b) gbuffer_data s))
      else if ec_id call = FUNID_Mem_Signal_Sync then
        with_para e para_num ps 1 8 s
          (\<lambda>b ptr. keep_ptr ptr (Some (s\<lparr>ms_sync := signal_express_sync (c_int (u64_at b 0)) True (ms_sync s)\<rparr>)))
      else if ec_id call = FUNID_Mem_Wait_Sync then
        with_para e para_num ps 1 8 s
          (\<lambda>b ptr. keep_ptr ptr (map_option (\<lambda>sy. s\<lparr>ms_sync := sy\<rparr>)
                 (wait_for_express_sync (c_int (u64_at b 0)) True (me_waits e) (ms_sync s))))
      else if ec_id call = FUNID_Update_Gbuffer_Location then
        with_para e para_num ps 1 24 s (\<lambda>b ptr. keep_ptr ptr (update_gbuffer_location e b s))
      else Some (s, (Ptr_null, False)))"

text \<open>
  The handler: after the switch \<^verbatim>\<open>ptr\<close> is freed when \<^verbatim>\<open>need_free\<close> says so, and the callback of
  the call is invoked with 1. The callback is an argument; it may change the state of the
  device and a state \<open>x\<close> of its own.
\<close>

definition mem_master_switch ::
  "mem_env \<Rightarrow> (express_call \<Rightarrow> int \<Rightarrow> mem_state \<times> 'x \<Rightarrow> (mem_state \<times> 'x) option) \<Rightarrow> express_call \<Rightarrow> mem_state \<times> 'x
     \<Rightarrow> (mem_state \<times> 'x) option" where
  "mem_master_switch e callback call sx =
     (case get_para_from_call (me_now e) call MAX_PARA_NUM of
        None \<Rightarrow> None
      | Some (para_num, ps, call') \<Rightarrow>
          (case mem_switch e call' para_num ps (fst sx) of
             None \<Rightarrow> None
           | Some (s', ptr) \<Rightarrow> (if free_ok ptr then callback call' 1 (s', snd sx) else None)))"

section \<open>The invariant of the device\<close>

text \<open>Ids in the global map lead to live buffers with that id; unused heap cells are free.\<close>

definition gmap_ok :: "mem_state \<Rightarrow> bool" where
  "gmap_ok s \<longleftrightarrow> (\<forall>i p. ms_global s i = Some p \<longrightarrow> (\<exists>gb. ms_heap s p = Some gb \<and> gb_id gb = i) \<and> p < ms_next s)"

definition mem_inv :: "mem_state \<Rightarrow> bool" where
  "mem_inv s \<longleftrightarrow> gmap_ok s \<and> stats_ok (ms_stats s)"

lemma gmap_ok_put:
  "gmap_ok s \<Longrightarrow> ms_heap s p = Some gb \<Longrightarrow> gb_id gb' = gb_id gb \<Longrightarrow> gmap_ok (put_gbuffer p gb' s)"
  by (fastforce simp: gmap_ok_def put_gbuffer_def)

lemma update_virt_id: "update_gbuffer_virt_usage b dev w t g = Some (b', g') \<Longrightarrow> gb_id b' = gb_id b"
  by (auto simp: update_gbuffer_virt_usage_def Let_def split: if_splits prod.splits option.splits)

lemma merge_id: "gb_id (merge_gralloc_info info d gb) = gb_id gb"
  by (simp add: merge_gralloc_info_def)

lemma create_id: "gb_id (create_gbuffer_from_gralloc_info info i) = i"
  by (simp add: create_gbuffer_from_gralloc_info_def create_gbuffer_def Let_def split: prod.split)

text \<open>Each operation keeps the invariant, and all but waiting for a sync or a full flow table return.\<close>

lemma terminate_gbuffer_ok:
  assumes "mem_inv s"
  shows "\<exists>s'. terminate_gbuffer i s = Some s' \<and> mem_inv s'"
proof (cases "ms_global s i")
  case None
  with assms show ?thesis by (simp add: terminate_gbuffer_def get_gbuffer_from_global_map_def)
next
  case (Some p)
  with assms obtain gb where gb: "ms_heap s p = Some gb" "gb_id gb = i" by (auto simp: mem_inv_def gmap_ok_def)
  have "gmap_ok (s\<lparr>ms_global := (ms_global s)(i := None), ms_heap := (ms_heap s)(p := None)\<rparr>)"
    using assms gb Some by (fastforce simp: mem_inv_def gmap_ok_def)
  moreover have "gmap_ok (put_gbuffer p (gb\<lparr>gb_remain_life_time := 3\<rparr>) s)"
    using assms gb by (auto simp: mem_inv_def intro: gmap_ok_put)
  ultimately show ?thesis using Some gb assms
    by (auto simp: terminate_gbuffer_def get_gbuffer_from_global_map_def destroy_gbuffer_def
        remove_gbuffer_from_global_map_def mem_inv_def put_gbuffer_def)
qed

lemma alloc_gbuffer_ok:
  assumes "mem_inv s"
  shows "\<exists>s'. alloc_gbuffer_with_gralloc info d s = Some s' \<and> mem_inv s'"
proof (cases "gi_width info = 0 \<or> gi_height info = 0 \<or> gi_size info = 0")
  case True
  with assms show ?thesis by (simp add: alloc_gbuffer_with_gralloc_def)
next
  case False
  show ?thesis
  proof (cases "ms_global s (gi_gbuffer_id info)")
    case None
    with False assms show ?thesis
      by (fastforce simp: alloc_gbuffer_with_gralloc_def get_gbuffer_from_global_map_def Let_def add_gbuffer_to_global_def
          put_gbuffer_def mem_inv_def gmap_ok_def create_id)
  next
    case (Some p)
    with assms obtain gb where gb: "ms_heap s p = Some gb" by (auto simp: mem_inv_def gmap_ok_def)
    with assms have "gmap_ok (put_gbuffer p (merge_gralloc_info info d gb) s)"
      by (auto simp: mem_inv_def merge_id intro: gmap_ok_put)
    with False Some gb assms show ?thesis
      by (simp add: alloc_gbuffer_with_gralloc_def get_gbuffer_from_global_map_def mem_inv_def put_gbuffer_def)
  qed
qed

lemma guest_to_host_ok:
  assumes "mem_inv s"
  shows "\<exists>s'. gbuffer_data_guest_to_host info sync_id s = Some s' \<and> mem_inv s'"
proof (cases "ms_global s (gi_gbuffer_id info)")
  case None
  with assms show ?thesis by (simp add: gbuffer_data_guest_to_host_def get_gbuffer_from_global_map_def)
next
  case (Some p)
  with assms obtain gb where "ms_heap s p = Some gb" by (auto simp: mem_inv_def gmap_ok_def)
  with Some assms show ?thesis
    by (auto simp: gbuffer_data_guest_to_host_def get_gbuffer_from_global_map_def mem_transfer_async_def mem_inv_def
        gmap_ok_def split: option.split)
qed

lemma host_to_guest_ok:
  "mem_inv s \<Longrightarrow> gbuffer_data_host_to_guest px info s = Some s' \<Longrightarrow> mem_inv s'"
  by (auto simp: gbuffer_data_host_to_guest_def mem_inv_def gmap_ok_def Let_def
      split: option.splits if_splits)

lemma update_location_ok:
  assumes "mem_inv s" "update_gbuffer_location e b s = Some s'"
  shows "mem_inv s'"
proof (cases "ms_global s (u64_at b 0)")
  case None
  with assms show ?thesis by (simp add: update_gbuffer_location_def get_gbuffer_from_global_map_def)
next
  case (Some p)
  with assms(1) obtain gb where gb: "ms_heap s p = Some gb" by (auto simp: mem_inv_def gmap_ok_def)
  with Some assms(2) obtain gb' g where
    u: "update_gbuffer_virt_usage gb (int_at b 8) (int_at b 16) (me_real_time e) (ms_stats s) = Some (gb', g)"
    and s': "s' = put_gbuffer p gb' (s\<lparr>ms_stats := g\<rparr>)"
    by (auto simp: update_gbuffer_location_def get_gbuffer_from_global_map_def)
  from update_virt_ok [OF _ u] assms(1) have "stats_ok g" by (simp add: mem_inv_def)
  moreover have "gmap_ok s'" unfolding s' using assms(1) gb update_virt_id [OF u]
    by (intro gmap_ok_put [where gb = gb]) (auto simp: mem_inv_def gmap_ok_def)
  ultimately show ?thesis by (simp add: s' mem_inv_def put_gbuffer_def)
qed

lemma with_para_ok:
  assumes "mem_inv s" "with_para e n ps k need s f = Some (s', ptr')" "\<And>b ptr. f b ptr = Some (s', ptr') \<Longrightarrow> mem_inv s'"
  shows "mem_inv s'"
  using assms by (auto simp: with_para_def split: if_splits bind_splits)

lemma keep_ptr_Some: "keep_ptr ptr r = Some (s', ptr') \<longleftrightarrow> r = Some s' \<and> ptr' = ptr"
  by (auto simp: keep_ptr_def)

lemma mem_inv_sync: "mem_inv s \<Longrightarrow> mem_inv (s\<lparr>ms_sync := x\<rparr>)"
  by (simp add: mem_inv_def gmap_ok_def)

lemma mem_ops_inv:
  assumes "mem_inv s"
  shows "terminate_gbuffer i s = Some s' \<Longrightarrow> mem_inv s'"
    and "alloc_gbuffer_with_gralloc info d s = Some s' \<Longrightarrow> mem_inv s'"
    and "gbuffer_data_guest_to_host info sync_id s = Some s' \<Longrightarrow> mem_inv s'"
    and "gbuffer_data_host_to_guest px info s = Some s' \<Longrightarrow> mem_inv s'"
    and "update_gbuffer_location e b s = Some s' \<Longrightarrow> mem_inv s'"
  using terminate_gbuffer_ok [OF assms, of i] alloc_gbuffer_ok [OF assms, of info d]
    guest_to_host_ok [OF assms, of info sync_id] host_to_guest_ok [OF assms] update_location_ok [OF assms]
  by auto

lemma mem_switch_inv:
  assumes inv: "mem_inv s" and sw: "mem_switch e c para_num ps s = Some (s', ptr)"
  shows "mem_inv s'"
  using sw inv unfolding mem_switch_def
  by (auto simp: keep_ptr_Some split: if_splits option.splits bind_splits elim!: with_para_ok [OF inv]
      intro: inv mem_inv_sync [OF inv] mem_ops_inv [OF inv]) (rule mem_ops_inv(2) [OF inv])

text \<open>
  A parameter that is one segment of guest memory is used in place; nothing is freed.
\<close>

definition direct_para :: "call_para \<Rightarrow> bool" where
  "direct_para p \<longleftrightarrow> (\<exists>a n. gm_scatter (cp_data p) = [\<lparr>sdata = a, slen = n\<rparr>] \<and> a \<noteq> 0)"

lemma direct_para_ptr:
  "direct_para p \<Longrightarrow> \<exists>a. para_to_ptr e m p nf = Some (Ptr_direct a, nf) \<and> ptr_bytes m (Ptr_direct a) n = Some (mem_read m a n)"
  by (auto simp: direct_para_def para_to_ptr_def call_para_to_ptr_def get_direct_ptr_def ptr_bytes_def)

lemma with_para_direct:
  assumes "k \<le> para_num \<Longrightarrow> direct_para (ps ! 0)" "\<And>b a. \<exists>s' a'. f b (Ptr_direct a, False) = Some (s', (Ptr_direct a', False))"
  shows "\<exists>s' ptr. with_para e para_num ps k need s f = Some (s', ptr) \<and> free_ok ptr"
proof (cases "para_num < k \<or> cp_len (ps ! 0) < need")
  case True
  then show ?thesis by (auto simp: with_para_def free_ok_def)
next
  case False
  then have "direct_para (ps ! 0)" using assms(1) by simp
  from direct_para_ptr [OF this, of e "ms_store s" False need] obtain a where
    a: "para_to_ptr e (ms_store s) (ps ! 0) False = Some (Ptr_direct a, False)"
    "ptr_bytes (ms_store s) (Ptr_direct a) need = Some (mem_read (ms_store s) a need)" by blast
  obtain s' a' where "f (mem_read (ms_store s) a need) (Ptr_direct a, False) = Some (s', (Ptr_direct a', False))"
    using assms(2) by blast
  with a False show ?thesis by (simp add: with_para_def free_ok_def)
qed

lemmas mem_funid_defs = FUNID_Terminate_Gbuffer_def FUNID_Alloc_Gbuffer_def FUNID_Gbuffer_Host_To_Guest_def
  FUNID_Gbuffer_Guest_To_Host_def FUNID_Mem_Signal_Sync_def DEVICE_FUN_ID_def SYNC_FUN_ID_def HOST_SYNC_FUN_ID_def
  EXPRESS_MEM_DEVICE_ID_def

lemma mem_switch_returns:
  assumes inv: "mem_inv s" and ps: "list_all direct_para ps" "para_num \<le> int (length ps)"
    and call: "copy_guest_mem_from_call (me_now e) c 2 \<noteq> None"
    and id: "ec_id c \<in> {FUNID_Terminate_Gbuffer, FUNID_Alloc_Gbuffer, FUNID_Gbuffer_Guest_To_Host, FUNID_Mem_Signal_Sync}"
  shows "\<exists>s' ptr. mem_switch e c para_num ps s = Some (s', ptr) \<and> free_ok ptr"
proof -
  have direct: "direct_para (ps ! i)" if "int i < para_num" for i using that ps by (simp add: list_all_length)
  have t: "\<exists>s' ptr. with_para e para_num ps 1 36 s
      (\<lambda>b ptr. keep_ptr ptr (terminate_gbuffer (gi_gbuffer_id (parse_gralloc_info b)) s)) = Some (s', ptr) \<and> free_ok ptr"
    using terminate_gbuffer_ok [OF inv] direct [of 0] by (intro with_para_direct) (auto simp: keep_ptr_def)
  have d: "\<exists>s' ptr. with_para e para_num ps 1 8 s
      (\<lambda>b ptr. keep_ptr ptr (Some (s\<lparr>ms_sync := signal_express_sync (c_int (u64_at b 0)) True (ms_sync s)\<rparr>))) = Some (s', ptr) \<and> free_ok ptr"
    using direct [of 0] by (intro with_para_direct) (auto simp: keep_ptr_def)
  obtain g c' where g: "copy_guest_mem_from_call (me_now e) c 2 = Some (g, c')" using call by auto
  have al: "\<exists>s' ptr. with_para e para_num ps 2 36 s
      (\<lambda>b ptr. case copy_guest_mem_from_call (me_now e) c 2 of None \<Rightarrow> None
         | Some (gbuffer_data, _) \<Rightarrow> keep_ptr ptr (alloc_gbuffer_with_gralloc (parse_gralloc_info b) gbuffer_data s)) = Some (s', ptr) \<and> free_ok ptr"
    unfolding g using alloc_gbuffer_ok [OF inv, of _ g] direct [of 0] by (intro with_para_direct) (auto simp: keep_ptr_def)
  have h: "\<exists>s' ptr. with_para e para_num ps 2 36 s
      (\<lambda>b ptr. if \<not> free_ok ptr then None
         else Option.bind (para_to_ptr e (ms_store s) (ps ! 1) (snd ptr))
           (\<lambda>ptr1. Option.bind (ptr_bytes (ms_store s) (fst ptr1) 8)
              (\<lambda>b1. keep_ptr ptr1 (gbuffer_data_guest_to_host (parse_gralloc_info b) (c_int (c_uint (u64_at b1 0))) s)))) = Some (s', ptr) \<and> free_ok ptr"
  proof (cases "2 \<le> para_num")
    case False
    then show ?thesis by (auto simp: with_para_def free_ok_def)
  next
    case True
    then have p1: "direct_para (ps ! 1)" using direct [of 1] by simp
    show ?thesis
    proof (intro with_para_direct)
      fix b a
      obtain a' where a': "para_to_ptr e (ms_store s) (ps ! 1) False = Some (Ptr_direct a', False)"
          "ptr_bytes (ms_store s) (Ptr_direct a') 8 = Some (mem_read (ms_store s) a' 8)"
        using direct_para_ptr [OF p1, of e "ms_store s" False 8] by blast
      obtain s' where "gbuffer_data_guest_to_host (parse_gralloc_info b) (c_int (c_uint (u64_at (mem_read (ms_store s) a' 8) 0))) s = Some s'"
        using guest_to_host_ok [OF inv] by blast
      with a' show "\<exists>s' a'. (if \<not> free_ok (Ptr_direct a, False) then None
         else Option.bind (para_to_ptr e (ms_store s) (ps ! 1) (snd (Ptr_direct a, False)))
           (\<lambda>ptr1. Option.bind (ptr_bytes (ms_store s) (fst ptr1) 8)
              (\<lambda>b1. keep_ptr ptr1 (gbuffer_data_guest_to_host (parse_gralloc_info b) (c_int (c_uint (u64_at b1 0))) s)))) =
            Some (s', (Ptr_direct a', False))"
        by (simp add: free_ok_def keep_ptr_def)
    qed (use direct [of 0] True in simp)
  qed
  consider "ec_id c = FUNID_Terminate_Gbuffer" | "ec_id c = FUNID_Alloc_Gbuffer" | "ec_id c = FUNID_Gbuffer_Guest_To_Host"
    | "ec_id c = FUNID_Mem_Signal_Sync" using id by auto
  then show ?thesis
  proof cases
    case 1
    then show ?thesis using t by (simp add: mem_switch_def)
  next
    case 2
    then show ?thesis using al by (simp add: mem_switch_def mem_funid_defs)
  next
    case 3
    then show ?thesis using h by (simp add: mem_switch_def mem_funid_defs)
  next
    case 4
    then show ?thesis using d by (simp add: mem_switch_def mem_funid_defs)
  qed
qed

lemma get_para_copy: "get_para_from_call now c MAX_PARA_NUM = Some (n, ps, c') \<Longrightarrow> copy_guest_mem_from_call now c' 2 \<noteq> None"
  by (auto simp: copy_guest_mem_from_call_def get_para_from_call_def split: option.splits if_splits)

text \<open>
  C22. The memory device keeps its tables consistent. Whatever call it handles, either the
  handler does not get to the callback of the call, since it waits or meets undefined
  behaviour, or it ends by invoking the callback once, with a notification, in a state
  where every buffer id leads to a live buffer with that id and the flow tables are well
  formed. It does get there for calls that allocate, upload or destroy a buffer or signal
  a sync, with parameters of one segment each.
\<close>

theorem mem_master_switch_inv:
  assumes "mem_inv s" "get_para_from_call (me_now e) call MAX_PARA_NUM = Some (n, ps, call')"
  shows "(mem_master_switch e callback call (s, x) = None \<or>
      (\<exists>s'. mem_inv s' \<and> mem_master_switch e callback call (s, x) = callback call' 1 (s', x))) \<and>
    (list_all direct_para ps \<and> n \<le> int (length ps) \<and>
       ec_id call \<in> {FUNID_Terminate_Gbuffer, FUNID_Alloc_Gbuffer, FUNID_Gbuffer_Guest_To_Host, FUNID_Mem_Signal_Sync} \<longrightarrow>
      (\<exists>s'. mem_inv s' \<and> mem_master_switch e callback call (s, x) = callback call' 1 (s', x)))"
proof -
  have id: "ec_id call' = ec_id call"
    using assms(2) by (auto simp: get_para_from_call_def split: option.splits if_splits)
  show ?thesis
  proof (cases "mem_switch e call' n ps s")
    case None
    then show ?thesis
      using assms mem_switch_returns [OF assms(1), of ps n e call'] get_para_copy [OF assms(2)] id
      by (auto simp: mem_master_switch_def)
  next
    case (Some sp)
    then show ?thesis
      using assms mem_switch_inv [OF assms(1), of e call' n ps] id
        mem_switch_returns [OF assms(1), of ps n e call'] get_para_copy [OF assms(2)]
      by (cases sp) (auto simp: mem_master_switch_def)
  qed
qed

text \<open>A call that destroys the buffer 7, whose description is at address 400.\<close>

definition demo_terminate_call :: express_call where
  "demo_terminate_call = demo_call\<lparr>ec_id := FUNID_Terminate_Gbuffer, ec_para_num := 1,
     ec_elems := [filled 0 0 pack_demo_header,
       \<lparr>qe_index = 1, qe_out = [], qe_in = [], qe_para = Some (4, \<lparr>gm_scatter = [\<lparr>sdata = 400, slen = 36\<rparr>], gm_all_len = 36\<rparr>),
        qe_len = 36\<rparr>]\<rparr>"

definition demo_terminate_state :: mem_state where
  "demo_terminate_state = demo_state\<lparr>ms_store := mem_write demo_store 400 (le_bytes 8 7 @ replicate 28 0)\<rparr>"

definition demo_mem_env :: mem_env where
  "demo_mem_env = \<lparr>me_now = 5, me_real_time = 6, me_malloc = (\<lambda>n. replicate (nat n) 0), me_pixels = None, me_waits = []\<rparr>"

definition log_callback :: "express_call \<Rightarrow> int \<Rightarrow> mem_state \<times> int list \<Rightarrow> (mem_state \<times> int list) option" where
  "log_callback c notify sx = Some (fst sx, snd sx @ [notify])"

lemma demo_terminate_inv: "mem_inv demo_terminate_state"
  using stats_ok_init
  by (simp add: mem_inv_def gmap_ok_def demo_terminate_state_def demo_state_def demo_picture_def demo_buffer_def)

lemma demo_terminate_para:
  "get_para_from_call (me_now demo_mem_env) demo_terminate_call MAX_PARA_NUM =
     Some (1, [\<lparr>cp_data = \<lparr>gm_scatter = [\<lparr>sdata = 400, slen = 36\<rparr>], gm_all_len = 36\<rparr>, cp_len = 36\<rparr>],
       demo_terminate_call\<lparr>ec_spend_time := 5\<rparr>)"
  by (simp add: get_para_from_call_def demo_terminate_call_def demo_mem_env_def MAX_PARA_NUM_def)

lemma demo_terminate_runs:
  assumes "mem_master_switch demo_mem_env log_callback demo_terminate_call (demo_terminate_state, []) =
      log_callback (demo_terminate_call\<lparr>ec_spend_time := 5\<rparr>) 1 (s', [])"
  shows "ms_global s' 7 = None"
proof -
  let ?m = "ms_store demo_terminate_state"
  have read: "mem_read ?m 400 36 = le_bytes 8 7 @ replicate 28 0"
    unfolding demo_terminate_state_def by (simp, rule mem_read_write_same) simp
  have id: "gi_gbuffer_id (parse_gralloc_info (mem_read ?m 400 36)) = 7"
    unfolding read by (simp add: parse_gralloc_info_def u64_at_def le_int_le_bytes)
  have dying: "gb_is_dying demo_picture = 0" by (simp add: demo_picture_def demo_buffer_def)
  have "mem_switch demo_mem_env (demo_terminate_call\<lparr>ec_spend_time := 5\<rparr>) 1
      [\<lparr>cp_data = \<lparr>gm_scatter = [\<lparr>sdata = 400, slen = 36\<rparr>], gm_all_len = 36\<rparr>, cp_len = 36\<rparr>] demo_terminate_state =
      keep_ptr (Ptr_direct 400, False) (terminate_gbuffer 7 demo_terminate_state)"
    by (simp add: mem_switch_def with_para_def para_to_ptr_def call_para_to_ptr_def get_direct_ptr_def ptr_bytes_def id
        demo_terminate_call_def)
  with assms demo_terminate_para dying show ?thesis
    by (auto simp: mem_master_switch_def log_callback_def keep_ptr_def free_ok_def terminate_gbuffer_def
        get_gbuffer_from_global_map_def remove_gbuffer_from_global_map_def destroy_gbuffer_def demo_terminate_state_def demo_state_def
        split: option.splits)
qed

theorem mem_master_switch_inv_witness:
  "\<exists>s'. mem_master_switch demo_mem_env log_callback demo_terminate_call (demo_terminate_state, []) = Some (s', [1]) \<and>
     mem_inv s' \<and> ms_global demo_terminate_state 7 = Some 3 \<and> ms_global s' 7 = None"
proof -
  have id: "ec_id demo_terminate_call = FUNID_Terminate_Gbuffer" by (simp add: demo_terminate_call_def)
  obtain s' where s': "mem_inv s'" "mem_master_switch demo_mem_env log_callback demo_terminate_call (demo_terminate_state, []) =
      log_callback (demo_terminate_call\<lparr>ec_spend_time := 5\<rparr>) 1 (s', [])"
    using mem_master_switch_inv [OF demo_terminate_inv demo_terminate_para, of log_callback "[]"] id
    by (auto simp: direct_para_def)
  moreover note demo_terminate_runs [OF s'(2)]
  moreover have "ms_global demo_terminate_state 7 = Some 3" by (simp add: demo_terminate_state_def demo_state_def)
  ultimately show ?thesis by (auto simp: log_callback_def)
qed

text \<open>
  An upload whose first parameter is scattered and whose second is one segment frees the
  second one, which is guest memory.
\<close>

lemma upload_frees_guest_memory:
  assumes "get_para_from_call (me_now e) call MAX_PARA_NUM = Some (2, [p0, p1], call')" "ec_id call = FUNID_Gbuffer_Guest_To_Host"
    and "call_para_to_ptr (ms_store s) (me_malloc e (cp_len p0)) p0 = Some (Ptr_copy b)" "36 \<le> cp_len p0" "direct_para p1"
  shows "mem_master_switch e callback call (s, x) = None"
proof -
  have id: "ec_id call' = FUNID_Gbuffer_Guest_To_Host"
    using assms(1,2) by (auto simp: get_para_from_call_def split: option.splits if_splits)
  have p0: "para_to_ptr e (ms_store s) p0 False = Some (Ptr_copy b, True)" using assms(3) by (simp add: para_to_ptr_def)
  obtain a where a: "para_to_ptr e (ms_store s) p1 True = Some (Ptr_direct a, True)"
      "ptr_bytes (ms_store s) (Ptr_direct a) 8 = Some (mem_read (ms_store s) a 8)"
    using direct_para_ptr [OF assms(5), of e "ms_store s" True 8] by blast
  have "snd r = (Ptr_direct a, True)" if "mem_switch e call' 2 [p0, p1] s = Some r" for r
    using that id p0 a assms(4)
    by (cases r) (auto simp: mem_switch_def mem_funid_defs with_para_def keep_ptr_Some split: bind_splits if_splits)
  then have "\<not> free_ok (snd r)" if "mem_switch e call' 2 [p0, p1] s = Some r" for r
    using that by (simp add: free_ok_def)
  then show ?thesis using assms(1) by (fastforce simp: mem_master_switch_def split: option.splits)
qed

end
