(* ===== verification/Gl_Resource.thy ===== *)
theory Gl_Resource
  imports Vsoc_Prelude
begin

text \<open>
  Object names of the graphics device, after \<^verbatim>\<open>hw/express-gpu/glv3_resource.c\<close> and the
  resource part of \<^verbatim>\<open>hw/express-gpu/glv3_context.c\<close>. The guest chooses the names of its
  objects; a \<^verbatim>\<open>Resource_Map_Status\<close> translates them to host names. A name that is shared
  through an EGL image is stored negated. The host names OpenGL hands out are arguments
  of the operations. An access outside of an array is \<open>None\<close>.
\<close>

section \<open>The table\<close>

text \<open>
  \<^verbatim>\<open>map_size\<close> is the length of both arrays, which are \<^verbatim>\<open>NULL\<close> when it is 0;
  \<^verbatim>\<open>gbuffer_map_max_size\<close> is the length of \<open>rm_gbuf\<close>. A buffer pointer is a number.
\<close>

record resource_map =
  rm_max_id :: nat
  rm_map :: "int list"
  rm_init :: "int list"
  rm_gbuf :: "nat option list"

fun max_guest_id :: "nat list \<Rightarrow> nat \<Rightarrow> nat" where
  "max_guest_id [] m = m"
| "max_guest_id (g # gs) m = max_guest_id gs (if m < g then g else m)"

definition grow_map :: "nat \<Rightarrow> resource_map \<Rightarrow> resource_map option" where
  "grow_map max_id s =
     (if rm_map s = [] \<or> max_id > length (rm_map s) - 1 then
        (let now_map_size = 2 * max_id + 1 in
         if now_map_size < 2147483648 then
           Some (s\<lparr>rm_map := rm_map s @ replicate (now_map_size - length (rm_map s)) 0,
                   rm_init := rm_init s @ replicate (now_map_size - length (rm_init s)) 0\<rparr>)
         else None)
      else Some s)"

definition store_id :: "nat \<Rightarrow> int \<Rightarrow> resource_map \<Rightarrow> resource_map option" where
  "store_id g v s =
     (if g < length (rm_map s) then
        Some (s\<lparr>rm_map := (rm_map s)[g := v], rm_init := (rm_init s)[g := 0],
                rm_gbuf := (rm_gbuf s)[g := None]\<rparr>)
      else None)"

fun store_ids :: "nat list \<Rightarrow> int list \<Rightarrow> resource_map \<Rightarrow> resource_map option" where
  "store_ids (g # gs) (v # vs) s = Option.bind (store_id g v s) (store_ids gs vs)"
| "store_ids [] vs s = Some s"
| "store_ids (g # gs) [] s = None"

text \<open>The result pairs the table with the return value.\<close>

definition create_host_map_ids :: "nat list \<Rightarrow> int list \<Rightarrow> resource_map \<Rightarrow> (resource_map \<times> int) option" where
  "create_host_map_ids guest_ids host_ids s =
     (let max_id = max_guest_id guest_ids 0 in
      if max_id > ((rm_max_id s + length guest_ids) * 2) mod 2 ^ 32 \<and> max_id > 10000 then Some (s, 0)
      else
        (case Option.bind (grow_map max_id s) (store_ids guest_ids host_ids) of
           None \<Rightarrow> None
         | Some s' \<Rightarrow> Some (if rm_max_id s' < max_id then s'\<lparr>rm_max_id := max_id\<rparr> else s', 1)))"

definition set_host_map_id :: "nat \<Rightarrow> int \<Rightarrow> int \<Rightarrow> resource_map \<Rightarrow> (resource_map \<times> int) option" where
  "set_host_map_id fresh_texture guest_id host_id s =
     (if c_uint guest_id > int (rm_max_id s) \<or> rm_max_id s = 0 then Some (s, 0)
      else if nat (c_uint guest_id) < length (rm_map s) then
        (let i = nat (c_uint guest_id); origin_id = rm_map s ! i;
             v = (if host_id = 0 then int fresh_texture else - host_id) in
         Some (s\<lparr>rm_map := (rm_map s)[i := v]\<rparr>, origin_id))
      else None)"

fun clear_ids :: "nat list \<Rightarrow> resource_map \<Rightarrow> resource_map option" where
  "clear_ids [] s = Some s"
| "clear_ids (g # gs) s =
     (if g > rm_max_id s \<or> rm_max_id s = 0 \<or> g = 0 then clear_ids gs s
      else Option.bind (store_id g 0 s) (clear_ids gs))"

fun shrink_max :: "int list \<Rightarrow> nat \<Rightarrow> nat" where
  "shrink_max m 0 = 0"
| "shrink_max m (Suc k) = (if m ! Suc k = 0 then shrink_max m k else Suc k)"

definition remove_host_map_ids :: "nat list \<Rightarrow> resource_map \<Rightarrow> resource_map option" where
  "remove_host_map_ids guest_ids s =
     (if guest_ids = [] \<or> rm_map s = [] then Some s
      else
        (case clear_ids guest_ids s of
           None \<Rightarrow> None
         | Some s' \<Rightarrow>
             (if rm_max_id s' < length (rm_map s')
              then Some (s'\<lparr>rm_max_id := shrink_max (rm_map s') (rm_max_id s')\<rparr>) else None)))"

text \<open>Reading an entry the way all lookups do, with the guard in front.\<close>

definition rm_val :: "resource_map \<Rightarrow> nat \<Rightarrow> int" where
  "rm_val s i = (if i > rm_max_id s \<or> rm_max_id s = 0 then 0 else rm_map s ! i)"

definition get_host_resource_ids :: "nat list \<Rightarrow> resource_map \<Rightarrow> int list" where
  "get_host_resource_ids guest_ids s = map (\<lambda>g. if rm_val s g \<le> 0 then 0 else c_uint (rm_val s g)) guest_ids"

definition get_host_resource_id :: "nat \<Rightarrow> resource_map \<Rightarrow> int" where
  "get_host_resource_id i s = (if rm_val s i < 0 then - rm_val s i else rm_val s i)"

definition set_host_resource_init :: "nat \<Rightarrow> resource_map \<Rightarrow> resource_map \<times> int" where
  "set_host_resource_init i s =
     (if i > rm_max_id s \<or> rm_max_id s = 0 \<or> i = 0 then (s, 0)
      else if rm_init s ! i \<noteq> 0 then (s, rm_init s ! i)
      else (s\<lparr>rm_init := (rm_init s)[i := 1]\<rparr>, 0))"

definition guest_has_resource_id :: "nat \<Rightarrow> resource_map \<Rightarrow> bool" where
  "guest_has_resource_id i s \<longleftrightarrow> \<not> (i > rm_max_id s \<or> rm_max_id s = 0 \<or> rm_map s ! i = 0)"

section \<open>The tables of a context\<close>

datatype resource_kind =
    Texture | Buffer | Renderbuffer | Sampler | Shader | Program | Sync
  | Framebuffer | Pipeline | Feedback | Vertex_array | Query

type_synonym resource_context = "resource_kind \<Rightarrow> resource_map"

text \<open>Textures, syncs and vertex arrays look the name 0 up as well.\<close>

definition get_host_texture_id :: "nat \<Rightarrow> resource_context \<Rightarrow> int" where
  "get_host_texture_id i r = get_host_resource_id i (r Texture)"

definition get_host_renderbuffer_id :: "nat \<Rightarrow> resource_context \<Rightarrow> int" where
  "get_host_renderbuffer_id i r = (if i = 0 then 0 else get_host_resource_id i (r Renderbuffer))"

definition get_host_sampler_id :: "nat \<Rightarrow> resource_context \<Rightarrow> int" where
  "get_host_sampler_id i r = (if i = 0 then 0 else get_host_resource_id i (r Sampler))"

definition get_host_shader_id :: "nat \<Rightarrow> resource_context \<Rightarrow> int" where
  "get_host_shader_id i r = (if i = 0 then 0 else get_host_resource_id i (r Shader))"

definition get_host_program_id :: "nat \<Rightarrow> resource_context \<Rightarrow> int" where
  "get_host_program_id i r = (if i = 0 then 0 else get_host_resource_id i (r Program))"

definition get_host_sync_id :: "nat \<Rightarrow> resource_context \<Rightarrow> int" where
  "get_host_sync_id i r = get_host_resource_id i (r Sync)"

definition get_host_framebuffer_id :: "nat \<Rightarrow> resource_context \<Rightarrow> int" where
  "get_host_framebuffer_id i r = (if i = 0 then 0 else get_host_resource_id i (r Framebuffer))"

definition get_host_pipeline_id :: "nat \<Rightarrow> resource_context \<Rightarrow> int" where
  "get_host_pipeline_id i r = (if i = 0 then 0 else get_host_resource_id i (r Pipeline))"

definition get_host_feedback_id :: "nat \<Rightarrow> resource_context \<Rightarrow> int" where
  "get_host_feedback_id i r = (if i = 0 then 0 else get_host_resource_id i (r Feedback))"

definition get_host_array_id :: "nat \<Rightarrow> resource_context \<Rightarrow> int" where
  "get_host_array_id i r = get_host_resource_id i (r Vertex_array)"

definition get_host_query_id :: "nat \<Rightarrow> resource_context \<Rightarrow> int" where
  "get_host_query_id i r = (if i = 0 then 0 else get_host_resource_id i (r Query))"

text \<open>A buffer that the guest uses without having generated it is created on the way.\<close>

definition get_host_buffer_id :: "int \<Rightarrow> nat \<Rightarrow> resource_context \<Rightarrow> (resource_context \<times> int) option" where
  "get_host_buffer_id fresh i r =
     (if i = 0 then Some (r, 0)
      else if \<not> guest_has_resource_id i (r Buffer) then
        (case create_host_map_ids [i] [fresh] (r Buffer) of
           None \<Rightarrow> None
         | Some (s, ret) \<Rightarrow> Some (r(Buffer := s), if ret = 0 then 0 else fresh))
      else Some (r, get_host_resource_id i (r Buffer)))"

definition set_host_texture_init :: "nat \<Rightarrow> resource_context \<Rightarrow> resource_context \<times> int" where
  "set_host_texture_init i r =
     (if i = 0 \<or> \<not> guest_has_resource_id i (r Texture) then (r, 0)
      else (case set_host_resource_init i (r Texture) of (s, ret) \<Rightarrow> (r(Texture := s), ret)))"

text \<open>
  Generation: \<open>hosts\<close> are the names OpenGL generated. Nothing is reported when the table
  refuses the names.
\<close>

definition gen_objects :: "resource_kind \<Rightarrow> nat list \<Rightarrow> int list \<Rightarrow> resource_context \<Rightarrow> resource_context option" where
  "gen_objects k guest_ids hosts r =
     map_option (\<lambda>(s, _). r(k := s)) (create_host_map_ids guest_ids hosts (r k))"

definition d_glGenBuffers :: "nat list \<Rightarrow> int list \<Rightarrow> resource_context \<Rightarrow> resource_context option" where
  "d_glGenBuffers = gen_objects Buffer"

definition d_glGenRenderbuffers :: "nat list \<Rightarrow> int list \<Rightarrow> resource_context \<Rightarrow> resource_context option" where
  "d_glGenRenderbuffers = gen_objects Renderbuffer"

definition d_glGenTextures :: "nat list \<Rightarrow> int list \<Rightarrow> resource_context \<Rightarrow> resource_context option" where
  "d_glGenTextures = gen_objects Texture"

definition d_glGenSamplers :: "nat list \<Rightarrow> int list \<Rightarrow> resource_context \<Rightarrow> resource_context option" where
  "d_glGenSamplers = gen_objects Sampler"

definition d_glGenFramebuffers :: "nat list \<Rightarrow> int list \<Rightarrow> resource_context \<Rightarrow> resource_context option" where
  "d_glGenFramebuffers = gen_objects Framebuffer"

definition d_glGenProgramPipelines :: "nat list \<Rightarrow> int list \<Rightarrow> resource_context \<Rightarrow> resource_context option" where
  "d_glGenProgramPipelines = gen_objects Pipeline"

definition d_glGenTransformFeedbacks :: "nat list \<Rightarrow> int list \<Rightarrow> resource_context \<Rightarrow> resource_context option" where
  "d_glGenTransformFeedbacks = gen_objects Feedback"

definition d_glGenQueries :: "nat list \<Rightarrow> int list \<Rightarrow> resource_context \<Rightarrow> resource_context option" where
  "d_glGenQueries = gen_objects Query"

definition d_glCreateProgram :: "nat \<Rightarrow> int \<Rightarrow> resource_context \<Rightarrow> resource_context option" where
  "d_glCreateProgram i host = gen_objects Program [i] [host]"

definition d_glCreateShader :: "nat \<Rightarrow> int \<Rightarrow> resource_context \<Rightarrow> resource_context option" where
  "d_glCreateShader i host = gen_objects Shader [i] [host]"

definition d_glFenceSync :: "int \<Rightarrow> int \<Rightarrow> resource_context \<Rightarrow> resource_context option" where
  "d_glFenceSync sync host = gen_objects Sync [nat (c_uint sync)] [host]"

text \<open>Deletion: the second result is what OpenGL is told to delete.\<close>

definition delete_objects :: "resource_kind \<Rightarrow> nat list \<Rightarrow> resource_context \<Rightarrow> (resource_context \<times> int list) option" where
  "delete_objects k guest_ids r =
     map_option (\<lambda>s. (r(k := s), get_host_resource_ids guest_ids (r k))) (remove_host_map_ids guest_ids (r k))"

definition delete_object :: "resource_kind \<Rightarrow> nat \<Rightarrow> resource_context \<Rightarrow> (resource_context \<times> int) option" where
  "delete_object k i r =
     map_option (\<lambda>s. (r(k := s), get_host_resource_id i (r k))) (remove_host_map_ids [i] (r k))"

definition d_glDeleteRenderbuffers :: "nat list \<Rightarrow> resource_context \<Rightarrow> (resource_context \<times> int list) option" where
  "d_glDeleteRenderbuffers = delete_objects Renderbuffer"

definition d_glDeleteSamplers :: "nat list \<Rightarrow> resource_context \<Rightarrow> (resource_context \<times> int list) option" where
  "d_glDeleteSamplers = delete_objects Sampler"

definition d_glDeleteFramebuffers :: "nat list \<Rightarrow> resource_context \<Rightarrow> (resource_context \<times> int list) option" where
  "d_glDeleteFramebuffers = delete_objects Framebuffer"

definition d_glDeleteProgramPipelines :: "nat list \<Rightarrow> resource_context \<Rightarrow> (resource_context \<times> int list) option" where
  "d_glDeleteProgramPipelines = delete_objects Pipeline"

definition d_glDeleteTransformFeedbacks :: "nat list \<Rightarrow> resource_context \<Rightarrow> (resource_context \<times> int list) option" where
  "d_glDeleteTransformFeedbacks = delete_objects Feedback"

definition d_glDeleteQueries :: "nat list \<Rightarrow> resource_context \<Rightarrow> (resource_context \<times> int list) option" where
  "d_glDeleteQueries = delete_objects Query"

definition d_glDeleteShader :: "nat \<Rightarrow> resource_context \<Rightarrow> (resource_context \<times> int) option" where
  "d_glDeleteShader i r = map_option (\<lambda>(r', h). (r', c_uint h)) (delete_object Shader i r)"

definition d_glDeleteSync :: "int \<Rightarrow> resource_context \<Rightarrow> (resource_context \<times> int) option" where
  "d_glDeleteSync sync r = delete_object Sync (nat (c_uint sync)) r"

text \<open>The two sets are the keys of \<^verbatim>\<open>program_is_external_map\<close> and \<^verbatim>\<open>program_data_map\<close>.\<close>

definition d_glDeleteProgram ::
  "nat \<Rightarrow> resource_context \<times> int set \<times> int set \<Rightarrow> ((resource_context \<times> int set \<times> int set) \<times> int) option" where
  "d_glDeleteProgram i st =
     (case st of
        (r, external, data) \<Rightarrow>
          map_option (\<lambda>(r', h). ((r', external - {c_uint h}, data - {c_uint h}), c_uint h)) (delete_object Program i r))"

definition set_share_texture :: "nat \<Rightarrow> int \<Rightarrow> int \<Rightarrow> resource_context \<Rightarrow> (resource_context \<times> int) option" where
  "set_share_texture fresh texture share_texture r =
     map_option (\<lambda>(s, origin). (r(Texture := s), origin))
       (set_host_map_id fresh (c_int texture) (c_int share_texture) (r Texture))"

definition get_texture_gbuffer_ptr :: "nat \<Rightarrow> resource_context \<Rightarrow> nat option" where
  "get_texture_gbuffer_ptr texture r =
     (if texture \<ge> length (rm_gbuf (r Texture)) then None else rm_gbuf (r Texture) ! texture)"

definition set_texture_gbuffer_ptr :: "nat \<Rightarrow> nat option \<Rightarrow> resource_context \<Rightarrow> resource_context option" where
  "set_texture_gbuffer_ptr texture gbuffer r =
     (let s = r Texture;
          s = (if texture \<ge> length (rm_gbuf s)
               then s\<lparr>rm_gbuf := take (length (rm_map s)) (rm_gbuf s @ replicate (length (rm_map s)) None)\<rparr> else s) in
      if texture < length (rm_gbuf s) \<and> texture < length (rm_init s)
      then Some (r(Texture := s\<lparr>rm_gbuf := (rm_gbuf s)[texture := gbuffer], rm_init := (rm_init s)[texture := 2]\<rparr>))
      else None)"

section \<open>Buffer bindings\<close>

text \<open>
  \<^verbatim>\<open>Buffer_Status\<close> keeps a pair of names, \<^verbatim>\<open>guest_x\<close> and \<^verbatim>\<open>host_x\<close>, for each binding point.
\<close>

datatype buffer_binding =
    Array_buffer | Element_array_buffer | Copy_read_buffer | Copy_write_buffer | Pixel_pack_buffer
  | Pixel_unpack_buffer | Transform_feedback_buffer | Uniform_buffer | Atomic_counter_buffer
  | Dispatch_indirect_buffer | Draw_indirect_buffer | Shader_storage_buffer | Texture_buffer | Vao_ebo

text \<open>
  The attribute points of the vertex arrays are kept by host name, with their element
  array buffer; \<open>bs_attrib_point\<close> is the current one.
\<close>

record buffer_status =
  bs_guest :: "buffer_binding \<Rightarrow> int"
  bs_host :: "buffer_binding \<Rightarrow> int"
  bs_guest_vao :: int
  bs_host_vao :: int
  bs_points :: "int \<rightharpoonup> int"
  bs_attrib_point :: "int option"

definition restored_bindings :: "buffer_binding list" where
  "restored_bindings =
     [Array_buffer, Element_array_buffer, Copy_read_buffer, Copy_write_buffer, Pixel_pack_buffer,
      Pixel_unpack_buffer, Transform_feedback_buffer, Atomic_counter_buffer, Dispatch_indirect_buffer,
      Draw_indirect_buffer, Shader_storage_buffer, Texture_buffer, Vao_ebo]"

definition GL_BUFFER_STATUS_RESTORE :: "int \<Rightarrow> buffer_binding \<Rightarrow> buffer_status \<Rightarrow> buffer_status" where
  "GL_BUFFER_STATUS_RESTORE new_id b st =
     st\<lparr>bs_guest := (if bs_guest st b = new_id then (bs_guest st)(b := 0) else bs_guest st),
        bs_host := (if bs_host st b = new_id then (bs_host st)(b := 0) else bs_host st)\<rparr>"

definition g_delete_check_vao_ebo :: "int \<Rightarrow> buffer_status \<Rightarrow> buffer_status" where
  "g_delete_check_vao_ebo buffer st =
     st\<lparr>bs_points := (\<lambda>v. map_option (\<lambda>e. if e = buffer then 0 else e) (bs_points st v))\<rparr>"

definition restore_buffer :: "int \<Rightarrow> buffer_status \<Rightarrow> buffer_status" where
  "restore_buffer host st = fold (GL_BUFFER_STATUS_RESTORE host) restored_bindings (g_delete_check_vao_ebo host st)"

definition d_glDeleteBuffers ::
  "nat list \<Rightarrow> resource_context \<times> buffer_status \<Rightarrow> ((resource_context \<times> buffer_status) \<times> int list) option" where
  "d_glDeleteBuffers guest_ids rb =
     (case rb of
        (r, st) \<Rightarrow>
          (let host_buffers = get_host_resource_ids guest_ids (r Buffer) in
           map_option (\<lambda>s. ((r(Buffer := s), fold restore_buffer host_buffers st), host_buffers))
             (remove_host_map_ids guest_ids (r Buffer))))"

text \<open>
  A new vertex array gets an attribute point; with direct state access its element
  array buffer is the buffer generated for its indices, otherwise 0.
\<close>

definition d_glGenVertexArrays ::
  "bool \<Rightarrow> nat list \<Rightarrow> int list \<Rightarrow> int list \<Rightarrow> resource_context \<times> buffer_status \<Rightarrow> (resource_context \<times> buffer_status) option" where
  "d_glGenVertexArrays dsa guest_ids hosts indices rb =
     (case rb of
        (r, st) \<Rightarrow>
          map_option (\<lambda>(s, _).
              (r(Vertex_array := s),
               st\<lparr>bs_points := fold (\<lambda>(v, e) m. m(v \<mapsto> if dsa then e else 0)) (zip hosts indices) (bs_points st)\<rparr>))
            (create_host_map_ids guest_ids hosts (r Vertex_array)))"

definition find_point :: "buffer_status \<Rightarrow> int \<Rightarrow> int option" where
  "find_point st v = (if bs_points st v = None then None else Some v)"

fun delete_vao_loop :: "int \<Rightarrow> nat list \<Rightarrow> resource_context \<Rightarrow> buffer_status \<Rightarrow> buffer_status option" where
  "delete_vao_loop vao0 [] r st = Some st"
| "delete_vao_loop vao0 (a # as) r st =
     (let vao_index = c_uint (get_host_array_id a r) in
      if vao_index = 0 \<or> a = 0 then delete_vao_loop vao0 as r st
      else
        (let st1 = (if bs_attrib_point st = find_point st vao_index then
                      (case bs_points st vao0 of
                         None \<Rightarrow> None
                       | Some ebo \<Rightarrow>
                           Some (st\<lparr>bs_attrib_point := Some vao0, bs_host_vao := vao0, bs_guest_vao := vao0,
                                    bs_host := (bs_host st)(Vao_ebo := ebo), bs_guest := (bs_guest st)(Vao_ebo := ebo)\<rparr>))
                    else Some st) in
         case st1 of
           None \<Rightarrow> None
         | Some st' \<Rightarrow> delete_vao_loop vao0 as r (st'\<lparr>bs_points := (bs_points st')(vao_index := None)\<rparr>)))"

definition d_glDeleteVertexArrays ::
  "int \<Rightarrow> nat list \<Rightarrow> resource_context \<times> buffer_status \<Rightarrow> ((resource_context \<times> buffer_status) \<times> int list) option" where
  "d_glDeleteVertexArrays vao0 guest_ids rb =
     (case rb of
        (r, st) \<Rightarrow>
          (case delete_vao_loop vao0 guest_ids r st of
             None \<Rightarrow> None
           | Some st' \<Rightarrow>
               map_option (\<lambda>s. ((r(Vertex_array := s), st'), get_host_resource_ids guest_ids (r Vertex_array)))
                 (remove_host_map_ids guest_ids (r Vertex_array))))"

section \<open>Texture bindings\<close>

datatype texture_binding =
    Texture_2D | Texture_cube_map | Texture_3D | Texture_2D_array | Texture_2D_multisample
  | Texture_2D_multisample_array | Texture_cube_map_array | Texture_buffer_unit

record texture_status =
  ts_guest :: "texture_binding \<Rightarrow> nat \<Rightarrow> int"
  ts_host :: "texture_binding \<Rightarrow> nat \<Rightarrow> int"
  ts_now_max_texture_unit :: nat

definition all_texture_bindings :: "texture_binding list" where
  "all_texture_bindings =
     [Texture_2D, Texture_cube_map, Texture_3D, Texture_2D_array, Texture_2D_multisample,
      Texture_2D_multisample_array, Texture_cube_map_array, Texture_buffer_unit]"

definition GL_TEXTURE_STATUS_RESTORE :: "int \<Rightarrow> texture_binding \<Rightarrow> texture_status \<Rightarrow> texture_status" where
  "GL_TEXTURE_STATUS_RESTORE new_id b st =
     (let clear = (\<lambda>f unit. if unit \<le> ts_now_max_texture_unit st \<and> f unit = new_id then 0 else f unit) in
      st\<lparr>ts_guest := (ts_guest st)(b := clear (ts_guest st b)), ts_host := (ts_host st)(b := clear (ts_host st b))\<rparr>)"

definition restore_texture :: "int \<Rightarrow> texture_status \<Rightarrow> texture_status" where
  "restore_texture host st = fold (GL_TEXTURE_STATUS_RESTORE host) all_texture_bindings st"

definition d_glDeleteTextures ::
  "nat list \<Rightarrow> resource_context \<times> texture_status \<Rightarrow> ((resource_context \<times> texture_status) \<times> int list) option" where
  "d_glDeleteTextures guest_ids rt =
     (case rt of
        (r, st) \<Rightarrow>
          (let host_buffers = get_host_resource_ids guest_ids (r Texture) in
           map_option (\<lambda>s. ((r(Texture := s), fold restore_texture host_buffers st), host_buffers))
             (remove_host_map_ids guest_ids (r Texture))))"

section \<open>Contexts and shared tables\<close>

text \<open>
  \<^verbatim>\<open>resource_context_init\<close>: a context starts with empty tables, or with the shared tables
  of the context it shares with. The texture table gets one element at once.
\<close>

definition empty_map :: resource_map where
  "empty_map = \<lparr>rm_max_id = 0, rm_map = [], rm_init = [], rm_gbuf = []\<rparr>"

definition shared_kinds :: "resource_kind list" where
  "shared_kinds = [Texture, Buffer, Renderbuffer, Sampler, Program, Shader, Sync]"

definition resource_context_init :: "(resource_context \<times> int) option \<Rightarrow> resource_context \<times> int" where
  "resource_context_init share =
     (case share of
        Some (r, counter) \<Rightarrow> (\<lambda>k. if k \<in> set shared_kinds then r k else empty_map, counter + 1)
      | None \<Rightarrow> (\<lambda>k. if k = Texture then empty_map\<lparr>rm_map := [0], rm_init := [0]\<rparr> else empty_map, 1))"

text \<open>
  \<^verbatim>\<open>DESTROY_RESOURCES\<close>: the names to delete are collected in an array of 1000 and handed to
  OpenGL in portions. The result lists the portions.
\<close>

fun destroy_loop :: "int list \<Rightarrow> int list \<Rightarrow> int list list \<Rightarrow> int list list" where
  "destroy_loop [] pending out = (if pending \<noteq> [] then out @ [pending] else out)"
| "destroy_loop (v # vs) pending out =
     (if v \<le> 0 then destroy_loop vs pending out
      else if length pending < 1000 then destroy_loop vs (pending @ [c_uint v]) out
      else destroy_loop vs [] (out @ [pending]))"

definition DESTROY_RESOURCES :: "resource_map \<Rightarrow> int list list" where
  "DESTROY_RESOURCES s = destroy_loop (map (\<lambda>i. rm_map s ! i) [1..<rm_max_id s + 1]) [] []"

definition destroy_names :: "resource_map \<Rightarrow> int list" where
  "destroy_names s = filter (\<lambda>v. v \<noteq> 0) (map (\<lambda>i. rm_map s ! i) [1..<rm_max_id s + 1])"

text \<open>
  \<^verbatim>\<open>resource_context_destroy\<close>: what is deleted of each kind, and the new count of the
  contexts that share the tables. Shaders, programs and syncs are deleted one by one.
\<close>

definition resource_context_destroy :: "resource_context \<Rightarrow> int \<Rightarrow> (resource_kind \<Rightarrow> int list) \<times> int" where
  "resource_context_destroy r counter =
     (\<lambda>k. if k \<in> set shared_kinds \<and> counter - 1 \<noteq> 0 then []
          else if k \<in> {Shader, Program} then map c_uint (destroy_names (r k))
          else if k = Sync then destroy_names (r k)
          else concat (DESTROY_RESOURCES (r k)),
      counter - 1)"

section \<open>The invariant of a table\<close>

text \<open>
  Both arrays have one length, the highest name is inside of them, and nothing is stored
  above it: so a name that was deleted cannot come back with its old translation when
  the table is extended again.
\<close>

definition rm_ok :: "resource_map \<Rightarrow> bool" where
  "rm_ok s \<longleftrightarrow> length (rm_init s) = length (rm_map s) \<and> length (rm_gbuf s) \<le> length (rm_map s)
     \<and> (rm_max_id s < length (rm_map s) \<or> rm_max_id s = 0 \<and> rm_map s = [])
     \<and> (\<forall>i. rm_max_id s < i \<and> i < length (rm_map s) \<longrightarrow> rm_map s ! i = 0)"

lemma rm_ok_empty: "rm_ok empty_map"
  by (simp add: rm_ok_def empty_map_def)

lemma rm_val_eq:
  "rm_ok s \<Longrightarrow> i \<noteq> 0 \<Longrightarrow> rm_val s i = (if i < length (rm_map s) then rm_map s ! i else 0)"
  by (auto simp: rm_ok_def rm_val_def)

lemma max_guest_id_ge: "m \<le> max_guest_id gs m \<and> (\<forall>g\<in>set gs. g \<le> max_guest_id gs m)"
proof (induction gs arbitrary: m)
  case (Cons g gs)
  from Cons [of "if m < g then g else m"] show ?case by (auto split: if_splits)
qed simp

lemma max_guest_id_in: "max_guest_id gs m \<in> insert m (set gs)"
proof (induction gs arbitrary: m)
  case (Cons g gs)
  from Cons [of "if m < g then g else m"] show ?case by (auto split: if_splits)
qed simp

lemma store_ids_map:
  assumes "\<forall>g\<in>set gs. g < length (rm_map s)" "length gs = length vs"
  shows "\<exists>s'. store_ids gs vs s = Some s' \<and> rm_max_id s' = rm_max_id s
    \<and> length (rm_map s') = length (rm_map s) \<and> length (rm_init s') = length (rm_init s)
    \<and> length (rm_gbuf s') = length (rm_gbuf s)
    \<and> (\<forall>i<length (rm_map s). rm_map s' ! i = (case map_of (rev (zip gs vs)) i of None \<Rightarrow> rm_map s ! i | Some v \<Rightarrow> v))"
  using assms(2,1)
proof (induction gs vs arbitrary: s rule: list_induct2)
  case (Cons g gs v vs)
  define s1 where "s1 = s\<lparr>rm_map := (rm_map s)[g := v], rm_init := (rm_init s)[g := 0], rm_gbuf := (rm_gbuf s)[g := None]\<rparr>"
  from Cons.prems have "\<forall>g\<in>set gs. g < length (rm_map s1)" by (simp add: s1_def)
  from Cons.IH [OF this] obtain s' where s': "store_ids gs vs s1 = Some s'" "rm_max_id s' = rm_max_id s1"
      "length (rm_map s') = length (rm_map s1)" "length (rm_init s') = length (rm_init s1)"
      "length (rm_gbuf s') = length (rm_gbuf s1)"
      "\<forall>i<length (rm_map s1). rm_map s' ! i = (case map_of (rev (zip gs vs)) i of None \<Rightarrow> rm_map s1 ! i | Some v \<Rightarrow> v)"
    by blast
  have "store_ids (g # gs) (v # vs) s = Some s'"
    using Cons.prems s'(1) by (simp add: store_id_def s1_def)
  moreover have "rm_map s' ! i = (case map_of (rev (zip (g # gs) (v # vs))) i of None \<Rightarrow> rm_map s ! i | Some v \<Rightarrow> v)"
      if "i < length (rm_map s)" for i
    using s'(6) that Cons.prems
    by (auto simp: s1_def map_add_def nth_list_update split: option.splits)
  ultimately show ?case using s' by (simp add: s1_def)
qed simp

lemma grow_map_ok:
  assumes "rm_ok s" "m < 2 ^ 30"
  shows "\<exists>s'. grow_map m s = Some s' \<and> rm_ok s' \<and> m < length (rm_map s') \<and> rm_max_id s' = rm_max_id s
    \<and> length (rm_map s) \<le> length (rm_map s')
    \<and> (\<forall>i<length (rm_map s'). rm_map s' ! i = (if i < length (rm_map s) then rm_map s ! i else 0))"
proof (cases "rm_map s = [] \<or> m > length (rm_map s) - 1")
  case True
  then have "length (rm_map s) \<le> m" "length (rm_map s) < 2 * m + 1" by auto
  with True assms show ?thesis
    by (auto simp: grow_map_def rm_ok_def Let_def nth_append)
next
  case False
  then have "m < length (rm_map s)" by (cases "rm_map s") auto
  with False assms show ?thesis by (simp add: grow_map_def)
qed

lemma map_of_rev_zip_None: "length gs = length vs \<Longrightarrow> map_of (rev (zip gs vs)) i = None \<longleftrightarrow> i \<notin> set gs"
  by (simp add: map_of_eq_None_iff flip: set_map)

lemma create_host_map_ids_val:
  assumes ok: "rm_ok s" and len: "length gs = length vs" and small: "\<forall>g\<in>set gs. g < 2 ^ 30"
  shows "\<exists>s' r. create_host_map_ids gs vs s = Some (s', r) \<and> rm_ok s'
    \<and> (if r = 0 then s' = s
       else \<forall>i. i \<noteq> 0 \<longrightarrow> rm_val s' i = (case map_of (rev (zip gs vs)) i of None \<Rightarrow> rm_val s i | Some v \<Rightarrow> v))"
proof (cases "max_guest_id gs 0 > ((rm_max_id s + length gs) * 2) mod 2 ^ 32 \<and> max_guest_id gs 0 > 10000")
  case True
  then show ?thesis using ok by (simp add: create_host_map_ids_def Let_def)
next
  case False
  define m where "m = max_guest_id gs 0"
  have "m < 2 ^ 30" using max_guest_id_in [of gs 0] small by (auto simp: m_def)
  from grow_map_ok [OF ok this] obtain s1 where s1: "grow_map m s = Some s1" "rm_ok s1" "m < length (rm_map s1)"
      "rm_max_id s1 = rm_max_id s" "length (rm_map s) \<le> length (rm_map s1)"
      "\<forall>i<length (rm_map s1). rm_map s1 ! i = (if i < length (rm_map s) then rm_map s ! i else 0)"
    by blast
  have gs: "\<forall>g\<in>set gs. g \<le> m" using max_guest_id_ge [of 0 gs] by (simp add: m_def)
  with s1(3) have "\<forall>g\<in>set gs. g < length (rm_map s1)" by auto
  from store_ids_map [OF this len] obtain s2 where s2: "store_ids gs vs s1 = Some s2" "rm_max_id s2 = rm_max_id s1"
      "length (rm_map s2) = length (rm_map s1)" "length (rm_init s2) = length (rm_init s1)"
      "length (rm_gbuf s2) = length (rm_gbuf s1)"
      "\<forall>i<length (rm_map s1). rm_map s2 ! i = (case map_of (rev (zip gs vs)) i of None \<Rightarrow> rm_map s1 ! i | Some v \<Rightarrow> v)"
    by blast
  define s3 where "s3 = (if rm_max_id s2 < m then s2\<lparr>rm_max_id := m\<rparr> else s2)"
  have eq: "create_host_map_ids gs vs s = Some (s3, 1)"
    using False s1(1) s2(1) by (simp add: create_host_map_ids_def Let_def m_def [symmetric] s3_def)
  have max3: "rm_max_id s3 = max (rm_max_id s) m" using s1 s2 by (simp add: s3_def max_def)
  have map3: "rm_map s3 = rm_map s2" "rm_init s3 = rm_init s2" "rm_gbuf s3 = rm_gbuf s2" by (simp_all add: s3_def)
  have ok3: "rm_ok s3"
    using s1(2,3) s2 gs map_of_rev_zip_None [OF len]
    by (fastforce simp: rm_ok_def map3 max3 s1(4) split: option.splits dest: map_of_SomeD set_zip_leftD)
  have "rm_val s3 i = (case map_of (rev (zip gs vs)) i of None \<Rightarrow> rm_val s i | Some v \<Rightarrow> v)" if "i \<noteq> 0" for i
  proof (cases "i < length (rm_map s1)")
    case True
    with that s1(5,6) s2(3,6) show ?thesis
      by (simp add: rm_val_eq [OF ok3] rm_val_eq [OF ok] map3 split: option.split)
  next
    case False
    then have "i \<notin> set gs" using gs s1(3) by auto
    then have "map_of (rev (zip gs vs)) i = None" using map_of_rev_zip_None [OF len] by blast
    with False that s1(5) s2(3) show ?thesis
      by (simp add: rm_val_eq [OF ok3] rm_val_eq [OF ok] map3)
  qed
  with eq ok3 show ?thesis by auto
qed

lemma clear_ids_map:
  assumes "rm_max_id s < length (rm_map s)"
  shows "\<exists>s'. clear_ids gs s = Some s' \<and> rm_max_id s' = rm_max_id s
    \<and> length (rm_map s') = length (rm_map s) \<and> length (rm_init s') = length (rm_init s)
    \<and> length (rm_gbuf s') = length (rm_gbuf s)
    \<and> (\<forall>i<length (rm_map s). rm_map s' ! i =
         (if i \<in> set gs \<and> i \<noteq> 0 \<and> i \<le> rm_max_id s then 0 else rm_map s ! i))"
  using assms
proof (induction gs arbitrary: s)
  case (Cons g gs)
  show ?case
  proof (cases "g > rm_max_id s \<or> rm_max_id s = 0 \<or> g = 0")
    case True
    then show ?thesis using Cons.IH [OF Cons.prems] by (auto split: if_splits)
  next
    case False
    define s1 where "s1 = s\<lparr>rm_map := (rm_map s)[g := 0], rm_init := (rm_init s)[g := 0], rm_gbuf := (rm_gbuf s)[g := None]\<rparr>"
    have "clear_ids (g # gs) s = clear_ids gs s1"
      using False Cons.prems by (simp add: store_id_def s1_def)
    moreover have "rm_max_id s1 < length (rm_map s1)" using Cons.prems by (simp add: s1_def)
    ultimately show ?thesis
      using Cons.IH [of s1] False by (auto simp: s1_def nth_list_update)
  qed
qed simp

lemma shrink_max_zero: "shrink_max m k \<le> k \<and> (\<forall>i. shrink_max m k < i \<and> i \<le> k \<longrightarrow> m ! i = 0)"
  by (induction k) (auto simp: le_Suc_eq)

lemma remove_host_map_ids_val:
  assumes ok: "rm_ok s"
  shows "\<exists>s'. remove_host_map_ids gs s = Some s' \<and> rm_ok s'
    \<and> (\<forall>i. i \<noteq> 0 \<longrightarrow> rm_val s' i = (if i \<in> set gs then 0 else rm_val s i))"
proof (cases "gs = [] \<or> rm_map s = []")
  case True
  then show ?thesis using ok by (auto simp: remove_host_map_ids_def rm_val_eq)
next
  case False
  with ok have m: "rm_max_id s < length (rm_map s)" by (auto simp: rm_ok_def)
  from clear_ids_map [OF this, of gs] obtain s1 where s1: "clear_ids gs s = Some s1" "rm_max_id s1 = rm_max_id s"
      "length (rm_map s1) = length (rm_map s)" "length (rm_init s1) = length (rm_init s)"
      "length (rm_gbuf s1) = length (rm_gbuf s)"
      "\<forall>i<length (rm_map s). rm_map s1 ! i = (if i \<in> set gs \<and> i \<noteq> 0 \<and> i \<le> rm_max_id s then 0 else rm_map s ! i)"
    by blast
  define s2 where "s2 = s1\<lparr>rm_max_id := shrink_max (rm_map s1) (rm_max_id s)\<rparr>"
  have eq: "remove_host_map_ids gs s = Some s2"
    using False s1(1-3) m by (simp add: remove_host_map_ids_def s2_def)
  have sh: "shrink_max (rm_map s1) (rm_max_id s) \<le> rm_max_id s"
      "\<forall>i. shrink_max (rm_map s1) (rm_max_id s) < i \<and> i \<le> rm_max_id s \<longrightarrow> rm_map s1 ! i = 0"
    using shrink_max_zero [of "rm_map s1" "rm_max_id s"] by simp_all
  have ok2: "rm_ok s2" unfolding rm_ok_def
  proof (intro conjI allI impI)
    fix i
    assume i: "rm_max_id s2 < i \<and> i < length (rm_map s2)"
    show "rm_map s2 ! i = 0"
    proof (cases "i \<le> rm_max_id s")
      case True
      with i sh(2) show ?thesis by (simp add: s2_def)
    next
      case False
      with i s1 ok show ?thesis by (simp add: s2_def rm_ok_def)
    qed
  qed (use ok s1 sh(1) m in \<open>auto simp: s2_def rm_ok_def\<close>)
  have map2: "rm_map s2 = rm_map s1" by (simp add: s2_def)
  have "rm_val s2 i = (if i \<in> set gs then 0 else rm_val s i)" if "i \<noteq> 0" for i
    using that s1(3,6) ok by (auto simp: rm_val_eq [OF ok2] rm_val_eq [OF ok] map2 rm_ok_def)
  with eq ok2 show ?thesis by blast
qed

section \<open>The interface of a table of names\<close>

text \<open>
  What the users of a table rely on: generating names either is refused as a whole or
  makes the last given host name of each the translation, deleting removes the
  translations, and other names keep theirs.
\<close>

locale name_table =
  fixes val :: "'s \<Rightarrow> nat \<Rightarrow> int"
    and ins :: "nat list \<Rightarrow> int list \<Rightarrow> 's \<Rightarrow> ('s \<times> int) option"
    and del :: "nat list \<Rightarrow> 's \<Rightarrow> 's option"
    and ok :: "'s \<Rightarrow> bool"
  assumes ins_val: "\<lbrakk>ok s; length gs = length vs; \<forall>g\<in>set gs. g < 2 ^ 30\<rbrakk> \<Longrightarrow>
      \<exists>s' r. ins gs vs s = Some (s', r) \<and> ok s'
        \<and> (if r = 0 then s' = s
           else \<forall>i. i \<noteq> 0 \<longrightarrow> val s' i = (case map_of (rev (zip gs vs)) i of None \<Rightarrow> val s i | Some v \<Rightarrow> v))"
    and del_val: "ok s \<Longrightarrow> \<exists>s'. del gs s = Some s' \<and> ok s'
        \<and> (\<forall>i. i \<noteq> 0 \<longrightarrow> val s' i = (if i \<in> set gs then 0 else val s i))"
begin

lemma ins_lookup:
  assumes "ok s" "length gs = length vs" "\<forall>g\<in>set gs. g < 2 ^ 30" "distinct gs"
    and "ins gs vs s = Some (s', r)" "r \<noteq> 0" "k < length gs" "gs ! k \<noteq> 0"
  shows "val s' (gs ! k) = vs ! k"
proof -
  from ins_val [OF assms(1-3)] assms(5,6)
  have v: "\<forall>i. i \<noteq> 0 \<longrightarrow> val s' i = (case map_of (rev (zip gs vs)) i of None \<Rightarrow> val s i | Some v \<Rightarrow> v)"
    by auto
  have "distinct (map fst (rev (zip gs vs)))" using assms(2,4) by (simp flip: rev_map)
  moreover have "(gs ! k, vs ! k) \<in> set (rev (zip gs vs))" using assms(2,7) by (auto simp: set_zip)
  ultimately have "map_of (rev (zip gs vs)) (gs ! k) = Some (vs ! k)" by simp
  with v assms(8) show ?thesis by simp
qed

lemma del_lookup: "ok s \<Longrightarrow> del gs s = Some s' \<Longrightarrow> g \<in> set gs \<Longrightarrow> g \<noteq> 0 \<Longrightarrow> val s' g = 0"
  using del_val [of s gs] by auto

end

interpretation nt: name_table rm_val create_host_map_ids remove_host_map_ids rm_ok
proof
  fix s :: resource_map and gs :: "nat list" and vs :: "int list"
  assume "rm_ok s" "length gs = length vs" "\<forall>g\<in>set gs. g < 2 ^ 30"
  then show "\<exists>s' r. create_host_map_ids gs vs s = Some (s', r) \<and> rm_ok s'
      \<and> (if r = 0 then s' = s
         else \<forall>i. i \<noteq> 0 \<longrightarrow> rm_val s' i = (case map_of (rev (zip gs vs)) i of None \<Rightarrow> rm_val s i | Some v \<Rightarrow> v))"
    by (rule create_host_map_ids_val)
next
  fix s :: resource_map and gs :: "nat list"
  assume "rm_ok s"
  then show "\<exists>s'. remove_host_map_ids gs s = Some s' \<and> rm_ok s'
      \<and> (\<forall>i. i \<noteq> 0 \<longrightarrow> rm_val s' i = (if i \<in> set gs then 0 else rm_val s i))"
    by (rule remove_host_map_ids_val)
qed

section \<open>Histories of a table\<close>

datatype name_op = Gen "nat list" "int list" | Del "nat list"

fun rm_step :: "name_op \<Rightarrow> resource_map \<Rightarrow> (resource_map \<times> int) option" where
  "rm_step (Gen gs vs) s = create_host_map_ids gs vs s"
| "rm_step (Del gs) s = map_option (\<lambda>s'. (s', 1)) (remove_host_map_ids gs s)"

fun rm_run :: "name_op list \<Rightarrow> resource_map \<Rightarrow> (resource_map \<times> int list) option" where
  "rm_run [] s = Some (s, [])"
| "rm_run (p # ps) s =
     (case rm_step p s of
        None \<Rightarrow> None
      | Some (s', r) \<Rightarrow> map_option (\<lambda>(s'', rs). (s'', r # rs)) (rm_run ps s'))"

text \<open>The abstract table is a function from names to host names, 0 for names that are not in use.\<close>

fun spec_step :: "name_op \<Rightarrow> int \<Rightarrow> (nat \<Rightarrow> int) \<Rightarrow> nat \<Rightarrow> int" where
  "spec_step (Gen gs vs) r m =
     (if r = 0 then m else (\<lambda>i. case map_of (rev (zip gs vs)) i of None \<Rightarrow> m i | Some v \<Rightarrow> v))"
| "spec_step (Del gs) r m = (\<lambda>i. if i \<in> set gs then 0 else m i)"

fun spec_run :: "(name_op \<times> int) list \<Rightarrow> (nat \<Rightarrow> int) \<Rightarrow> nat \<Rightarrow> int" where
  "spec_run [] m = m"
| "spec_run ((p, r) # ps) m = spec_run ps (spec_step p r m)"

fun op_ok :: "name_op \<Rightarrow> bool" where
  "op_ok (Gen gs vs) \<longleftrightarrow> length gs = length vs \<and> (\<forall>g\<in>set gs. g < 2 ^ 30)"
| "op_ok (Del gs) \<longleftrightarrow> True"

lemma rm_step_spec:
  assumes "rm_ok s" "op_ok p" "\<forall>i. i \<noteq> 0 \<longrightarrow> rm_val s i = m i"
  shows "\<exists>s' r. rm_step p s = Some (s', r) \<and> rm_ok s' \<and> (\<forall>i. i \<noteq> 0 \<longrightarrow> rm_val s' i = spec_step p r m i)"
proof (cases p)
  case (Gen gs vs)
  with assms(2) have "length gs = length vs" "\<forall>g\<in>set gs. g < 2 ^ 30" by simp_all
  from nt.ins_val [OF assms(1) this] obtain s' r where
    "create_host_map_ids gs vs s = Some (s', r)" "rm_ok s'"
    "if r = 0 then s' = s
     else \<forall>i. i \<noteq> 0 \<longrightarrow> rm_val s' i = (case map_of (rev (zip gs vs)) i of None \<Rightarrow> rm_val s i | Some v \<Rightarrow> v)"
    by blast
  with Gen assms(3) show ?thesis by (auto split: if_splits option.splits)
next
  case (Del gs)
  with nt.del_val [OF assms(1), of gs] assms(3) show ?thesis by auto
qed

lemma rm_run_spec:
  assumes "rm_ok s" "\<forall>p\<in>set ps. op_ok p" "\<forall>i. i \<noteq> 0 \<longrightarrow> rm_val s i = m i"
  shows "\<exists>s' rs. rm_run ps s = Some (s', rs) \<and> rm_ok s' \<and> length rs = length ps
    \<and> (\<forall>i. i \<noteq> 0 \<longrightarrow> rm_val s' i = spec_run (zip ps rs) m i)"
  using assms
proof (induction ps arbitrary: s m)
  case (Cons p ps)
  from Cons.prems(2) have p: "op_ok p" and ps: "\<forall>p\<in>set ps. op_ok p" by simp_all
  from rm_step_spec [OF Cons.prems(1) p Cons.prems(3)] obtain s1 r where
    s1: "rm_step p s = Some (s1, r)" "rm_ok s1" "\<forall>i. i \<noteq> 0 \<longrightarrow> rm_val s1 i = spec_step p r m i"
    by blast
  from Cons.IH [OF s1(2) ps s1(3)] obtain s' rs where
    "rm_run ps s1 = Some (s', rs)" "rm_ok s'" "length rs = length ps"
    "\<forall>i. i \<noteq> 0 \<longrightarrow> rm_val s' i = spec_run (zip ps rs) (spec_step p r m) i" by blast
  with s1 show ?case by (intro exI [of _ s'] exI [of _ "r # rs"]) simp
qed simp

section \<open>Properties\<close>

text \<open>
  C23. In every history of generating and deleting names the table translates each name
  other than 0 as the abstract function does: generated names to the host names given
  last, deleted names and names that were never generated to 0. No access leaves the
  arrays and no old translation comes back.
\<close>

theorem names_history_refines:
  assumes "\<forall>p\<in>set ps. op_ok p"
  shows "\<exists>s rs. rm_run ps empty_map = Some (s, rs) \<and> rm_ok s \<and> length rs = length ps
    \<and> (\<forall>i. i \<noteq> 0 \<longrightarrow> rm_val s i = spec_run (zip ps rs) (\<lambda>_. 0) i)"
  using rm_run_spec [OF rm_ok_empty assms, of "\<lambda>_. 0"] by (simp add: rm_val_def empty_map_def)

theorem names_history_refines_witness:
  "op_ok (Gen [1, 2] [11, 12]) \<and> op_ok (Del [2]) \<and> op_ok (Gen [3] [13])
   \<and> (\<exists>s rs. rm_run [Gen [1, 2] [11, 12], Del [2], Gen [3] [13]] empty_map = Some (s, rs) \<and> rm_ok s
        \<and> length rs = 3 \<and> rm_val s 2 = spec_run (zip [Gen [1, 2] [11, 12], Del [2], Gen [3] [13]] rs) (\<lambda>_. 0) 2)"
proof -
  have ops: "\<forall>p\<in>set [Gen [1, 2] [11, 12], Del [2], Gen [3] [13]]. op_ok p" by simp
  have three: "length [Gen [1, 2] [11, 12], Del [2], Gen [3] [13]] = 3" by simp
  from names_history_refines [OF ops] obtain s rs where
    "rm_run [Gen [1, 2] [11, 12], Del [2], Gen [3] [13]] empty_map = Some (s, rs)" "rm_ok s" "length rs = 3"
    "\<forall>i. i \<noteq> 0 \<longrightarrow> rm_val s i = spec_run (zip [Gen [1, 2] [11, 12], Del [2], Gen [3] [13]] rs) (\<lambda>_. 0) i"
    unfolding three by blast
  with ops show ?thesis by (metis list.set_intros zero_neq_numeral)
qed

text \<open>Of the positive names of a table every 1001st is missing, counted over all of them.\<close>

lemma destroy_loop_names:
  assumes "length pending \<le> 1000"
  shows "concat (destroy_loop vs pending out) =
    concat out @ pending @ map c_uint (nths (filter (\<lambda>v. 0 < v) vs) {i. (i + length pending) mod 1001 \<noteq> 1000})"
  using assms
proof (induction vs pending out rule: destroy_loop.induct)
  case (2 v vs pending out)
  show ?case
  proof (cases "0 < v")
    case False
    with 2 show ?thesis by simp
  next
    case True
    show ?thesis
    proof (cases "length pending < 1000")
      case less: True
      with 2 True show ?thesis by (simp add: nths_Cons)
    next
      case False
      with "2.prems" have p: "length pending = 1000" by simp
      have "{i. (i + 1001) mod 1001 \<noteq> 1000} = {i :: nat. i mod 1001 \<noteq> 1000}" by (simp only: mod_add_self2)
      then have "{j. (Suc j + 1000) mod 1001 \<noteq> 1000} = {i :: nat. i mod 1001 \<noteq> 1000}" by simp
      with 2 True p show ?thesis by (simp add: nths_Cons)
    qed
  qed
qed simp

text \<open>
  C26. When a table is destroyed, OpenGL is told to delete its host names in order, but
  not all of them: of the positive entries of the table exactly those at the positions
  1001, 2002 and so on are left out, since the entry that finds the array of 1000 full is
  not stored. With at most 1000 names all are deleted.
\<close>

theorem destroy_resources_deletes:
  assumes "live = filter (\<lambda>v. 0 < v) (map (\<lambda>i. rm_map s ! i) [1..<rm_max_id s + 1])"
  shows "concat (DESTROY_RESOURCES s) = map c_uint (nths live {i. i mod 1001 \<noteq> 1000})
    \<and> (length live \<le> 1000 \<longrightarrow> concat (DESTROY_RESOURCES s) = map c_uint live)"
proof -
  have all: "concat (DESTROY_RESOURCES s) = map c_uint (nths live {i. i mod 1001 \<noteq> 1000})"
    using destroy_loop_names [of "[]" "map (\<lambda>i. rm_map s ! i) [1..<rm_max_id s + 1]" "[]"]
    by (simp add: DESTROY_RESOURCES_def assms)
  moreover have "nths live {i. i mod 1001 \<noteq> 1000} = live" if "length live \<le> 1000"
    using that by (intro nths_all) auto
  ultimately show ?thesis by auto
qed

definition full_table :: resource_map where
  "full_table = \<lparr>rm_max_id = 1002, rm_map = map int [0..<1003], rm_init = [], rm_gbuf = []\<rparr>"

text \<open>In a table with the names 1 to 1002 the name 1001 is not deleted, 1000 and 1002 are.\<close>

theorem destroy_resources_deletes_witness:
  "1001 \<notin> set (concat (DESTROY_RESOURCES full_table)) \<and> {1000, 1002} \<subseteq> set (concat (DESTROY_RESOURCES full_table))"
proof -
  define live where "live = map int [1..<1003]"
  have names: "map (\<lambda>i. rm_map full_table ! i) [1..<rm_max_id full_table + 1] = live"
    unfolding live_def full_table_def by (intro map_cong) (auto simp del: upt_Suc)
  have pos: "filter (\<lambda>v. 0 < v) live = live" by (auto simp: live_def filter_id_conv simp del: upt_Suc)
  have nth: "live ! i = int i + 1" "length live = 1002" if "i < 1002" for i
    using that by (simp_all add: live_def del: upt_Suc)
  have "concat (DESTROY_RESOURCES full_table) = map c_uint (nths live {i. i mod 1001 \<noteq> 1000})"
    by (rule conjunct1 [OF destroy_resources_deletes]) (unfold names pos, rule refl)
  then have "set (concat (DESTROY_RESOURCES full_table)) = (\<lambda>i. c_uint (live ! i)) ` {i. i < 1002 \<and> i mod 1001 \<noteq> 1000}"
    using nth(2) [of 0] by (simp add: set_nths setcompr_eq_image image_image)
  also have "\<dots> = (\<lambda>i. int i + 1) ` {i. i < 1002 \<and> i mod 1001 \<noteq> 1000}"
    by (intro image_cong) (simp_all add: nth(1))
  finally have set: "set (concat (DESTROY_RESOURCES full_table)) = {int i + 1 | i. i < 1002 \<and> i mod 1001 \<noteq> 1000}"
    by (simp only: setcompr_eq_image)
  have "1001 \<notin> {int i + 1 | i. i < 1002 \<and> i mod 1001 \<noteq> 1000}"
  proof
    assume "1001 \<in> {int i + 1 | i. i < 1002 \<and> i mod 1001 \<noteq> 1000}"
    then obtain i where "1001 = int i + 1" "i mod 1001 \<noteq> 1000" by blast
    then have "i = 1000" by simp
    with \<open>i mod 1001 \<noteq> 1000\<close> show False by simp
  qed
  moreover have "1000 \<in> {int i + 1 | i. i < 1002 \<and> i mod 1001 \<noteq> 1000}" by (rule CollectI, rule exI [of _ 999]) simp
  moreover have "1002 \<in> {int i + 1 | i. i < 1002 \<and> i mod 1001 \<noteq> 1000}" by (rule CollectI, rule exI [of _ 1001]) simp
  ultimately show ?thesis unfolding set by blast
qed

section \<open>Deleting bound objects\<close>

lemma restore_bindings_fold:
  "bs_host (fold (GL_BUFFER_STATUS_RESTORE h) bs st) b = (if b \<in> set bs \<and> bs_host st b = h then 0 else bs_host st b)"
  "bs_guest (fold (GL_BUFFER_STATUS_RESTORE h) bs st) b = (if b \<in> set bs \<and> bs_guest st b = h then 0 else bs_guest st b)"
  "bs_points (fold (GL_BUFFER_STATUS_RESTORE h) bs st) = bs_points st"
  by (induction bs arbitrary: st) (auto simp: GL_BUFFER_STATUS_RESTORE_def)

lemma restore_buffer_simps:
  "bs_host (restore_buffer h st) b = (if b \<in> set restored_bindings \<and> bs_host st b = h then 0 else bs_host st b)"
  "bs_guest (restore_buffer h st) b = (if b \<in> set restored_bindings \<and> bs_guest st b = h then 0 else bs_guest st b)"
  "bs_points (restore_buffer h st) v = map_option (\<lambda>e. if e = h then 0 else e) (bs_points st v)"
  by (simp_all add: restore_buffer_def restore_bindings_fold g_delete_check_vao_ebo_def)

lemma restore_buffers_fold:
  "bs_host (fold restore_buffer hs st) b = (if b \<in> set restored_bindings \<and> bs_host st b \<in> set hs then 0 else bs_host st b)"
  "bs_guest (fold restore_buffer hs st) b = (if b \<in> set restored_bindings \<and> bs_guest st b \<in> set hs then 0 else bs_guest st b)"
  "bs_points (fold restore_buffer hs st) v = map_option (\<lambda>e. if e \<in> set hs then 0 else e) (bs_points st v)"
proof (induction hs arbitrary: st)
  case Nil
  { case 3 show ?case by (cases "bs_points st v") simp_all }
next
  case (Cons h hs)
  { case 1 show ?case by (auto simp: Cons.IH restore_buffer_simps) }
  { case 2 show ?case by (auto simp: Cons.IH restore_buffer_simps) }
  { case 3 show ?case by (cases "bs_points st v") (simp_all add: Cons.IH restore_buffer_simps) }
qed simp_all

text \<open>
  C24. Deleting buffers removes their names from the table and the deleted host buffers
  from every binding point but that for uniform buffers, and from the element array slots
  of all vertex arrays. The guest names of these binding points are reset as well, where
  they equal a deleted host name. All other bindings stay, those of the uniform buffer too.
\<close>

theorem delete_buffers_unbinds:
  assumes "rm_ok (r Buffer)"
  shows "\<exists>r' st' hosts. d_glDeleteBuffers gs (r, st) = Some ((r', st'), hosts)
    \<and> hosts = get_host_resource_ids gs (r Buffer)
    \<and> rm_ok (r' Buffer) \<and> (\<forall>k. k \<noteq> Buffer \<longrightarrow> r' k = r k)
    \<and> (\<forall>i. i \<noteq> 0 \<longrightarrow> rm_val (r' Buffer) i = (if i \<in> set gs then 0 else rm_val (r Buffer) i))
    \<and> (\<forall>b. bs_host st' b = (if b \<noteq> Uniform_buffer \<and> bs_host st b \<in> set hosts then 0 else bs_host st b))
    \<and> (\<forall>b. bs_guest st' b = (if b \<noteq> Uniform_buffer \<and> bs_guest st b \<in> set hosts then 0 else bs_guest st b))
    \<and> (\<forall>v. bs_points st' v = map_option (\<lambda>e. if e \<in> set hosts then 0 else e) (bs_points st v))"
proof -
  from nt.del_val [OF assms, of gs] obtain s where s: "remove_host_map_ids gs (r Buffer) = Some s" "rm_ok s"
    "\<forall>i. i \<noteq> 0 \<longrightarrow> rm_val s i = (if i \<in> set gs then 0 else rm_val (r Buffer) i)" by blast
  have "b \<in> set restored_bindings \<longleftrightarrow> b \<noteq> Uniform_buffer" for b by (cases b) (simp_all add: restored_bindings_def)
  with s show ?thesis by (simp add: d_glDeleteBuffers_def Let_def restore_buffers_fold)
qed

definition demo_names :: resource_map where
  "demo_names = \<lparr>rm_max_id = 2, rm_map = [0, 11, 12, 0, 0], rm_init = [0, 0, 0, 0, 0], rm_gbuf = []\<rparr>"

definition demo_buffer_status :: buffer_status where
  "demo_buffer_status = \<lparr>bs_guest = (\<lambda>_. 2), bs_host = (\<lambda>_. 12), bs_guest_vao = 5, bs_host_vao = 5,
     bs_points = [5 \<mapsto> 12], bs_attrib_point = Some 5\<rparr>"

lemma demo_names_ok: "rm_ok demo_names"
proof -
  have "rm_map demo_names ! i = 0" if "2 < i" "i < 5" for i
  proof -
    from that have "i = 3 \<or> i = 4" by auto
    then show ?thesis by (auto simp: demo_names_def)
  qed
  then show ?thesis by (simp add: rm_ok_def demo_names_def)
qed

theorem delete_buffers_unbinds_witness:
  "rm_ok demo_names
   \<and> (\<exists>r' st' hosts. d_glDeleteBuffers [2] (\<lambda>_. demo_names, demo_buffer_status) = Some ((r', st'), hosts)
        \<and> hosts = [12] \<and> rm_val (r' Buffer) 2 = 0 \<and> bs_host st' Array_buffer = 0 \<and> bs_host st' Texture_buffer = 0
        \<and> bs_host st' Uniform_buffer = 12 \<and> bs_guest st' Array_buffer = 2 \<and> bs_points st' 5 = Some 0)"
proof -
  have "get_host_resource_ids [2] demo_names = [12]"
    by (simp add: get_host_resource_ids_def rm_val_def demo_names_def)
  with delete_buffers_unbinds [of "\<lambda>_. demo_names" "[2]" demo_buffer_status] demo_names_ok
  show ?thesis by (fastforce simp: demo_buffer_status_def)
qed

text \<open>
  The binding point for uniform buffers is not among those that are reset: a deleted
  buffer stays there.
\<close>

lemma uniform_binding_stays: "bs_host (fold restore_buffer hs st) Uniform_buffer = bs_host st Uniform_buffer"
  by (simp add: restore_buffers_fold restored_bindings_def)

definition point_valid :: "int \<Rightarrow> buffer_status \<Rightarrow> bool" where
  "point_valid vao0 st \<longleftrightarrow> bs_points st vao0 \<noteq> None
     \<and> (\<exists>v. bs_attrib_point st = Some v \<and> bs_points st v \<noteq> None)"

lemma delete_vao_loop_valid:
  assumes "point_valid vao0 st" "\<forall>a\<in>set as. a \<noteq> 0 \<longrightarrow> c_uint (get_host_array_id a r) \<noteq> vao0"
  shows "\<exists>st'. delete_vao_loop vao0 as r st = Some st' \<and> point_valid vao0 st'"
  using assms
proof (induction "as" arbitrary: st)
  case (Cons a "as")
  define v where "v = c_uint (get_host_array_id a r)"
  show ?case
  proof (cases "v = 0 \<or> a = 0")
    case True
    with Cons show ?thesis by (simp add: v_def [symmetric])
  next
    case False
    with Cons.prems(2) have "v \<noteq> vao0" by (simp add: v_def)
    from Cons.prems(1) obtain cur ebo where cur: "bs_attrib_point st = Some cur" "bs_points st cur \<noteq> None"
      and ebo: "bs_points st vao0 = Some ebo" by (auto simp: point_valid_def)
    define st1 where "st1 = (if cur = v then st\<lparr>bs_attrib_point := Some vao0, bs_host_vao := vao0, bs_guest_vao := vao0,
        bs_host := (bs_host st)(Vao_ebo := ebo), bs_guest := (bs_guest st)(Vao_ebo := ebo)\<rparr> else st)"
    have "point_valid vao0 (st1\<lparr>bs_points := (bs_points st1)(v := None)\<rparr>)"
      using cur ebo \<open>v \<noteq> vao0\<close> by (auto simp: point_valid_def st1_def)
    moreover have "delete_vao_loop vao0 (a # as) r st =
        delete_vao_loop vao0 as r (st1\<lparr>bs_points := (bs_points st1)(v := None)\<rparr>)"
      using False cur ebo by (auto simp: v_def [symmetric] find_point_def st1_def Let_def)
    ultimately show ?thesis using Cons.IH Cons.prems(2) by simp
  qed
qed simp

text \<open>
  C25. Deleting vertex arrays never leaves the context with a dangling attribute point:
  the current one exists afterwards, the default one still exists, and the call does
  not fault.
\<close>

theorem delete_vertex_arrays_valid:
  assumes "rm_ok (r Vertex_array)" "point_valid vao0 st"
    and "\<forall>a\<in>set gs. a \<noteq> 0 \<longrightarrow> c_uint (get_host_array_id a r) \<noteq> vao0"
  shows "\<exists>r' st' hosts. d_glDeleteVertexArrays vao0 gs (r, st) = Some ((r', st'), hosts)
    \<and> point_valid vao0 st' \<and> rm_ok (r' Vertex_array)"
proof -
  from nt.del_val [OF assms(1), of gs] obtain s where "remove_host_map_ids gs (r Vertex_array) = Some s" "rm_ok s" by blast
  moreover from delete_vao_loop_valid [OF assms(2,3)] obtain st' where
    "delete_vao_loop vao0 gs r st = Some st'" "point_valid vao0 st'" by blast
  ultimately show ?thesis by (simp add: d_glDeleteVertexArrays_def)
qed

theorem delete_vertex_arrays_valid_witness:
  "rm_ok demo_names \<and> point_valid 5 demo_buffer_status
   \<and> (\<exists>r' st' hosts. d_glDeleteVertexArrays 5 [1] (\<lambda>_. demo_names, demo_buffer_status) = Some ((r', st'), hosts)
        \<and> point_valid 5 st' \<and> rm_ok (r' Vertex_array))"
proof -
  have v: "point_valid 5 demo_buffer_status" by (simp add: point_valid_def demo_buffer_status_def)
  have g: "\<forall>a\<in>set [1]. a \<noteq> 0 \<longrightarrow> c_uint (get_host_array_id a (\<lambda>_. demo_names)) \<noteq> 5"
    by (simp add: get_host_array_id_def get_host_resource_id_def rm_val_def demo_names_def)
  from delete_vertex_arrays_valid [of "\<lambda>_. demo_names", OF demo_names_ok v g] demo_names_ok v show ?thesis by blast
qed

end
