(* ===== verification/Express_Log.thy ===== *)
theory Express_Log
  imports Call_Packing
begin

text \<open>
  The log device, after \<^verbatim>\<open>hw/teleport-express/express_log.c\<close>: the buffer management of
  \<^verbatim>\<open>call_printf\<close> and \<^verbatim>\<open>call_printf_flush\<close>, and the table-driven checksum \<^verbatim>\<open>updateCRC32\<close>. The
  formatted header of a log line and the clock are arguments; the log file is the list of
  the written blocks.
\<close>

section \<open>The log buffer\<close>

definition LOG_FILE_SIZE :: int where
  "LOG_FILE_SIZE = 8 * 1024 * 1024"

record log_state =
  lg_buf :: "byte list"
  lg_loc :: int
  lg_t_last :: int
  lg_file :: "byte list list"
  lg_test_buf :: "byte list option"
  lg_test_len :: int

text \<open>
  \<^verbatim>\<open>call_printf_flush\<close>: \<open>opened\<close> says whether the log file could be opened.
\<close>

definition call_printf_flush :: "bool \<Rightarrow> log_state \<Rightarrow> log_state option" where
  "call_printf_flush opened s =
     (if \<not> opened then Some s
      else
        (case buf_write (lg_buf s) (lg_loc s) [10, 10] of
           None \<Rightarrow> None
         | Some b \<Rightarrow>
             Some (s\<lparr>lg_buf := b, lg_loc := 0, lg_file := lg_file s @ [take (nat (lg_loc s + 2)) b]\<rparr>)))"

text \<open>
  Function 1 of \<^verbatim>\<open>call_printf\<close>. \<open>header\<close> is the text produced by \<^verbatim>\<open>snprintf\<close>, which also
  stores a zero byte behind it and is cut off at the end of the buffer, while its return
  value is the full length.
\<close>

definition log_header :: "byte list \<Rightarrow> log_state \<Rightarrow> log_state option" where
  "log_header header s =
     (let room = LOG_FILE_SIZE - lg_loc s;
          text = take (nat (room - 1)) header @ [0] in
      if room \<le> 0 then None
      else map_option (\<lambda>b. s\<lparr>lg_buf := b, lg_loc := lg_loc s + int (length header)\<rparr>)
             (buf_write (lg_buf s) (lg_loc s) text))"

definition log_append :: "store \<Rightarrow> bool \<Rightarrow> int \<Rightarrow> byte list \<Rightarrow> call_para \<Rightarrow> log_state \<Rightarrow> log_state option" where
  "log_append m opened t_int header para s =
     (if cp_len para < LOG_FILE_SIZE - 256 then
        (case (if cp_len para + lg_loc s > LOG_FILE_SIZE - 256 \<or> t_int - lg_t_last s > 1000000
               then map_option (\<lambda>s'. s'\<lparr>lg_loc := 0, lg_t_last := t_int\<rparr>) (call_printf_flush opened s)
               else Some s) of
           None \<Rightarrow> None
         | Some s1 \<Rightarrow>
             (case log_header header s1 of
                None \<Rightarrow> None
              | Some s2 \<Rightarrow>
                  (case read_from_guest_mem m (Some (cp_data para)) (Some (drop (nat (lg_loc s2)) (lg_buf s2))) 0
                          (cp_len para) of
                     Some (Some tail) \<Rightarrow>
                       Some (s2\<lparr>lg_buf := take (nat (lg_loc s2)) (lg_buf s2) @ tail,
                                lg_loc := lg_loc s2 + cp_len para\<rparr>)
                   | _ \<Rightarrow> None)))
      else Some s)"

text \<open>
  Function 2, the copy test: \<open>malloc\<close> is the content of fresh memory of a size. The length
  of the test buffer is kept in an \<^verbatim>\<open>int\<close> and compared as a \<^verbatim>\<open>size_t\<close>.
\<close>

definition copy_test :: "store \<Rightarrow> (int \<Rightarrow> byte list) \<Rightarrow> call_para \<Rightarrow> log_state \<Rightarrow> log_state option" where
  "copy_test m malloc para s =
     (let s1 = (if cp_len para > c_size (lg_test_len s)
                then s\<lparr>lg_test_buf := Some (malloc (cp_len para)), lg_test_len := c_int (cp_len para)\<rparr> else s) in
      map_option (\<lambda>b. s1\<lparr>lg_test_buf := b\<rparr>)
        (read_from_guest_mem m (Some (cp_data para)) (lg_test_buf s1) 0 (cp_len para)))"

definition call_printf ::
  "store \<Rightarrow> (int \<Rightarrow> byte list) \<Rightarrow> bool \<Rightarrow> int \<Rightarrow> byte list \<Rightarrow> express_call \<Rightarrow> log_state \<Rightarrow> (log_state \<times> express_call \<times> int) option" where
  "call_printf m malloc opened t_int header call s =
     (case get_para_from_call t_int call 1 of
        None \<Rightarrow> None
      | Some (n, ps, call') \<Rightarrow>
          (if n \<noteq> 1 then Some (s, call', 0)
           else if GET_FUN_ID (ec_id call) = 1 then
             map_option (\<lambda>s'. (s', call', 1)) (log_append m opened t_int header (ps ! 0) s)
           else if GET_FUN_ID (ec_id call) = 2 then
             map_option (\<lambda>s'. (s', call', 1)) (copy_test m malloc (ps ! 0) s)
           else Some (s, call', 1)))"

definition log_inv :: "log_state \<Rightarrow> bool" where
  "log_inv s \<longleftrightarrow> int (length (lg_buf s)) = LOG_FILE_SIZE \<and> 0 \<le> lg_loc s \<and> lg_loc s + 2 \<le> LOG_FILE_SIZE"

definition test_inv :: "log_state \<Rightarrow> bool" where
  "test_inv s \<longleftrightarrow> 0 \<le> lg_test_len s \<and> lg_test_len s < 2 ^ 31
     \<and> (case lg_test_buf s of None \<Rightarrow> lg_test_len s = 0 | Some b \<Rightarrow> int (length b) = lg_test_len s)"

section \<open>The checksum\<close>

definition crc_32_tab :: "32 word list" where
  "crc_32_tab =
     [0x00000000, 0x77073096, 0xee0e612c, 0x990951ba, 0x076dc419, 0x706af48f, 0xe963a535, 0x9e6495a3,
      0x0edb8832, 0x79dcb8a4, 0xe0d5e91e, 0x97d2d988, 0x09b64c2b, 0x7eb17cbd, 0xe7b82d07, 0x90bf1d91,
      0x1db71064, 0x6ab020f2, 0xf3b97148, 0x84be41de, 0x1adad47d, 0x6ddde4eb, 0xf4d4b551, 0x83d385c7,
      0x136c9856, 0x646ba8c0, 0xfd62f97a, 0x8a65c9ec, 0x14015c4f, 0x63066cd9, 0xfa0f3d63, 0x8d080df5,
      0x3b6e20c8, 0x4c69105e, 0xd56041e4, 0xa2677172, 0x3c03e4d1, 0x4b04d447, 0xd20d85fd, 0xa50ab56b,
      0x35b5a8fa, 0x42b2986c, 0xdbbbc9d6, 0xacbcf940, 0x32d86ce3, 0x45df5c75, 0xdcd60dcf, 0xabd13d59,
      0x26d930ac, 0x51de003a, 0xc8d75180, 0xbfd06116, 0x21b4f4b5, 0x56b3c423, 0xcfba9599, 0xb8bda50f,
      0x2802b89e, 0x5f058808, 0xc60cd9b2, 0xb10be924, 0x2f6f7c87, 0x58684c11, 0xc1611dab, 0xb6662d3d,
      0x76dc4190, 0x01db7106, 0x98d220bc, 0xefd5102a, 0x71b18589, 0x06b6b51f, 0x9fbfe4a5, 0xe8b8d433,
      0x7807c9a2, 0x0f00f934, 0x9609a88e, 0xe10e9818, 0x7f6a0dbb, 0x086d3d2d, 0x91646c97, 0xe6635c01,
      0x6b6b51f4, 0x1c6c6162, 0x856530d8, 0xf262004e, 0x6c0695ed, 0x1b01a57b, 0x8208f4c1, 0xf50fc457,
      0x65b0d9c6, 0x12b7e950, 0x8bbeb8ea, 0xfcb9887c, 0x62dd1ddf, 0x15da2d49, 0x8cd37cf3, 0xfbd44c65,
      0x4db26158, 0x3ab551ce, 0xa3bc0074, 0xd4bb30e2, 0x4adfa541, 0x3dd895d7, 0xa4d1c46d, 0xd3d6f4fb,
      0x4369e96a, 0x346ed9fc, 0xad678846, 0xda60b8d0, 0x44042d73, 0x33031de5, 0xaa0a4c5f, 0xdd0d7cc9,
      0x5005713c, 0x270241aa, 0xbe0b1010, 0xc90c2086, 0x5768b525, 0x206f85b3, 0xb966d409, 0xce61e49f,
      0x5edef90e, 0x29d9c998, 0xb0d09822, 0xc7d7a8b4, 0x59b33d17, 0x2eb40d81, 0xb7bd5c3b, 0xc0ba6cad,
      0xedb88320, 0x9abfb3b6, 0x03b6e20c, 0x74b1d29a, 0xead54739, 0x9dd277af, 0x04db2615, 0x73dc1683,
      0xe3630b12, 0x94643b84, 0x0d6d6a3e, 0x7a6a5aa8, 0xe40ecf0b, 0x9309ff9d, 0x0a00ae27, 0x7d079eb1,
      0xf00f9344, 0x8708a3d2, 0x1e01f268, 0x6906c2fe, 0xf762575d, 0x806567cb, 0x196c3671, 0x6e6b06e7,
      0xfed41b76, 0x89d32be0, 0x10da7a5a, 0x67dd4acc, 0xf9b9df6f, 0x8ebeeff9, 0x17b7be43, 0x60b08ed5,
      0xd6d6a3e8, 0xa1d1937e, 0x38d8c2c4, 0x4fdff252, 0xd1bb67f1, 0xa6bc5767, 0x3fb506dd, 0x48b2364b,
      0xd80d2bda, 0xaf0a1b4c, 0x36034af6, 0x41047a60, 0xdf60efc3, 0xa867df55, 0x316e8eef, 0x4669be79,
      0xcb61b38c, 0xbc66831a, 0x256fd2a0, 0x5268e236, 0xcc0c7795, 0xbb0b4703, 0x220216b9, 0x5505262f,
      0xc5ba3bbe, 0xb2bd0b28, 0x2bb45a92, 0x5cb36a04, 0xc2d7ffa7, 0xb5d0cf31, 0x2cd99e8b, 0x5bdeae1d,
      0x9b64c2b0, 0xec63f226, 0x756aa39c, 0x026d930a, 0x9c0906a9, 0xeb0e363f, 0x72076785, 0x05005713,
      0x95bf4a82, 0xe2b87a14, 0x7bb12bae, 0x0cb61b38, 0x92d28e9b, 0xe5d5be0d, 0x7cdcefb7, 0x0bdbdf21,
      0x86d3d2d4, 0xf1d4e242, 0x68ddb3f8, 0x1fda836e, 0x81be16cd, 0xf6b9265b, 0x6fb077e1, 0x18b74777,
      0x88085ae6, 0xff0f6a70, 0x66063bca, 0x11010b5c, 0x8f659eff, 0xf862ae69, 0x616bffd3, 0x166ccf45,
      0xa00ae278, 0xd70dd2ee, 0x4e048354, 0x3903b3c2, 0xa7672661, 0xd06016f7, 0x4969474d, 0x3e6e77db,
      0xaed16a4a, 0xd9d65adc, 0x40df0b66, 0x37d83bf0, 0xa9bcae53, 0xdebb9ec5, 0x47b2cf7f, 0x30b5ffe9,
      0xbdbdf21c, 0xcabac28a, 0x53b39330, 0x24b4a3a6, 0xbad03605, 0xcdd70693, 0x54de5729, 0x23d967bf,
      0xb3667a2e, 0xc4614ab8, 0x5d681b02, 0x2a6f2b94, 0xb40bbe37, 0xc30c8ea1, 0x5a05df1b, 0x2d02ef8d]"

definition updateCRC32 :: "8 word \<Rightarrow> 32 word \<Rightarrow> 32 word" where
  "updateCRC32 ch crc = crc_32_tab ! unat ((crc XOR ucast ch) AND 0xff) XOR drop_bit 8 crc"

text \<open>The reference: one step of the reflected polynomial division per bit.\<close>

definition crc_bit :: "32 word \<Rightarrow> 32 word" where
  "crc_bit x = (if bit x 0 then drop_bit 1 x XOR 0xedb88320 else drop_bit 1 x)"

fun crc_bits :: "nat \<Rightarrow> 32 word \<Rightarrow> 32 word" where
  "crc_bits 0 x = x"
| "crc_bits (Suc n) x = crc_bits n (crc_bit x)"

fun crc_rows :: "32 word \<Rightarrow> 32 word list \<Rightarrow> bool" where
  "crc_rows n [] = True"
| "crc_rows n (t # ts) = (crc_bits 8 n = t \<and> crc_rows (n + 1) ts)"

lemma crc_bits_8:
  "crc_bits 8 x = crc_bit (crc_bit (crc_bit (crc_bit (crc_bit (crc_bit (crc_bit (crc_bit x)))))))"
  by (simp add: eval_nat_numeral)

lemma crc_table_rows: "crc_rows 0 crc_32_tab"
  unfolding crc_32_tab_def by (simp add: crc_bits_8 crc_bit_def)

lemma crc_rows_nth: "crc_rows n ts \<Longrightarrow> i < length ts \<Longrightarrow> ts ! i = crc_bits 8 (n + of_nat i)"
proof (induction ts arbitrary: n i)
  case (Cons t ts)
  then show ?case by (cases i) (auto simp: ac_simps)
qed simp

lemma length_crc_32_tab: "length crc_32_tab = 256"
  by (simp add: crc_32_tab_def)

lemma crc_bit_xor: "crc_bit (x XOR y) = crc_bit x XOR crc_bit y"
  by (auto simp: crc_bit_def bit_xor_iff drop_bit_xor ac_simps simp flip: xor.assoc)

lemma crc_bits_xor: "crc_bits n (x XOR y) = crc_bits n x XOR crc_bits n y"
  by (induction n arbitrary: x y) (simp_all add: crc_bit_xor)

lemma crc_bits_high:
  "(\<And>k. k < n \<Longrightarrow> \<not> bit x k) \<Longrightarrow> crc_bits n x = drop_bit n x"
proof (induction n arbitrary: x)
  case (Suc n)
  have "crc_bit x = drop_bit 1 x" using Suc.prems [of 0] by (simp add: crc_bit_def)
  moreover have "\<not> bit (drop_bit 1 x) k" if "k < n" for k
    using Suc.prems [of "Suc k"] that by (simp add: bit_drop_bit_eq)
  ultimately show ?case using Suc.IH [of "drop_bit 1 x"] by simp
qed simp

text \<open>The table look-up is eight steps of the bitwise division at once.\<close>

lemma updateCRC32_bits: "updateCRC32 ch crc = crc_bits 8 (crc XOR ucast ch)"
proof -
  let ?x = "crc XOR ucast ch" and ?lo = "(crc XOR ucast ch) AND 0xff"
  define hi where "hi = push_bit 8 (drop_bit 8 crc)"
  have lo: "?lo = take_bit 8 ?x" by (simp add: take_bit_eq_mask mask_numeral)
  have "?x = take_bit 8 ?x XOR hi"
    by (rule bit_eqI) (auto simp: hi_def bit_simps dest: bit_imp_le_length)
  then have "crc_bits 8 ?x = crc_bits 8 (take_bit 8 ?x) XOR crc_bits 8 hi"
    by (metis crc_bits_xor)
  moreover have "crc_bits 8 hi = drop_bit 8 crc"
  proof -
    have "crc_bits 8 hi = drop_bit 8 hi"
      by (rule crc_bits_high) (simp add: hi_def bit_push_bit_iff)
    also have "\<dots> = drop_bit 8 crc"
      by (rule bit_eqI) (auto simp: hi_def bit_simps dest: bit_imp_le_length)
    finally show ?thesis .
  qed
  moreover have "crc_32_tab ! unat (take_bit 8 ?x) = crc_bits 8 (take_bit 8 ?x)"
  proof -
    have "unat (take_bit 8 ?x) < 256"
      unfolding unsigned_take_bit_eq using take_bit_nat_less_exp [of 8 "unat ?x"] by simp
    then show ?thesis
      using crc_rows_nth [OF crc_table_rows, of "unat (take_bit 8 ?x)"] by (simp add: length_crc_32_tab)
  qed
  ultimately show ?thesis by (simp add: updateCRC32_def lo)
qed

section \<open>Bounds of the log buffer\<close>

lemma flush_inv:
  assumes "log_inv s" "call_printf_flush opened s = Some s'"
  shows "int (length (lg_buf s')) = LOG_FILE_SIZE"
  using assms length_buf_write
  by (fastforce simp: call_printf_flush_def log_inv_def split: if_splits option.splits)

lemma flush_returns:
  assumes "log_inv s"
  shows "\<exists>s'. call_printf_flush opened s = Some s'"
  using assms by (auto simp: call_printf_flush_def log_inv_def buf_write_def)

lemma log_header_inv:
  assumes "int (length (lg_buf s)) = LOG_FILE_SIZE" "0 \<le> lg_loc s" "lg_loc s + int (length header) < LOG_FILE_SIZE"
  shows "\<exists>s'. log_header header s = Some s' \<and> length (lg_buf s') = length (lg_buf s) \<and>
    lg_loc s' = lg_loc s + int (length header)"
proof -
  let ?text = "take (nat (LOG_FILE_SIZE - lg_loc s - 1)) header @ [0]"
  have "int (length ?text) \<le> LOG_FILE_SIZE - lg_loc s" using assms by simp
  then obtain b where "buf_write (lg_buf s) (lg_loc s) ?text = Some b"
    using assms(1,2) by (auto simp: buf_write_def)
  with assms(3) length_buf_write [OF this] show ?thesis
    by (simp add: log_header_def Let_def)
qed

lemma log_append_inv:
  assumes "log_inv s" "length header < 255"
    and "gm_wf (cp_data para)" "cp_len para = gm_all_len (cp_data para)"
  shows "\<exists>s'. log_append m opened t_int header para s = Some s' \<and> log_inv s'"
proof (cases "cp_len para < LOG_FILE_SIZE - 256")
  case False
  with assms(1) show ?thesis by (simp add: log_append_def)
next
  case True
  have len: "0 \<le> cp_len para"
    using assms(3,4) sg_len_nonneg by (simp add: gm_wf_def)
  define first where "first = (if cp_len para + lg_loc s > LOG_FILE_SIZE - 256 \<or> t_int - lg_t_last s > 1000000
      then map_option (\<lambda>s'. s'\<lparr>lg_loc := 0, lg_t_last := t_int\<rparr>) (call_printf_flush opened s) else Some s)"
  obtain s1 where s1: "first = Some s1" "int (length (lg_buf s1)) = LOG_FILE_SIZE" "0 \<le> lg_loc s1"
      "cp_len para + lg_loc s1 \<le> LOG_FILE_SIZE - 256"
    using assms(1) True flush_returns [OF assms(1), of opened] flush_inv [OF assms(1), of opened]
    by (cases "cp_len para + lg_loc s > LOG_FILE_SIZE - 256 \<or> t_int - lg_t_last s > 1000000")
      (auto simp: first_def log_inv_def)
  obtain s2 where s2: "log_header header s1 = Some s2" "length (lg_buf s2) = length (lg_buf s1)"
      "lg_loc s2 = lg_loc s1 + int (length header)"
    using log_header_inv [OF s1(2,3), of header] s1(4) assms(2) len by auto
  let ?tail = "drop (nat (lg_loc s2)) (lg_buf s2)"
  have room: "cp_len para \<le> int (length ?tail)"
    using s1 s2 assms(2) by (simp add: nat_le_iff)
  have rd: "read_from_guest_mem m (Some (cp_data para)) (Some ?tail) 0 (cp_len para) =
      Some (Some (take (nat (cp_len para)) (gm_bytes m (cp_data para)) @ drop (nat (cp_len para)) ?tail))"
    using read_eq [OF assms(3), of 0 "cp_len para" ?tail m] room len assms(4) by simp
  have "length (take (nat (cp_len para)) (gm_bytes m (cp_data para))) = nat (cp_len para)"
    using length_gm_bytes [OF assms(3), of m] assms(4) by simp
  with True s1 s2 rd len room assms(2) show ?thesis
    by (simp add: log_append_def first_def [symmetric] log_inv_def)
qed

lemma log_append_frame:
  "log_append m opened t_int header para s = Some s' \<Longrightarrow>
     lg_test_buf s' = lg_test_buf s \<and> lg_test_len s' = lg_test_len s"
  by (auto simp: log_append_def log_header_def call_printf_flush_def Let_def split: if_splits option.splits)

lemma copy_test_inv:
  assumes "test_inv s" "gm_wf (cp_data para)" "cp_len para = gm_all_len (cp_data para)"
    and "\<And>k. 0 \<le> k \<Longrightarrow> int (length (malloc k)) = k"
  shows "\<exists>s'. copy_test m malloc para s = Some s' \<and> test_inv s' \<and> lg_buf s' = lg_buf s \<and> lg_loc s' = lg_loc s"
proof -
  have len: "0 \<le> cp_len para" "cp_len para < 2 ^ 31"
    using assms(2,3) sg_len_nonneg by (simp_all add: gm_wf_def)
  define s1 where "s1 = (if cp_len para > c_size (lg_test_len s)
      then s\<lparr>lg_test_buf := Some (malloc (cp_len para)), lg_test_len := c_int (cp_len para)\<rparr> else s)"
  have inv: "test_inv s1" and room: "cp_len para \<le> lg_test_len s1"
    using assms(1) len assms(4) [OF len(1)] by (auto simp: s1_def test_inv_def)
  have frame: "lg_buf s1 = lg_buf s" "lg_loc s1 = lg_loc s" by (simp_all add: s1_def)
  have run: "copy_test m malloc para s = map_option (\<lambda>b. s1\<lparr>lg_test_buf := b\<rparr>)
      (read_from_guest_mem m (Some (cp_data para)) (lg_test_buf s1) 0 (cp_len para))"
    by (simp add: copy_test_def Let_def s1_def)
  show ?thesis
  proof (cases "lg_test_buf s1")
    case None
    with inv room len have "cp_len para = 0" by (simp add: test_inv_def)
    with inv None frame show ?thesis
      by (simp add: run read_from_guest_mem_def test_inv_def)
  next
    case (Some b)
    with inv room have "cp_len para \<le> int (length b)" by (simp add: test_inv_def)
    from read_eq [OF assms(2), of 0 "cp_len para" b m] this len assms(3)
    have "read_from_guest_mem m (Some (cp_data para)) (Some b) 0 (cp_len para) =
        Some (Some (take (nat (cp_len para)) (gm_bytes m (cp_data para)) @ drop (nat (cp_len para)) b))" by simp
    moreover have "length (take (nat (cp_len para)) (gm_bytes m (cp_data para))) = nat (cp_len para)"
      using length_gm_bytes [OF assms(2), of m] assms(3) by simp
    ultimately show ?thesis using inv Some frame \<open>cp_len para \<le> int (length b)\<close> len
      by (simp add: run test_inv_def) arith
  qed
qed

section \<open>Properties\<close>

text \<open>
  C16. The table-driven checksum of any message is the bitwise polynomial division with
  the reflected polynomial 0xedb88320.
\<close>

theorem crc32_table_equals_bitwise:
  "fold updateCRC32 msg crc = fold (\<lambda>ch c. crc_bits 8 (c XOR ucast ch)) msg crc"
  by (rule fold_cong) (auto simp: updateCRC32_bits fun_eq_iff)

text \<open>
  C19. However the log calls of the guest are sized, a log call whose line header stays
  below 255 bytes is completed: it never touches memory outside of the 8 MB buffer or of
  the buffer of the copy test, and leaves room for the two line ends of the next flush.
\<close>

theorem call_printf_in_bounds:
  assumes "log_inv s" "test_inv s" "length header < 255"
    and "get_para_from_call t_int call 1 = Some (n, ps, call')"
    and "n = 1 \<Longrightarrow> gm_wf (cp_data (ps ! 0)) \<and> cp_len (ps ! 0) = gm_all_len (cp_data (ps ! 0))"
    and "\<And>k. 0 \<le> k \<Longrightarrow> int (length (malloc k)) = k"
  shows "\<exists>s' notify. call_printf m malloc opened t_int header call s = Some (s', call', notify)
    \<and> log_inv s' \<and> test_inv s'"
proof (cases "n = 1")
  case True
  with assms(5) have para: "gm_wf (cp_data (ps ! 0))" "cp_len (ps ! 0) = gm_all_len (cp_data (ps ! 0))" by simp_all
  obtain s1 where "log_append m opened t_int header (ps ! 0) s = Some s1" "log_inv s1" "test_inv s1"
    using log_append_inv [OF assms(1,3) para, of m opened t_int] log_append_frame assms(2) unfolding test_inv_def by metis
  moreover obtain s2 where "copy_test m malloc (ps ! 0) s = Some s2" "log_inv s2" "test_inv s2"
    using copy_test_inv [where m = m and malloc = malloc, OF assms(2) para assms(6)] assms(1) by (auto simp: log_inv_def)
  ultimately show ?thesis using assms(1,2,4) by (simp add: call_printf_def)
next
  case False
  with assms(1,2,4) show ?thesis by (simp add: call_printf_def)
qed

definition log_demo :: log_state where
  "log_demo = \<lparr>lg_buf = replicate 8388608 0, lg_loc = 8388600, lg_t_last = 0, lg_file = [],
     lg_test_buf = None, lg_test_len = 0\<rparr>"

definition log_demo_call :: express_call where
  "log_demo_call = demo_call\<lparr>ec_id := 1, ec_para_num := 1,
     ec_elems := [filled 0 0 pack_demo_header,
       \<lparr>qe_index = 1, qe_out = [], qe_in = [], qe_para = Some (4, demo_mem), qe_len = 5\<rparr>]\<rparr>"

theorem call_printf_in_bounds_witness:
  "log_inv log_demo \<and> test_inv log_demo
   \<and> (\<exists>s' notify. call_printf demo_store (\<lambda>k. replicate (nat k) 0) True 5 [35, 58] log_demo_call log_demo =
        Some (s', log_demo_call\<lparr>ec_spend_time := 5\<rparr>, notify) \<and> log_inv s' \<and> test_inv s')"
proof -
  have inv: "log_inv log_demo" "test_inv log_demo"
    by (simp_all add: log_inv_def test_inv_def log_demo_def LOG_FILE_SIZE_def)
  have para: "get_para_from_call 5 log_demo_call 1 =
      Some (1, [\<lparr>cp_data = demo_mem, cp_len = 5\<rparr>], log_demo_call\<lparr>ec_spend_time := 5\<rparr>)"
    by (simp add: get_para_from_call_def log_demo_call_def)
  have "\<exists>s' notify. call_printf demo_store (\<lambda>k. replicate (nat k) 0) True 5 [35, 58] log_demo_call log_demo =
      Some (s', log_demo_call\<lparr>ec_spend_time := 5\<rparr>, notify) \<and> log_inv s' \<and> test_inv s'"
    by (rule call_printf_in_bounds [OF inv _ para]) (simp_all add: demo_mem_wf)
  with inv show ?thesis by blast
qed

end
