(* ===== verification/Express_Event.thy ===== *)
theory Express_Event
  imports Vsoc_Prelude
begin

text \<open>
  Events between host threads, after \<^verbatim>\<open>hw/teleport-express/express_event.c\<close> (the POSIX side).
  The mutex makes each operation atomic except for the waits on the condition variable;
  a wait is the list of what \<^verbatim>\<open>pthread_cond_timedwait\<close> returned each time, with the signal
  state found afterwards.
\<close>

record posix_event =
  ev_signal_state :: bool
  ev_manual_reset :: bool

definition create_event :: "bool \<Rightarrow> bool \<Rightarrow> posix_event" where
  "create_event manual_reset initial_state = \<lparr>ev_signal_state = initial_state, ev_manual_reset = manual_reset\<rparr>"

definition set_event :: "posix_event \<Rightarrow> posix_event \<times> int" where
  "set_event e = (e\<lparr>ev_signal_state := True\<rparr>, 0)"

definition reset_event :: "posix_event \<Rightarrow> posix_event \<times> int" where
  "reset_event e = (e\<lparr>ev_signal_state := False\<rparr>, 0)"

text \<open>The absolute deadline, as \<^verbatim>\<open>tv_sec\<close> and \<^verbatim>\<open>tv_nsec\<close>.\<close>

definition wait_deadline :: "int \<Rightarrow> int \<Rightarrow> int \<Rightarrow> int \<times> int" where
  "wait_deadline tv_sec tv_usec milliseconds =
     (tv_sec + milliseconds div 1000, tv_usec * 1000 + (milliseconds mod 1000) * 1000000)"

datatype wait_outcome = Woken bool | Timed_out bool | Wait_failed

text \<open>\<open>None\<close>: still blocked when the list of outcomes ends.\<close>

fun wait_event :: "posix_event \<Rightarrow> wait_outcome list \<Rightarrow> (posix_event \<times> int) option" where
  "wait_event e outcomes =
     (if ev_signal_state e then Some (if ev_manual_reset e then e else e\<lparr>ev_signal_state := False\<rparr>, 0)
      else
        (case outcomes of
           [] \<Rightarrow> None
         | Woken sig # rest \<Rightarrow> wait_event (e\<lparr>ev_signal_state := sig\<rparr>) rest
         | Timed_out sig # rest \<Rightarrow> Some (e\<lparr>ev_signal_state := sig\<rparr>, 0)
         | Wait_failed # rest \<Rightarrow> Some (e, - 1)))"

declare wait_event.simps [simp del]

lemma wait_event_signalled:
  "wait_event (fst (set_event e)) ws =
     Some (if ev_manual_reset e then fst (set_event e) else e\<lparr>ev_signal_state := False\<rparr>, 0)"
  by (simp add: wait_event.simps [of _ ws] set_event_def)

text \<open>
  A signal set once wakes one waiter of an automatic event: spurious wake-ups do not end
  the wait, the wake-up that finds the signal consumes it, and the next wait blocks.
\<close>

lemma wait_event_spurious:
  "\<not> ev_signal_state e \<Longrightarrow>
     wait_event e (replicate n (Woken False) @ ws) = wait_event e ws"
proof (induction n)
  case (Suc n)
  have eq: "e\<lparr>ev_signal_state := False\<rparr> = e" using Suc.prems by (cases e) simp
  show ?case using Suc by (simp add: wait_event.simps [of e "Woken False # _"] eq)
qed simp

lemma wait_event_consumes:
  assumes "\<not> ev_manual_reset e" "\<not> ev_signal_state e"
  shows "wait_event e (replicate n (Woken False) @ Woken True # ws) = Some (e, 0)"
    and "wait_event e [] = None"
proof -
  have eq: "e\<lparr>ev_signal_state := False\<rparr> = e" using assms(2) by (cases e) simp
  show "wait_event e (replicate n (Woken False) @ Woken True # ws) = Some (e, 0)"
    unfolding wait_event_spurious [OF assms(2)]
    using assms by (simp add: wait_event.simps [of e "Woken True # ws"] wait_event.simps [of _ ws] eq)
  show "wait_event e [] = None" using assms by (simp add: wait_event.simps)
qed

text \<open>A wait that runs into its deadline returns 0, as a successful one does.\<close>

lemma wait_event_timeout_returns_zero:
  "\<not> ev_signal_state e \<Longrightarrow> wait_event e (Timed_out False # ws) = Some (e, 0)"
  by (simp add: wait_event.simps)

text \<open>
  The deadline is a valid \<^verbatim>\<open>timespec\<close> (less than a second of nanoseconds) only in the first
  part of each second; \<^verbatim>\<open>wait_event\<close> fails in the rest of it.
\<close>

lemma wait_deadline_valid:
  assumes "0 \<le> milliseconds"
  shows "snd (wait_deadline sec usec milliseconds) < 1000000000 \<longleftrightarrow> usec < 1000000 - (milliseconds mod 1000) * 1000"
  by (auto simp: wait_deadline_def)

end
