(* ===== verification/C_String.thy ===== *)
theory C_String
  imports Vsoc_Prelude
begin

text \<open>
  Character strings of the modem. A C string is the HOL string of its characters before
  the terminating zero; a character array of a known size is a HOL string of that length
  whose contents may include zeros. The functions of the C library that the modem uses
  are given by what the standard says of them: copying into arrays, searching, decimal
  and hexadecimal output, and \<^verbatim>\<open>strtol\<close> with the rest of the string as its end pointer.
\<close>

section \<open>Arrays of characters\<close>

definition nul :: char where "nul = CHR 0x00"

definition c_str :: "string \<Rightarrow> string" where
  "c_str a = takeWhile (\<lambda>c. c \<noteq> nul) a"

definition char_at :: "string \<Rightarrow> nat \<Rightarrow> char" where
  "char_at s i = (if i < length s then s ! i else nul)"

definition strncpy :: "string \<Rightarrow> string \<Rightarrow> nat \<Rightarrow> string option" where
  "strncpy dst src n = (if n \<le> length dst then Some (take n (src @ replicate n nul) @ drop n dst) else None)"

definition strcpy :: "string \<Rightarrow> string \<Rightarrow> string option" where
  "strcpy dst src = (if length src < length dst then Some (src @ nul # drop (length src + 1) dst) else None)"

definition snprintf_s :: "nat \<Rightarrow> string \<Rightarrow> string" where
  "snprintf_s n s = take (n - 1) s"

definition strchr :: "char \<Rightarrow> string \<Rightarrow> string option" where
  "strchr c s = (let t = dropWhile (\<lambda>d. d \<noteq> c) s in if t = [] then None else Some t)"

definition newline :: char where "newline = CHR 0x0A"

text \<open>\<^verbatim>\<open>strtok\<close> with the string that the next call continues with, and \<^verbatim>\<open>fgets\<close> for a buffer of
  \<open>n\<close> characters with the rest of the file.\<close>

definition strtok :: "string \<Rightarrow> string \<Rightarrow> string option \<times> string" where
  "strtok delim s =
     (let t = dropWhile (\<lambda>c. c \<in> set delim) s
      in if t = [] then (None, [])
         else (Some (takeWhile (\<lambda>c. c \<notin> set delim) t), tl (dropWhile (\<lambda>c. c \<notin> set delim) t)))"

definition fgets :: "nat \<Rightarrow> string \<Rightarrow> (string \<times> string) option" where
  "fgets n s =
     (if s = [] then None
      else let m = take (n - 1) s; l = takeWhile (\<lambda>c. c \<noteq> newline) m;
               line = (if length l < length m then l @ [newline] else l)
           in Some (line, drop (length line) s))"

abbreviation has_prefix :: "string \<Rightarrow> string \<Rightarrow> bool" where
  "has_prefix p s \<equiv> take (length p) s = p"

definition no_nul :: "string \<Rightarrow> bool" where
  "no_nul s = list_all (\<lambda>c. c \<noteq> nul) s"

lemma no_nul_simps [simp]:
  "no_nul []" "no_nul (c # s) = (c \<noteq> nul \<and> no_nul s)" "no_nul (s @ t) = (no_nul s \<and> no_nul t)"
  by (simp_all add: no_nul_def)

lemma c_str_terminated [simp]: "no_nul s \<Longrightarrow> c_str (s @ nul # r) = s"
  by (induction s) (simp_all add: c_str_def)

lemma c_str_whole [simp]: "no_nul s \<Longrightarrow> c_str s = s"
  by (induction s) (simp_all add: c_str_def)

lemma no_nul_c_str [simp]: "no_nul (c_str a)"
  by (induction a) (simp_all add: c_str_def)

lemma no_nul_take: "no_nul s \<Longrightarrow> no_nul (take n s)"
  by (auto simp: no_nul_def list_all_iff dest: in_set_takeD)

lemma no_nul_drop: "no_nul s \<Longrightarrow> no_nul (drop n s)"
  by (auto simp: no_nul_def list_all_iff dest: in_set_dropD)

lemma length_strncpy: "strncpy dst src n = Some a \<Longrightarrow> length a = length dst"
  by (auto simp: strncpy_def split: if_splits)

lemma length_strcpy: "strcpy dst src = Some a \<Longrightarrow> length a = length dst"
  by (auto simp: strcpy_def split: if_splits)

lemma strcpy_c_str: "strcpy dst src = Some a \<Longrightarrow> no_nul src \<Longrightarrow> c_str a = src"
  by (auto simp: strcpy_def split: if_splits)

text \<open>Copying \<open>n\<close> characters into an array that has a zero behind them stores the prefix of
  the source.\<close>

lemma strncpy_c_str:
  assumes "strncpy dst src n = Some a" "no_nul src" "n < length dst" "dst ! n = nul"
  shows "c_str a = take n src \<and> a ! n = nul"
proof -
  have a: "a = take n (src @ replicate n nul) @ drop n dst"
    using assms(1) by (simp add: strncpy_def split: if_splits)
  have tail: "drop n dst = nul # drop (Suc n) dst"
    using assms(3,4) by (simp add: Cons_nth_drop_Suc [symmetric])
  have len: "length (take n (src @ replicate n nul)) = n" by simp
  have nth: "a ! n = nul" unfolding a nth_append len using assms(3,4) by simp
  show ?thesis
  proof (cases "length src < n")
    case False
    then have "a = take n src @ nul # drop (Suc n) dst" by (simp add: a tail)
    then show ?thesis using nth no_nul_take [OF assms(2)] by simp
  next
    case True
    then obtain k where k: "n - length src = Suc k" by (metis Suc_diff_Suc)
    then have "a = src @ nul # replicate k nul @ drop n dst" using True by (simp add: a)
    then show ?thesis using nth True assms(2) by simp
  qed
qed

lemma strtok_token:
  assumes "t \<noteq> []" "set t \<inter> set delim = {}" "c \<in> set delim"
  shows "strtok delim (t @ c # r) = (Some t, r)"
proof -
  have t: "x \<notin> set delim" if "x \<in> set t" for x using assms(2) that by blast
  have "dropWhile (\<lambda>c. c \<in> set delim) (t @ c # r) = t @ c # r"
    using assms(1) t by (cases t) auto
  then show ?thesis using t assms(1,3) by (simp add: strtok_def takeWhile_append2 dropWhile_append2)
qed

lemma strtok_last:
  assumes "t \<noteq> []" "set t \<inter> set delim = {}"
  shows "strtok delim t = (Some t, [])"
proof -
  have t: "x \<notin> set delim" if "x \<in> set t" for x using assms(2) that by blast
  have "dropWhile (\<lambda>c. c \<in> set delim) t = t" using assms(1) t by (cases t) auto
  moreover have "takeWhile (\<lambda>c. c \<notin> set delim) t = t" "dropWhile (\<lambda>c. c \<notin> set delim) t = []"
    using t by (auto simp: takeWhile_eq_all_conv dropWhile_eq_Nil_conv)
  ultimately show ?thesis using assms(1) unfolding strtok_def by (simp only: Let_def if_False list.sel)
qed

lemma strtok_sound:
  assumes "strtok delim s = (Some t, r)"
  shows "t \<noteq> [] \<and> set t \<inter> set delim = {} \<and> set t \<subseteq> set s \<and> set r \<subseteq> set s \<and> length t + length r \<le> length s
    \<and> (r \<noteq> [] \<longrightarrow> length t + length r < length s)"
proof -
  define u where "u = dropWhile (\<lambda>c. c \<in> set delim) s"
  define w where "w = dropWhile (\<lambda>c. c \<notin> set delim) u"
  have ne: "u \<noteq> []" and t: "t = takeWhile (\<lambda>c. c \<notin> set delim) u" and r: "r = tl w"
    using assms unfolding strtok_def u_def [symmetric] Let_def w_def [symmetric] by (simp_all split: if_splits)
  have "hd u \<notin> set delim" using hd_dropWhile [of "\<lambda>c. c \<in> set delim" s] ne unfolding u_def by blast
  then have tne: "t \<noteq> []" using ne unfolding t by (cases u) auto
  have split: "u = t @ w" by (simp add: t w_def)
  have sub: "set u \<subseteq> set s" unfolding u_def by (auto dest: set_dropWhileD)
  have len: "length u \<le> length s" unfolding u_def by (rule length_dropWhile_le)
  have disj: "set t \<inter> set delim = {}" unfolding t by (auto dest: set_takeWhileD)
  have rw: "set r \<subseteq> set w" "r = [] \<or> Suc (length r) = length w" "length r \<le> length w"
    unfolding r by (cases w; auto)+
  show ?thesis using tne disj sub len rw unfolding split by auto
qed

lemma fgets_progress: "fgets n s = Some (line, r) \<Longrightarrow> 1 < n \<Longrightarrow> length r < length s"
  by (cases s; cases "n - 1") (auto simp: fgets_def Let_def split: if_splits)

lemma fgets_line:
  assumes "newline \<notin> set l" "length l + 1 < n"
  shows "fgets n (l @ newline # r) = Some (l @ [newline], r)"
proof -
  obtain m where m: "n - 1 - length l = Suc m" using assms(2) by (cases "n - 1 - length l") auto
  have "take (n - 1) (l @ newline # r) = l @ newline # take m r" using assms(2) m by simp
  moreover have "takeWhile (\<lambda>c. c \<noteq> newline) (l @ newline # take m r) = l"
    using assms(1) by (induction l) auto
  ultimately show ?thesis by (simp add: fgets_def)
qed

lemma fgets_full:
  assumes "newline \<notin> set l" "length l + 1 = n" "l \<noteq> []"
  shows "fgets n (l @ r) = Some (l, r)"
proof -
  have t: "take (n - 1) (l @ r) = l" using assms(2) by auto
  have w: "takeWhile (\<lambda>c. c \<noteq> newline) l = l" using assms(1) by (auto simp: takeWhile_eq_all_conv)
  show ?thesis using assms(3) unfolding fgets_def t Let_def w by simp
qed

section \<open>Numbers in strings\<close>

definition digit_char :: "nat \<Rightarrow> char" where
  "digit_char d = char_of (if d < 10 then 48 + d else 87 + d)"

fun show_base :: "nat \<Rightarrow> nat \<Rightarrow> string" where
  "show_base b n = (if n < b \<or> b < 2 then [digit_char n] else show_base b (n div b) @ [digit_char (n mod b)])"

declare show_base.simps [simp del]

definition show_int :: "int \<Rightarrow> string" where
  "show_int i = (if i < 0 then CHR ''-'' # show_base 10 (nat (- i)) else show_base 10 (nat i))"

definition show_hex :: "nat \<Rightarrow> int \<Rightarrow> string" where
  "show_hex width i = (let s = show_base 16 (nat (c_uint i)) in replicate (width - length s) (CHR ''0'') @ s)"

definition is_space :: "char \<Rightarrow> bool" where
  "is_space c = (c = CHR '' '' \<or> (9 \<le> (of_char c :: nat) \<and> (of_char c :: nat) \<le> 13))"

definition digit_value :: "char \<Rightarrow> nat" where
  "digit_value c = (let n = (of_char c :: nat) in
     if 48 \<le> n \<and> n \<le> 57 then n - 48
     else if 97 \<le> n \<and> n \<le> 122 then n - 87
     else if 65 \<le> n \<and> n \<le> 90 then n - 55
     else 36)"

definition digits_value :: "nat \<Rightarrow> string \<Rightarrow> nat" where
  "digits_value b s = foldl (\<lambda>a c. a * b + digit_value c) 0 s"

definition clamp_long :: "int \<Rightarrow> int" where
  "clamp_long i = max (- (2 ^ 63)) (min (2 ^ 63 - 1) i)"

definition read_sign :: "string \<Rightarrow> bool \<times> string" where
  "read_sign s = (case s of [] \<Rightarrow> (False, [])
     | c # t \<Rightarrow> if c = CHR ''-'' then (True, t) else if c = CHR ''+'' then (False, t) else (False, s))"

text \<open>\<^verbatim>\<open>strtol\<close> returns the number and the rest of the string, which is the whole string when
  there is no number.\<close>

definition strtol :: "nat \<Rightarrow> string \<Rightarrow> int \<times> string" where
  "strtol b s =
     (let (neg, t) = read_sign (dropWhile is_space s);
          u = (if b = 16 \<and> (has_prefix ''0x'' t \<or> has_prefix ''0X'' t) \<and> digit_value (char_at t 2) < 16
               then drop 2 t else t);
          ds = takeWhile (\<lambda>c. digit_value c < b) u;
          n = int (digits_value b ds)
      in if ds = [] then (0, s) else (clamp_long (if neg then - n else n), drop (length ds) u))"

definition atoi :: "string \<Rightarrow> int" where
  "atoi s = c_int (fst (strtol 10 s))"

text \<open>The conversion \<^verbatim>\<open>%d\<close> of \<^verbatim>\<open>sscanf\<close> fails where there is no number.\<close>

definition scan_int :: "string \<Rightarrow> (int \<times> string) option" where
  "scan_int s = (let (n, r) = strtol 10 s in if r = s then None else Some (c_int n, r))"

lemma of_char_digit: "d < 36 \<Longrightarrow> (of_char (digit_char d) :: nat) = (if d < 10 then 48 + d else 87 + d)"
  by (simp add: digit_char_def)

lemma digit_value_char [simp]: "d < 36 \<Longrightarrow> digit_value (digit_char d) = d"
  by (simp add: digit_value_def of_char_digit Let_def)

lemma digit_char_not_space: "d < 36 \<Longrightarrow> \<not> is_space (digit_char d)"
  using of_char_digit [of d] by (auto simp: is_space_def split: if_splits)

lemma digit_char_neq:
  assumes "d < 36"
  shows "digit_char d \<noteq> CHR ''-''" "digit_char d \<noteq> CHR ''+''" "digit_char d \<noteq> nul" "digit_char d \<noteq> CHR '';''" "digit_char d \<noteq> CHR ''=''"
    "digit_char d \<noteq> CHR '' ''" "digit_char d \<noteq> CHR 0x0A" "digit_char d \<noteq> CHR 0x0D" "digit_char d \<noteq> CHR 0x09"
  using of_char_digit [OF assms] by (auto simp: nul_def split: if_splits)

lemma show_base_ne [simp]: "show_base b n \<noteq> []"
  by (subst show_base.simps) simp

lemma show_base_digits:
  assumes "2 \<le> b" "b \<le> 36"
  shows "c \<in> set (show_base b n) \<Longrightarrow> \<exists>d<b. c = digit_char d"
proof (induction n rule: less_induct)
  case (less n)
  show ?case
  proof (cases "n < b")
    case True
    then show ?thesis using less.prems by (auto simp: show_base.simps [of b n])
  next
    case False
    then have "n div b < n" using assms by (simp add: div_less_dividend)
    moreover have "\<exists>d<b. digit_char (n mod b) = digit_char d"
      using assms(1) by (intro exI [of _ "n mod b"]) simp
    ultimately show ?thesis using less.IH [of "n div b"] less.prems False assms(1)
      by (auto simp: show_base.simps [of b n])
  qed
qed

lemma digits_value_show:
  assumes "2 \<le> b" "b \<le> 36"
  shows "digits_value b (show_base b n) = n"
proof (induction n rule: less_induct)
  case (less n)
  show ?case
  proof (cases "n < b")
    case True
    then show ?thesis using assms by (simp add: show_base.simps [of b n] digits_value_def)
  next
    case False
    then have "n div b < n" using assms by (simp add: div_less_dividend)
    then have "digits_value b (show_base b (n div b)) = n div b" by (rule less.IH)
    moreover have "digit_value (digit_char (n mod b)) = n mod b"
      by (rule digit_value_char, rule less_le_trans [OF mod_less_divisor assms(2)]) (use assms(1) in simp)
    ultimately show ?thesis using False assms
      by (simp add: show_base.simps [of b n] digits_value_def)
  qed
qed

lemma show_base_value_lt: "2 \<le> b \<Longrightarrow> b \<le> 36 \<Longrightarrow> c \<in> set (show_base b n) \<Longrightarrow> digit_value c < b"
  using show_base_digits by fastforce

lemma no_nul_show_base [simp]: "2 \<le> b \<Longrightarrow> b \<le> 36 \<Longrightarrow> no_nul (show_base b n)"
  unfolding no_nul_def list_all_iff
proof
  fix c
  assume "2 \<le> b" "b \<le> 36" "c \<in> set (show_base b n)"
  then obtain d where "d < b" "c = digit_char d" using show_base_digits by blast
  with \<open>b \<le> 36\<close> show "c \<noteq> nul" by (simp add: digit_char_neq)
qed

lemma no_nul_show_int [simp]: "no_nul (show_int i)"
  by (simp add: show_int_def nul_def [symmetric]) (simp add: nul_def)

lemma take_digits:
  assumes "2 \<le> b" "b \<le> 36" "r = [] \<or> \<not> digit_value (hd r) < b"
  shows "takeWhile (\<lambda>c. digit_value c < b) (show_base b n @ r) = show_base b n"
proof -
  have "takeWhile (\<lambda>c. digit_value c < b) r = []" using assms(3) by (cases r) auto
  then show ?thesis
    using show_base_value_lt [OF assms(1,2)] takeWhile_append2 [of "show_base b n" "\<lambda>c. digit_value c < b" r]
    by auto
qed

lemma read_sign_show: "read_sign (dropWhile is_space (show_int i @ r)) =
    (i < 0, show_base 10 (nat \<bar>i\<bar>) @ r)"
proof -
  obtain c s where cs: "show_base 10 (nat \<bar>i\<bar>) = c # s" using show_base_ne [of 10] by (meson list.exhaust)
  obtain d where d: "d < 10" "c = digit_char d"
    using show_base_digits [of 10 c "nat \<bar>i\<bar>"] cs by auto
  have sp: "\<not> is_space (CHR ''-'')" by (simp add: is_space_def)
  show ?thesis
    using digit_char_not_space [of d] digit_char_neq [of d] d cs sp
    by (auto simp: show_int_def read_sign_def)
qed

text \<open>A number that was written is read back, and reading stops behind it.\<close>

lemma strtol_show_int:
  assumes "\<bar>i\<bar> < 2 ^ 63" "r = [] \<or> \<not> digit_value (hd r) < 10"
  shows "strtol 10 (show_int i @ r) = (i, r)"
proof -
  have v: "digits_value 10 (show_base 10 n) = n" for n by (rule digits_value_show) auto
  show ?thesis
    unfolding strtol_def
    using assms(1) by (auto simp: read_sign_show take_digits [OF _ _ assms(2)] v clamp_long_def Let_def)
qed

lemma atoi_show_int [simp]: "- 2147483648 \<le> i \<Longrightarrow> i < 2147483648 \<Longrightarrow> atoi (show_int i) = i"
  using strtol_show_int [of i "[]"] by (simp add: atoi_def)

lemma scan_show_int:
  assumes "- 2147483648 \<le> i" "i < 2147483648" "r = [] \<or> \<not> digit_value (hd r) < 10"
  shows "scan_int (show_int i @ r) = Some (i, r)"
  using strtol_show_int [of i r] assms by (simp add: scan_int_def show_int_def)

end
