(* ===== verification/Sim_Card.thy ===== *)
theory Sim_Card
  imports C_String
begin

text \<open>
  The SIM card of the modem, \<^verbatim>\<open>hw/express-network/em_sim_card.c\<close>, and the string helpers
  of \<^verbatim>\<open>em_utils.c\<close>: the PIN and PUK automaton, the phone number, the authentication
  command with its base64 answer, the table of the files of the card, and the store of
  configuration values. A command is the rest of the input buffer from its first
  character on, so that the functions that read behind the end of the string can do so.
\<close>

section \<open>Hexadecimal strings and command types\<close>

definition hexdigit :: "int \<Rightarrow> int" where
  "hexdigit c =
     (if c_uint (c - 48) < 10 then c_uint (c - 48)
      else if c_uint (c - 97) < 6 then c_uint (c - 97) + 10
      else if c_uint (c - 65) < 6 then c_uint (c - 65) + 10
      else -1)"

fun hex2int_loop :: "string \<Rightarrow> nat \<Rightarrow> int \<Rightarrow> int" where
  "hex2int_loop hex 0 result = result"
| "hex2int_loop hex (Suc len) result =
     (let c = hexdigit (of_char (char_at hex 0))
      in if c < 0 then -1 else hex2int_loop (tl hex) len (c_int (push_bit 4 result OR c)))"

definition hex2int :: "string \<Rightarrow> int \<Rightarrow> int" where
  "hex2int hex len = hex2int_loop hex (nat len) 0"

fun int2hex :: "nat \<Rightarrow> int \<Rightarrow> string" where
  "int2hex 0 v = []"
| "int2hex (Suc len) v = (''0123456789abcdef'' ! nat (drop_bit (len * 4) v AND 15)) # int2hex len v"

definition vbufprint :: "string \<Rightarrow> nat \<Rightarrow> string \<Rightarrow> string \<times> nat" where
  "vbufprint buf p s =
     (let room = length buf - p; stored = take (room - 1) s @ [nul];
          buf' = (if room = 0 then buf else take p buf @ stored @ drop (p + length stored) buf)
      in if length buf \<le> p + length s then (buf', length buf) else (buf', p + length s))"

datatype at_command_type = AT_READ_CMD | AT_WRITE_CMD | AT_EXEC_CMD | AT_TEST_CMD | AT_INVALID_CMD

definition get_command_type :: "string \<Rightarrow> string \<Rightarrow> at_command_type" where
  "get_command_type cmd pre =
     (if \<not> has_prefix pre cmd then AT_INVALID_CMD
      else let n = length pre in
        if char_at cmd n = CHR ''='' then (if char_at cmd (n + 1) = CHR ''?'' then AT_TEST_CMD else AT_WRITE_CMD)
        else if char_at cmd n = CHR ''?'' then AT_READ_CMD else AT_EXEC_CMD)"

section \<open>The store of configuration values\<close>

record aconfig =
  ac_name :: "string option"
  ac_value :: "string option"

fun aconfig_find_const :: "aconfig list \<Rightarrow> string \<Rightarrow> aconfig option option" where
  "aconfig_find_const [] name = None"
| "aconfig_find_const (n # root) name =
     (case ac_name n of None \<Rightarrow> Some None
      | Some m \<Rightarrow> if m = name then Some (Some n) else aconfig_find_const root name)"

fun aconfig_set :: "aconfig list \<Rightarrow> string \<Rightarrow> string \<Rightarrow> aconfig list option" where
  "aconfig_set [] name v = None"
| "aconfig_set (n # root) name v =
     (if ac_name n = None \<or> ac_name n = Some name
      then Some (n\<lparr>ac_name := Some name, ac_value := Some v\<rparr> # root)
      else map_option (Cons n) (aconfig_set root name v))"

definition aconfig_str :: "aconfig list \<Rightarrow> string \<Rightarrow> string option \<Rightarrow> string option option" where
  "aconfig_str root name defval =
     (case aconfig_find_const root name of None \<Rightarrow> None
      | Some None \<Rightarrow> Some defval | Some (Some n) \<Rightarrow> Some (ac_value n))"

section \<open>The card\<close>

datatype sim_status = A_SIM_STATUS_ABSENT | A_SIM_STATUS_NOT_READY | A_SIM_STATUS_READY
  | A_SIM_STATUS_PIN | A_SIM_STATUS_PUK | A_SIM_STATUS_NETWORK_PERSONALIZATION

definition A_SIM_PIN_SIZE :: nat where "A_SIM_PIN_SIZE = 4"

definition A_SIM_PUK_SIZE :: nat where "A_SIM_PUK_SIZE = 8"

record sim_card =
  sc_status :: sim_status
  sc_pin :: string
  sc_puk :: string
  sc_number :: string
  sc_pin_retries :: int
  sc_fileid_status :: string
  sc_out_buff :: string

definition asimcard_create :: "sim_card \<Rightarrow> bool \<Rightarrow> sim_card option" where
  "asimcard_create sim sim_present =
     (case strncpy (sc_pin sim) ''0000'' 5 of None \<Rightarrow> None | Some pin \<Rightarrow>
      case strncpy (sc_puk sim) ''12345678'' 9 of None \<Rightarrow> None | Some puk \<Rightarrow>
      case strncpy (sc_number sim) ''fffffffffffffff'' 16 of None \<Rightarrow> None | Some number \<Rightarrow>
      Some (sim\<lparr>sc_status := (if sim_present then A_SIM_STATUS_READY else A_SIM_STATUS_ABSENT),
        sc_pin_retries := 0, sc_pin := pin, sc_puk := puk,
        sc_number := ''8618012345678'' @ drop 13 number\<rparr>))"

definition asimcard_set_fileid_status :: "sim_card \<Rightarrow> string \<Rightarrow> sim_card" where
  "asimcard_set_fileid_status sim str =
     (let s = snprintf_s (length (sc_fileid_status sim)) str
      in sim\<lparr>sc_fileid_status := s @ nul # drop (length s + 1) (sc_fileid_status sim)\<rparr>)"

definition asimcard_get_status :: "sim_card \<Rightarrow> sim_status" where
  "asimcard_get_status sim = sc_status sim"

definition asimcard_set_status :: "sim_card \<Rightarrow> sim_status \<Rightarrow> sim_card" where
  "asimcard_set_status sim status = sim\<lparr>sc_status := status\<rparr>"

definition asimcard_set_pin :: "sim_card \<Rightarrow> string \<Rightarrow> sim_card option" where
  "asimcard_set_pin sim pin =
     map_option (\<lambda>a. sim\<lparr>sc_pin := a, sc_pin_retries := 0\<rparr>) (strncpy (sc_pin sim) pin A_SIM_PIN_SIZE)"

definition asimcard_set_puk :: "sim_card \<Rightarrow> string \<Rightarrow> sim_card option" where
  "asimcard_set_puk sim puk =
     map_option (\<lambda>a. sim\<lparr>sc_puk := a, sc_pin_retries := 0\<rparr>) (strncpy (sc_puk sim) puk A_SIM_PUK_SIZE)"

definition asimcard_check_pin :: "sim_card \<Rightarrow> string \<Rightarrow> bool \<times> sim_card" where
  "asimcard_check_pin sim pin =
     (if sc_status sim \<noteq> A_SIM_STATUS_PIN \<and> sc_status sim \<noteq> A_SIM_STATUS_READY then (False, sim)
      else if c_str (sc_pin sim) = pin then (True, sim\<lparr>sc_status := A_SIM_STATUS_READY, sc_pin_retries := 0\<rparr>)
      else if sc_status sim \<noteq> A_SIM_STATUS_READY
      then let sim' = sim\<lparr>sc_pin_retries := c_int (sc_pin_retries sim + 1)\<rparr>
           in (False, if sc_pin_retries sim' = 3 then sim'\<lparr>sc_status := A_SIM_STATUS_PUK\<rparr> else sim')
      else (False, sim))"

definition asimcard_check_puk :: "sim_card \<Rightarrow> string \<Rightarrow> string \<Rightarrow> (bool \<times> sim_card) option" where
  "asimcard_check_puk sim puk pin =
     (if sc_status sim \<noteq> A_SIM_STATUS_PUK then Some (False, sim)
      else if c_str (sc_puk sim) = puk
      then (case strncpy (sc_puk sim) puk A_SIM_PUK_SIZE of None \<Rightarrow> None | Some puk' \<Rightarrow>
            case strncpy (sc_pin sim) pin A_SIM_PIN_SIZE of None \<Rightarrow> None | Some pin' \<Rightarrow>
            Some (True, sim\<lparr>sc_puk := puk', sc_pin := pin', sc_status := A_SIM_STATUS_READY, sc_pin_retries := 0\<rparr>))
      else let sim' = sim\<lparr>sc_pin_retries := c_int (sc_pin_retries sim + 1)\<rparr>
           in Some (False, if sc_pin_retries sim' = 6 then sim'\<lparr>sc_status := A_SIM_STATUS_ABSENT\<rparr> else sim'))"

definition asimcard_get_phone_number :: "sim_card \<Rightarrow> string" where
  "asimcard_get_phone_number sim = c_str (sc_number sim)"

definition asimcard_get_phone_number_prefix :: "sim_card \<Rightarrow> string \<Rightarrow> (string \<times> string) option" where
  "asimcard_get_phone_number_prefix sim prefix =
     (if prefix ! 0 = nul
      then let len = length (c_str (sc_number sim)) in
        if len < 4 then None
        else map_option (\<lambda>p. (c_str p, p)) (strncpy prefix (c_str (sc_number sim)) (len - 4))
      else Some (c_str prefix, prefix))"

section \<open>Authentication\<close>

definition cb64 :: string where
  "cb64 = ''ABCDEFGHIJKLMNOPQRSTUVWXYZabcdefghijklmnopqrstuvwxyz0123456789+/''"

definition cb64_at :: "int \<Rightarrow> char option" where
  "cb64_at i = (if 0 \<le> i \<and> i < 64 then Some (cb64 ! nat i) else None)"

text \<open>The value of a plain \<^verbatim>\<open>char\<close> is signed; the last group is read through \<^verbatim>\<open>unsigned char\<close>.\<close>

definition schar :: "char \<Rightarrow> int" where
  "schar c = signed_take_bit 7 (of_char c)"

definition base64_group :: "int \<Rightarrow> int \<Rightarrow> int \<Rightarrow> string option" where
  "base64_group a b c =
     (case cb64_at (drop_bit 2 a) of None \<Rightarrow> None | Some w \<Rightarrow>
      case cb64_at (push_bit 4 (a AND 3) OR drop_bit 4 (b AND 0xf0)) of None \<Rightarrow> None | Some x \<Rightarrow>
      case cb64_at (push_bit 2 (b AND 0xf) OR drop_bit 6 (c AND 0xc0)) of None \<Rightarrow> None | Some y \<Rightarrow>
      case cb64_at (c AND 0x3f) of None \<Rightarrow> None | Some z \<Rightarrow> Some [w, x, y, z])"

fun proxy_base64_encode :: "string \<Rightarrow> int \<Rightarrow> string option option" where
  "proxy_base64_encode (a # b # c # src) dstlen =
     (if 4 \<le> dstlen
      then (case base64_group (schar a) (schar b) (schar c) of None \<Rightarrow> None
            | Some g \<Rightarrow> map_option (map_option (append g)) (proxy_base64_encode src (dstlen - 4)))
      else Some None)"
| "proxy_base64_encode [] dstlen = Some (Some [])"
| "proxy_base64_encode [a] dstlen =
     (if dstlen < 4 then Some None
      else map_option (\<lambda>g. Some (take 2 g @ ''==''))
             (base64_group (of_char a) 0 0))"
| "proxy_base64_encode [a, b] dstlen =
     (if dstlen < 4 then Some None
      else map_option (\<lambda>g. Some (take 3 g @ ''=''))
             (base64_group (of_char a) (of_char b) 0))"

definition make_SRES_Kc :: "string \<Rightarrow> nat \<Rightarrow> (string \<times> string) option" where
  "make_SRES_Kc data len =
     (if len = 0 \<or> (\<exists>j \<in> set [0..<12]. length data \<le> j mod len) then None
      else Some (map (\<lambda>j. data ! (j mod len)) [0..<4], map (\<lambda>j. data ! (j mod len)) [4..<12]))"

definition scan_hex2 :: "string \<Rightarrow> nat" where
  "scan_hex2 s =
     (let t = dropWhile is_space s; ds = takeWhile (\<lambda>c. digit_value c < 16) (take 2 t)
      in digits_value 16 ds)"

definition asimcard_csim :: "string \<Rightarrow> string option" where
  "asimcard_csim cmd =
     (case strchr (CHR 0x22) (c_str cmd) of
        None \<Rightarrow> Some (''+CSIM:4, '' @ [CHR 0x22] @ ''6D06'' @ [CHR 0x22])
      | Some q \<Rightarrow>
          if length q < 17 \<or> \<not> has_prefix ''00880080'' (tl q)
          then Some (''+CSIM:4, '' @ [CHR 0x22] @ ''6D06'' @ [CHR 0x22])
          else let at = length (c_str cmd) - length q;
                   data_len = scan_hex2 (drop 9 q)
               in case make_SRES_Kc (drop (at + 11) cmd) data_len of
                    None \<Rightarrow> None
                  | Some (sres, kc) \<Rightarrow>
                      (case proxy_base64_encode (CHR 0x04 # sres @ CHR 0x08 # kc) 1024 of
                         None \<Rightarrow> None
                       | Some None \<Rightarrow> Some (''+CSIM:4, '' @ [CHR 0x22] @ ''9866'' @ [CHR 0x22])
                       | Some (Some b) \<Rightarrow>
                           Some (''+CSIM:'' @ show_int (int (length b) + 4) @ '', '' @ [CHR 0x22] @ b @ ''0900'' @ [CHR 0x22])))"

section \<open>Files of the card\<close>

definition sim_answers :: "(string \<times> string) list" where
  "sim_answers =
     [(''+CRSM=192,28436,0,0,15'', ''+CRSM: 144,0,000000146f1404001aa0aa01020000''),
      (''+CRSM=176,28436,0,0,20'', ''+CRSM: 144,0,416e64726f6964ffffffffffffffffffffffffff''),
      (''+CRSM=192,28433,0,0,15'', ''+CRSM: 144,0,000000016f11040011a0aa01020000''),
      (''+CRSM=176,28433,0,0,1'', ''+CRSM: 144,0,55''),
      (''+CRSM=192,12258,0,0,15'', ''+CRSM: 144,0,0000000a2fe204000fa0aa01020000''),
      (''+CRSM=176,12258,0,0,10'', ''+CRSM: 144,0,98101430121181157002''),
      (''+CRSM=192,28435,0,0,15'', ''+CRSM: 144,0,000000016f13040011a0aa01020000''),
      (''+CRSM=176,28435,0,0,1'', ''+CRSM: 144,0,55''),
      (''+CRSM=192,28472,0,0,15'', ''+CRSM: 144,0,0000000f6f3804001aa0aa01020000''),
      (''+CRSM=176,28472,0,0,15'', ''+CRSM: 144,0,ff30ffff3c003c03000c0000f03f00''),
      (''+CRSM=192,28617,0,0,15'', ''+CRSM: 144,0,000000086fc9040011a0aa01020104''),
      (''+CRSM=178,28617,1,4,4'', ''+CRSM: 144,0,01000000''),
      (''+CRSM=192,28618,0,0,15'', ''+CRSM: 144,0,0000000a6fca040011a0aa01020105''),
      (''+CRSM=178,28618,1,4,5'', ''+CRSM: 144,0,0000000000''),
      (''+CRSM=192,28589,0,0,15'', ''+CRSM: 144,0,000000046fad04000aa0aa01020000''),
      (''+CRSM=176,28589,0,0,4'', ''+CRSM: 144,0,00000003''),
      (''+CRSM=192,28438,0,0,15'', ''+CRSM: 144,0,000000026f1604001aa0aa01020000''),
      (''+CRSM=176,28438,0,0,2'', ''+CRSM: 144,0,0233''),
      (''+CRSM=192,28486,0,0,15'', ''+CRSM: 148,4''),
      (''+CRSM=192,28621,0,0,15'', ''+CRSM: 148,4''),
      (''+CRSM=192,28613,0,0,15'', ''+CRSM: 144,0,000000f06fc504000aa0aa01020118''),
      (''+CRSM=178,28613,1,4,24'', ''+CRSM: 144,0,43058441aa890affffffffffffffffffffffffffffffffff''),
      (''+CRSM=192,28480,0,0,15'', ''+CRSM: 144,0,000000806f40040011a0aa01020120''),
      (''+CRSM=178,28480,1,4,32'', ''+CRSM: 144,0,ffffffffffffffffffffffffffffffffffff07815155258131f5ffffffffffff''),
      (''+CRSM=192,28615,0,0,15'', ''+CRSM: 144,0,000000406fc7040011a0aa01020120''),
      (''+CRSM=178,28615,1,4,32'', ''+CRSM: 144,0,566f6963656d61696cffffffffffffffffff07915155125740f9ffffffffffff''),
      (''+CRSM=192,28539,0,0,15'', ''+CRSM: 144,0,000000406fc7040011a0aa01000000''),
      (''+CRSM=176,28539,0,0,64'', ''+CRSM: 144,0,ffffffffffffffffffffffff'')]"

definition number_record :: "string \<Rightarrow> string" where
  "number_record n =
     ''+CRSM: 144,0,ffffffffffffffffffffffffffffffffffff0991'' @
     [n ! 1, n ! 0, n ! 3, n ! 2, n ! 5, n ! 4, n ! 7, n ! 6, n ! 9, n ! 8, n ! 11, n ! 10,
      n ! 13, n ! 12, CHR ''f'', n ! 14] @ ''ffffffff''"

definition set_out_buff :: "sim_card \<Rightarrow> string \<Rightarrow> sim_card" where
  "set_out_buff sim s =
     (let t = snprintf_s (length (sc_out_buff sim)) s
      in sim\<lparr>sc_out_buff := t @ nul # drop (length t + 1) (sc_out_buff sim)\<rparr>)"

definition asimcard_io :: "sim_card \<Rightarrow> string \<Rightarrow> (string \<times> sim_card) option" where
  "asimcard_io sim cmd =
     (if \<not> has_prefix ''+CRSM='' cmd then None
      else if cmd = ''+CRSM=178,28480,1,4,32''
      then if length (c_str (sc_number sim)) \<noteq> 15 then None
           else let sim' = set_out_buff sim (number_record (sc_number sim))
                in Some (c_str (sc_out_buff sim'), sim')
      else if cmd = ''+CRSM=242,0,0,0,0''
      then let sim' = set_out_buff sim (''+CRSM: 144,0,'' @ c_str (sc_fileid_status sim))
           in Some (c_str (sc_out_buff sim'), sim')
      else case find (\<lambda>(c, a). take 15 c = take 15 cmd) sim_answers of
             Some (_, a) \<Rightarrow> Some (a, sim)
           | None \<Rightarrow> Some (''ERROR: BAD COMMAND'', sim))"

section \<open>Hexadecimal numbers are read back\<close>

lemma hexdigit_char:
  assumes "0 \<le> d" "d < 16"
  shows "hexdigit (of_char (''0123456789abcdef'' ! nat d)) = d"
proof -
  have "nat d \<in> {..<16}" using assms by auto
  moreover have "\<forall>i \<in> {..<16}. hexdigit (of_char (''0123456789abcdef'' ! i)) = int i"
    by (simp add: hexdigit_def numeral_eq_Suc lessThan_Suc take_bit_eq_mod)
  ultimately show ?thesis using assms by force
qed

lemma hex2int_int2hex:
  assumes "0 \<le> r" "r * 16 ^ n + v mod 16 ^ n < 2147483648"
  shows "hex2int_loop (int2hex n v @ s) n r = r * 16 ^ n + v mod 16 ^ n"
  using assms
proof (induction n arbitrary: r)
  case (Suc n)
  define d where "d = drop_bit (n * 4) v AND 15"
  have pow: "(2 :: int) ^ (n * 4) = 16 ^ n" using power_mult [of "2 :: int" 4 n] by (simp add: mult.commute)
  have d: "d = v div 16 ^ n mod 16"
    using take_bit_eq_mask [of 4 "drop_bit (n * 4) v"]
    by (simp add: d_def mask_eq_exp_minus_1 take_bit_eq_mod drop_bit_eq_div pow)
  have d16: "0 \<le> d" "d < 16" by (simp_all add: d)
  have or: "push_bit 4 r OR d = r * 16 + d" using join_bits [of d 4 r] d16 by simp
  have v: "v mod 16 ^ Suc n = d * 16 ^ n + v mod 16 ^ n"
    using mod_mult2_eq' [of v "16 ^ n" 16] by (simp add: d mult.commute)
  have whole: "r * 16 ^ Suc n + v mod 16 ^ Suc n = (r * 16 + d) * 16 ^ n + v mod 16 ^ n"
    unfolding v by (simp add: algebra_simps)
  have "r * 16 + d \<le> (r * 16 + d) * 16 ^ n" using Suc.prems(1) d16 by (simp add: mult_le_cancel_left1 self_le_power)
  moreover have "0 \<le> v mod 16 ^ n" by simp
  ultimately have small: "r * 16 + d < 2147483648" using Suc.prems(2) unfolding whole by linarith
  have "hex2int_loop (int2hex (Suc n) v @ s) (Suc n) r = hex2int_loop (int2hex n v @ s) n (c_int (push_bit 4 r OR d))"
    using d16 hexdigit_char [OF d16] by (simp add: char_at_def d_def [symmetric] Let_def)
  also have "\<dots> = hex2int_loop (int2hex n v @ s) n (r * 16 + d)"
    using or small Suc.prems(1) d16 by simp
  also have "\<dots> = (r * 16 + d) * 16 ^ n + v mod 16 ^ n"
    using Suc.IH [of "r * 16 + d"] Suc.prems d16 unfolding whole by simp
  finally show ?case unfolding whole .
qed simp

lemma hex_number_roundtrip: "0 \<le> v \<Longrightarrow> v < 16 ^ n \<Longrightarrow> v < 2147483648 \<Longrightarrow> hex2int (int2hex n v @ s) (int n) = v"
  using hex2int_int2hex [of 0 n v s] by (simp add: hex2int_def)

section \<open>Configuration values\<close>

text \<open>A value that was set is found. When all entries of the array are taken, setting
  another name leaves the array.\<close>

lemma aconfig_set_found:
  assumes "aconfig_set root name v = Some root'"
  shows "aconfig_str root' name d = Some (Some v)"
proof -
  have "\<exists>n. aconfig_find_const root' name = Some (Some n) \<and> ac_value n = Some v"
    using assms by (induction root arbitrary: root') (auto split: if_splits option.splits)
  then show ?thesis by (auto simp: aconfig_str_def)
qed

lemma aconfig_set_full:
  "aconfig_set root name v = None \<longleftrightarrow> (\<forall>n \<in> set root. ac_name n \<noteq> None \<and> ac_name n \<noteq> Some name)"
  by (induction root) auto

section \<open>The lock of the card\<close>

text \<open>What the PIN and the PUK protect: an automaton that counts the tries that are left.\<close>

datatype lock = Unlocked | Wait_pin nat | Wait_puk nat | Blocked

datatype sim_op = Enter_pin string | Enter_puk string string | Change_pin string string

type_synonym lock_state = "lock \<times> string \<times> string"

fun lock_step :: "sim_op \<Rightarrow> lock_state \<Rightarrow> bool \<times> lock_state" where
  "lock_step (Enter_pin p) (Unlocked, pin, puk) = (p = pin, Unlocked, pin, puk)"
| "lock_step (Enter_pin p) (Wait_pin n, pin, puk) =
     (if p = pin then (True, Unlocked, pin, puk)
      else (False, if n = 1 then Wait_puk 3 else Wait_pin (n - 1), pin, puk))"
| "lock_step (Enter_puk q p) (Wait_puk n, pin, puk) =
     (if q = puk then (True, Unlocked, take 4 p, puk)
      else (False, if n = 1 then Blocked else Wait_puk (n - 1), pin, puk))"
| "lock_step (Change_pin old new) (Unlocked, pin, puk) =
     (if old = pin then (True, Unlocked, take 4 new, puk) else (False, Unlocked, pin, puk))"
| "lock_step _ s = (False, s)"

fun lock_run :: "sim_op list \<Rightarrow> lock_state \<Rightarrow> bool list \<times> lock_state" where
  "lock_run [] s = ([], s)"
| "lock_run (op # ops) s = (let (r, s') = lock_step op s; (rs, s'') = lock_run ops s' in (r # rs, s''))"

fun sim_step :: "sim_op \<Rightarrow> sim_card \<Rightarrow> (bool \<times> sim_card) option" where
  "sim_step (Enter_pin p) c = Some (asimcard_check_pin c p)"
| "sim_step (Enter_puk q p) c = asimcard_check_puk c q p"
| "sim_step (Change_pin old new) c =
     (if asimcard_get_status c = A_SIM_STATUS_READY
      then (let (ok, c') = asimcard_check_pin c old
            in if ok then map_option (Pair True) (asimcard_set_pin c' new) else Some (False, c'))
      else Some (False, c))"

fun sim_run :: "sim_op list \<Rightarrow> sim_card \<Rightarrow> (bool list \<times> sim_card) option" where
  "sim_run [] c = Some ([], c)"
| "sim_run (op # ops) c =
     (case sim_step op c of None \<Rightarrow> None
      | Some (r, c') \<Rightarrow> (case sim_run ops c' of None \<Rightarrow> None | Some (rs, c'') \<Rightarrow> Some (r # rs, c'')))"

definition card_lock :: "sim_card \<Rightarrow> lock" where
  "card_lock c = (case sc_status c of
     A_SIM_STATUS_READY \<Rightarrow> Unlocked
   | A_SIM_STATUS_PIN \<Rightarrow> Wait_pin (nat (3 - sc_pin_retries c))
   | A_SIM_STATUS_PUK \<Rightarrow> Wait_puk (nat (6 - sc_pin_retries c))
   | _ \<Rightarrow> Blocked)"

definition abs_card :: "sim_card \<Rightarrow> lock_state" where
  "abs_card c = (card_lock c, c_str (sc_pin c), c_str (sc_puk c))"

definition card_ok :: "sim_card \<Rightarrow> bool" where
  "card_ok c = (length (sc_pin c) = 5 \<and> sc_pin c ! 4 = nul \<and> length (sc_puk c) = 9 \<and> sc_puk c ! 8 = nul
     \<and> length (c_str (sc_puk c)) \<le> 8
     \<and> (sc_status c = A_SIM_STATUS_PIN \<longrightarrow> 0 \<le> sc_pin_retries c \<and> sc_pin_retries c < 3)
     \<and> (sc_status c = A_SIM_STATUS_PUK \<longrightarrow> 3 \<le> sc_pin_retries c \<and> sc_pin_retries c < 6))"

definition op_ok :: "sim_op \<Rightarrow> bool" where
  "op_ok op = (case op of Enter_pin p \<Rightarrow> no_nul p | Enter_puk q p \<Rightarrow> no_nul q \<and> no_nul p
     | Change_pin p q \<Rightarrow> no_nul p \<and> no_nul q)"

lemma set_pin_array:
  assumes "length a = 5" "a ! 4 = nul" "no_nul p"
  obtains a' where "strncpy a p A_SIM_PIN_SIZE = Some a'" "length a' = 5" "a' ! 4 = nul" "c_str a' = take 4 p"
proof -
  obtain a' where a': "strncpy a p 4 = Some a'" using assms(1) by (simp add: strncpy_def)
  show ?thesis
    using that [of a'] a' strncpy_c_str [OF a' assms(3)] length_strncpy [OF a'] assms(1,2) by (simp add: A_SIM_PIN_SIZE_def)
qed

lemma set_puk_array:
  assumes "length a = 9" "a ! 8 = nul" "no_nul p" "length p \<le> 8"
  obtains a' where "strncpy a p A_SIM_PUK_SIZE = Some a'" "length a' = 9" "a' ! 8 = nul" "c_str a' = p"
proof -
  obtain a' where a': "strncpy a p 8 = Some a'" using assms(1) by (simp add: strncpy_def)
  show ?thesis
    using that [of a'] a' strncpy_c_str [OF a' assms(3)] length_strncpy [OF a'] assms(1,2,4)
    by (simp add: A_SIM_PUK_SIZE_def)
qed

lemma check_pin_refines:
  assumes "card_ok c"
  shows "card_ok (snd (asimcard_check_pin c p))"
    "lock_step (Enter_pin p) (abs_card c) = (fst (asimcard_check_pin c p), abs_card (snd (asimcard_check_pin c p)))"
  using assms
  by (cases "sc_status c"; cases "sc_pin_retries c = 2";
      auto simp: asimcard_check_pin_def abs_card_def card_lock_def card_ok_def Let_def nat_diff_distrib)+

lemma check_puk_refines:
  assumes "card_ok c" "no_nul q" "no_nul p"
  shows "\<exists>c'. asimcard_check_puk c q p = Some (fst (lock_step (Enter_puk q p) (abs_card c)), c')
    \<and> card_ok c' \<and> abs_card c' = snd (lock_step (Enter_puk q p) (abs_card c))"
proof (cases "sc_status c = A_SIM_STATUS_PUK \<and> c_str (sc_puk c) = q")
  case True
  obtain pin' where pin: "strncpy (sc_pin c) p A_SIM_PIN_SIZE = Some pin'" "length pin' = 5" "pin' ! 4 = nul" "c_str pin' = take 4 p"
    using set_pin_array [of "sc_pin c" p] assms by (auto simp: card_ok_def)
  obtain puk' where puk: "strncpy (sc_puk c) q A_SIM_PUK_SIZE = Some puk'" "length puk' = 9" "puk' ! 8 = nul" "c_str puk' = q"
    using set_puk_array [of "sc_puk c" q] assms True by (auto simp: card_ok_def)
  show ?thesis using True pin puk assms(1)
    by (simp add: asimcard_check_puk_def abs_card_def card_lock_def card_ok_def)
next
  case False
  then show ?thesis using assms(1)
    by (cases "sc_status c"; cases "sc_pin_retries c = 5";
        auto simp: asimcard_check_puk_def abs_card_def card_lock_def card_ok_def Let_def nat_diff_distrib)
qed

lemma change_pin_refines:
  assumes "card_ok c" "no_nul new"
  shows "\<exists>c'. sim_step (Change_pin old new) c = Some (fst (lock_step (Change_pin old new) (abs_card c)), c')
    \<and> card_ok c' \<and> abs_card c' = snd (lock_step (Change_pin old new) (abs_card c))"
proof (cases "sc_status c = A_SIM_STATUS_READY \<and> c_str (sc_pin c) = old")
  case True
  obtain pin' where pin: "strncpy (sc_pin c) new A_SIM_PIN_SIZE = Some pin'" "length pin' = 5" "pin' ! 4 = nul" "c_str pin' = take 4 new"
    using set_pin_array [of "sc_pin c" new] assms by (auto simp: card_ok_def)
  show ?thesis using True pin assms(1)
    by (simp add: asimcard_get_status_def asimcard_check_pin_def asimcard_set_pin_def abs_card_def card_lock_def card_ok_def)
next
  case False
  then show ?thesis using assms(1)
    by (cases "sc_status c") (auto simp: asimcard_get_status_def asimcard_check_pin_def abs_card_def card_lock_def card_ok_def)
qed

lemma sim_step_refines:
  assumes "card_ok c" "op_ok op"
  shows "\<exists>c'. sim_step op c = Some (fst (lock_step op (abs_card c)), c')
    \<and> card_ok c' \<and> abs_card c' = snd (lock_step op (abs_card c))"
proof (cases op)
  case (Enter_pin p)
  then show ?thesis using check_pin_refines [OF assms(1), of p] by (simp add: prod_eq_iff)
next
  case (Enter_puk q p)
  then show ?thesis using check_puk_refines [OF assms(1)] assms(2) by (simp add: op_ok_def)
next
  case (Change_pin p q)
  then show ?thesis using change_pin_refines [OF assms(1)] assms(2) by (simp add: op_ok_def)
qed

lemma sim_run_refines:
  assumes "card_ok c" "list_all op_ok ops"
  shows "\<exists>c'. sim_run ops c = Some (fst (lock_run ops (abs_card c)), c')
    \<and> card_ok c' \<and> abs_card c' = snd (lock_run ops (abs_card c))"
  using assms
proof (induction ops arbitrary: c)
  case (Cons op ops)
  obtain c1 where c1: "sim_step op c = Some (fst (lock_step op (abs_card c)), c1)" "card_ok c1"
      "abs_card c1 = snd (lock_step op (abs_card c))"
    using sim_step_refines [OF Cons.prems(1)] Cons.prems(2) by auto
  obtain c2 where "sim_run ops c1 = Some (fst (lock_run ops (abs_card c1)), c2)" "card_ok c2"
      "abs_card c2 = snd (lock_run ops (abs_card c1))"
    using Cons.IH [OF c1(2)] Cons.prems(2) by auto
  then show ?case using c1 by (simp add: case_prod_beta)
qed simp

text \<open>A locked card opens only to its PIN or its PUK.\<close>

lemma lock_needs_secret:
  assumes "fst s \<noteq> Unlocked" "fst (snd (lock_run ops s)) = Unlocked"
  shows "Enter_pin (fst (snd s)) \<in> set ops \<or> (\<exists>p. Enter_puk (snd (snd s)) p \<in> set ops)"
  using assms
proof (induction ops arbitrary: s)
  case (Cons op ops)
  obtain l pin puk where s: "s = (l, pin, puk)" by (cases s)
  show ?case
  proof (cases "fst (snd (lock_step op s)) = Unlocked")
    case True
    then show ?thesis using Cons.prems(1)
      by (cases op; cases l) (auto simp: s split: if_splits)
  next
    case False
    then have "snd (snd (lock_step op s)) = (pin, puk)"
      using Cons.prems(1) by (cases op; cases l) (auto simp: s split: if_splits)
    then show ?thesis using Cons.IH [OF False] Cons.prems(2) by (auto simp: s case_prod_beta)
  qed
qed simp

text \<open>
  C36. The functions for PIN and PUK implement the lock: over every sequence of entering
  the PIN, unblocking with the PUK and changing the PIN, no array is left, the answers are
  those of the automaton that counts three tries of the PIN and then three tries of the
  PUK, and the status and counter of the card stand for its state. A card that waits is ready afterwards only if its PIN or
  its PUK was entered.
\<close>

theorem sim_lock_refines:
  assumes "card_ok c" "list_all op_ok ops"
  shows "\<exists>c'. sim_run ops c = Some (fst (lock_run ops (abs_card c)), c') \<and> card_ok c'
    \<and> abs_card c' = snd (lock_run ops (abs_card c))
    \<and> (card_lock c \<noteq> Unlocked \<and> card_lock c' = Unlocked \<longrightarrow>
         Enter_pin (c_str (sc_pin c)) \<in> set ops \<or> (\<exists>p. Enter_puk (c_str (sc_puk c)) p \<in> set ops))"
proof -
  obtain c' where c': "sim_run ops c = Some (fst (lock_run ops (abs_card c)), c')" "card_ok c'"
      "abs_card c' = snd (lock_run ops (abs_card c))"
    using sim_run_refines [OF assms] by blast
  moreover have "fst (snd (lock_run ops (abs_card c))) = card_lock c'"
    using c'(3) by (metis abs_card_def fst_conv)
  ultimately show ?thesis
    using lock_needs_secret [of "abs_card c" ops] by (auto simp: abs_card_def)
qed

definition blank_card :: sim_card where
  "blank_card = \<lparr>sc_status = A_SIM_STATUS_ABSENT, sc_pin = replicate 5 nul, sc_puk = replicate 9 nul,
     sc_number = replicate 16 nul, sc_pin_retries = 0, sc_fileid_status = replicate 256 nul,
     sc_out_buff = replicate 256 nul\<rparr>"

definition new_card :: sim_card where
  "new_card = blank_card\<lparr>sc_status := A_SIM_STATUS_READY, sc_pin := ''0000'' @ [nul], sc_puk := ''12345678'' @ [nul],
     sc_number := ''8618012345678ff'' @ [nul]\<rparr>"

lemma asimcard_create_new: "asimcard_create blank_card True = Some new_card"
  by (simp add: asimcard_create_def blank_card_def new_card_def strncpy_def eval_nat_numeral)

theorem sim_lock_refines_witness:
  "\<exists>c'. sim_run [Enter_pin ''1111'', Enter_pin ''2222'', Enter_pin ''3333'', Enter_puk ''12345678'' ''9999'', Change_pin ''9999'' ''4321'']
      (asimcard_set_status new_card A_SIM_STATUS_PIN) = Some ([False, False, False, True, True], c')
    \<and> abs_card c' = (Unlocked, ''4321'', ''12345678'')"
proof -
  let ?c = "asimcard_set_status new_card A_SIM_STATUS_PIN"
  let ?ops = "[Enter_pin ''1111'', Enter_pin ''2222'', Enter_pin ''3333'', Enter_puk ''12345678'' ''9999'', Change_pin ''9999'' ''4321'']"
  have ok: "card_ok ?c" "list_all op_ok ?ops"
    by (simp_all add: card_ok_def asimcard_set_status_def new_card_def blank_card_def op_ok_def nul_def c_str_def)
  have abs: "abs_card ?c = (Wait_pin 3, ''0000'', ''12345678'')"
    by (simp add: abs_card_def card_lock_def asimcard_set_status_def new_card_def blank_card_def c_str_def nul_def)
  show ?thesis using sim_lock_refines [OF ok] by (auto simp: abs)
qed

text \<open>A PIN of more than four characters is cut when it is stored, so that the PIN that was
  given to the card does not open it.\<close>

lemma long_pin_cut:
  assumes "card_ok c" "no_nul p" "4 < length p"
  shows "\<exists>c'. asimcard_set_pin c p = Some c' \<and> \<not> fst (asimcard_check_pin c' p)"
proof -
  obtain a where a: "strncpy (sc_pin c) p A_SIM_PIN_SIZE = Some a" "c_str a = take 4 p"
    using set_pin_array [of "sc_pin c" p] assms by (auto simp: card_ok_def)
  have "length (take 4 p) \<noteq> length p" using assms(3) by simp
  then have "take 4 p \<noteq> p" by metis
  then show ?thesis using a by (simp add: asimcard_set_pin_def asimcard_check_pin_def Let_def)
qed

section \<open>The phone number\<close>

lemma new_card_prefix:
  "\<exists>p. asimcard_get_phone_number_prefix new_card (replicate 15 nul) = Some (''86180123456'', p)"
  by (simp add: asimcard_get_phone_number_prefix_def new_card_def c_str_def nul_def strncpy_def eval_nat_numeral)

text \<open>The record of the number holds its digits with the two of each byte exchanged.\<close>

fun swap_pairs :: "string \<Rightarrow> string" where
  "swap_pairs (a # b # s) = b # a # swap_pairs s"
| "swap_pairs s = s"

lemma number_record_digits:
  assumes "length n = 16"
  shows "swap_pairs (take 16 (drop (length ''+CRSM: 144,0,ffffffffffffffffffffffffffffffffffff0991'') (number_record n)))
    = take 15 n @ ''f''"
proof -
  have "take 15 n = map (\<lambda>i. n ! i) [0..<15]" by (rule nth_equalityI) (simp_all add: assms)
  moreover have "[0..<15] = [0, 1, 2, 3, 4, 5, 6, 7, 8, 9, 10, 11, 12, 13, 14]" by (simp add: upt_rec)
  ultimately show ?thesis by (simp add: number_record_def)
qed

section \<open>Authentication answers\<close>

definition b64_value :: "char \<Rightarrow> int" where
  "b64_value c = int (length (takeWhile (\<lambda>d. d \<noteq> c) cb64))"

definition b64_bytes :: "int \<Rightarrow> int \<Rightarrow> int \<Rightarrow> int \<Rightarrow> int list" where
  "b64_bytes w x y z = [w * 4 + x div 16, x mod 16 * 16 + y div 4, y mod 4 * 64 + z]"

fun base64_decode :: "string \<Rightarrow> int list" where
  "base64_decode (w # x # y # z # s) =
     take (if y = CHR ''='' then 1 else if z = CHR ''='' then 2 else 3)
       (b64_bytes (b64_value w) (b64_value x) (b64_value y) (b64_value z)) @ base64_decode s"
| "base64_decode _ = []"

lemma cb64_value: "0 \<le> i \<Longrightarrow> i < 64 \<Longrightarrow> cb64_at i = Some (cb64 ! nat i) \<and> b64_value (cb64 ! nat i) = i \<and> cb64 ! nat i \<noteq> CHR ''=''"
proof -
  assume i: "0 \<le> i" "i < 64"
  have "\<forall>k \<in> set [0..<64]. b64_value (cb64 ! k) = int k \<and> cb64 ! k \<noteq> CHR ''=''" by code_simp
  then have "b64_value (cb64 ! nat i) = int (nat i) \<and> cb64 ! nat i \<noteq> CHR ''=''" using i by auto
  then show ?thesis using i by (simp add: cb64_at_def)
qed

lemma base64_indices:
  fixes a b c :: int
  shows "push_bit 4 (a AND 3) OR drop_bit 4 (b AND 0xf0) = a mod 4 * 16 + b mod 256 div 16"
    "push_bit 2 (b AND 0xf) OR drop_bit 6 (c AND 0xc0) = b mod 16 * 4 + c mod 256 div 64"
    "c AND 0x3f = c mod 64"
proof -
  have m: "v AND mask n = v mod 2 ^ n" for v :: int and n by (simp add: take_bit_eq_mask [symmetric] take_bit_eq_mod)
  have d: "drop_bit 4 (b AND 0xf0) = b mod 256 div 16" "drop_bit 6 (c AND 0xc0) = c mod 256 div 64"
  proof -
    have "drop_bit 4 (b AND 0xf0) = drop_bit 4 b AND mask 4" by (simp add: mask_eq_exp_minus_1)
    also have "\<dots> = b div 16 mod 16" by (simp only: m drop_bit_eq_div) simp
    also have "\<dots> = b mod 256 div 16" by (simp add: zmod_zmult2_eq [of 16 b 16, simplified])
    finally show "drop_bit 4 (b AND 0xf0) = b mod 256 div 16" .
    have "drop_bit 6 (c AND 0xc0) = drop_bit 6 c AND mask 2" by (simp add: mask_eq_exp_minus_1)
    also have "\<dots> = c div 64 mod 4" by (simp only: m drop_bit_eq_div) simp
    also have "\<dots> = c mod 256 div 64" by (simp add: zmod_zmult2_eq [of 4 c 64, simplified])
    finally show "drop_bit 6 (c AND 0xc0) = c mod 256 div 64" .
  qed
  have s: "a AND 3 = a mod 4" "b AND 0xf = b mod 16" "c AND 0x3f = c mod 64"
    using m [of a 2] m [of b 4] m [of c 6] by (simp_all add: mask_eq_exp_minus_1)
  show "push_bit 4 (a AND 3) OR drop_bit 4 (b AND 0xf0) = a mod 4 * 16 + b mod 256 div 16"
    unfolding d s using join_bits [of "b mod 256 div 16" 4 "a mod 4"] by simp
  show "push_bit 2 (b AND 0xf) OR drop_bit 6 (c AND 0xc0) = b mod 16 * 4 + c mod 256 div 64"
    unfolding d s using join_bits [of "c mod 256 div 64" 2 "b mod 16"] by simp
  show "c AND 0x3f = c mod 64" by (rule s(3))
qed

lemma base64_group_bytes:
  assumes "0 \<le> a" "a < 256"
  shows "\<exists>w x y z. base64_group a b c = Some [w, x, y, z] \<and> y \<noteq> CHR ''='' \<and> z \<noteq> CHR ''=''
    \<and> b64_bytes (b64_value w) (b64_value x) (b64_value y) (b64_value z) = [a, b mod 256, c mod 256]
    \<and> (\<forall>u. take 2 (b64_bytes (b64_value w) (b64_value x) (b64_value y) u) = [a, b mod 256])
    \<and> (\<forall>u v. take 1 (b64_bytes (b64_value w) (b64_value x) v u) = [a])"
proof -
  have w: "0 \<le> drop_bit 2 a" "drop_bit 2 a < 64" using assms by (auto simp: drop_bit_eq_div)
  have q: "0 \<le> b mod 256 div 16" "b mod 256 div 16 < 16" "0 \<le> c mod 256 div 64" "c mod 256 div 64 < 4"
    using pos_mod_bound [of 256 b] pos_mod_sign [of 256 b] pos_mod_bound [of 256 c] pos_mod_sign [of 256 c] by auto
  have lin: "0 \<le> p \<Longrightarrow> p < 4 \<Longrightarrow> 0 \<le> t \<Longrightarrow> t < 16 \<Longrightarrow> 0 \<le> p * 16 + t \<and> p * 16 + t < 64"
    and lin4: "0 \<le> p \<Longrightarrow> p < 16 \<Longrightarrow> 0 \<le> t \<Longrightarrow> t < 4 \<Longrightarrow> 0 \<le> p * 4 + t \<and> p * 4 + t < 64" for p t :: int
    by auto
  have r: "0 \<le> a mod 4" "a mod 4 < 4" "0 \<le> b mod 16" "b mod 16 < 16" by simp_all
  have x: "0 \<le> a mod 4 * 16 + b mod 256 div 16" "a mod 4 * 16 + b mod 256 div 16 < 64"
    by (rule conjunct1 [OF lin [OF r(1,2) q(1,2)]], rule conjunct2 [OF lin [OF r(1,2) q(1,2)]])
  have y: "0 \<le> b mod 16 * 4 + c mod 256 div 64" "b mod 16 * 4 + c mod 256 div 64 < 64"
    by (rule conjunct1 [OF lin4 [OF r(3,4) q(3,4)]], rule conjunct2 [OF lin4 [OF r(3,4) q(3,4)]])
  have z: "0 \<le> c mod 64" "c mod 64 < 64" by simp_all
  note V = cb64_value [OF w] cb64_value [OF x] cb64_value [OF y] cb64_value [OF z]
  have g: "base64_group a b c = Some [cb64 ! nat (drop_bit 2 a), cb64 ! nat (a mod 4 * 16 + b mod 256 div 16),
      cb64 ! nat (b mod 16 * 4 + c mod 256 div 64), cb64 ! nat (c mod 64)]"
    unfolding base64_group_def base64_indices conjunct1 [OF V(1)] conjunct1 [OF V(2)] conjunct1 [OF V(3)]
      conjunct1 [OF V(4)] option.case ..
  have split: "0 \<le> t \<Longrightarrow> t < m \<Longrightarrow> 0 < m \<Longrightarrow> (p * m + t) div m = p \<and> (p * m + t) mod m = t" for p t m :: int
    by simp
  note sb = split [OF q(1,2) zero_less_numeral, of "a mod 4"] and sc = split [OF q(3,4) zero_less_numeral, of "b mod 16"]
  have d4: "drop_bit 2 a = a div 4" by (simp add: drop_bit_eq_div)
  have m: "b mod 256 mod 16 = b mod 16" "c mod 256 mod 64 = c mod 64" by (rule mod_mod_cancel, simp)+
  have aa: "drop_bit 2 a * 4 + (a mod 4 * 16 + b mod 256 div 16) div 16 = a"
    unfolding conjunct1 [OF sb] d4 by (rule div_mult_mod_eq)
  have bb: "(a mod 4 * 16 + b mod 256 div 16) mod 16 * 16 + (b mod 16 * 4 + c mod 256 div 64) div 4 = b mod 256"
    using div_mult_mod_eq [of "b mod 256" 16] unfolding conjunct2 [OF sb] conjunct1 [OF sc] m .
  have cc: "(b mod 16 * 4 + c mod 256 div 64) mod 4 * 64 + c mod 64 = c mod 256"
    using div_mult_mod_eq [of "c mod 256" 64] unfolding conjunct2 [OF sc] m .
  have tk: "take 2 [p, t, u] = [p, t]" "take 1 [p, t, u] = [p]" for p t u :: int by simp_all
  note val = V [THEN conjunct2, THEN conjunct1] and ne = V [THEN conjunct2, THEN conjunct2]
  show ?thesis
  proof (intro exI conjI allI)
    show "base64_group a b c = Some [cb64 ! nat (drop_bit 2 a), cb64 ! nat (a mod 4 * 16 + b mod 256 div 16),
      cb64 ! nat (b mod 16 * 4 + c mod 256 div 64), cb64 ! nat (c mod 64)]" by (rule g)
  qed (unfold b64_bytes_def val tk aa bb cc, (rule ne refl)+)
qed

lemma of_char_range: "0 \<le> (of_char c :: int)" "(of_char c :: int) < 256"
proof -
  have "(of_char c :: int) = int (of_char c)" by (rule of_nat_of_char [symmetric])
  then show "0 \<le> (of_char c :: int)" "(of_char c :: int) < 256" using nat_of_char_less_256 [of c] by linarith+
qed

lemma schar_mod: "schar c mod 256 = of_char c"
proof -
  have "schar c mod 256 = take_bit 8 (signed_take_bit 7 (of_char c))"
    unfolding schar_def by (simp add: take_bit_eq_mod)
  also have "\<dots> = take_bit 8 (of_char c)" by (rule take_bit_signed_take_bit) simp
  also have "\<dots> = of_char c" using of_char_range [of c] by (intro take_bit_int_eq_self) simp_all
  finally show ?thesis .
qed

lemma schar_ascii: "(of_char c :: int) < 128 \<Longrightarrow> schar c = of_char c"
  unfolding schar_def using of_char_range(1) [of c] by (intro signed_take_bit_int_eq_self) simp_all

lemma base64_encode_decodes:
  assumes "\<forall>c \<in> set s. (of_char c :: int) < 128" "4 * int ((length s + 2) div 3) \<le> n"
  shows "\<exists>e. proxy_base64_encode s n = Some (Some e) \<and> length e = 4 * ((length s + 2) div 3) \<and> base64_decode e = map of_char s"
  using assms
proof (induction s n rule: proxy_base64_encode.induct)
  case (1 a b c src n)
  have "schar a = of_char a" using "1.prems" schar_ascii by simp
  then obtain w x y z where g: "base64_group (schar a) (schar b) (schar c) = Some [w, x, y, z]"
      "y \<noteq> CHR ''=''" "z \<noteq> CHR ''=''"
      "b64_bytes (b64_value w) (b64_value x) (b64_value y) (b64_value z) = [of_char a, of_char b, of_char c]"
    using base64_group_bytes [of "schar a" "schar b" "schar c"] of_char_range [of a] unfolding schar_mod by auto
  have len: "(length (a # b # c # src) + 2) div 3 = (length src + 2) div 3 + 1"
    using div_add_self2 [of 3 "length src + 2"] by (simp add: add.commute)
  have rest: "4 * int ((length src + 2) div 3) \<le> n - 4" using "1.prems"(2) unfolding len by simp
  moreover have "0 \<le> 4 * int ((length src + 2) div 3)" by simp
  ultimately have four: "4 \<le> n" by linarith
  obtain e where "proxy_base64_encode src (n - 4) = Some (Some e)" "length e = 4 * ((length src + 2) div 3)"
      "base64_decode e = map of_char src"
    using "1.IH" [OF four g(1)] "1.prems"(1) rest by auto
  then show ?case using g(1-4) four len by (simp only: proxy_base64_encode.simps if_True option.case option.map) simp
next
  case (3 a n)
  then show ?case using base64_group_bytes [of "of_char a" 0 0] of_char_range [of a] by auto
next
  case (4 a b n)
  then show ?case using base64_group_bytes [of "of_char a" "of_char b" 0] of_char_range [of a] of_char_range [of b] by auto
qed simp

text \<open>A challenge of length zero divides by zero.\<close>

lemma csim_zero_length:
  "asimcard_csim (''+CSIM=22,'' @ CHR 0x22 # ''008800800011223300'' @ [CHR 0x22, nul]) = None"
  by (simp add: asimcard_csim_def c_str_def nul_def strchr_def scan_hex2_def is_space_def digit_value_def
      digits_value_def make_SRES_Kc_def Let_def)

text \<open>The answer to a challenge carries its first twelve characters, repeated if there are
  fewer.\<close>

lemma make_SRES_Kc_challenge:
  assumes "0 < len" "len \<le> length data"
  shows "\<exists>sres kc. make_SRES_Kc data len = Some (sres, kc) \<and> length sres = 4 \<and> length kc = 8
    \<and> sres @ kc = map (\<lambda>j. data ! (j mod len)) [0..<12]"
proof -
  have "j mod len < length data" for j using assms by (meson mod_less_divisor order_less_le_trans)
  then have "\<not> (\<exists>j \<in> set [0..<12]. length data \<le> j mod len)" by (simp add: not_le)
  moreover have "map (\<lambda>j. data ! (j mod len)) [0..<4] @ map (\<lambda>j. data ! (j mod len)) [4..<12] = map (\<lambda>j. data ! (j mod len)) [0..<12]"
    using upt_add_eq_append [of 0 4 8] by simp
  ultimately show ?thesis using assms(1) by (simp add: make_SRES_Kc_def)
qed

end
