(* ===== verification/Gsm_Codec.thy ===== *)
theory Gsm_Codec
  imports Vsoc_Prelude "HOL-Library.Signed_Division"
begin

text \<open>
  Number and byte codecs of the modem, after \<^verbatim>\<open>hw/express-network/em_gsm.c\<close>: nibble digits,
  hexadecimal text, dial numbers and ropes. A function that fills a destination, which
  its comment asks to be properly sized, returns the bytes it stores there; with a
  destination of \<^verbatim>\<open>NULL\<close> it returns the same number without storing. Reading behind the end
  of a source is \<open>None\<close>.
\<close>

section \<open>Nibbles and hexadecimal digits\<close>

definition gsm_int_to_bcdi :: "int \<Rightarrow> byte" where
  "gsm_int_to_bcdi value = of_int ((value sdiv 10) OR push_bit 4 (value smod 10))"

definition gsm_int_from_bcdi :: "byte \<Rightarrow> int" where
  "gsm_int_from_bcdi val =
     (let v = uint val;
          ret = (if v AND 0xf0 \<le> 0x90 then drop_bit 4 v else 0) in
      if v AND 0x0f \<le> 0x90 then ret OR ((v smod 0xf) * 10) else ret)"

text \<open>The characters \<open>0\<close>, \<open>a\<close> and \<open>A\<close> are 48, 97 and 65; a \<^verbatim>\<open>char\<close> is signed.\<close>

definition gsm_hexchar_to_int :: "byte \<Rightarrow> int" where
  "gsm_hexchar_to_int ch =
     (let c = sint ch in
      if c_uint (c - 48) < 10 then c - 48
      else if c_uint (c - 97) < 6 then 10 + (c - 97)
      else if c_uint (c - 65) < 6 then 10 + (c - 65)
      else - 1)"

definition gsm_hexchar_to_int0 :: "byte \<Rightarrow> int" where
  "gsm_hexchar_to_int0 c = (let ret = gsm_hexchar_to_int c in if ret < 0 then 0 else ret)"

fun gsm_hex2_to_byte :: "byte list \<Rightarrow> int option" where
  "gsm_hex2_to_byte (h # l # _) =
     (let hi = gsm_hexchar_to_int h; lo = gsm_hexchar_to_int l in
      Some (if hi < 0 \<or> lo < 0 then - 1 else push_bit 4 hi OR lo))"
| "gsm_hex2_to_byte _ = None"

definition gsm_hex4_to_short :: "byte list \<Rightarrow> int option" where
  "gsm_hex4_to_short hex =
     (case (gsm_hex2_to_byte hex, gsm_hex2_to_byte (drop 2 hex)) of
        (Some hi, Some lo) \<Rightarrow> Some (if hi < 0 \<or> lo < 0 then - 1 else push_bit 8 hi OR lo)
      | _ \<Rightarrow> None)"

fun gsm_hex2_to_byte0 :: "byte list \<Rightarrow> int option" where
  "gsm_hex2_to_byte0 (h # l # _) =
     Some (uint (of_int (push_bit 4 (gsm_hexchar_to_int0 h) OR gsm_hexchar_to_int0 l) :: byte))"
| "gsm_hex2_to_byte0 _ = None"

definition hexdigits :: "byte list" where
  "hexdigits = [48, 49, 50, 51, 52, 53, 54, 55, 56, 57, 97, 98, 99, 100, 101, 102]"

definition gsm_hex_from_byte :: "int \<Rightarrow> byte list" where
  "gsm_hex_from_byte val = [hexdigits ! nat (drop_bit 4 val AND 15), hexdigits ! nat (val AND 15)]"

definition gsm_hex_from_short :: "int \<Rightarrow> byte list" where
  "gsm_hex_from_short val = gsm_hex_from_byte (drop_bit 8 val) @ gsm_hex_from_byte val"

section \<open>Hexadecimal text\<close>

fun hex0_loop :: "nat \<Rightarrow> byte list \<Rightarrow> byte list option" where
  "hex0_loop 0 hex = Some []"
| "hex0_loop (Suc n) hex =
     (case gsm_hex2_to_byte0 hex of
        None \<Rightarrow> None
      | Some c \<Rightarrow> map_option (\<lambda>bs. of_int c # bs) (hex0_loop n (drop 2 hex)))"

definition gsm_hex_to_bytes0 :: "byte list \<Rightarrow> int \<Rightarrow> byte list option" where
  "gsm_hex_to_bytes0 hex hexlen =
     (let n = nat (hexlen sdiv 2) in
      case hex0_loop n hex of
        None \<Rightarrow> None
      | Some bs \<Rightarrow>
          (if hexlen AND 1 = 0 then Some bs
           else if 2 * n < length hex
           then Some (bs @ [of_int (push_bit 4 (gsm_hexchar_to_int0 (hex ! (2 * n))))])
           else None))"

text \<open>The loop returns whether it met digits only, and the bytes stored so far.\<close>

fun hex_loop :: "nat \<Rightarrow> byte list \<Rightarrow> (bool \<times> byte list) option" where
  "hex_loop 0 hex = Some (True, [])"
| "hex_loop (Suc n) hex =
     (case gsm_hex2_to_byte hex of
        None \<Rightarrow> None
      | Some c \<Rightarrow>
          (if c < 0 then Some (False, [])
           else map_option (\<lambda>(ok, bs). (ok, of_int c # bs)) (hex_loop n (drop 2 hex))))"

definition gsm_hex_to_bytes :: "byte list \<Rightarrow> int \<Rightarrow> (int \<times> byte list) option" where
  "gsm_hex_to_bytes hex hexlen =
     (if hexlen AND 1 \<noteq> 0 then Some (- 1, [])
      else map_option (\<lambda>(ok, bs). (if ok then hexlen sdiv 2 else - 1, bs)) (hex_loop (nat (hexlen sdiv 2)) hex))"

definition gsm_hex_from_bytes :: "byte list \<Rightarrow> byte list" where
  "gsm_hex_from_bytes src = concat (map (\<lambda>b. gsm_hex_from_byte (uint b)) src)"

section \<open>Dial numbers\<close>

text \<open>
  The characters of dial numbers are the digits, \<open>*\<close> (42), \<open>#\<close> (35), a comma (44) and \<open>N\<close> (78).
  Decoding never decreases its counter, so it ends only for a count of one, at a nibble
  15; otherwise it runs behind the end of its source.
\<close>

definition bcdnum_chars :: "byte list" where
  "bcdnum_chars = [48, 49, 50, 51, 52, 53, 54, 55, 56, 57, 42, 35, 44, 78]"

fun bcdnum_to_ascii_loop :: "int \<Rightarrow> int list \<Rightarrow> byte list option" where
  "bcdnum_to_ascii_loop count [] = (if count > 0 then None else Some [])"
| "bcdnum_to_ascii_loop count (c # nibbles) =
     (if count > 0 then
        (if c = 15 \<and> count = 1 then Some []
         else map_option (\<lambda>ds. bcdnum_chars ! nat (if c \<ge> 14 then 0 else c) # ds)
                (bcdnum_to_ascii_loop count nibbles))
      else Some [])"

definition nibbles_of :: "byte list \<Rightarrow> int list" where
  "nibbles_of bcd = concat (map (\<lambda>b. [uint b AND 0xf, drop_bit 4 (uint b) AND 0xf]) bcd)"

definition gsm_bcdnum_to_ascii :: "byte list \<Rightarrow> int \<Rightarrow> byte list option" where
  "gsm_bcdnum_to_ascii bcd count = bcdnum_to_ascii_loop count (nibbles_of bcd)"

definition bcdnum_digit :: "byte \<Rightarrow> int option" where
  "bcdnum_digit ch =
     (let c = uint ch in
      if c = 42 then Some 10 else if c = 35 then Some 11 else if c = 44 then Some 12 else if c = 78 then Some 13
      else if c_uint (c - 48) \<ge> 10 then None else Some (c - 48))"

text \<open>
  Encoding stores into \<open>dst\<close>, or counts only when it is \<open>None\<close>; the result is the number of
  nibbles or -1.
\<close>

definition store_opt :: "byte list option \<Rightarrow> int \<Rightarrow> int \<Rightarrow> byte list option option" where
  "store_opt dst i v =
     (case dst of
        None \<Rightarrow> Some None
      | Some d \<Rightarrow> if 0 \<le> i \<and> i < int (length d) then Some (Some (d[nat i := of_int v])) else None)"

fun bcdnum_from_ascii_loop :: "byte list \<Rightarrow> int \<Rightarrow> int \<Rightarrow> byte list option \<Rightarrow> (int \<times> byte list option) option" where
  "bcdnum_from_ascii_loop [] result phase dst =
     (if result AND 1 \<noteq> 0
      then map_option (\<lambda>d. (result, d)) (store_opt dst (result sdiv 2) (phase OR 0xf0))
      else Some (result, dst))"
| "bcdnum_from_ascii_loop (ch # ascii) result phase dst =
     (case bcdnum_digit ch of
        None \<Rightarrow> Some (- 1, dst)
      | Some c \<Rightarrow>
          (let phase = push_bit 4 phase OR c; result = result + 1 in
           if phase AND 0x100 \<noteq> 0 then
             (case store_opt dst (result sdiv 2) phase of
                None \<Rightarrow> None
              | Some d \<Rightarrow> bcdnum_from_ascii_loop ascii result 0x01 d)
           else bcdnum_from_ascii_loop ascii result phase dst))"

definition gsm_bcdnum_from_ascii :: "byte list \<Rightarrow> byte list option \<Rightarrow> (int \<times> byte list option) option" where
  "gsm_bcdnum_from_ascii ascii dst = bcdnum_from_ascii_loop ascii 0 0x01 dst"

section \<open>Ropes\<close>

text \<open>
  The data of a rope: \<^verbatim>\<open>NULL\<close> while it only counts, the 16 bytes inside of the structure, or
  allocated memory.
\<close>

datatype rope_data = Rope_null | Rope_data0 "byte list" | Rope_heap "byte list"

record gsm_rope =
  rp_data :: rope_data
  rp_max :: int
  rp_pos :: int
  rp_error :: int

definition gsm_rope_init :: gsm_rope where
  "gsm_rope_init = \<lparr>rp_data = Rope_null, rp_max = 0, rp_pos = 0, rp_error = 0\<rparr>"

text \<open>\<open>ok\<close> says whether the allocation succeeds; \<open>d0\<close> is what the structure holds.\<close>

definition gsm_rope_init_alloc :: "byte list \<Rightarrow> bool \<Rightarrow> int \<Rightarrow> gsm_rope" where
  "gsm_rope_init_alloc d0 ok count =
     (if count > 0 then
        (if ok then \<lparr>rp_data = Rope_heap (replicate (nat count) 0), rp_max = count, rp_pos = 0, rp_error = 0\<rparr>
         else \<lparr>rp_data = Rope_null, rp_max = 0, rp_pos = 0, rp_error = 1\<rparr>)
      else \<lparr>rp_data = Rope_data0 d0, rp_max = 16, rp_pos = 0, rp_error = 0\<rparr>)"

definition gsm_rope_done :: "gsm_rope \<Rightarrow> int \<times> gsm_rope" where
  "gsm_rope_done rope = (rp_error rope, \<lparr>rp_data = Rope_null, rp_max = 0, rp_pos = 0, rp_error = 0\<rparr>)"

text \<open>The outer \<open>None\<close> is a copy from behind the structure, the inner one \<^verbatim>\<open>NULL\<close>.\<close>

definition gsm_rope_done_acquire :: "bool \<Rightarrow> gsm_rope \<Rightarrow> (byte list option \<times> int) option" where
  "gsm_rope_done_acquire ok rope =
     (case rp_data rope of
        Rope_null \<Rightarrow> Some (None, rp_pos rope)
      | Rope_heap b \<Rightarrow> Some (Some b, rp_pos rope)
      | Rope_data0 d \<Rightarrow>
          (if ok then map_option (\<lambda>b. (Some b, rp_pos rope)) (buf_read d 0 (rp_pos rope))
           else Some (None, rp_pos rope)))"

partial_function (option) rope_grow :: "int \<Rightarrow> int \<Rightarrow> int option" where
  "rope_grow new_max new_count =
     (if new_max < new_count then rope_grow (c_int (new_max + (drop_bit 1 new_max + 4))) new_count
      else Some new_max)"

text \<open>
  \<open>realloc n\<close> is fresh memory of \<open>n\<close> bytes or \<open>None\<close>. Bytes are kept from allocated memory
  only: for the bytes inside of the structure \<^verbatim>\<open>realloc\<close> is called with \<^verbatim>\<open>NULL\<close>.
\<close>

definition gsm_rope_ensure :: "(int \<Rightarrow> byte list option) \<Rightarrow> int \<Rightarrow> gsm_rope \<Rightarrow> (int \<times> gsm_rope) option" where
  "gsm_rope_ensure realloc new_count rope =
     (if rp_data rope = Rope_null then Some (0, rope\<lparr>rp_max := new_count\<rparr>)
      else
        (case rope_grow (rp_max rope) new_count of
           None \<Rightarrow> None
         | Some new_max \<Rightarrow>
             (case realloc new_max of
                None \<Rightarrow> Some (- 1, rope\<lparr>rp_error := 1\<rparr>)
              | Some fresh \<Rightarrow>
                  Some (0, rope\<lparr>rp_data := Rope_heap (case rp_data rope of
                                               Rope_heap b \<Rightarrow> b @ drop (length b) fresh
                                             | _ \<Rightarrow> fresh),
                                rp_max := new_max\<rparr>))))"

definition gsm_rope_can_grow :: "(int \<Rightarrow> byte list option) \<Rightarrow> int \<Rightarrow> gsm_rope \<Rightarrow> (bool \<times> gsm_rope) option" where
  "gsm_rope_can_grow realloc count rope =
     (if rp_data rope = Rope_null \<or> rp_error rope \<noteq> 0 then Some (False, rope)
      else if c_int (rp_pos rope + count) > rp_max rope then
        map_option (\<lambda>(r, rope'). (0 \<le> r, rope')) (gsm_rope_ensure realloc (c_int (rp_pos rope + count)) rope)
      else Some (True, rope))"

definition rope_store :: "gsm_rope \<Rightarrow> byte list \<Rightarrow> gsm_rope option" where
  "rope_store rope buf =
     (case rp_data rope of
        Rope_null \<Rightarrow> None
      | Rope_data0 b \<Rightarrow> map_option (\<lambda>b'. rope\<lparr>rp_data := Rope_data0 b'\<rparr>) (buf_write b (rp_pos rope) buf)
      | Rope_heap b \<Rightarrow> map_option (\<lambda>b'. rope\<lparr>rp_data := Rope_heap b'\<rparr>) (buf_write b (rp_pos rope) buf))"

definition gsm_rope_add :: "(int \<Rightarrow> byte list option) \<Rightarrow> byte list \<Rightarrow> gsm_rope \<Rightarrow> gsm_rope option" where
  "gsm_rope_add realloc buf rope =
     (case gsm_rope_can_grow realloc (int (length buf)) rope of
        None \<Rightarrow> None
      | Some (ok, rope') \<Rightarrow>
          map_option (\<lambda>r. r\<lparr>rp_pos := c_int (rp_pos r + int (length buf))\<rparr>)
            (if ok then rope_store rope' buf else Some rope'))"

definition gsm_rope_add_c :: "(int \<Rightarrow> byte list option) \<Rightarrow> byte \<Rightarrow> gsm_rope \<Rightarrow> gsm_rope option" where
  "gsm_rope_add_c realloc c rope =
     (case gsm_rope_can_grow realloc 1 rope of
        None \<Rightarrow> None
      | Some (ok, rope') \<Rightarrow>
          map_option (\<lambda>r. r\<lparr>rp_pos := c_int (rp_pos r + 1)\<rparr>)
            (if ok then rope_store rope' [c] else Some rope'))"

text \<open>The reserved place is its offset in the data, or \<open>None\<close>.\<close>

definition gsm_rope_reserve :: "(int \<Rightarrow> byte list option) \<Rightarrow> int \<Rightarrow> gsm_rope \<Rightarrow> (int option \<times> gsm_rope) option" where
  "gsm_rope_reserve realloc count rope =
     map_option (\<lambda>(ok, r). (if ok then Some (rp_pos r) else None, r\<lparr>rp_pos := c_int (rp_pos r + count)\<rparr>))
       (gsm_rope_can_grow realloc count rope)"

section \<open>Lemmas on hexadecimal text\<close>

lemma hexdigit_int: "n < 16 \<Longrightarrow> gsm_hexchar_to_int (hexdigits ! n) = int n"
proof -
  have "\<forall>n\<in>set [0..<16]. gsm_hexchar_to_int (hexdigits ! n) = int n" by code_simp
  then show "n < 16 \<Longrightarrow> gsm_hexchar_to_int (hexdigits ! n) = int n" by simp
qed

lemma nibble_int: "nat (v AND 15) < 16" "int (nat (v AND 15)) = v AND 15"
  using AND_upper2 [of 15 v] by (auto simp: nat_less_iff)

lemma nibbles_join: "push_bit 4 (drop_bit 4 v AND 15) OR (v AND 15) = take_bit 8 v" for v :: int
proof (rule bit_eqI)
  fix n
  have m: "(15 :: int) = mask 4" by (simp add: mask_numeral)
  show "bit (push_bit 4 (drop_bit 4 v AND 15) OR (v AND 15)) n = bit (take_bit 8 v) n"
    unfolding m by (auto simp: bit_simps)
qed

lemma hex2_from_byte: "gsm_hex2_to_byte (gsm_hex_from_byte v @ rest) = Some (take_bit 8 v)"
  by (simp add: gsm_hex_from_byte_def hexdigit_int nibble_int nibbles_join [symmetric])

lemma length_hex_from_byte [simp]: "length (gsm_hex_from_byte v) = 2"
  by (simp add: gsm_hex_from_byte_def)

lemma hex_loop_from_bytes: "hex_loop (length bs) (gsm_hex_from_bytes bs @ rest) = Some (True, bs)"
proof (induction bs)
  case (Cons b bs)
  have "take_bit 8 (uint b) = uint b" using uint_lt2p [of b] by (intro take_bit_int_eq_self) simp_all
  moreover have "drop 2 (gsm_hex_from_byte (uint b) @ ys) = ys" for ys by simp
  ultimately show ?case using Cons by (simp add: gsm_hex_from_bytes_def hex2_from_byte del: drop_append)
qed (simp add: gsm_hex_from_bytes_def)

lemma hex2_neg: "gsm_hex2_to_byte (h # l # xs) = Some c \<Longrightarrow> c < 0 \<longleftrightarrow> gsm_hexchar_to_int h < 0 \<or> gsm_hexchar_to_int l < 0"
  by (auto simp: Let_def split: if_splits)

lemma hex_loop_ok:
  "length hex = 2 * n \<Longrightarrow> \<exists>bs. hex_loop n hex = Some (list_all (\<lambda>c. 0 \<le> gsm_hexchar_to_int c) hex, bs)"
proof (induction n arbitrary: hex)
  case (Suc n)
  then obtain h l xs where hex: "hex = h # l # xs" "length xs = 2 * n"
    by (cases hex; cases "tl hex") auto
  obtain c where c: "gsm_hex2_to_byte (h # l # xs) = Some c" by (auto simp: Let_def)
  from Suc.IH [OF hex(2)] obtain bs where
    "hex_loop n xs = Some (list_all (\<lambda>c. 0 \<le> gsm_hexchar_to_int c) xs, bs)" by blast
  with c hex2_neg [OF c] show ?case
    by (cases "c < 0") (auto simp: hex(1) simp del: gsm_hex2_to_byte.simps)
qed simp

section \<open>Lemmas on ropes\<close>

lemma rope_grow_ends:
  assumes "0 \<le> new_max" "new_count \<le> 2 ^ 30"
  shows "\<exists>m. rope_grow new_max new_count = Some m \<and> new_max \<le> m \<and> new_count \<le> m"
  using assms(1)
proof (induction "nat (new_count - new_max)" arbitrary: new_max rule: less_induct)
  case less
  show ?case
  proof (cases "new_max < new_count")
    case True
    let ?n = "new_max + (drop_bit 1 new_max + 4)"
    have half: "0 \<le> drop_bit 1 new_max" "drop_bit 1 new_max \<le> new_max"
      using less.prems by (simp_all add: drop_bit_eq_div)
    have "?n < 2147483648" using True assms(2) less.prems half by (simp add: drop_bit_eq_div)
    with half less.prems have n: "c_int ?n = ?n" by simp
    have "nat (new_count - ?n) < nat (new_count - new_max)" "0 \<le> ?n" using True half less.prems by linarith+
    from less.hyps [OF this] show ?thesis using True half n by (subst rope_grow.simps) auto
  next
    case False
    then show ?thesis by (subst rope_grow.simps) simp
  qed
qed

definition rope_ok :: "byte list \<Rightarrow> gsm_rope \<Rightarrow> bool" where
  "rope_ok bs rope \<longleftrightarrow> rp_error rope = 0 \<and> rp_pos rope = int (length bs) \<and> length bs \<le> 2 ^ 30
     \<and> (\<exists>b. rp_data rope = Rope_heap b \<and> int (length b) = rp_max rope \<and> take (length bs) b = bs
            \<and> length bs \<le> length b)"

definition rope_counts :: "nat \<Rightarrow> gsm_rope \<Rightarrow> bool" where
  "rope_counts n rope \<longleftrightarrow> rp_data rope = Rope_null \<and> rp_pos rope = int n \<and> n \<le> 2 ^ 30"

lemma rope_can_grow_ok:
  assumes "rope_ok bs rope" "length bs + n \<le> 2 ^ 30"
    and realloc: "\<And>k. 0 \<le> k \<Longrightarrow> \<exists>fresh. realloc k = Some fresh \<and> int (length fresh) = k"
  shows "\<exists>rope'. gsm_rope_can_grow realloc (int n) rope = Some (True, rope') \<and> rope_ok bs rope'
    \<and> int (length bs + n) \<le> rp_max rope'"
proof -
  from assms(1) obtain b where b: "rp_data rope = Rope_heap b" "int (length b) = rp_max rope"
      "take (length bs) b = bs" "length bs \<le> length b" and p: "rp_pos rope = int (length bs)" "rp_error rope = 0"
    by (auto simp: rope_ok_def)
  have c: "c_int (int (length bs) + int n) = int (length bs + n)" using assms(2) by simp
  show ?thesis
  proof (cases "int (length bs + n) > rp_max rope")
    case False
    then show ?thesis using assms(1) b p c by (simp add: gsm_rope_can_grow_def)
  next
    case True
    obtain m where m: "rope_grow (rp_max rope) (int (length bs + n)) = Some m" "rp_max rope \<le> m" "int (length bs + n) \<le> m"
      using rope_grow_ends [of "rp_max rope" "int (length bs + n)"] b(2) assms(2) by auto
    obtain fresh where f: "realloc m = Some fresh" "int (length fresh) = m" using realloc [of m] m(2) b(2) by auto
    from True m f b p c assms(1) show ?thesis
      by (auto simp: gsm_rope_can_grow_def gsm_rope_ensure_def rope_ok_def)
  qed
qed

lemma rope_store_ok:
  assumes "rope_ok bs rope" "int (length bs + length buf) \<le> rp_max rope" "length bs + length buf \<le> 2 ^ 30"
  shows "\<exists>r. rope_store rope buf = Some r \<and> rope_ok (bs @ buf) (r\<lparr>rp_pos := c_int (rp_pos r + int (length buf))\<rparr>)"
proof -
  from assms obtain b where b: "rp_data rope = Rope_heap b" "int (length b) = rp_max rope"
      "take (length bs) b = bs" "rp_pos rope = int (length bs)" "rp_error rope = 0"
    by (auto simp: rope_ok_def)
  have c: "c_int (int (length bs) + int (length buf)) = int (length bs + length buf)" using assms(3) by simp
  show ?thesis using b assms c by (auto simp: rope_store_def buf_write_def rope_ok_def)
qed

lemma rope_add_ok:
  assumes "rope_ok bs rope" "length bs + length buf \<le> 2 ^ 30"
    and "\<And>k. 0 \<le> k \<Longrightarrow> \<exists>fresh. realloc k = Some fresh \<and> int (length fresh) = k"
  shows "\<exists>r. gsm_rope_add realloc buf rope = Some r \<and> rope_ok (bs @ buf) r"
proof -
  from rope_can_grow_ok [where n = "length buf", OF assms] obtain rope' where
    g: "gsm_rope_can_grow realloc (int (length buf)) rope = Some (True, rope')" "rope_ok bs rope'"
       "int (length bs + length buf) \<le> rp_max rope'" by blast
  from rope_store_ok [OF g(2,3) assms(2)] g(1) show ?thesis by (auto simp: gsm_rope_add_def)
qed

lemma rope_add_counts:
  "rope_counts n rope \<Longrightarrow> n + length buf \<le> 2 ^ 30 \<Longrightarrow>
     \<exists>r. gsm_rope_add realloc buf rope = Some r \<and> rope_counts (n + length buf) r"
  by (auto simp: gsm_rope_add_def gsm_rope_can_grow_def rope_counts_def)

section \<open>Properties\<close>

text \<open>
  Hexadecimal text of any bytes is read back to these bytes, and text is accepted
  exactly when it has an even number of characters that are all hexadecimal digits; all
  other text gives -1.
\<close>

theorem hex_roundtrip:
  "gsm_hex_to_bytes (gsm_hex_from_bytes bs @ rest) (2 * int (length bs)) = Some (int (length bs), bs)
   \<and> map_option fst (gsm_hex_to_bytes hex (int (length hex))) =
       Some (if even (length hex) \<and> list_all (\<lambda>c. 0 \<le> gsm_hexchar_to_int c) hex then int (length hex div 2) else - 1)"
proof
  have half: "(2 * int n) sdiv 2 = int n" for n by (simp add: signed_divide_int_def sgn_if)
  have even: "2 * int n AND 1 = 0" for n by (simp add: and_one_eq)
  show "gsm_hex_to_bytes (gsm_hex_from_bytes bs @ rest) (2 * int (length bs)) = Some (int (length bs), bs)"
    by (simp add: gsm_hex_to_bytes_def half even hex_loop_from_bytes)
  show "map_option fst (gsm_hex_to_bytes hex (int (length hex))) =
      Some (if even (length hex) \<and> list_all (\<lambda>c. 0 \<le> gsm_hexchar_to_int c) hex then int (length hex div 2) else - 1)"
  proof (cases "even (length hex)")
    case True
    then obtain n where n: "length hex = 2 * n" by blast
    from hex_loop_ok [OF this] obtain bs where
      "hex_loop n hex = Some (list_all (\<lambda>c. 0 \<le> gsm_hexchar_to_int c) hex, bs)" by blast
    then show ?thesis by (simp add: gsm_hex_to_bytes_def n half even)
  next
    case False
    then have "int (length hex) mod 2 = 1" by presburger
    with False show ?thesis by (simp add: gsm_hex_to_bytes_def and_one_eq)
  qed
qed

text \<open>A rope filled by a list of additions.\<close>

fun rope_adds :: "(int \<Rightarrow> byte list option) \<Rightarrow> byte list list \<Rightarrow> gsm_rope \<Rightarrow> gsm_rope option" where
  "rope_adds realloc [] rope = Some rope"
| "rope_adds realloc (b # bs) rope = Option.bind (gsm_rope_add realloc b rope) (rope_adds realloc bs)"

lemma rope_adds_ok:
  assumes "\<And>k. 0 \<le> k \<Longrightarrow> \<exists>fresh. realloc k = Some fresh \<and> int (length fresh) = k"
  shows "rope_ok bs rope \<Longrightarrow> length bs + length (concat bufs) \<le> 2 ^ 30 \<Longrightarrow>
    \<exists>r. rope_adds realloc bufs rope = Some r \<and> rope_ok (bs @ concat bufs) r"
proof (induction bufs arbitrary: bs rope)
  case (Cons b bufs)
  from Cons.prems have "length bs + length b \<le> 2 ^ 30" by simp
  from rope_add_ok [OF Cons.prems(1) this assms] obtain r where
    r: "gsm_rope_add realloc b rope = Some r" "rope_ok (bs @ b) r" by blast
  from Cons.IH [OF r(2)] Cons.prems(2) r(1) show ?case by simp
qed simp

lemma rope_adds_counts:
  "rope_counts n rope \<Longrightarrow> n + length (concat bufs) \<le> 2 ^ 30 \<Longrightarrow>
    \<exists>r. rope_adds realloc bufs rope = Some r \<and> rope_counts (n + length (concat bufs)) r"
proof (induction bufs arbitrary: n rope)
  case (Cons b bufs)
  from Cons.prems have "n + length b \<le> 2 ^ 30" by simp
  from rope_add_counts [OF Cons.prems(1) this, of realloc] obtain r where
    r: "gsm_rope_add realloc b rope = Some r" "rope_counts (n + length b) r" by blast
  from Cons.IH [OF r(2)] Cons.prems(2) r(1) show ?case by (simp add: add.assoc)
qed simp

text \<open>
  C35. The two passes over a rope agree: a rope without memory counts the bytes that are
  added, and a rope allocated with any positive size collects exactly these bytes, in
  order and without an error, growing as needed.
\<close>

theorem rope_collects:
  assumes "\<And>k. 0 \<le> k \<Longrightarrow> \<exists>fresh. realloc k = Some fresh \<and> int (length fresh) = k"
    and "0 < count" "length (concat bufs) \<le> 2 ^ 30"
  shows "\<exists>r s b. rope_adds realloc bufs gsm_rope_init = Some r \<and> rp_pos r = int (length (concat bufs))
    \<and> rope_adds realloc bufs (gsm_rope_init_alloc d0 True count) = Some s
    \<and> gsm_rope_done_acquire ok s = Some (Some b, rp_pos r) \<and> take (nat (rp_pos r)) b = concat bufs \<and> rp_error s = 0"
proof -
  have "rope_counts 0 gsm_rope_init" by (simp add: rope_counts_def gsm_rope_init_def)
  from rope_adds_counts [OF this, of bufs realloc] assms(3) obtain r where
    r: "rope_adds realloc bufs gsm_rope_init = Some r" "rp_pos r = int (length (concat bufs))"
    by (auto simp: rope_counts_def)
  have "rope_ok [] (gsm_rope_init_alloc d0 True count)"
    using assms(2) by (simp add: rope_ok_def gsm_rope_init_alloc_def)
  from rope_adds_ok [OF assms(1) this, of bufs] assms(3) obtain s where
    "rope_adds realloc bufs (gsm_rope_init_alloc d0 True count) = Some s" "rope_ok (concat bufs) s" by auto
  with r show ?thesis by (auto simp: rope_ok_def gsm_rope_done_acquire_def)
qed

theorem rope_collects_witness:
  "\<exists>r s b. rope_adds (\<lambda>k. Some (replicate (nat k) 9)) [[1, 2], [3, 4, 5]] gsm_rope_init = Some r \<and> rp_pos r = 5
    \<and> rope_adds (\<lambda>k. Some (replicate (nat k) 9)) [[1, 2], [3, 4, 5]] (gsm_rope_init_alloc [] True 1) = Some s
    \<and> gsm_rope_done_acquire True s = Some (Some b, rp_pos r) \<and> take (nat (rp_pos r)) b = [1, 2, 3, 4, 5] \<and> rp_error s = 0"
  using rope_collects [of "\<lambda>k. Some (replicate (nat k) 9)" 1 "[[1, 2], [3, 4, 5]]" "[]" True]
  by (simp del: rope_adds.simps)

section \<open>Defects\<close>

text \<open>
  Nibble digits are not read back to the number they were written from: the second digit
  is taken modulo 15 of the whole byte, and the two are joined bitwise.
\<close>

lemma bcdi_mismatch: "gsm_int_from_bcdi (gsm_int_to_bcdi 12) = 30"
  by code_simp

text \<open>Decoding a dial number of more than one digit does not end inside of its source.\<close>

lemma bcdnum_to_ascii_overruns: "1 < count \<Longrightarrow> gsm_bcdnum_to_ascii bcd count = None"
proof -
  have "1 < count \<Longrightarrow> bcdnum_to_ascii_loop count ns = None" for ns by (induction ns) auto
  then show "1 < count \<Longrightarrow> gsm_bcdnum_to_ascii bcd count = None" by (simp add: gsm_bcdnum_to_ascii_def)
qed

text \<open>Encoding a dial number leaves the first byte of the destination alone.\<close>

lemma bcdnum_from_ascii_skips: "gsm_bcdnum_from_ascii [49, 50] (Some [0, 0]) = Some (2, Some [0, 0x12])"
  by code_simp

text \<open>A rope that starts with the bytes inside of its structure loses them when it grows.\<close>

lemma rope_data0_lost:
  "rope_adds (\<lambda>k. Some (replicate (nat k) 9)) [replicate 16 1, [2]] (gsm_rope_init_alloc (replicate 16 0) True 0) =
     Some \<lparr>rp_data = Rope_heap (replicate 16 9 @ [2] @ replicate 11 9), rp_max = 28, rp_pos = 17, rp_error = 0\<rparr>"
  by (simp add: gsm_rope_init_alloc_def gsm_rope_add_def gsm_rope_can_grow_def gsm_rope_ensure_def rope_store_def
      buf_write_def rope_grow.simps eval_nat_numeral)

end
