(* ===== verification/Gsm_Alphabet.thy ===== *)
theory Gsm_Alphabet
  imports Gsm_Codec
begin

text \<open>
  Text encodings of the modem, after the second half of \<^verbatim>\<open>hw/express-network/em_gsm.c\<close>:
  UTF-8, UCS-2 and the 7-bit alphabet of GSM, packed and unpacked, and the entries of the
  phone book. A pointer into a string is the rest of the string. As in \<open>Gsm_Codec\<close> a
  function that fills a destination returns the bytes it stores there; the writer of
  packed septets works on its destination buffer.
\<close>

section \<open>UTF-8 and UCS-2\<close>

definition is_cont :: "byte \<Rightarrow> bool" where
  "is_cont b \<longleftrightarrow> uint b AND 0xc0 = 0x80"

fun skip_loop :: "nat \<Rightarrow> byte list \<Rightarrow> byte list" where
  "skip_loop (Suc n) (c # p) = skip_loop n (if uint c > 128 then dropWhile is_cont p else p)"
| "skip_loop _ p = p"

definition utf8_skip :: "byte list \<Rightarrow> int \<Rightarrow> byte list" where
  "utf8_skip utf8 count = skip_loop (nat count) utf8"

fun utf8_cont :: "int \<Rightarrow> byte list \<Rightarrow> int \<times> byte list" where
  "utf8_cont c [] = (c, [])"
| "utf8_cont c (b # p) =
     (if is_cont b then utf8_cont (c_int (push_bit 6 c OR (uint b AND 0x3f))) p else (c, b # p))"

fun utf8_next :: "byte list \<Rightarrow> int \<times> byte list" where
  "utf8_next [] = (- 1, [])"
| "utf8_next (b # p) =
     (let c = uint b in
      if c \<ge> 128 then
        utf8_cont (if c AND 0xe0 = 0xc0 then c AND 0x1f else if c AND 0xf0 = 0xe0 then c AND 0x0f else c AND 0x07) p
      else (c, p))"

definition utf8_write :: "int \<Rightarrow> byte list" where
  "utf8_write v =
     (if v < 128 then [of_int v]
      else if v < 0x800 then [of_int (0xc0 OR drop_bit 6 v), of_int (0x80 OR (v AND 0x3f))]
      else if v < 0x10000 then
        [of_int (0xe0 OR drop_bit 12 v), of_int (0x80 OR (drop_bit 6 v AND 0x3f)), of_int (0x80 OR (v AND 0x3f))]
      else
        [of_int (0xf0 OR (drop_bit 18 v AND 0x7)), of_int (0x80 OR (drop_bit 12 v AND 0x3f)),
         of_int (0x80 OR (drop_bit 6 v AND 0x3f)), of_int (0x80 OR (v AND 0x3f))])"

definition ucs2_write :: "int \<Rightarrow> byte list" where
  "ucs2_write v = [of_int (drop_bit 8 v), of_int v]"

text \<open>The length of the tail that a first byte asks for, or \<open>None\<close> for a malformed one.\<close>

definition utf8_tail_len :: "int \<Rightarrow> nat option" where
  "utf8_tail_len c =
     (if c AND 0xe0 = 0xc0 then Some 1 else if c AND 0xf0 = 0xe0 then Some 2
      else if c AND 0xf8 = 0xf0 then Some 3 else None)"

function utf8_check :: "byte list \<Rightarrow> int" where
  "utf8_check [] = 1"
| "utf8_check (b # p) =
     (let c = uint b in
      if c \<ge> 128 then
        (case utf8_tail_len c of
           None \<Rightarrow> 0
         | Some len \<Rightarrow> if len > length p then 0 else if list_all is_cont (take len p) then utf8_check (drop len p) else 0)
      else utf8_check p)"
  by pat_completeness auto
termination by (relation "measure length") auto

lemma utf8_cont_length: "length (snd (utf8_cont c p)) \<le> length p"
  by (induction c p rule: utf8_cont.induct) auto

lemma utf8_next_length: "p \<noteq> [] \<Longrightarrow> length (snd (utf8_next p)) < length p"
  using utf8_cont_length by (cases p) (auto simp: Let_def less_Suc_eq_le)

lemma utf8_next_less: "(c, q) = utf8_next p \<Longrightarrow> p \<noteq> [] \<Longrightarrow> length q < length p"
  using utf8_next_length [of p] by (metis snd_conv)

fun ucs2_to_utf8_loop :: "nat \<Rightarrow> byte list \<Rightarrow> byte list option" where
  "ucs2_to_utf8_loop 0 ucs2 = Some []"
| "ucs2_to_utf8_loop (Suc n) (hi # lo # ucs2) =
     map_option (\<lambda>r. utf8_write (push_bit 8 (uint hi) OR uint lo) @ r) (ucs2_to_utf8_loop n ucs2)"
| "ucs2_to_utf8_loop (Suc n) _ = None"

definition ucs2_to_utf8 :: "byte list \<Rightarrow> int \<Rightarrow> byte list option" where
  "ucs2_to_utf8 ucs2 ucs2len = ucs2_to_utf8_loop (nat ucs2len) ucs2"

text \<open>The number of characters is half of the number of stored bytes.\<close>

function utf8_to_ucs2 :: "byte list \<Rightarrow> byte list" where
  "utf8_to_ucs2 p =
     (if p = [] then []
      else (case utf8_next p of (c, q) \<Rightarrow> if c < 0 then [] else ucs2_write c @ utf8_to_ucs2 q))"
  by auto
termination by (relation "measure length") (auto intro: utf8_next_less)

declare utf8_to_ucs2.simps [simp del]

section \<open>The alphabet of GSM\<close>

definition GSM_7BITS_ESCAPE :: int where "GSM_7BITS_ESCAPE = 0x1b"

definition gsm7bits_to_unicode :: "int list" where
  "gsm7bits_to_unicode =
     [64, 163, 36, 165, 232, 233, 249, 236, 242, 199, 10, 216, 248, 13, 197, 229,
      0x394, 95, 0x3a6, 0x393, 0x39b, 0x3a9, 0x3a0, 0x3a8, 0x3a3, 0x398, 0x39e, 0, 198, 230, 223, 201,
      32, 33, 34, 35, 164, 37, 38, 39, 40, 41, 42, 43, 44, 45, 46, 47,
      48, 49, 50, 51, 52, 53, 54, 55, 56, 57, 58, 59, 60, 61, 62, 63,
      161, 65, 66, 67, 68, 69, 70, 71, 72, 73, 74, 75, 76, 77, 78, 79,
      80, 81, 82, 83, 84, 85, 86, 87, 88, 89, 90, 196, 214, 0x147, 220, 167,
      191, 97, 98, 99, 100, 101, 102, 103, 104, 105, 106, 107, 108, 109, 110, 111,
      112, 113, 114, 115, 116, 117, 118, 119, 120, 121, 122, 228, 246, 241, 252, 224]"

definition gsm7bits_extend_to_unicode :: "int list" where
  "gsm7bits_extend_to_unicode =
     [0, 0, 0, 0, 0, 0, 0, 0, 0, 0, 12, 0, 0, 0, 0, 0,
      0, 0, 0, 0, 94, 0, 0, 0, 0, 0, 0, 0, 0, 0, 0, 0,
      0, 0, 0, 0, 0, 0, 0, 0, 123, 125, 0, 0, 0, 0, 0, 92,
      0, 0, 0, 0, 0, 0, 0, 0, 0, 0, 0, 0, 91, 126, 93, 0,
      124, 0, 0, 0, 0, 0, 0, 0, 0, 0, 0, 0, 0, 0, 0, 0,
      0, 0, 0, 0, 0, 0, 0, 0, 0, 0, 0, 0, 0, 0, 0, 0,
      0, 0, 0, 0, 0, 0x20ac, 0, 0, 0, 0, 0, 0, 0, 0, 0, 0,
      0, 0, 0, 0, 0, 0, 0, 0, 0, 0, 0, 0, 0, 0, 0, 0]"

fun table_search :: "int list \<Rightarrow> int \<Rightarrow> int \<Rightarrow> int" where
  "table_search [] nn unicode = - 1"
| "table_search (u # us) nn unicode = (if u = unicode then nn else table_search us (nn + 1) unicode)"

definition unichar_to_gsm7 :: "int \<Rightarrow> int" where
  "unichar_to_gsm7 unicode = table_search gsm7bits_to_unicode 0 unicode"

definition unichar_to_gsm7_extend :: "int \<Rightarrow> int" where
  "unichar_to_gsm7_extend unichar = table_search gsm7bits_extend_to_unicode 0 unichar"

definition unichar_to_gsm7_count :: "int \<Rightarrow> int" where
  "unichar_to_gsm7_count unicode =
     (if unichar_to_gsm7 unicode \<ge> 0 then 1 else if unichar_to_gsm7_extend unicode \<ge> 0 then 2 else 0)"

function utf8_skip_gsm7 :: "byte list \<Rightarrow> int \<Rightarrow> byte list" where
  "utf8_skip_gsm7 p gsm7len =
     (if gsm7len > 0 \<and> p \<noteq> [] then
        (case utf8_next p of
           (c, q) \<Rightarrow>
             (if c < 0 then p
              else
                (let len = (if unichar_to_gsm7_count c = 0 then 1 else unichar_to_gsm7_count c) in
                 if len > gsm7len then p else utf8_skip_gsm7 q (gsm7len - len))))
      else p)"
  by auto
termination by (relation "measure (\<lambda>(p, n). length p)") (auto intro: utf8_next_less)

function utf8_skip_ucs2 :: "byte list \<Rightarrow> int \<Rightarrow> byte list" where
  "utf8_skip_ucs2 p ucs2len =
     (if ucs2len \<ge> 2 \<and> p \<noteq> [] then
        (case utf8_next p of (c, q) \<Rightarrow> if c < 0 then p else utf8_skip_ucs2 q (ucs2len - 2))
      else p)"
  by auto
termination by (relation "measure (\<lambda>(p, n). length p)") (auto intro: utf8_next_less)

function utf8_check_gsm7 :: "byte list \<Rightarrow> int" where
  "utf8_check_gsm7 p =
     (if p = [] then 1
      else (case utf8_next p of (c, q) \<Rightarrow> if unichar_to_gsm7_count c = 0 then 0 else utf8_check_gsm7 q))"
  by auto
termination by (relation "measure length") (auto intro: utf8_next_less)

declare utf8_skip_gsm7.simps [simp del] utf8_skip_ucs2.simps [simp del] utf8_check_gsm7.simps [simp del]

section \<open>Decoding septets\<close>

text \<open>
  The septet at bit \<open>shift\<close> of the first byte; the second byte is read only when the septet
  reaches into it.
\<close>

definition septet_at :: "byte list \<Rightarrow> int \<Rightarrow> int option" where
  "septet_at src shift =
     (case src of
        [] \<Rightarrow> None
      | b0 # rest \<Rightarrow>
          (let c = drop_bit (nat shift) (uint b0) AND 0x7f in
           if shift > 1 then
             (case rest of
                [] \<Rightarrow> None
              | b1 # _ \<Rightarrow> Some ((push_bit (nat (8 - shift)) (uint b1) OR c) AND 0x7f))
           else Some c))"

fun from_gsm7_loop :: "nat \<Rightarrow> bool \<Rightarrow> int \<Rightarrow> byte list \<Rightarrow> byte list option" where
  "from_gsm7_loop 0 escaped shift src = Some []"
| "from_gsm7_loop (Suc n) escaped shift src =
     (case septet_at src shift of
        None \<Rightarrow> None
      | Some c \<Rightarrow>
          (let shift' = (if shift + 7 \<ge> 8 then shift + 7 - 8 else shift + 7);
               src' = (if shift + 7 \<ge> 8 then drop 1 src else src) in
           if escaped then
             map_option (\<lambda>r. utf8_write (gsm7bits_extend_to_unicode ! nat c) @ r) (from_gsm7_loop n escaped shift' src')
           else if c = GSM_7BITS_ESCAPE then from_gsm7_loop n True shift' src'
           else map_option (\<lambda>r. utf8_write (gsm7bits_to_unicode ! nat c) @ r) (from_gsm7_loop n escaped shift' src')))"

definition utf8_from_gsm7 :: "byte list \<Rightarrow> int \<Rightarrow> int \<Rightarrow> byte list option" where
  "utf8_from_gsm7 src septet_offset septet_count =
     from_gsm7_loop (nat septet_count) False (septet_offset AND 7) (drop (nat (drop_bit 3 septet_offset)) src)"

fun from_gsm8_loop :: "nat \<Rightarrow> bool \<Rightarrow> byte list \<Rightarrow> byte list option" where
  "from_gsm8_loop 0 escaped src = Some []"
| "from_gsm8_loop (Suc n) escaped [] = None"
| "from_gsm8_loop (Suc n) escaped (b # src) =
     (let c = uint b in
      if c = 0xff then Some []
      else if c = GSM_7BITS_ESCAPE then
        (if escaped then map_option (\<lambda>r. utf8_write 0x20 @ r) (from_gsm8_loop n False src)
         else from_gsm8_loop n True src)
      else if c \<ge> 0x80 then map_option (\<lambda>r. utf8_write 0x20 @ r) (from_gsm8_loop n False src)
      else
        map_option (\<lambda>r. utf8_write ((if escaped then gsm7bits_extend_to_unicode else gsm7bits_to_unicode) ! nat c) @ r)
          (from_gsm8_loop n escaped src))"

definition utf8_from_gsm8 :: "byte list \<Rightarrow> int \<Rightarrow> byte list option" where
  "utf8_from_gsm8 src count = from_gsm8_loop (nat count) False src"

text \<open>This loop does not advance in its source.\<close>

fun ucs2_from_gsm7_loop :: "nat \<Rightarrow> bool \<Rightarrow> int \<Rightarrow> byte list \<Rightarrow> byte list option" where
  "ucs2_from_gsm7_loop 0 escaped shift p = Some []"
| "ucs2_from_gsm7_loop (Suc n) escaped shift p =
     (case septet_at p shift of
        None \<Rightarrow> None
      | Some val \<Rightarrow>
          (if escaped then
             map_option (\<lambda>r. ucs2_write (gsm7bits_to_unicode ! nat val) @ r) (ucs2_from_gsm7_loop n False shift p)
           else if val = GSM_7BITS_ESCAPE then ucs2_from_gsm7_loop n True shift p
           else
             (let v = gsm7bits_extend_to_unicode ! nat val in
              map_option (\<lambda>r. ucs2_write (if v = 0 then 0x20 else v) @ r) (ucs2_from_gsm7_loop n False shift p))))"

definition ucs2_from_gsm7 :: "byte list \<Rightarrow> int \<Rightarrow> int \<Rightarrow> byte list option" where
  "ucs2_from_gsm7 src septet_offset septet_count =
     ucs2_from_gsm7_loop (nat septet_count) False (septet_offset AND 7) (drop (nat (drop_bit 3 septet_offset)) src)"

section \<open>Encoding septets\<close>

function utf8_to_gsm7_count :: "byte list \<Rightarrow> int" where
  "utf8_to_gsm7_count p =
     (if p = [] then 0
      else
        (case utf8_next p of
           (c, q) \<Rightarrow>
             (if c < 0 then 0
              else (if unichar_to_gsm7_count c = 0 then 1 else unichar_to_gsm7_count c) + utf8_to_gsm7_count q)))"
  by auto
termination by (relation "measure length") (auto intro: utf8_next_less)

declare utf8_to_gsm7_count.simps [simp del]

text \<open>The destination is a buffer and the index of the byte the writer points to.\<close>

record bwriter =
  bw_buf :: "byte list"
  bw_dst :: int
  bw_pad :: int
  bw_bits :: int
  bw_offset :: int

definition bwriter_init :: "byte list \<Rightarrow> int \<Rightarrow> bwriter option" where
  "bwriter_init dst start =
     (let shift = start AND 7; at = drop_bit 3 start;
          w = \<lparr>bw_buf = dst, bw_dst = at, bw_pad = 0, bw_bits = shift, bw_offset = start\<rparr> in
      if shift > 0 then
        (if 0 \<le> at \<and> at < int (length dst)
         then Some (w\<lparr>bw_pad := uint (dst ! nat at) AND NOT (push_bit (nat shift) 0xff)\<rparr>) else None)
      else Some w)"

definition bwriter_store :: "bwriter \<Rightarrow> bwriter option" where
  "bwriter_store w =
     (if 0 \<le> bw_dst w \<and> bw_dst w < int (length (bw_buf w))
      then Some (w\<lparr>bw_buf := (bw_buf w)[nat (bw_dst w) := of_int (bw_pad w)]\<rparr>) else None)"

definition bwriter_add7 :: "int \<Rightarrow> bwriter \<Rightarrow> bwriter option" where
  "bwriter_add7 value w =
     (let w1 = w\<lparr>bw_pad := bw_pad w OR c_uint (push_bit (nat (bw_bits w)) value), bw_bits := bw_bits w + 7\<rparr> in
      map_option (\<lambda>w2. w2\<lparr>bw_offset := bw_offset w2 + 7\<rparr>)
        (if bw_bits w1 \<ge> 8 then
           map_option (\<lambda>w2. w2\<lparr>bw_bits := bw_bits w2 - 8, bw_pad := drop_bit 8 (bw_pad w2), bw_dst := bw_dst w2 + 1\<rparr>)
             (bwriter_store w1)
         else Some w1))"

definition bwriter_done :: "bwriter \<Rightarrow> (int \<times> byte list) option" where
  "bwriter_done w =
     (if bw_bits w > 0 then map_option (\<lambda>w2. (bw_offset w, bw_buf w2)) (bwriter_store w)
      else Some (bw_offset w, bw_buf w))"

text \<open>The septets of one character, those of a space for one that cannot be written.\<close>

definition unichar_septets :: "int \<Rightarrow> int list" where
  "unichar_septets c =
     (if unichar_to_gsm7 c \<ge> 0 then [unichar_to_gsm7 c]
      else if unichar_to_gsm7_extend c \<ge> 0 then [GSM_7BITS_ESCAPE, unichar_to_gsm7_extend c]
      else [0x20])"

fun bwriter_adds :: "int list \<Rightarrow> bwriter \<Rightarrow> bwriter option" where
  "bwriter_adds [] w = Some w"
| "bwriter_adds (v # vs) w = Option.bind (bwriter_add7 v w) (bwriter_adds vs)"

function to_gsm7_loop :: "byte list \<Rightarrow> bwriter \<Rightarrow> bwriter option" where
  "to_gsm7_loop p w =
     (if p = [] then Some w
      else
        (case utf8_next p of
           (c, q) \<Rightarrow>
             (if c < 0 then Some w
              else (case bwriter_adds (unichar_septets c) w of None \<Rightarrow> None | Some w' \<Rightarrow> to_gsm7_loop q w'))))"
  by auto
termination by (relation "measure (\<lambda>(p, w). length p)") (auto intro: utf8_next_less)

declare to_gsm7_loop.simps [simp del]

text \<open>Without a destination the number of septets is returned, otherwise that of bits.\<close>

definition utf8_to_gsm7 :: "byte list \<Rightarrow> byte list option \<Rightarrow> int \<Rightarrow> (int \<times> byte list option) option" where
  "utf8_to_gsm7 utf8 dst offset =
     (case dst of
        None \<Rightarrow> Some (utf8_to_gsm7_count utf8, None)
      | Some d \<Rightarrow>
          map_option (map_prod id Some)
            (Option.bind (bwriter_init d offset) (\<lambda>w. Option.bind (to_gsm7_loop utf8 w) bwriter_done)))"

function utf8_to_gsm8 :: "byte list \<Rightarrow> byte list" where
  "utf8_to_gsm8 p =
     (if p = [] then []
      else
        (case utf8_next p of
           (c, q) \<Rightarrow> if c < 0 then [] else map of_int (unichar_septets c) @ utf8_to_gsm8 q))"
  by auto
termination by (relation "measure length") (auto intro: utf8_next_less)

declare utf8_to_gsm8.simps [simp del]

text \<open>The next two functions walk over the bytes of their UCS-2 source one at a time.\<close>

fun ucs2_to_gsm7_loop :: "nat \<Rightarrow> byte list \<Rightarrow> bwriter \<Rightarrow> bwriter option" where
  "ucs2_to_gsm7_loop 0 ucs2 w = Some w"
| "ucs2_to_gsm7_loop (Suc n) [] w = None"
| "ucs2_to_gsm7_loop (Suc n) (b # ucs2) w =
     Option.bind (bwriter_adds (unichar_septets (uint b)) w) (ucs2_to_gsm7_loop n ucs2)"

definition ucs2_to_gsm7 :: "byte list \<Rightarrow> int \<Rightarrow> byte list \<Rightarrow> int \<Rightarrow> (int \<times> byte list) option" where
  "ucs2_to_gsm7 ucs2 ucs2len dst offset =
     Option.bind (bwriter_init dst offset)
       (\<lambda>w. Option.bind (ucs2_to_gsm7_loop (nat (ucs2len * 2)) ucs2 w) bwriter_done)"

definition ucs2_to_gsm8 :: "byte list \<Rightarrow> int \<Rightarrow> byte list option" where
  "ucs2_to_gsm8 ucs2 ucs2len =
     (if nat (ucs2len * 2) \<le> length ucs2
      then Some (concat (map (\<lambda>b. map of_int (unichar_septets (uint b))) (take (nat (ucs2len * 2)) ucs2)))
      else None)"

section \<open>The phone book\<close>

function adn_ucs2_loop :: "int \<Rightarrow> byte list \<Rightarrow> byte list option" where
  "adn_ucs2_loop base [] = Some []"
| "adn_ucs2_loop base (b # alpha) =
     (if uint b \<ge> 0x80
      then map_option (\<lambda>r. utf8_write (base + (uint b AND 0x7f)) @ r) (adn_ucs2_loop base alpha)
      else
        (let gsm = takeWhile (\<lambda>c. uint c < 128) (b # alpha) in
         case utf8_from_gsm8 gsm (int (length gsm)) of
           None \<Rightarrow> None
         | Some r \<Rightarrow> map_option (\<lambda>r'. r @ r') (adn_ucs2_loop base (dropWhile (\<lambda>c. uint c < 128) (b # alpha)))))"
  by pat_completeness auto
termination by (relation "measure (\<lambda>(base, p). length p)") (auto simp: less_Suc_eq_le length_dropWhile_le)

text \<open>\<open>alpha\<close> is the text up to its end; trailing bytes 0xff are ignored.\<close>

definition sim_adn_alpha_to_utf8 :: "byte list \<Rightarrow> byte list option" where
  "sim_adn_alpha_to_utf8 alpha0 =
     (let alpha = rev (dropWhile (\<lambda>b. b = 0xff) (rev alpha0)) in
      if alpha = [] then Some []
      else if alpha ! 0 = 0x80 then ucs2_to_utf8 (drop 1 alpha) (int (length (drop 1 alpha)) div 2)
      else if 3 \<le> length alpha \<and> alpha ! 0 = 0x81 then
        adn_ucs2_loop (push_bit 7 (uint (alpha ! 2))) (take (unat (alpha ! 1)) (drop 3 alpha))
      else if 4 \<le> length alpha \<and> alpha ! 0 = 0x82 then
        adn_ucs2_loop (push_bit 8 (uint (alpha ! 2)) OR uint (alpha ! 3)) (take (unat (alpha ! 1)) (drop 4 alpha))
      else utf8_from_gsm8 alpha (int (length alpha)))"

definition ADN_FOOTER_SIZE :: int where "ADN_FOOTER_SIZE = 14"

record adn_record =
  ar_alpha :: "byte list"
  ar_number :: "byte list"
  ar_ext_record :: byte

text \<open>The part that decodes the number and its type from the footer.\<close>

definition adn_number :: "byte list \<Rightarrow> adn_record \<Rightarrow> (int \<times> adn_record) option" where
  "adn_number footer rec =
     (let num_len = uint (footer ! 0); ton = uint (footer ! 1) in
      if num_len > 11 then Some (- 1, rec)
      else if ton \<noteq> 0x81 \<and> ton \<noteq> 0x91 then Some (- 1, rec)
      else
        (case gsm_bcdnum_to_ascii (drop 2 footer) (num_len * 2) of
           None \<Rightarrow> None
         | Some digits \<Rightarrow>
             map_option (\<lambda>n. (0, rec\<lparr>ar_number := n\<rparr>))
               (buf_write (ar_number rec) 0 ((if ton = 0x91 then [43] else []) @ digits @ [0]))))"

definition sim_adn_record_from_bytes :: "adn_record \<Rightarrow> byte list \<Rightarrow> (int \<times> adn_record) option" where
  "sim_adn_record_from_bytes rec0 data =
     (let len = int (length data);
          rec = rec0\<lparr>ar_alpha := (ar_alpha rec0)[0 := 0], ar_number := (ar_number rec0)[0 := 0], ar_ext_record := 0xff\<rparr>;
          footer = drop (nat (len - ADN_FOOTER_SIZE)) data in
      if len < ADN_FOOTER_SIZE then Some (- 1, rec)
      else if len > ADN_FOOTER_SIZE then
        (case sim_adn_alpha_to_utf8 (take (nat (len - ADN_FOOTER_SIZE)) data) of
           None \<Rightarrow> None
         | Some text \<Rightarrow>
             (if length text > 60 then Some (- 1, rec)
              else
                (case buf_write (ar_alpha rec) 0 (text @ [0]) of
                   None \<Rightarrow> None
                 | Some a \<Rightarrow> adn_number footer (rec\<lparr>ar_alpha := a\<rparr>))))
      else adn_number footer rec)"

text \<open>The number is the text up to its zero byte; only the length is written.\<close>

definition sim_adn_record_to_bytes :: "adn_record \<Rightarrow> byte list \<Rightarrow> (int \<times> byte list) option" where
  "sim_adn_record_to_bytes rec data =
     (let number = takeWhile (\<lambda>b. b \<noteq> 0) (ar_number rec);
          digits = (if number \<noteq> [] \<and> number ! 0 = 43 then drop 1 number else number) in
      map_option (\<lambda>d. (0, d))
        (buf_write data (int (length data) - ADN_FOOTER_SIZE) [of_int ((int (length digits) + 1) div 2 + 1)]))"

section \<open>Lemmas on UTF-8\<close>

lemma lead2: "0 \<le> a \<Longrightarrow> a < 32 \<Longrightarrow> 0xc0 OR a = 0xc0 + a \<and> (0xc0 + a) AND 0xe0 = 0xc0 \<and> (0xc0 + a) AND 0x1f = (a :: int)"
proof -
  have "\<forall>a\<in>set [0..31]. 0xc0 OR a = 0xc0 + a \<and> (0xc0 + a) AND 0xe0 = 0xc0 \<and> (0xc0 + a) AND 0x1f = (a :: int)"
    by code_simp
  then show "0 \<le> a \<Longrightarrow> a < 32 \<Longrightarrow> ?thesis" by simp
qed

lemma lead3:
  "0 \<le> a \<Longrightarrow> a < 16 \<Longrightarrow> 0xe0 OR a = 0xe0 + a \<and> (0xe0 + a) AND 0xe0 \<noteq> 0xc0 \<and> (0xe0 + a) AND 0xf0 = 0xe0
     \<and> (0xe0 + a) AND 0x0f = (a :: int)"
proof -
  have "\<forall>a\<in>set [0..15]. 0xe0 OR a = 0xe0 + a \<and> (0xe0 + a) AND 0xe0 \<noteq> 0xc0 \<and> (0xe0 + a) AND 0xf0 = 0xe0
     \<and> (0xe0 + a) AND 0x0f = (a :: int)" by code_simp
  then show "0 \<le> a \<Longrightarrow> a < 16 \<Longrightarrow> ?thesis" by simp
qed

lemma tail6: "0 \<le> a \<Longrightarrow> a < 64 \<Longrightarrow> 0x80 OR a = 0x80 + a \<and> (0x80 + a) AND 0xc0 = 0x80 \<and> (0x80 + a) AND 0x3f = (a :: int)"
proof -
  have "\<forall>a\<in>set [0..63]. 0x80 OR a = 0x80 + a \<and> (0x80 + a) AND 0xc0 = 0x80 \<and> (0x80 + a) AND 0x3f = (a :: int)"
    by code_simp
  then show "0 \<le> a \<Longrightarrow> a < 64 \<Longrightarrow> ?thesis" by simp
qed

lemma uint_byte: "0 \<le> x \<Longrightarrow> x < 256 \<Longrightarrow> uint (word_of_int x :: byte) = x"
  by (simp add: unsigned_of_int take_bit_int_eq_self)

lemma and_63: "v AND 0x3f = v mod 64" for v :: int
  using take_bit_eq_mask [of 6 v] by (simp add: take_bit_eq_mod mask_numeral)

lemma join6: "0 \<le> b \<Longrightarrow> b < 64 \<Longrightarrow> push_bit 6 a OR b = 64 * a + b" for a b :: int
  using join_bits [of b 6 a] by simp

lemma tail_byte:
  "is_cont (word_of_int (0x80 OR (v AND 0x3f)))" "uint (word_of_int (0x80 OR (v AND 0x3f)) :: byte) AND 0x3f = v mod 64"
proof -
  have b: "0 \<le> v mod 64" "v mod 64 < 64" by simp_all
  from tail6 [OF b] have e: "0x80 OR v mod 64 = 0x80 + v mod 64" by simp
  have "uint (word_of_int (0x80 OR v mod 64) :: byte) = 0x80 + v mod 64"
    unfolding e using b by (intro uint_byte) linarith+
  with tail6 [OF b] show "is_cont (word_of_int (0x80 OR (v AND 0x3f)))"
    "uint (word_of_int (0x80 OR (v AND 0x3f)) :: byte) AND 0x3f = v mod 64"
    by (simp_all add: and_63 is_cont_def)
qed

definition starts_char :: "byte list \<Rightarrow> bool" where
  "starts_char p \<longleftrightarrow> p = [] \<or> \<not> is_cont (hd p)"

lemma utf8_cont_stop: "starts_char p \<Longrightarrow> utf8_cont c p = (c, p)"
  by (cases p) (auto simp: starts_char_def)

lemma lead_byte2:
  assumes "0x80 \<le> v" "v < 0x800"
  shows "uint (word_of_int (0xc0 OR drop_bit 6 v) :: byte) = 0xc0 + v div 64"
    "(0xc0 + v div 64) AND 0xe0 = 0xc0" "(0xc0 + v div 64) AND 0x1f = v div 64"
proof -
  have a: "0 \<le> v div 64" "v div 64 < 32" using assms by simp_all
  note l = lead2 [OF a]
  have "uint (word_of_int (0xc0 OR v div 64) :: byte) = 0xc0 + v div 64"
    unfolding conjunct1 [OF l] using a by (intro uint_byte) linarith+
  then show "uint (word_of_int (0xc0 OR drop_bit 6 v) :: byte) = 0xc0 + v div 64" by (simp add: drop_bit_eq_div)
qed (use lead2 [of "v div 64"] assms in simp_all)

lemma lead_byte3:
  assumes "0x800 \<le> v" "v < 0x10000"
  shows "uint (word_of_int (0xe0 OR drop_bit 12 v) :: byte) = 0xe0 + v div 4096"
    "(0xe0 + v div 4096) AND 0xe0 \<noteq> 0xc0" "(0xe0 + v div 4096) AND 0xf0 = 0xe0" "(0xe0 + v div 4096) AND 0x0f = v div 4096"
proof -
  have a: "0 \<le> v div 4096" "v div 4096 < 16" using assms by simp_all
  note l = lead3 [OF a]
  have "uint (word_of_int (0xe0 OR v div 4096) :: byte) = 0xe0 + v div 4096"
    unfolding conjunct1 [OF l] using a by (intro uint_byte) linarith+
  then show "uint (word_of_int (0xe0 OR drop_bit 12 v) :: byte) = 0xe0 + v div 4096" by (simp add: drop_bit_eq_div)
qed (use lead3 [of "v div 4096"] assms in simp_all)

lemma utf8_next_write:
  assumes "0 \<le> v" "v < 0x10000" "starts_char p"
  shows "utf8_next (utf8_write v @ p) = (v, p)"
proof -
  consider "v < 0x80" | "0x80 \<le> v" "v < 0x800" | "0x800 \<le> v" by linarith
  then show ?thesis
  proof cases
    case 1
    then show ?thesis using assms(1) by (simp add: utf8_write_def uint_byte)
  next
    case 2
    have "64 * (v div 64) + v mod 64 = v" by simp
    moreover have "c_int v = v" using 2 by simp
    ultimately show ?thesis
      using 2 utf8_cont_stop [OF assms(3)]
      by (simp add: utf8_write_def lead_byte2 tail_byte join6 Let_def)
  next
    case 3
    have d: "64 * (v div 4096) + drop_bit 6 v mod 64 = v div 64"
      using zdiv_zmult2_eq [of 64 v 64] mult_div_mod_eq [of 64 "v div 64"] by (simp add: drop_bit_eq_div)
    have "64 * (v div 64) + v mod 64 = v" by simp
    moreover have "c_int v = v" "c_int (v div 64) = v div 64" using 3 assms(2) by simp_all
    ultimately show ?thesis
      using 3 assms(2) utf8_cont_stop [OF assms(3)] d
      by (simp add: utf8_write_def lead_byte3 tail_byte join6 Let_def)
  qed
qed

lemma not_cont: "uint b < 128 \<or> 0xc0 \<le> uint b \<Longrightarrow> \<not> is_cont b"
proof -
  have "\<forall>x\<in>set [0xc0..0xff]. x AND 0xc0 \<noteq> (0x80 :: int)" by code_simp
  then have "uint b AND 0xc0 \<noteq> 0x80" if "0xc0 \<le> uint b" by (rule bspec) (unfold set_upto, use that uint_lt2p [of b] in simp)
  then have "0xc0 \<le> uint b \<Longrightarrow> \<not> is_cont b" by (simp add: is_cont_def)
  moreover have "uint b AND 0xc0 \<le> uint b" by (rule AND_upper1) simp
  then have "is_cont b \<Longrightarrow> 0x80 \<le> uint b" unfolding is_cont_def by linarith
  ultimately show "uint b < 128 \<or> 0xc0 \<le> uint b \<Longrightarrow> \<not> is_cont b" by linarith
qed

lemma starts_char_write:
  assumes "0 \<le> v" "v < 0x10000"
  shows "starts_char (utf8_write v @ p)"
proof -
  consider "v < 0x80" | "0x80 \<le> v" "v < 0x800" | "0x800 \<le> v" by linarith
  then show ?thesis
  proof cases
    case 1
    then show ?thesis using assms by (simp add: utf8_write_def starts_char_def not_cont uint_byte)
  next
    case 2
    have "\<not> is_cont (word_of_int (0xc0 OR drop_bit 6 v))" by (rule not_cont) (use 2 lead_byte2(1) [of v] pos_imp_zdiv_nonneg_iff [of 64 v] in linarith)
    with 2 show ?thesis by (simp add: utf8_write_def starts_char_def)
  next
    case 3
    have "\<not> is_cont (word_of_int (0xe0 OR drop_bit 12 v))"
      by (rule not_cont) (use 3 assms lead_byte3(1) [of v] pos_imp_zdiv_nonneg_iff [of 4096 v] in linarith)
    with 3 assms show ?thesis by (simp add: utf8_write_def starts_char_def)
  qed
qed

lemma utf8_check_write:
  assumes "0 \<le> v" "v < 0x10000"
  shows "utf8_check (utf8_write v @ p) = utf8_check p"
proof -
  consider "v < 0x80" | "0x80 \<le> v" "v < 0x800" | "0x800 \<le> v" by linarith
  then show ?thesis
  proof cases
    case 1
    then show ?thesis using assms by (simp add: utf8_write_def uint_byte)
  next
    case 2
    then show ?thesis by (simp add: utf8_write_def lead_byte2 utf8_tail_len_def tail_byte)
  next
    case 3
    then show ?thesis using assms
      by (simp add: utf8_write_def lead_byte3 utf8_tail_len_def tail_byte numeral_2_eq_2)
  qed
qed

lemma utf8_write_nonempty [simp]: "utf8_write v \<noteq> []"
  by (simp add: utf8_write_def)

abbreviation utf8_of :: "int list \<Rightarrow> byte list" where
  "utf8_of cs \<equiv> concat (map utf8_write cs)"

definition bmp :: "int \<Rightarrow> bool" where
  "bmp v \<longleftrightarrow> 0 \<le> v \<and> v < 0x10000"

lemma starts_char_of: "list_all bmp cs \<Longrightarrow> starts_char (utf8_of cs)"
  by (cases cs) (auto simp: bmp_def starts_char_write starts_char_def [of "[]"])

lemma utf8_next_of: "list_all bmp (c # cs) \<Longrightarrow> utf8_next (utf8_of (c # cs)) = (c, utf8_of cs)"
  using starts_char_of [of cs] by (simp add: bmp_def utf8_next_write)

lemma utf8_check_of: "list_all bmp cs \<Longrightarrow> utf8_check (utf8_of cs) = 1"
  by (induction cs) (auto simp: bmp_def utf8_check_write)

lemma utf8_to_ucs2_of: "list_all bmp cs \<Longrightarrow> utf8_to_ucs2 (utf8_of cs) = concat (map ucs2_write cs)"
proof (induction cs)
  case (Cons c cs)
  then have "utf8_next (utf8_of (c # cs)) = (c, utf8_of cs)" "0 \<le> c" by (simp_all only: utf8_next_of) (simp add: bmp_def)
  with Cons show ?case by (subst utf8_to_ucs2.simps) simp
qed (simp add: utf8_to_ucs2.simps)

lemma ucs2_to_utf8_of: "list_all bmp cs \<Longrightarrow> ucs2_to_utf8_loop (length cs) (concat (map ucs2_write cs)) = Some (utf8_of cs)"
proof (induction cs)
  case (Cons c cs)
  then have c: "0 \<le> c" "c < 65536" by (simp_all add: bmp_def)
  have "uint (word_of_int (drop_bit 8 c) :: byte) = c div 256"
    using c uint_byte [of "c div 256"] by (simp add: drop_bit_eq_div)
  moreover have "uint (word_of_int c :: byte) = c mod 256" by (simp add: uint_word_of_int)
  moreover have "push_bit 8 (c div 256) OR c mod 256 = c"
    using join_bits [of "c mod 256" 8 "c div 256"] by simp
  ultimately show ?case using Cons by (simp add: ucs2_write_def)
qed simp

section \<open>Text round trips\<close>

text \<open>
  Text in the 16-bit encoding of the network is converted to well-formed UTF-8 and
  from there back to the same text.
\<close>

theorem ucs2_utf8_roundtrip:
  "\<exists>t. ucs2_to_utf8 (concat (map ucs2_write (map uint (ws :: 16 word list)))) (int (length ws)) = Some t
    \<and> utf8_check t = 1 \<and> utf8_to_ucs2 t = concat (map ucs2_write (map uint ws))"
proof -
  have "bmp (uint w)" for w :: "16 word" using uint_lt2p [of w] by (simp add: bmp_def)
  then have "list_all bmp (map uint ws)" by (simp add: list_all_iff)
  from ucs2_to_utf8_of [OF this] utf8_check_of [OF this] utf8_to_ucs2_of [OF this] show ?thesis
    unfolding ucs2_to_utf8_def nat_int length_map by blast
qed

section \<open>Lemmas on packed septets\<close>

definition bufbit :: "byte list \<Rightarrow> nat \<Rightarrow> bool" where
  "bufbit d i = bit (d ! (i div 8)) (i mod 8)"

text \<open>
  The writer after \<open>k\<close> bits: complete bytes are in the buffer, the other bits in the pad.
  \<open>wbit\<close> is bit \<open>i\<close> of what is written.
\<close>

definition wr_ok :: "nat \<Rightarrow> bwriter \<Rightarrow> bool" where
  "wr_ok k w \<longleftrightarrow> bw_offset w = int k \<and> bw_dst w = int (k div 8) \<and> bw_bits w = int (k mod 8)
     \<and> 0 \<le> bw_pad w \<and> bw_pad w < 2 ^ (k mod 8)"

definition wbit :: "nat \<Rightarrow> bwriter \<Rightarrow> nat \<Rightarrow> bool" where
  "wbit k w i = (if i div 8 < k div 8 then bufbit (bw_buf w) i else bit (bw_pad w) (i mod 8))"

lemma bit_below_pow: "0 \<le> x \<Longrightarrow> x < 2 ^ n \<Longrightarrow> bit x m \<Longrightarrow> m < n" for x :: int
  by (metis bit_take_bit_iff take_bit_int_eq_self)

lemma bits_bound: "0 \<le> x \<Longrightarrow> (\<And>m. bit x m \<Longrightarrow> m < n) \<Longrightarrow> x < 2 ^ n" for x :: int
  by (metis bit_eqI bit_take_bit_iff take_bit_int_less_exp)

lemma pad_or:
  assumes "0 \<le> pad" "pad < 2 ^ s" "0 \<le> v" "v < 128" "s < 8"
  shows "c_uint (push_bit s v) = push_bit s v" "0 \<le> pad OR push_bit s v" "pad OR push_bit s v < 2 ^ (s + 7)"
    "bit (pad OR push_bit s v) m \<longleftrightarrow> (if m < s then bit pad m else bit v (m - s))"
proof -
  have v: "bit v m \<Longrightarrow> m < 7" for m using bit_below_pow [of v 7 m] assms(3,4) by simp
  have p: "bit pad m \<Longrightarrow> m < s" for m using bit_below_pow [OF assms(1,2)] .
  show "bit (pad OR push_bit s v) m \<longleftrightarrow> (if m < s then bit pad m else bit v (m - s))"
    using p [of m] by (auto simp: bit_simps)
  show nn: "0 \<le> pad OR push_bit s v" using assms by simp
  show "pad OR push_bit s v < 2 ^ (s + 7)"
    by (rule bits_bound [OF nn]) (use p v in \<open>fastforce simp: bit_simps\<close>)
  show "c_uint (push_bit s v) = push_bit s v"
    by (rule bit_eqI) (use v assms(5) in \<open>fastforce simp: bit_simps\<close>)
qed

lemma bit_byte_of: "m < 8 \<Longrightarrow> bit (word_of_int x :: byte) m = bit x m"
  by (simp add: bit_of_int_iff)

lemma div_mod_8: "n = 8 * a + b \<Longrightarrow> b < 8 \<Longrightarrow> n div 8 = a" "n = 8 * a + b \<Longrightarrow> b < 8 \<Longrightarrow> n mod 8 = b" for n :: nat
  by (simp_all only: div_mult_self4 mod_mult_self4 mod_less div_less add_0_right)

lemma at_low:
  fixes k q s m :: nat
  assumes "k = 8 * q + s" "s + m < 8"
  shows "(k + m) div 8 = q" "(k + m) mod 8 = s + m"
  using div_mod_8 [of "k + m" q "s + m"] assms by simp_all

lemma at_high:
  fixes k q s m :: nat
  assumes "k = 8 * q + s" "8 \<le> s + m" "s + m < 16"
  shows "(k + m) div 8 = q + 1" "(k + m) mod 8 = s + m - 8"
  using div_mod_8 [of "k + m" "q + 1" "s + m - 8"] assms by simp_all

lemma at_last:
  fixes k q s i :: nat
  assumes "k = 8 * q + s" "s < 8" "i < k" "\<not> i div 8 < q"
  shows "i div 8 = q" "i mod 8 < s"
  using assms div_mult_mod_eq [of i 8] mod_less_divisor [of 8 i] by linarith+

lemma add7_ok:
  assumes w: "wr_ok k w" and v: "0 \<le> v" "v < 128" and len: "k + 7 \<le> 8 * length (bw_buf w)"
  shows "\<exists>w'. bwriter_add7 v w = Some w' \<and> wr_ok (k + 7) w' \<and> length (bw_buf w') = length (bw_buf w)
    \<and> (\<forall>i<k. wbit (k + 7) w' i = wbit k w i) \<and> (\<forall>m<7. wbit (k + 7) w' (k + m) = bit v m)"
proof -
  define s q where "s = k mod 8" and "q = k div 8"
  have k: "k = 8 * q + s" "s < 8" by (simp_all add: s_def q_def)
  have pad: "0 \<le> bw_pad w" "bw_pad w < 2 ^ s" and bits: "bw_bits w = int s" "bw_dst w = int q" "bw_offset w = int k"
    using w by (simp_all add: wr_ok_def s_def q_def)
  note po = pad_or [OF pad v k(2)]
  define pad' where "pad' = bw_pad w OR push_bit s v"
  show ?thesis
  proof (cases "s = 0")
    case True
    with pad have "bw_pad w = 0" by simp
    then have p: "pad' = v" using True by (simp add: pad'_def)
    have "bwriter_add7 v w = Some (w\<lparr>bw_pad := v, bw_bits := 7, bw_offset := int k + 7\<rparr>)"
      using po(1) bits True p by (simp add: bwriter_add7_def pad'_def)
    moreover have "(k + 7) div 8 = q" "(k + 7) mod 8 = 7" using k True by simp_all
    moreover have "i < k \<Longrightarrow> i div 8 < q" for i using k True by linarith
    moreover have "m < 7 \<Longrightarrow> (k + m) div 8 = q \<and> (k + m) mod 8 = m" for m using k True by simp
    moreover have "k div 8 = q" by (simp add: q_def)
    ultimately show ?thesis using bits v by (simp add: wr_ok_def wbit_def)
  next
    case False
    have q: "q < length (bw_buf w)" using len k False by linarith
    define w' where "w' = w\<lparr>bw_buf := (bw_buf w)[q := word_of_int pad'], bw_pad := drop_bit 8 pad',
      bw_bits := int (s - 1), bw_dst := int (q + 1), bw_offset := int (k + 7)\<rparr>"
    have "bwriter_add7 v w = Some w'"
      using po(1) bits False q by (simp add: bwriter_add7_def bwriter_store_def w'_def pad'_def)
    moreover have d: "(k + 7) div 8 = q + 1" "(k + 7) mod 8 = s - 1" using at_high [OF k(1), of 7] k(2) False by simp_all
    moreover have "0 \<le> drop_bit 8 pad'" "drop_bit 8 pad' < 2 ^ (s - 1)"
    proof -
      show nn: "0 \<le> drop_bit 8 pad'" using po(2) by (simp add: pad'_def)
      show "drop_bit 8 pad' < 2 ^ (s - 1)"
        using bit_below_pow [OF po(2,3)] by (intro bits_bound [OF nn]) (fastforce simp: bit_simps pad'_def)
    qed
    moreover have "wbit (k + 7) w' i = wbit k w i" if "i < k" for i
    proof (cases "i div 8 < q")
      case True
      then show ?thesis by (simp add: wbit_def bufbit_def w'_def d q_def [symmetric])
    next
      case False
      then have "i div 8 = q" "i mod 8 < s" using at_last [OF k that] by simp_all
      then show ?thesis using q k(2) by (simp add: wbit_def bufbit_def w'_def d q_def [symmetric] bit_byte_of pad'_def po(4))
    qed
    moreover have "wbit (k + 7) w' (k + m) = bit v m" if "m < 7" for m
    proof (cases "s + m < 8")
      case True
      note at_low [OF k(1) this]
      then show ?thesis using q True by (simp add: wbit_def bufbit_def w'_def d bit_byte_of pad'_def po(4))
    next
      case False
      with k(2) that have "(k + m) div 8 = q + 1" "(k + m) mod 8 = s + m - 8" using at_high [OF k(1), of m] by simp_all
      then show ?thesis using False by (simp add: wbit_def w'_def d bit_drop_bit_eq po(4) [folded pad'_def])
    qed
    ultimately show ?thesis by (intro exI [of _ w']) (simp add: wr_ok_def w'_def)
  qed
qed

lemma adds_ok:
  assumes "wr_ok k w" "list_all (\<lambda>v. 0 \<le> v \<and> v < 128) vs" "k + 7 * length vs \<le> 8 * length (bw_buf w)"
  shows "\<exists>w'. bwriter_adds vs w = Some w' \<and> wr_ok (k + 7 * length vs) w' \<and> length (bw_buf w') = length (bw_buf w)
    \<and> (\<forall>i<k. wbit (k + 7 * length vs) w' i = wbit k w i)
    \<and> (\<forall>j<length vs. \<forall>m<7. wbit (k + 7 * length vs) w' (k + 7 * j + m) = bit (vs ! j) m)"
  using assms
proof (induction vs arbitrary: k w)
  case (Cons v vs)
  then obtain w1 where w1: "bwriter_add7 v w = Some w1" "wr_ok (k + 7) w1" "length (bw_buf w1) = length (bw_buf w)"
      "\<forall>i<k. wbit (k + 7) w1 i = wbit k w i" "\<forall>m<7. wbit (k + 7) w1 (k + m) = bit v m"
    using add7_ok [of k w v] by auto
  from Cons.IH [OF w1(2)] Cons.prems w1(3) obtain w2 where w2: "bwriter_adds vs w1 = Some w2"
      "wr_ok (k + 7 + 7 * length vs) w2" "length (bw_buf w2) = length (bw_buf w)"
      "\<forall>i<k + 7. wbit (k + 7 + 7 * length vs) w2 i = wbit (k + 7) w1 i"
      "\<forall>j<length vs. \<forall>m<7. wbit (k + 7 + 7 * length vs) w2 (k + 7 + 7 * j + m) = bit (vs ! j) m"
    by auto
  have n: "k + 7 * length (v # vs) = k + 7 + 7 * length vs" by simp
  have "wbit (k + 7 + 7 * length vs) w2 (k + 7 * j + m) = bit ((v # vs) ! j) m" if "j < length (v # vs)" "m < 7" for j m
    using that w1(5) w2(4,5) by (cases j) (auto simp: add.assoc)
  then show ?case unfolding n using w1 w2 by (intro exI [of _ w2]) auto
qed simp

lemma init_ok:
  assumes "k \<le> 8 * length dst"
  shows "\<exists>w. bwriter_init dst (int k) = Some w \<and> wr_ok k w \<and> bw_buf w = dst \<and> (\<forall>i<k. wbit k w i = bufbit dst i)"
proof -
  define s q where "s = k mod 8" and "q = k div 8"
  have k: "k = 8 * q + s" "s < 8" by (simp_all add: s_def q_def)
  have c: "int k AND 7 = int s" "drop_bit 3 (int k) = int q"
    using take_bit_eq_mask [of 3 "int k"]
    by (simp_all add: s_def q_def mask_numeral take_bit_eq_mod zmod_int drop_bit_eq_div zdiv_int)
  show ?thesis
  proof (cases "s = 0")
    case True
    have "i < k \<Longrightarrow> i div 8 < q" for i using k True by linarith
    with c True show ?thesis by (simp add: bwriter_init_def wr_ok_def wbit_def s_def [symmetric] q_def [symmetric])
  next
    case False
    have q: "q < length dst" using assms k False by linarith
    define pad where "pad = uint (dst ! q) AND NOT (push_bit s 0xff)"
    have m: "(0xff :: int) = mask 8" by (simp add: mask_numeral)
    have pad: "pad = take_bit s (uint (dst ! q))"
      unfolding pad_def m by (rule bit_eqI) (auto simp: bit_simps dest: bit_imp_le_length)
    have "wbit k \<lparr>bw_buf = dst, bw_dst = int q, bw_pad = pad, bw_bits = int s, bw_offset = int k\<rparr> i = bufbit dst i"
      if "i < k" for i
    proof (cases "i div 8 < q")
      case False
      then have "i div 8 = q" "i mod 8 < s" using at_last [OF k that] by simp_all
      with k(2) show ?thesis by (simp add: wbit_def bufbit_def q_def [symmetric] pad bit_simps)
    qed (simp add: wbit_def q_def)
    with c False q pad show ?thesis
      by (simp add: bwriter_init_def wr_ok_def s_def [symmetric] q_def [symmetric] pad_def)
  qed
qed

lemma done_ok:
  assumes w: "wr_ok k w" and len: "k \<le> 8 * length (bw_buf w)"
  shows "\<exists>d. bwriter_done w = Some (int k, d) \<and> length d = length (bw_buf w) \<and> (\<forall>i<k. bufbit d i = wbit k w i)"
proof -
  define s q where "s = k mod 8" and "q = k div 8"
  have k: "k = 8 * q + s" "s < 8" by (simp_all add: s_def q_def)
  have bits: "bw_bits w = int s" "bw_dst w = int q" "bw_offset w = int k"
    using w by (simp_all add: wr_ok_def s_def q_def)
  show ?thesis
  proof (cases "s = 0")
    case True
    have "i < k \<Longrightarrow> i div 8 < q" for i using k True by linarith
    with bits True show ?thesis by (simp add: bwriter_done_def wbit_def q_def [symmetric])
  next
    case False
    have q: "q < length (bw_buf w)" using len k False by linarith
    have "bufbit ((bw_buf w)[q := word_of_int (bw_pad w)]) i = wbit k w i" if "i < k" for i
    proof (cases "i div 8 < q")
      case True
      then show ?thesis by (simp add: wbit_def bufbit_def q_def [symmetric])
    next
      case False
      then have "i div 8 = q" using at_last [OF k that] by simp
      with q show ?thesis by (simp add: wbit_def bufbit_def q_def [symmetric] bit_byte_of)
    qed
    with bits False q show ?thesis by (simp add: bwriter_done_def bwriter_store_def)
  qed
qed

lemma septet_at_bits:
  assumes "k + 7 \<le> 8 * length d"
  shows "\<exists>c. septet_at (drop (k div 8) d) (int (k mod 8)) = Some c \<and> (\<forall>m. bit c m \<longleftrightarrow> m < 7 \<and> bufbit d (k + m))"
proof -
  define s q where "s = k mod 8" and "q = k div 8"
  have k: "k = 8 * q + s" "s < 8" by (simp_all add: s_def q_def)
  have m: "(0x7f :: int) = mask 7" by (simp add: mask_numeral)
  have q: "q < length d" using assms k by linarith
  then have d: "drop q d = d ! q # drop (q + 1) d" by (simp add: Cons_nth_drop_Suc)
  have lo: "bufbit d (k + m) = bit (uint (d ! q)) (s + m)" if "s + m < 8" for m
  proof -
    from at_low [OF k(1) that] show ?thesis by (simp add: bufbit_def bit_uint_iff that)
  qed
  show ?thesis
  proof (cases "s > 1")
    case False
    have "bit (drop_bit s (uint (d ! q)) AND 0x7f) n \<longleftrightarrow> n < 7 \<and> bufbit d (k + n)" for n
      using lo [of n] False unfolding m by (auto simp: bit_simps)
    with False show ?thesis by (simp add: septet_at_def s_def [symmetric] q_def [symmetric] d)
  next
    case True
    with assms k have q1: "q + 1 < length d" by linarith
    then have d1: "drop (Suc q) d = d ! Suc q # drop (Suc (Suc q)) d" by (simp add: Cons_nth_drop_Suc)
    have hi: "bufbit d (k + n) = bit (uint (d ! (q + 1))) (n + s - 8)" if "8 \<le> s + n" "n < 7" for n
    proof -
      from at_high [OF k(1) that(1)] that k(2) show ?thesis by (simp add: bufbit_def bit_uint_iff add.commute [of n s]) arith
    qed
    have small: "\<not> bit (uint (d ! q)) n" if "8 \<le> n" for n using that by (simp add: bit_uint_iff)
    have "bit ((push_bit (8 - s) (uint (d ! (q + 1))) OR (drop_bit s (uint (d ! q)) AND 0x7f)) AND 0x7f) n
        \<longleftrightarrow> n < 7 \<and> bufbit d (k + n)" for n
      using lo [of n] hi [of n] small [of "s + n"] k(2) unfolding m
      by (cases "s + n < 8") (auto simp: bit_simps)
    moreover have "nat (8 - int s) = 8 - s" using k(2) by simp
    ultimately show ?thesis using True by (simp add: septet_at_def s_def [symmetric] q_def [symmetric] d d1)
  qed
qed

lemma from_gsm7_loop_ok:
  assumes "list_all (\<lambda>v. 0 \<le> v \<and> v < 128 \<and> v \<noteq> GSM_7BITS_ESCAPE) vs" "k + 7 * length vs \<le> 8 * length d"
    and "\<And>j m. j < length vs \<Longrightarrow> m < 7 \<Longrightarrow> bufbit d (k + 7 * j + m) = bit (vs ! j) m"
  shows "from_gsm7_loop (length vs) False (int (k mod 8)) (drop (k div 8) d) =
    Some (utf8_of (map (\<lambda>v. gsm7bits_to_unicode ! nat v) vs))"
  using assms
proof (induction vs arbitrary: k)
  case (Cons v vs)
  from Cons.prems(2) septet_at_bits [of k d] obtain c where
    c: "septet_at (drop (k div 8) d) (int (k mod 8)) = Some c" "\<forall>m. bit c m \<longleftrightarrow> m < 7 \<and> bufbit d (k + m)" by auto
  have "c = v"
  proof (rule bit_eqI)
    fix m
    have "bit v m \<Longrightarrow> m < 7" using bit_below_pow [of v 7 m] Cons.prems(1) by simp
    then show "bit c m = bit v m" using c(2) Cons.prems(3) [of 0 m] by auto
  qed
  moreover have "from_gsm7_loop (length vs) False (int ((k + 7) mod 8)) (drop ((k + 7) div 8) d) =
      Some (utf8_of (map (\<lambda>v. gsm7bits_to_unicode ! nat v) vs))"
  proof (rule Cons.IH)
    show "bufbit d (k + 7 + 7 * j + m) = bit (vs ! j) m" if "j < length vs" "m < 7" for j m
      using Cons.prems(3) [of "Suc j" m] that by (simp add: add.assoc)
  qed (use Cons.prems in simp_all)
  moreover have "int ((k + 7) mod 8) = (if int (k mod 8) + 7 \<ge> 8 then int (k mod 8) + 7 - 8 else int (k mod 8) + 7)"
      "drop ((k + 7) div 8) d = (if int (k mod 8) + 7 \<ge> 8 then drop 1 (drop (k div 8) d) else drop (k div 8) d)"
  proof -
    have k: "k = 8 * (k div 8) + k mod 8" "k mod 8 < 8" by simp_all
    show "int ((k + 7) mod 8) = (if int (k mod 8) + 7 \<ge> 8 then int (k mod 8) + 7 - 8 else int (k mod 8) + 7)"
        "drop ((k + 7) div 8) d = (if int (k mod 8) + 7 \<ge> 8 then drop 1 (drop (k div 8) d) else drop (k div 8) d)"
      using at_low [OF k(1), of 7] at_high [OF k(1), of 7] k(2) by (cases "k mod 8 + 7 < 8"; simp)+
  qed
  ultimately show ?case using Cons.prems(1) c(1) by (simp del: drop_drop)
qed simp

lemma table_search_ok:
  "c \<in> set us \<Longrightarrow> \<exists>i<length us. table_search us nn c = nn + int i \<and> us ! i = c"
proof (induction us arbitrary: nn)
  case (Cons u us)
  show ?case
  proof (cases "u = c")
    case True
    then show ?thesis by (intro exI [of _ 0]) simp
  next
    case False
    with Cons obtain i where "i < length us" "table_search us (nn + 1) c = nn + 1 + int i" "us ! i = c" by auto
    with False show ?thesis by (intro exI [of _ "Suc i"]) simp
  qed
qed simp

definition gsm7_basic :: "int \<Rightarrow> bool" where
  "gsm7_basic c \<longleftrightarrow> c \<in> set gsm7bits_to_unicode \<and> c \<noteq> 0"

lemma length_gsm7_table [simp]: "length gsm7bits_to_unicode = 128"
  by (simp add: gsm7bits_to_unicode_def)

lemma gsm7_basic_septet:
  assumes "gsm7_basic c"
  shows "0 \<le> unichar_to_gsm7 c" "unichar_to_gsm7 c < 128" "unichar_to_gsm7 c \<noteq> GSM_7BITS_ESCAPE"
    "gsm7bits_to_unicode ! nat (unichar_to_gsm7 c) = c" "bmp c"
proof -
  from assms table_search_ok [of c gsm7bits_to_unicode 0] obtain i where
    i: "i < 128" "unichar_to_gsm7 c = int i" "gsm7bits_to_unicode ! i = c"
    by (auto simp: gsm7_basic_def unichar_to_gsm7_def)
  have "gsm7bits_to_unicode ! 27 = 0" by (simp add: gsm7bits_to_unicode_def)
  with i assms show "0 \<le> unichar_to_gsm7 c" "unichar_to_gsm7 c < 128" "unichar_to_gsm7 c \<noteq> GSM_7BITS_ESCAPE"
    "gsm7bits_to_unicode ! nat (unichar_to_gsm7 c) = c"
    by (auto simp: GSM_7BITS_ESCAPE_def gsm7_basic_def)
  have "list_all bmp gsm7bits_to_unicode" by (simp add: gsm7bits_to_unicode_def bmp_def)
  then show "bmp c" using assms by (simp add: gsm7_basic_def list_all_iff)
qed

lemma to_gsm7_loop_of:
  "list_all gsm7_basic cs \<Longrightarrow> to_gsm7_loop (utf8_of cs) w = bwriter_adds (map unichar_to_gsm7 cs) w"
proof (induction cs arbitrary: w)
  case (Cons c cs)
  then have c: "gsm7_basic c" "list_all bmp (c # cs)" by (auto simp: list_all_iff gsm7_basic_septet)
  then have "0 \<le> c" by (simp add: bmp_def)
  with Cons c utf8_next_of [OF c(2)] gsm7_basic_septet(1) [OF c(1)] show ?case
    by (subst to_gsm7_loop.simps) (simp add: unichar_septets_def split: Option.bind_split option.split)
qed (simp add: to_gsm7_loop.simps)

lemma gsm7_count_of: "list_all gsm7_basic cs \<Longrightarrow> utf8_to_gsm7_count (utf8_of cs) = int (length cs)"
proof (induction cs)
  case (Cons c cs)
  then have c: "gsm7_basic c" "list_all bmp (c # cs)" by (auto simp: list_all_iff gsm7_basic_septet)
  then have "0 \<le> c" by (simp add: bmp_def)
  with Cons c utf8_next_of [OF c(2)] gsm7_basic_septet(1) [OF c(1)] show ?case
    by (subst utf8_to_gsm7_count.simps) (simp add: unichar_to_gsm7_count_def)
qed (simp add: utf8_to_gsm7_count.simps)

text \<open>
  The packed format of the protocol: the character number \<open>j\<close> is the entry of the table at the
  number given by the seven bits from bit \<open>k + 7 j\<close> on, least significant first.
\<close>

definition septet_of :: "byte list \<Rightarrow> nat \<Rightarrow> int" where
  "septet_of d i = horner_sum of_bool 2 (map (\<lambda>m. bufbit d (i + m)) [0..<7])"

definition packed7 :: "byte list \<Rightarrow> nat \<Rightarrow> int list \<Rightarrow> bool" where
  "packed7 d k cs \<longleftrightarrow> k + 7 * length cs \<le> 8 * length d \<and>
     (\<forall>j<length cs. septet_of d (k + 7 * j) \<noteq> GSM_7BITS_ESCAPE \<and>
        gsm7bits_to_unicode ! nat (septet_of d (k + 7 * j)) = cs ! j)"

lemma bit_septet_of: "bit (septet_of d i) m \<longleftrightarrow> m < 7 \<and> bufbit d (i + m)"
  unfolding septet_of_def bit_horner_sum_bit_iff by (cases "m < 7") (simp_all del: upt_Suc)

lemma septet_of_range: "0 \<le> septet_of d i" "septet_of d i < 128"
  using horner_sum_of_bool_2_less [of "map (\<lambda>m. bufbit d (i + m)) [0..<7]"]
  by (simp_all add: septet_of_def horner_sum_nonnegative del: upt_Suc)

lemma septet_of_eq:
  assumes "0 \<le> v" "v < 128" "\<And>m. m < 7 \<Longrightarrow> bufbit d (i + m) = bit v m"
  shows "septet_of d i = v"
proof (rule bit_eqI)
  fix m
  have "bit v m \<Longrightarrow> m < 7" using bit_below_pow [of v 7 m] assms(1,2) by simp
  then show "bit (septet_of d i) m = bit v m" using assms(3) by (auto simp: bit_septet_of)
qed

lemma packed7_decode:
  assumes "packed7 d k cs"
  shows "utf8_from_gsm7 d (int k) (int (length cs)) = Some (utf8_of cs)"
proof -
  let ?vs = "map (\<lambda>j. septet_of d (k + 7 * j)) [0..<length cs]"
  have "from_gsm7_loop (length ?vs) False (int (k mod 8)) (drop (k div 8) d) =
      Some (utf8_of (map (\<lambda>v. gsm7bits_to_unicode ! nat v) ?vs))"
    using assms by (intro from_gsm7_loop_ok) (auto simp: packed7_def list_all_iff septet_of_range bit_septet_of)
  moreover have "map (\<lambda>v. gsm7bits_to_unicode ! nat v) ?vs = cs"
    using assms by (intro nth_equalityI) (simp_all add: packed7_def)
  moreover have "int k AND 7 = int (k mod 8)" "drop_bit 3 (int k) = int (k div 8)"
    using take_bit_eq_mask [of 3 "int k"]
    by (simp_all add: mask_numeral take_bit_eq_mod zmod_int drop_bit_eq_div zdiv_int)
  ultimately show ?thesis by (simp add: utf8_from_gsm7_def del: map_map)
qed

lemma gsm7_pack_unpack:
  assumes "list_all gsm7_basic cs" "offset + 7 * length cs \<le> 8 * length dst"
  shows "\<exists>d. utf8_to_gsm7 (utf8_of cs) (Some dst) (int offset) = Some (int (offset + 7 * length cs), Some d)
    \<and> utf8_to_gsm7 (utf8_of cs) None (int offset) = Some (int (length cs), None)
    \<and> length d = length dst \<and> (\<forall>i<offset. bufbit d i = bufbit dst i)
    \<and> utf8_from_gsm7 d (int offset) (int (length cs)) = Some (utf8_of cs)
    \<and> packed7 d offset cs"
proof -
  let ?vs = "map unichar_to_gsm7 cs"
  have vs: "list_all (\<lambda>v. 0 \<le> v \<and> v < 128 \<and> v \<noteq> GSM_7BITS_ESCAPE) ?vs" "list_all (\<lambda>v. 0 \<le> v \<and> v < 128) ?vs"
    using assms(1) by (auto simp: list_all_iff gsm7_basic_septet)
  from assms(2) init_ok [of offset dst] obtain w where
    w: "bwriter_init dst (int offset) = Some w" "wr_ok offset w" "bw_buf w = dst"
       "\<forall>i<offset. wbit offset w i = bufbit dst i" by auto
  from adds_ok [OF w(2) vs(2)] assms(2) w(3) obtain w' where
    w': "bwriter_adds ?vs w = Some w'" "wr_ok (offset + 7 * length cs) w'" "length (bw_buf w') = length dst"
        "\<forall>i<offset. wbit (offset + 7 * length cs) w' i = wbit offset w i"
        "\<forall>j<length cs. \<forall>m<7. wbit (offset + 7 * length cs) w' (offset + 7 * j + m) = bit (?vs ! j) m" by auto
  from done_ok [OF w'(2)] assms(2) w'(3) obtain d where
    d: "bwriter_done w' = Some (int (offset + 7 * length cs), d)" "length d = length dst"
       "\<forall>i<offset + 7 * length cs. bufbit d i = wbit (offset + 7 * length cs) w' i" by auto
  have enc: "utf8_to_gsm7 (utf8_of cs) (Some dst) (int offset) = Some (int (offset + 7 * length cs), Some d)"
    using w(1) w'(1) d(1) by (simp add: utf8_to_gsm7_def to_gsm7_loop_of [OF assms(1)])
  have bits: "bufbit d (offset + 7 * j + m) = bit (unichar_to_gsm7 (cs ! j)) m" if "j < length cs" "m < 7" for j m
  proof -
    have "7 * j + m < 7 * length cs" using that by simp
    then show ?thesis using that d(3) w'(5) by (simp add: add.assoc)
  qed
  have "septet_of d (offset + 7 * j) = unichar_to_gsm7 (cs ! j)" "gsm7_basic (cs ! j)" if "j < length cs" for j
    using that assms(1) bits gsm7_basic_septet [of "cs ! j"] by (auto simp: list_all_length intro!: septet_of_eq)
  then have "packed7 d offset cs" using assms(2) d(2) by (simp add: packed7_def gsm7_basic_septet)
  with packed7_decode [OF this] enc d w w' gsm7_count_of [OF assms(1)] show ?thesis
    by (intro exI [of _ d]) (simp add: utf8_to_gsm7_def)
qed

text \<open>
  C33. Text of characters of the basic alphabet, packed at any bit offset into a buffer
  with room for it, is decoded to the same text. The bits before the offset stay. The
  packing returns the end of the text in bits, and without a buffer the number of septets.
\<close>

theorem gsm7_roundtrip:
  assumes "list_all gsm7_basic cs" "offset + 7 * length cs \<le> 8 * length dst"
  shows "\<exists>d. utf8_to_gsm7 (utf8_of cs) (Some dst) (int offset) = Some (int (offset + 7 * length cs), Some d)
    \<and> utf8_to_gsm7 (utf8_of cs) None (int offset) = Some (int (length cs), None)
    \<and> length d = length dst \<and> (\<forall>i<offset. bufbit d i = bufbit dst i)
    \<and> utf8_from_gsm7 d (int offset) (int (length cs)) = Some (utf8_of cs)"
  using gsm7_pack_unpack [OF assms] by blast

theorem gsm7_roundtrip_witness:
  "list_all gsm7_basic [104, 228]
   \<and> (\<exists>d. utf8_to_gsm7 (utf8_of [104, 228]) (Some [5, 0, 0]) 3 = Some (17, Some d)
        \<and> utf8_from_gsm7 d 3 2 = Some (utf8_of [104, 228]))"
proof -
  have "list_all gsm7_basic [104, 228]" by (simp add: gsm7_basic_def gsm7bits_to_unicode_def)
  with gsm7_roundtrip [of "[104, 228]" 3 "[5, 0, 0]"] show ?thesis by auto
qed

text \<open>
  After an extended character the decoder does not leave the extended table: the second
  character of \<open>^a\<close> is lost.
\<close>

lemma gsm7_escape_sticks:
  "Option.bind (utf8_to_gsm7 (utf8_of [94, 97]) (Some [0, 0, 0]) 0)
     (\<lambda>(n, d). Option.bind d (\<lambda>b. utf8_from_gsm7 b 0 3)) = Some (utf8_of [94, 0])"
  by code_simp

end
