(* ===== verification/Sms_Address.thy ===== *)
theory Sms_Address
  imports Gsm_Alphabet
begin

text \<open>
  Message text, time stamps and addresses of short messages, after the first part of
  \<^verbatim>\<open>hw/express-network/em_sms.c\<close>. A destination string is a byte list of the length the
  caller passes. The value -1 stands for a failure, as in the code.
\<close>

section \<open>Message text\<close>

definition sms_build_toa :: "int \<Rightarrow> int" where
  "sms_build_toa ton = 0x81 OR push_bit 4 ton"

definition sms_get_ton :: "int \<Rightarrow> int" where
  "sms_get_ton toa = drop_bit 4 toa AND 7"

text \<open>The three-byte form starts with 0xc0 here.\<close>

definition message_char :: "int \<Rightarrow> byte list" where
  "message_char c =
     (if c < 128 then [of_int c]
      else if c < 0x800 then [of_int (0xc0 OR (drop_bit 6 c AND 0x1f)), of_int (0x80 OR (c AND 0x3f))]
      else [of_int (0xc0 OR (drop_bit 12 c AND 0xf)), of_int (0x80 OR (drop_bit 6 c AND 0x3f)),
            of_int (0x80 OR (c AND 0x3f))])"

text \<open>
  The character behind a backslash: its value and the rest of the string, or \<open>None\<close> for
  an invalid escape. 92, 110, 120 and 117 are the backslash, \<open>n\<close>, \<open>x\<close> and \<open>u\<close>.
\<close>

definition message_escape :: "int \<Rightarrow> byte list \<Rightarrow> (int \<times> byte list) option" where
  "message_escape c p =
     (if c = 92 then Some (c, p)
      else if c = 110 then Some (10, p)
      else if c = 120 then
        (case gsm_hex2_to_byte p of
           None \<Rightarrow> None
         | Some v \<Rightarrow> if v < 0 then None else Some (v, drop 2 p))
      else if c = 117 then
        (case gsm_hex4_to_short p of
           None \<Rightarrow> None
         | Some v \<Rightarrow> if v < 0 then None else Some (v, drop 4 p))
      else None)"

lemma message_escape_length: "message_escape c p = Some (v, q) \<Longrightarrow> length q \<le> length p"
  by (auto simp: message_escape_def split: if_splits option.splits)

text \<open>The bytes that belong to the message, and whether it is well-formed.\<close>

function message_loop :: "bool \<Rightarrow> byte list \<Rightarrow> bool \<times> byte list" where
  "message_loop escaped p =
     (if p = [] then (\<not> escaped, [])
      else
        (case utf8_next p of
           (c, q) \<Rightarrow>
             (if escaped then
                (case message_escape c q of
                   None \<Rightarrow> (False, [])
                 | Some (v, r) \<Rightarrow> apsnd (append (message_char v)) (message_loop False r))
              else if c = 92 then message_loop True q
              else apsnd (append (message_char c)) (message_loop False q))))"
  by auto
termination
  by (relation "measure (\<lambda>(e, p). length p)")
    (auto intro: utf8_next_less dest!: message_escape_length utf8_next_less order.strict_trans1 simp: le_less_trans)

declare message_loop.simps [simp del]

definition sms_utf8_from_message_str :: "byte list \<Rightarrow> int \<Rightarrow> int \<times> byte list" where
  "sms_utf8_from_message_str str utf8len =
     (case message_loop False str of
        (ok, bs) \<Rightarrow> (if ok then int (length bs) else - 1, take (nat utf8len) bs))"

text \<open>Storing into a string of limited length: what lies behind its end is left out.\<close>

fun put_bytes :: "byte list \<Rightarrow> nat \<Rightarrow> byte list \<Rightarrow> byte list" where
  "put_bytes str i [] = str"
| "put_bytes str i (b # bs) = put_bytes (str[i := b]) (Suc i) bs"

text \<open>In this direction the byte behind the first one of a longer character is skipped.\<close>

fun to_message_next :: "byte list \<Rightarrow> int \<times> byte list" where
  "to_message_next [] = (- 1, [])"
| "to_message_next (b # p) =
     (let c = uint b in
      if c \<ge> 128 then
        utf8_cont (if c AND 0xe0 = 0xc0 then c AND 0x1f else if c AND 0xf0 = 0xe0 then c AND 0x0f else c AND 0x07) (drop 1 p)
      else (c, p))"

lemma to_message_next_less: "(c, q) = to_message_next p \<Longrightarrow> p \<noteq> [] \<Longrightarrow> length q < length p"
proof (cases p)
  case (Cons b p')
  assume "(c, q) = to_message_next p"
  then have "q = p' \<or> (\<exists>v. q = snd (utf8_cont v (drop 1 p')))"
    by (auto simp: Cons Let_def split: if_splits) (metis snd_conv)+
  then show ?thesis using utf8_cont_length [of _ "drop 1 p'"] Cons by (fastforce intro: le_imp_less_Suc order_trans)
qed simp

definition to_message_put :: "int \<Rightarrow> byte list \<Rightarrow> nat \<Rightarrow> byte list \<times> nat" where
  "to_message_put c str count =
     (if c < 32 \<and> c \<noteq> 10 then
        (if count + 3 < length str then put_bytes str count ([92, 120] @ gsm_hex_from_byte c) else str, count + 4)
      else if c = 10 \<or> c = 92 then
        (if count + 2 < length str then put_bytes str count [92, of_int (if c = 10 then 110 else c)] else str, count + 2)
      else (put_bytes str count (message_char c), count + length (message_char c)))"

function to_message_loop :: "byte list \<Rightarrow> byte list \<Rightarrow> nat \<Rightarrow> byte list \<times> nat" where
  "to_message_loop p str count =
     (if p = [] then (str, count)
      else
        (case to_message_next p of
           (c, q) \<Rightarrow> (case to_message_put c str count of (str', count') \<Rightarrow> to_message_loop q str' count')))"
  by auto
termination by (relation "measure (\<lambda>(p, s, n). length p)") (auto intro: to_message_next_less)

declare to_message_loop.simps [simp del]

definition sms_utf8_to_message_str :: "byte list \<Rightarrow> byte list \<Rightarrow> int \<times> byte list" where
  "sms_utf8_to_message_str utf8 str =
     (case to_message_loop utf8 str 0 of (str', count) \<Rightarrow> (int count, str'))"

section \<open>Time stamps\<close>

record tm =
  tm_year :: int
  tm_mon :: int
  tm_mday :: int
  tm_hour :: int
  tm_min :: int
  tm_sec :: int
  tm_isdst :: int

text \<open>\<open>local\<close> is the local time and \<open>offset\<close> its distance from UTC in seconds.\<close>

definition sms_timestamp_now :: "tm \<Rightarrow> int \<Rightarrow> byte list" where
  "sms_timestamp_now local offset =
     (let tzdiff = offset sdiv (15 * 60);
          last = gsm_int_to_bcdi (if tzdiff \<ge> 0 then tzdiff else - tzdiff) in
      [gsm_int_to_bcdi (tm_year local smod 100), gsm_int_to_bcdi (tm_mon local + 1), gsm_int_to_bcdi (tm_mday local),
       gsm_int_to_bcdi (tm_hour local), gsm_int_to_bcdi (tm_min local), gsm_int_to_bcdi (tm_sec local),
       if tzdiff < 0 then last OR 0x08 else last])"

definition sms_timestamp_to_tm :: "byte list \<Rightarrow> tm \<times> int" where
  "sms_timestamp_to_tm stamp =
     (let year = gsm_int_from_bcdi (stamp ! 0);
          tzdiff = gsm_int_from_bcdi (stamp ! 6 AND 0xf7) in
      (\<lparr>tm_year = (if year < 50 then year + 100 else year), tm_mon = gsm_int_from_bcdi (stamp ! 1) - 1,
        tm_mday = gsm_int_from_bcdi (stamp ! 2), tm_hour = gsm_int_from_bcdi (stamp ! 3),
        tm_min = gsm_int_from_bcdi (stamp ! 4), tm_sec = gsm_int_from_bcdi (stamp ! 5), tm_isdst = - 1\<rparr>,
       if stamp ! 6 AND 0x8 \<noteq> 0 then - tzdiff else tzdiff))"

definition gsm_rope_add_timestamp :: "(int \<Rightarrow> byte list option) \<Rightarrow> byte list \<Rightarrow> gsm_rope \<Rightarrow> gsm_rope option" where
  "gsm_rope_add_timestamp realloc ts rope = gsm_rope_add realloc (take 7 ts) rope"

section \<open>Addresses\<close>

definition SMS_ADDRESS_MAX_SIZE :: nat where "SMS_ADDRESS_MAX_SIZE = 10"

definition MAX_ALPHANUMERIC_SMS_ADDRESS_LENGTH :: nat where
  "MAX_ALPHANUMERIC_SMS_ADDRESS_LENGTH = SMS_ADDRESS_MAX_SIZE * 8 div 7"

record sms_address =
  ad_len :: byte
  ad_toa :: byte
  ad_data :: "byte list"

text \<open>Letters, digits, and the characters of \<open>@_ !"#%&'()*+,-./:;<=>?\<close>.\<close>

definition is_in_gsm_default_alphabet :: "int \<Rightarrow> bool" where
  "is_in_gsm_default_alphabet c \<longleftrightarrow>
     (97 \<le> c \<and> c \<le> 122 \<or> 65 \<le> c \<and> c \<le> 90 \<or> 48 \<le> c \<and> c \<le> 57)
     \<or> c \<in> set [64, 95, 32, 33, 34, 35, 37, 38, 39, 40, 41, 42, 43, 44, 45, 46, 47, 58, 59, 60, 61, 62, 63]"

text \<open>
  The shifter: characters are taken seven bits at a time and whole bytes stored at \<open>i\<close>.
  The loop returns the bytes, where it stopped and what is left in the shifter, or \<open>Inl\<close>
  with the bytes so far for a character outside of the alphabet.
\<close>

fun alphanum_loop :: "byte list \<Rightarrow> byte list \<Rightarrow> nat \<Rightarrow> int \<Rightarrow> int \<Rightarrow> (byte list + (byte list \<times> nat \<times> int \<times> int)) option" where
  "alphanum_loop [] data i bits sz = Some (Inr (data, i, bits, sz))"
| "alphanum_loop (ch # src) data i bits sz =
     (let c = sint ch in
      if is_in_gsm_default_alphabet c then
        (let bits' = c_int (bits OR push_bit (nat sz) c); sz' = sz + 7 in
         if sz' \<ge> 8 then
           (if i < length data
            then alphanum_loop src (data[i := of_int (bits' AND 0xff)]) (Suc i) (drop_bit 8 bits') (sz' - 8)
            else None)
         else alphanum_loop src data i bits' sz')
      else Some (Inl data))"

definition sms_alphanum_address_from_str :: "sms_address \<Rightarrow> byte list \<Rightarrow> (int \<times> sms_address) option" where
  "sms_alphanum_address_from_str address src =
     (if src = [] then Some (- 1, address)
      else if length src > MAX_ALPHANUMERIC_SMS_ADDRESS_LENGTH then Some (- 1, address)
      else
        (case alphanum_loop src (replicate SMS_ADDRESS_MAX_SIZE 0) 0 0 0 of
           None \<Rightarrow> None
         | Some (Inl data) \<Rightarrow> Some (- 1, address\<lparr>ad_data := data\<rparr>)
         | Some (Inr (data, i, bits, sz)) \<Rightarrow>
             (if sz > 0 \<and> \<not> i < length data then None
              else
                Some (0, \<lparr>ad_len = of_int ((int (length src) * 7 + 4 - 1) sdiv 4), ad_toa = of_int (sms_build_toa 5),
                          ad_data = (if sz > 0 then data[i := of_int bits] else data)\<rparr>))))"

text \<open>
  Digits of a number go to the nibbles of the data, lower nibbles first; other characters
  are ignored. The result is \<open>Inl\<close> with the data when there is no room.
\<close>

fun numeric_loop :: "byte list \<Rightarrow> byte list \<Rightarrow> nat \<Rightarrow> int \<Rightarrow> int \<Rightarrow> byte list + (byte list \<times> nat \<times> int \<times> int)" where
  "numeric_loop [] data i shift len = Inr (data, i, shift, len)"
| "numeric_loop (ch # src) data i shift len =
     (let c = sint ch in
      if 48 \<le> c \<and> c \<le> 57 then
        (if i \<ge> length data then Inl data
         else
           (let data' = data[i := data ! i OR of_int (push_bit (nat shift) (c - 48))] in
            if shift + 4 = 8 then numeric_loop src data' (Suc i) 0 (len + 1)
            else numeric_loop src data' i (shift + 4) (len + 1)))
      else numeric_loop src data i shift len)"

definition sms_numeric_address_from_str :: "sms_address \<Rightarrow> byte list \<Rightarrow> (int \<times> sms_address) option" where
  "sms_numeric_address_from_str address0 src0 =
     (let address = address0\<lparr>ad_len := 0, ad_toa := of_int (sms_build_toa 0)\<rparr> in
      case src0 of
        [] \<Rightarrow> Some (- 1, address)
      | ch # rest \<Rightarrow>
          (let plus = (ch = 43);
               address = (if plus then address\<lparr>ad_toa := of_int (sms_build_toa 1)\<rparr> else address);
               src = (if plus then rest else src0) in
           if plus \<and> rest = [] then Some (- 1, address)
           else
             (case numeric_loop src (replicate SMS_ADDRESS_MAX_SIZE 0) 0 0 0 of
                Inl data \<Rightarrow> Some (- 1, address\<lparr>ad_data := data\<rparr>)
              | Inr (data, i, shift, len) \<Rightarrow>
                  (if shift \<noteq> 0 \<and> \<not> i < length data then None
                   else
                     Some (if len > 0 then 0 else - 1,
                       address\<lparr>ad_len := of_int len,
                               ad_data := (if shift \<noteq> 0 then data[i := data ! i OR 0xf0] else data)\<rparr>)))))"

definition sms_address_from_str :: "sms_address \<Rightarrow> byte list \<Rightarrow> (int \<times> sms_address) option" where
  "sms_address_from_str address src =
     (case sms_numeric_address_from_str address src of
        None \<Rightarrow> None
      | Some (result, address') \<Rightarrow>
          if result \<ge> 0 then Some (result, address') else sms_alphanum_address_from_str address' src)"

definition dialdigits :: "byte list" where
  "dialdigits = [48, 49, 50, 51, 52, 53, 54, 55, 56, 57, 42, 35, 44, 78, 37, 0]"

text \<open>
  The digits of a number from digit \<open>n\<close> on. The second digit of each pair is stored and then
  counted unless the stored byte is 0; reading it behind the end of the string is \<open>None\<close>.
\<close>

function numeric_to_str_loop :: "sms_address \<Rightarrow> nat \<Rightarrow> byte list \<Rightarrow> nat \<Rightarrow> (byte list \<times> nat) option" where
  "numeric_to_str_loop address n str count =
     (if n < unat (ad_len address) then
        (if \<not> n div 2 < length (ad_data address) then None
         else
           (let c = uint (ad_data address ! (n div 2));
                str1 = str[count := dialdigits ! nat (c AND 0xf)];
                count1 = count + 1;
                str2 = str1[count1 := dialdigits ! nat (drop_bit 4 c AND 0xf)] in
            if \<not> count1 < length str then None
            else numeric_to_str_loop address (n + 2) str2 (if str2 ! count1 \<noteq> 0 then count1 + 1 else count1)))
      else Some (str, count))"
  by auto
termination by (relation "measure (\<lambda>(a, n, s, c). unat (ad_len a) - n)") auto

declare numeric_to_str_loop.simps [simp del]

definition sms_numeric_address_to_str :: "sms_address \<Rightarrow> byte list \<Rightarrow> (int \<times> byte list) option" where
  "sms_numeric_address_to_str address str =
     (let plus = (ad_toa address = 0x91) in
      map_option (\<lambda>(s, n). (int n, s))
        (numeric_to_str_loop address 0 (if plus then str[0 := 43] else str) (if plus then 1 else 0)))"

text \<open>
  The decoder for text: whole bytes are added to the shifter and characters taken from
  it, at most two at a time. \<open>Inl\<close> is a failure, with what was written so far.
\<close>

fun alphanum_take :: "nat \<Rightarrow> int \<Rightarrow> int \<Rightarrow> byte list \<Rightarrow> nat \<Rightarrow> byte list + (int \<times> int \<times> byte list \<times> nat)" where
  "alphanum_take 0 bits sz str n = Inr (bits, sz, str, n)"
| "alphanum_take (Suc k) bits sz str n =
     (if sz \<ge> 7 then
        (let c = bits AND 0x7f in
         if is_in_gsm_default_alphabet c then
           (if n + 1 > length str then Inl str
            else alphanum_take k (drop_bit 7 bits) (sz - 7) (str[n := of_int c]) (n + 1))
         else Inl str)
      else Inr (bits, sz, str, n))"

fun alphanum_to_str_loop :: "byte list \<Rightarrow> int \<Rightarrow> int \<Rightarrow> int \<Rightarrow> byte list \<Rightarrow> nat \<Rightarrow> byte list + (byte list \<times> nat)" where
  "alphanum_to_str_loop [] left bits sz str n = Inr (str, n)"
| "alphanum_to_str_loop (b # data) left bits sz str n =
     (let this = (if left < 8 then left else 8);
          bits' = c_int (bits OR push_bit (nat sz) (uint b)) in
      case alphanum_take 3 bits' (sz + this) str n of
        Inl s \<Rightarrow> Inl s
      | Inr (bits'', sz'', str', n') \<Rightarrow> alphanum_to_str_loop data (left - this) bits'' sz'' str' n')"

definition sms_alphanumeric_address_to_str :: "sms_address \<Rightarrow> byte list \<Rightarrow> (int \<times> byte list) option" where
  "sms_alphanumeric_address_to_str address str =
     (let left = uint (ad_len address) * 4; n = nat ((left + 8 - 1) div 8) in
      if n > length (ad_data address) then None
      else
        (case alphanum_to_str_loop (take n (ad_data address)) left 0 0 str 0 of
           Inl s \<Rightarrow> Some (- 1, s)
         | Inr (s, k) \<Rightarrow> Some (int k, s)))"

definition sms_address_to_str :: "sms_address \<Rightarrow> byte list \<Rightarrow> (int \<times> byte list) option" where
  "sms_address_to_str address str =
     (let ton = sms_get_ton (uint (ad_toa address)) in
      if ton = 0 \<or> ton = 1 then sms_numeric_address_to_str address str
      else if ton = 5 then sms_alphanumeric_address_to_str address str
      else Some (- 1, str))"

text \<open>
  The rope gets the length, the type and the bytes; the last nibble of an odd number is
  set. An address with more digits than its data holds is \<open>None\<close>, also for a rope that
  only counts.
\<close>

definition rope_mark_odd :: "gsm_rope \<Rightarrow> gsm_rope option" where
  "rope_mark_odd rope =
     (let i = rp_pos rope - 1 in
      case rp_data rope of
        Rope_null \<Rightarrow> Some rope
      | Rope_data0 b \<Rightarrow>
          (if 0 \<le> i \<and> i < int (length b) then Some (rope\<lparr>rp_data := Rope_data0 (b[nat i := b ! nat i OR 0xf0])\<rparr>) else None)
      | Rope_heap b \<Rightarrow>
          (if 0 \<le> i \<and> i < int (length b) then Some (rope\<lparr>rp_data := Rope_heap (b[nat i := b ! nat i OR 0xf0])\<rparr>) else None))"

definition gsm_rope_add_address :: "(int \<Rightarrow> byte list option) \<Rightarrow> sms_address \<Rightarrow> gsm_rope \<Rightarrow> gsm_rope option" where
  "gsm_rope_add_address realloc addr rope =
     (let n = (unat (ad_len addr) + 1) div 2 in
      if n > length (ad_data addr) then None
      else
        Option.bind (gsm_rope_add_c realloc (ad_len addr) rope)
          (\<lambda>r. Option.bind (gsm_rope_add_c realloc (ad_toa addr) r)
            (\<lambda>r. Option.bind (gsm_rope_add realloc (take n (ad_data addr)) r)
              (\<lambda>r. if odd (unat (ad_len addr)) \<and> rp_error r = 0 then rope_mark_odd r else Some r))))"

text \<open>
  The comparison reads as many bytes as the address has nibbles, which may leave the data.
\<close>

definition sms_address_eq :: "sms_address \<Rightarrow> sms_address \<Rightarrow> bool option" where
  "sms_address_eq addr1 addr2 =
     (if ad_toa addr1 \<noteq> ad_toa addr2 \<or> ad_len addr1 \<noteq> ad_len addr2 then Some False
      else
        (let n = unat (ad_len addr1) in
         if n > length (ad_data addr1) \<or> n > length (ad_data addr2) then None
         else Some (take n (ad_data addr1) = take n (ad_data addr2))))"

section \<open>Lemmas on numeric addresses\<close>

definition digit_byte :: "nat \<Rightarrow> byte" where
  "digit_byte d = word_of_nat (48 + d)"

text \<open>The nibbles of digits; \<open>f\<close> is added to a last single digit.\<close>

fun pack_digits :: "byte \<Rightarrow> nat list \<Rightarrow> byte list" where
  "pack_digits f [] = []"
| "pack_digits f [d] = [word_of_nat d OR f]"
| "pack_digits f (d # e # ds) = (word_of_nat d OR 16 * word_of_nat e) # pack_digits f ds"

lemma length_pack_digits: "length (pack_digits f ds) = (length ds + 1) div 2"
  by (induction f ds rule: pack_digits.induct) auto

lemma ten_cases: "d < 10 \<Longrightarrow> d \<in> set [0, 1, 2, 3, 4, 5, 6, 7, 8, 9 :: nat]"
  by (simp add: less_Suc_eq numeral_eq_Suc)

lemma digit_facts:
  assumes "d < 10"
  shows "sint (digit_byte d) = 48 + int d" "word_of_int (push_bit 0 (int d)) = (word_of_nat d :: byte)"
    "word_of_int (push_bit 4 (int d)) = (16 * word_of_nat d :: byte)" "digit_byte d \<noteq> 43"
proof -
  have "\<forall>d\<in>set [0, 1, 2, 3, 4, 5, 6, 7, 8, 9 :: nat]. sint (digit_byte d) = 48 + int d
      \<and> word_of_int (push_bit 0 (int d)) = (word_of_nat d :: byte)
      \<and> word_of_int (push_bit 4 (int d)) = (16 * word_of_nat d :: byte) \<and> digit_byte d \<noteq> 43"
    by code_simp
  from bspec [OF this ten_cases [OF assms]] show "sint (digit_byte d) = 48 + int d"
    "word_of_int (push_bit 0 (int d)) = (word_of_nat d :: byte)"
    "word_of_int (push_bit 4 (int d)) = (16 * word_of_nat d :: byte)" "digit_byte d \<noteq> 43" by blast+
qed

lemma numeric_loop_digits:
  assumes "list_all (\<lambda>d. d < 10) ds" "(length ds + 1) div 2 \<le> m"
  shows "numeric_loop (map digit_byte ds) (pre @ replicate m 0) (length pre) 0 len =
    Inr (pre @ pack_digits 0 ds @ replicate (m - (length ds + 1) div 2) 0, length pre + length ds div 2,
         if odd (length ds) then 4 else 0, len + int (length ds))"
  using assms
proof (induction "0 :: byte" ds arbitrary: pre m len rule: pack_digits.induct)
  case (2 d)
  then obtain k where "m = Suc k" by (cases m) auto
  with 2 show ?case by (simp add: digit_facts nth_append list_update_append)
next
  case (3 d e ds)
  then obtain k where m: "m = Suc k" by (cases m) auto
  let ?b = "word_of_nat d OR 16 * word_of_nat e :: byte"
  from 3 m have "numeric_loop (map digit_byte ds) ((pre @ [?b]) @ replicate k 0) (length (pre @ [?b])) 0 (2 + len) =
      Inr ((pre @ [?b]) @ pack_digits 0 ds @ replicate (k - (length ds + 1) div 2) 0, length (pre @ [?b]) + length ds div 2,
         if odd (length ds) then 4 else 0, 2 + len + int (length ds))"
    by (intro "3.hyps") auto
  with 3 m show ?case by (cases "odd (length ds)") (simp_all add: digit_facts nth_append list_update_append)
qed simp

lemma pair_facts:
  assumes "d < 10" "e < 10"
  shows "uint (word_of_nat d OR 16 * word_of_nat e :: byte) AND 0xf = int d"
    "drop_bit 4 (uint (word_of_nat d OR 16 * word_of_nat e :: byte)) AND 0xf = int e"
    "uint (word_of_nat d OR 0xf0 :: byte) AND 0xf = int d" "drop_bit 4 (uint (word_of_nat d OR 0xf0 :: byte)) AND 0xf = 15"
    "dialdigits ! d = digit_byte d" "digit_byte d \<noteq> 0"
proof -
  let ?P = "\<lambda>d e. uint (word_of_nat d OR 16 * word_of_nat e :: byte) AND 0xf = int d
      \<and> drop_bit 4 (uint (word_of_nat d OR 16 * word_of_nat e :: byte)) AND 0xf = int e
      \<and> uint (word_of_nat d OR 0xf0 :: byte) AND 0xf = int d \<and> drop_bit 4 (uint (word_of_nat d OR 0xf0 :: byte)) AND 0xf = 15
      \<and> dialdigits ! d = digit_byte d \<and> digit_byte d \<noteq> 0"
  have "\<forall>d\<in>set [0, 1, 2, 3, 4, 5, 6, 7, 8, 9 :: nat]. \<forall>e\<in>set [0, 1, 2, 3, 4, 5, 6, 7, 8, 9 :: nat]. ?P d e"
    by code_simp
  then have "?P d e" using ten_cases [OF assms(1)] ten_cases [OF assms(2)] by blast
  then show "uint (word_of_nat d OR 16 * word_of_nat e :: byte) AND 0xf = int d"
    "drop_bit 4 (uint (word_of_nat d OR 16 * word_of_nat e :: byte)) AND 0xf = int e"
    "uint (word_of_nat d OR 0xf0 :: byte) AND 0xf = int d" "drop_bit 4 (uint (word_of_nat d OR 0xf0 :: byte)) AND 0xf = 15"
    "dialdigits ! d = digit_byte d" "digit_byte d \<noteq> 0" by blast+
qed

lemma dialdigits_15: "dialdigits ! 15 = 0"
  by (simp add: dialdigits_def)

lemma numeric_to_str_digits:
  assumes "list_all (\<lambda>d. d < 10) ds" "unat (ad_len a) = 2 * length pre + length ds"
    and "ad_data a = pre @ pack_digits 0xf0 ds @ post" "count + length ds < length str"
  shows "\<exists>str'. numeric_to_str_loop a (2 * length pre) str count = Some (str', count + length ds)
    \<and> length str' = length str \<and> take (count + length ds) str' = take count str @ map digit_byte ds"
  using assms
proof (induction "0xf0 :: byte" ds arbitrary: pre str count rule: pack_digits.induct)
  case 1
  then show ?case by (subst numeric_to_str_loop.simps) simp
next
  case (2 d)
  then have d: "d < 10" by simp
  have next2: "numeric_to_str_loop a (2 * length pre + 2) s c = Some (s, c)" for s c
    using 2 by (subst numeric_to_str_loop.simps) simp
  from 2 d show ?case
    by (subst numeric_to_str_loop.simps)
      (simp add: nth_append pair_facts [OF d d] dialdigits_15 next2 [simplified] take_Suc_conv_app_nth)
next
  case (3 d e ds)
  then have de: "d < 10" "e < 10" by simp_all
  let ?b = "word_of_nat d OR 16 * word_of_nat e :: byte"
  let ?s = "str[count := digit_byte d, Suc count := digit_byte e]"
  from 3 have "\<exists>str'. numeric_to_str_loop a (2 * length (pre @ [?b])) ?s (count + 2) = Some (str', count + 2 + length ds)
      \<and> length str' = length ?s \<and> take (count + 2 + length ds) str' = take (count + 2) ?s @ map digit_byte ds"
    by (intro "3.hyps") auto
  moreover have "numeric_to_str_loop a (2 * length pre) str count = numeric_to_str_loop a (2 * length (pre @ [?b])) ?s (count + 2)"
    using 3 by (subst numeric_to_str_loop.simps) (simp add: nth_append pair_facts [OF de] pair_facts [OF de(2,2)])
  moreover have "take (count + 2) ?s = take count str @ [digit_byte d, digit_byte e]"
    using "3.prems"(4) by (simp add: take_Suc_conv_app_nth)
  ultimately show ?case by auto
qed

section \<open>Lemmas on alphanumeric addresses\<close>

text \<open>Both directions keep the number whose digits are the characters to the base 128.\<close>

fun cval :: "byte list \<Rightarrow> int" where
  "cval [] = 0"
| "cval (c # cs) = uint c + 128 * cval cs"

fun bval :: "byte list \<Rightarrow> int" where
  "bval [] = 0"
| "bval (b # bs) = uint b + 256 * bval bs"

definition gsm_text :: "byte list \<Rightarrow> bool" where
  "gsm_text src \<longleftrightarrow> list_all (\<lambda>ch. is_in_gsm_default_alphabet (sint ch)) src"

lemma bval_append: "bval (xs @ ys) = bval xs + 256 ^ length xs * bval ys"
  by (induction xs) (simp_all add: algebra_simps)

lemma gsm_char: "is_in_gsm_default_alphabet (sint ch) \<Longrightarrow> sint ch = uint ch \<and> uint ch < 128"
  for ch :: byte
proof -
  assume "is_in_gsm_default_alphabet (sint ch)"
  then have "0 \<le> sint ch" "sint ch < 128" by (auto simp: is_in_gsm_default_alphabet_def)
  moreover have "uint ch = sint ch mod 256" using uint_sint [of ch] by (simp add: take_bit_eq_mod)
  ultimately show ?thesis by simp
qed

lemma or_shift: "0 \<le> bits \<Longrightarrow> bits < 2 ^ s \<Longrightarrow> bits OR push_bit s v = bits + v * 2 ^ s" for bits v :: int
  using join_bits [of bits s v] by (simp add: or.commute)

lemma int_div_less_iff: "0 < d \<Longrightarrow> b div d < m \<longleftrightarrow> b < m * d" for b d m :: int
proof -
  assume d: "0 < d"
  have le: "(b div d) * d \<le> b" "b < (b div d + 1) * d"
    using pos_mod_sign [OF d, of b] pos_mod_bound [OF d, of b] div_mult_mod_eq [of b d] unfolding distrib_right by linarith+
  show ?thesis
  proof
    assume "b div d < m"
    then have "(b div d + 1) * d \<le> m * d" using d by (intro mult_right_mono) simp_all
    with le(2) show "b < m * d" by linarith
  next
    assume m: "b < m * d"
    show "b div d < m"
    proof (rule ccontr)
      assume "\<not> b div d < m"
      then have "m * d \<le> (b div d) * d" using d by (intro mult_right_mono) simp_all
      with le(1) m show False by linarith
    qed
  qed
qed

lemma alphanum_loop_val:
  assumes "gsm_text src" "0 \<le> bits" "bits < 2 ^ s" "s \<le> 7" "i + (s + 7 * length src) div 8 \<le> length data"
  shows "\<exists>bs bits' s'. alphanum_loop src data i bits (int s) =
      Some (Inr (take i data @ bs @ drop (i + length bs) data, i + length bs, bits', int s'))
    \<and> bval bs + 256 ^ length bs * bits' = bits + 2 ^ s * cval src
    \<and> 0 \<le> bits' \<and> bits' < 2 ^ s' \<and> s' \<le> 7 \<and> 8 * length bs + s' = s + 7 * length src"
  using assms
proof (induction src arbitrary: data i bits s)
  case Nil
  then show ?case by (intro exI [of _ "[]"]) simp
next
  case (Cons ch src)
  then have ch: "is_in_gsm_default_alphabet (sint ch)" "sint ch = uint ch" "uint ch < 128" "gsm_text src"
    using gsm_char [of ch] by (simp_all add: gsm_text_def)
  define b where "b = bits + uint ch * 2 ^ s"
  have b: "0 \<le> b" "b < 2 ^ (s + 7)"
  proof -
    have "uint ch * 2 ^ s \<le> 127 * 2 ^ s" using ch(3) by (intro mult_right_mono) simp_all
    then have "bits + uint ch * 2 ^ s < 2 ^ s * 128" using Cons.prems(3) by linarith
    then show "b < 2 ^ (s + 7)" by (simp add: b_def power_add)
    show "0 \<le> b" using Cons.prems(2) by (simp add: b_def)
  qed
  have "(2 :: int) ^ (s + 7) \<le> 2 ^ 14" using Cons.prems(4) by (intro power_increasing) simp_all
  with b have c: "c_int (bits OR push_bit s (uint ch)) = b"
    using or_shift [OF Cons.prems(2,3), of "uint ch"] by (simp add: b_def)
  show ?case
  proof (cases "s = 0")
    case True
    with b Cons.prems ch have "\<exists>bs bits' s'. alphanum_loop src data i b (int 7) =
        Some (Inr (take i data @ bs @ drop (i + length bs) data, i + length bs, bits', int s'))
      \<and> bval bs + 256 ^ length bs * bits' = b + 2 ^ 7 * cval src
      \<and> 0 \<le> bits' \<and> bits' < 2 ^ s' \<and> s' \<le> 7 \<and> 8 * length bs + s' = 7 + 7 * length src"
      by (intro Cons.IH) simp_all
    with True c ch show ?thesis by (simp add: b_def add.assoc)
  next
    case False
    define s1 where "s1 = s - 1"
    have s: "s = Suc s1" "s1 \<le> 7" using False Cons.prems(4) by (simp_all add: s1_def)
    have i: "i < length data" using Cons.prems(5) s by simp
    have hi: "0 \<le> drop_bit 8 b" "drop_bit 8 b < 2 ^ s1"
    proof -
      have "b < 2 ^ s1 * 256" using b(2) s(1) by (simp add: power_add)
      then show "drop_bit 8 b < 2 ^ s1" by (simp add: drop_bit_eq_div int_div_less_iff)
      show "0 \<le> drop_bit 8 b" using b(1) by simp
    qed
    let ?byte = "word_of_int (b AND 0xff) :: byte"
    have lo: "uint ?byte = b mod 256"
      using take_bit_eq_mask [of 8 b] by (simp add: mask_numeral take_bit_eq_mod uint_word_of_int)
    have "\<exists>bs bits' s'. alphanum_loop src (data[i := ?byte]) (Suc i) (drop_bit 8 b) (int s1) =
        Some (Inr (take (Suc i) (data[i := ?byte]) @ bs @ drop (Suc i + length bs) (data[i := ?byte]), Suc i + length bs, bits', int s'))
      \<and> bval bs + 256 ^ length bs * bits' = drop_bit 8 b + 2 ^ s1 * cval src
      \<and> 0 \<le> bits' \<and> bits' < 2 ^ s' \<and> s' \<le> 7 \<and> 8 * length bs + s' = s1 + 7 * length src"
      using hi ch Cons.prems(5) s by (intro Cons.IH) simp_all
    then obtain bs bits' s' where r: "alphanum_loop src (data[i := ?byte]) (Suc i) (drop_bit 8 b) (int s1) =
        Some (Inr (take (Suc i) (data[i := ?byte]) @ bs @ drop (Suc i + length bs) (data[i := ?byte]), Suc i + length bs, bits', int s'))"
      "bval bs + 256 ^ length bs * bits' = drop_bit 8 b + 2 ^ s1 * cval src"
      "0 \<le> bits'" "bits' < 2 ^ s'" "s' \<le> 7" "8 * length bs + s' = s1 + 7 * length src" by blast
    have val: "bval (?byte # bs) + 256 ^ length (?byte # bs) * bits' = bits + 2 ^ s * cval (ch # src)"
    proof -
      have "bval (?byte # bs) + 256 ^ length (?byte # bs) * bits' = uint ?byte + 256 * (bval bs + 256 ^ length bs * bits')"
        by (simp add: algebra_simps)
      also have "\<dots> = b mod 256 + 256 * (b div 256 + 2 ^ s1 * cval src)" unfolding r(2) lo by (simp add: drop_bit_eq_div)
      also have "\<dots> = b + 2 ^ s * (128 * cval src)" using s(1) by (simp add: algebra_simps)
      finally show ?thesis by (simp add: b_def algebra_simps)
    qed
    have "alphanum_loop (ch # src) data i bits (int s) =
        Some (Inr (take i data @ (?byte # bs) @ drop (i + length (?byte # bs)) data, i + length (?byte # bs), bits', int s'))"
    proof -
      have "\<not> int s < 1" "int s - 1 = int s1" using s by simp_all
      with c ch r(1) i show ?thesis by (simp add: Let_def take_Suc_conv_app_nth)
    qed
    with val r s show ?thesis by (intro exI [of _ "?byte # bs"] exI [of _ bits'] exI [of _ s']) simp
  qed
qed

lemma alphanum_take_val:
  assumes "gsm_text cs" "s < 7 * k" "s div 7 \<le> length cs" "n + s div 7 \<le> length str"
    and "0 \<le> bits" "bits + 2 ^ s * r = cval cs"
  shows "\<exists>str'. alphanum_take k bits (int s) str n =
      Inr (bits div 128 ^ (s div 7), int (s mod 7), str', n + s div 7)
    \<and> bits div 128 ^ (s div 7) + 2 ^ (s mod 7) * r = cval (drop (s div 7) cs)
    \<and> length str' = length str \<and> take (n + s div 7) str' = take n str @ take (s div 7) cs"
  using assms
proof (induction k arbitrary: cs s bits str n)
  case (Suc k)
  show ?case
  proof (cases "s < 7")
    case True
    with Suc.prems show ?thesis by simp
  next
    case False
    then obtain s1 where s: "s = s1 + 7" by (metis add.commute le_Suc_ex not_less)
    with Suc.prems(3) obtain c cs' where cs: "cs = c # cs'" by (cases cs) auto
    have c: "is_in_gsm_default_alphabet (sint c)" "sint c = uint c" "uint c < 128" "gsm_text cs'"
      using Suc.prems(1) gsm_char [of c] by (simp_all add: cs gsm_text_def)
    have eq: "bits + 128 * (2 ^ s1 * r) = uint c + 128 * cval cs'"
      using Suc.prems(6) by (simp add: s cs power_add algebra_simps)
    have "(bits + 128 * (2 ^ s1 * r)) mod 128 = (uint c + 128 * cval cs') mod 128" by (simp only: eq)
    then have lo: "bits mod 128 = uint c" using c(3) by simp
    have hi: "bits div 128 + 2 ^ s1 * r = cval cs'"
      using eq lo mult_div_mod_eq [of 128 bits] by linarith
    have "bits AND 0x7f = uint c"
      using lo take_bit_eq_mask [of 7 bits] by (simp add: mask_numeral take_bit_eq_mod)
    moreover have "\<exists>str'. alphanum_take k (bits div 128) (int s1) (str[n := c]) (Suc n) =
        Inr (bits div 128 div 128 ^ (s1 div 7), int (s1 mod 7), str', Suc n + s1 div 7)
      \<and> bits div 128 div 128 ^ (s1 div 7) + 2 ^ (s1 mod 7) * r = cval (drop (s1 div 7) cs')
      \<and> length str' = length (str[n := c]) \<and> take (Suc n + s1 div 7) str' = take (Suc n) (str[n := c]) @ take (s1 div 7) cs'"
      using c hi Suc.prems s cs by (intro Suc.IH) simp_all
    moreover have j: "s div 7 = Suc (s1 div 7)" "s mod 7 = s1 mod 7" by (simp_all add: s)
    moreover have "bits div 128 div 128 ^ (s1 div 7) = bits div 128 ^ (s div 7)"
      unfolding j(1) by (simp add: zdiv_zmult2_eq)
    ultimately show ?thesis using c s cs Suc.prems(4)
      by (auto simp: drop_bit_eq_div take_Suc_conv_app_nth)
  qed
qed simp

lemma alphanum_to_str_val:
  assumes "gsm_text cs" "length bs = (left + 7) div 8" "s < 7" "(s + left) div 7 = length cs"
    and "n + length cs \<le> length str" "0 \<le> bits" "bits < 2 ^ s" "bits + 2 ^ s * bval bs = cval cs"
  shows "\<exists>str'. alphanum_to_str_loop bs (int left) bits (int s) str n = Inr (str', n + length cs)
    \<and> length str' = length str \<and> take (n + length cs) str' = take n str @ cs"
  using assms
proof (induction bs arbitrary: cs left bits s str n)
  case Nil
  then have "left = 0" by simp
  with Nil have "cs = []" by simp
  then show ?case by simp
next
  case (Cons b bs)
  define w where "w = min left 8"
  define b1 where "b1 = bits + uint b * 2 ^ s"
  have b1: "0 \<le> b1" "b1 < 2 ^ (s + 8)"
  proof -
    have "uint b * 2 ^ s \<le> 255 * 2 ^ s" using uint_lt2p [of b] by (intro mult_right_mono) simp_all
    then have "bits + uint b * 2 ^ s < 2 ^ s * 256" using Cons.prems(7) by linarith
    then show "b1 < 2 ^ (s + 8)" by (simp add: b1_def power_add)
    show "0 \<le> b1" using Cons.prems(6) by (simp add: b1_def)
  qed
  have "(2 :: int) ^ (s + 8) \<le> 2 ^ 15" using Cons.prems(3) by (intro power_increasing) simp_all
  with b1 have c: "c_int (bits OR push_bit s (uint b)) = b1"
    using or_shift [OF Cons.prems(6,7), of "uint b"] by (simp add: b1_def)
  have left: "8 * length bs < left" "left \<le> 8 * length bs + 8"
    using Cons.prems(2) mult_div_mod_eq [of 8 "left + 7"] mod_less_divisor [of 8 "left + 7"]
    unfolding list.size by linarith+
  then have more: "bs \<noteq> [] \<Longrightarrow> w = 8" and last: "bs = [] \<Longrightarrow> w = left"
    by (cases bs; simp add: w_def)+
  let ?j = "(s + w) div 7"
  have j: "?j \<le> length cs"
    using div_le_mono [of "s + w" "s + left" 7] Cons.prems(4) by (simp add: w_def)
  have val: "b1 + 2 ^ (s + w) * bval bs = cval cs"
  proof (cases "bs = []")
    case True
    then show ?thesis using Cons.prems(8) by (simp add: b1_def mult.commute)
  next
    case False
    with more have "(2 :: int) ^ (s + w) = 2 ^ s * 256" by (simp add: power_add)
    then show ?thesis using Cons.prems(8) by (simp add: b1_def distrib_left mult.commute mult.left_commute)
  qed
  have "s + w < 7 * 3" using Cons.prems(3) by (simp add: w_def)
  from alphanum_take_val [OF Cons.prems(1) this j _ b1(1) val, of n str] j Cons.prems(5)
  obtain str1 where t: "alphanum_take 3 b1 (int (s + w)) str n = Inr (b1 div 128 ^ ?j, int ((s + w) mod 7), str1, n + ?j)"
      "b1 div 128 ^ ?j + 2 ^ ((s + w) mod 7) * bval bs = cval (drop ?j cs)"
      "length str1 = length str" "take (n + ?j) str1 = take n str @ take ?j cs" by auto
  have step: "alphanum_to_str_loop (b # bs) (int left) bits (int s) str n =
      alphanum_to_str_loop bs (int (left - w)) (b1 div 128 ^ ?j) (int ((s + w) mod 7)) str1 (n + ?j)"
  proof -
    have w: "(if int left < 8 then int left else 8) = int w" "int left - int w = int (left - w)"
      by (auto simp: w_def)
    show ?thesis
      unfolding alphanum_to_str_loop.simps Let_def nat_int c w of_nat_add [symmetric] t(1) sum.case prod.case ..
  qed
  show ?case
  proof (cases "bs = []")
    case True
    with last have "w = left" by simp
    with Cons.prems(4) have "?j = length cs" by simp
    with step t True show ?thesis by simp
  next
    case False
    with more have e: "w = 8" by simp
    have left: "8 \<le> left" using e by (simp add: w_def)
    have "\<exists>str'. alphanum_to_str_loop bs (int (left - w)) (b1 div 128 ^ ?j) (int ((s + w) mod 7)) str1 (n + ?j) =
        Inr (str', n + ?j + length (drop ?j cs))
      \<and> length str' = length str1 \<and> take (n + ?j + length (drop ?j cs)) str' = take (n + ?j) str1 @ drop ?j cs"
    proof (rule Cons.IH)
      show "gsm_text (drop ?j cs)" using Cons.prems(1) by (auto simp: gsm_text_def list_all_iff dest: in_set_dropD)
      show "length bs = (left - w + 7) div 8" using Cons.prems(2) left e by simp
      show "((s + w) mod 7 + (left - w)) div 7 = length (drop ?j cs)"
      proof -
        have "s + left = 7 * ?j + ((s + w) mod 7 + (left - w))" using left e by simp
        then have "(s + left) div 7 = ?j + ((s + w) mod 7 + (left - w)) div 7" by (metis div_mult_self4 zero_neq_numeral)
        then show ?thesis using Cons.prems(4) by simp
      qed
      show "n + ?j + length (drop ?j cs) \<le> length str1" using Cons.prems(5) j t(3) by simp
      show "0 \<le> b1 div 128 ^ ?j" using b1(1) by (simp add: pos_imp_zdiv_nonneg_iff)
      have "(128 :: int) ^ ?j * 2 ^ ((s + w) mod 7) = 2 ^ (s + w)"
      proof -
        have "(128 :: int) ^ ?j = 2 ^ (7 * ?j)" by (simp add: power_mult)
        then show ?thesis by (simp flip: power_add)
      qed
      with b1(2) e have "b1 < 2 ^ ((s + w) mod 7) * 128 ^ ?j" by (simp add: mult.commute)
      then show "b1 div 128 ^ ?j < 2 ^ ((s + w) mod 7)" by (simp add: int_div_less_iff)
    qed (use t in simp_all)
    then show ?thesis using step t j by auto
  qed
qed

section \<open>Round trip of addresses\<close>

lemma pack_digits_even: "even (length ds) \<Longrightarrow> pack_digits f ds = pack_digits g ds"
  by (induction f ds rule: pack_digits.induct) auto

lemma pack_digits_mark:
  "odd (length ds) \<Longrightarrow> length ds div 2 < length (pack_digits 0 ds @ post) \<and>
    (pack_digits 0 ds @ post)[length ds div 2 := (pack_digits 0 ds @ post) ! (length ds div 2) OR 0xf0] = pack_digits 0xf0 ds @ post"
  by (induction "0 :: byte" ds rule: pack_digits.induct) auto

lemma numeric_loop_plain: "list_all (\<lambda>ch. \<not> (48 \<le> sint ch \<and> sint ch \<le> 57)) src \<Longrightarrow>
    numeric_loop src data i shift len = Inr (data, i, shift, len)"
  by (induction src) (auto simp: Let_def)

text \<open>The digits of a number, with a plus sign for an international one.\<close>

definition number_str :: "bool \<Rightarrow> nat list \<Rightarrow> byte list" where
  "number_str intl ds = (if intl then [43] else []) @ map digit_byte ds"

lemma toa_facts:
  "word_of_int (sms_build_toa 1) = (0x91 :: byte)" "word_of_int (sms_build_toa 0) = (0x81 :: byte)"
  "word_of_int (sms_build_toa 5) = (0xd1 :: byte)"
  "sms_get_ton 0x91 = 1" "sms_get_ton 0x81 = 0" "sms_get_ton 0xd1 = 5"
  by code_simp+

lemma numeric_from_str_digits:
  assumes "list_all (\<lambda>d. d < 10) ds" "ds \<noteq> []" "length ds \<le> 20"
  shows "sms_numeric_address_from_str a0 (number_str intl ds) =
    Some (0, a0\<lparr>ad_len := word_of_nat (length ds), ad_toa := if intl then 0x91 else 0x81,
                 ad_data := pack_digits 0xf0 ds @ replicate (10 - (length ds + 1) div 2) 0\<rparr>)"
proof -
  obtain d ds' where ds: "ds = d # ds'" "d < 10" using assms by (cases ds) auto
  have loop: "numeric_loop (map digit_byte ds) (replicate 10 0) 0 0 0 =
      Inr (pack_digits 0 ds @ replicate (10 - (length ds + 1) div 2) 0, length ds div 2,
         if odd (length ds) then 4 else 0, int (length ds))"
    using numeric_loop_digits [of ds 10 "[]" 0] assms by simp
  have mark: "(let data = pack_digits 0 ds @ post; i = length ds div 2 in if odd (length ds) then data[i := data ! i OR 0xf0] else data) =
      pack_digits 0xf0 ds @ post" for post
    using pack_digits_mark [of ds post] pack_digits_even [of ds 0 "0xf0"] by (simp add: Let_def)
  show ?thesis
    using loop mark pack_digits_mark [of ds "replicate (10 - (length ds + 1) div 2) 0"] assms digit_facts(4) [OF ds(2)]
    by (cases intl) (auto simp: sms_numeric_address_from_str_def number_str_def Let_def ds(1) SMS_ADDRESS_MAX_SIZE_def toa_facts)
qed

lemma numeric_address_roundtrip:
  assumes "list_all (\<lambda>d. d < 10) ds" "ds \<noteq> []" "length ds \<le> 20" "length (number_str intl ds) < length str"
  shows "\<exists>a str'. sms_address_from_str a0 (number_str intl ds) = Some (0, a)
    \<and> sms_address_to_str a str = Some (int (length (number_str intl ds)), str')
    \<and> take (length (number_str intl ds)) str' = number_str intl ds"
proof -
  define a where "a = a0\<lparr>ad_len := word_of_nat (length ds), ad_toa := if intl then 0x91 else 0x81,
      ad_data := pack_digits 0xf0 ds @ replicate (10 - (length ds + 1) div 2) 0\<rparr>"
  define str1 where "str1 = (if intl then str[0 := 43] else str)"
  define k where "k = (if intl then 1 else 0 :: nat)"
  have "unat (word_of_nat (length ds) :: byte) = length ds"
    using assms(3) by (simp add: unat_of_nat take_bit_nat_eq_self)
  with assms have "\<exists>str'. numeric_to_str_loop a (2 * length ([] :: byte list)) str1 k = Some (str', k + length ds)
    \<and> length str' = length str1 \<and> take (k + length ds) str' = take k str1 @ map digit_byte ds"
    by (intro numeric_to_str_digits) (auto simp: a_def k_def str1_def number_str_def)
  moreover have "take k str1 = (if intl then [43] else [])"
    using assms(4) by (cases str) (auto simp: k_def str1_def)
  moreover have "sms_address_to_str a str = map_option (\<lambda>(s, n). (int n, s)) (numeric_to_str_loop a 0 str1 k)"
    by (simp add: sms_address_to_str_def sms_numeric_address_to_str_def a_def toa_facts str1_def k_def)
  moreover have "sms_address_from_str a0 (number_str intl ds) = Some (0, a)"
    using numeric_from_str_digits [OF assms(1-3), of a0 intl] by (simp add: sms_address_from_str_def a_def)
  ultimately show ?thesis by (auto simp: number_str_def k_def)
qed

lemma bval_zeros: "bval (replicate m 0) = 0"
  by (induction m) simp_all

lemma alphanum_from_str_val:
  assumes "gsm_text src" "src \<noteq> []" "length src \<le> 11"
  shows "\<exists>bs. sms_alphanum_address_from_str a0 src =
      Some (0, \<lparr>ad_len = word_of_nat ((7 * length src + 3) div 4), ad_toa = 0xd1, ad_data = bs @ replicate (10 - length bs) 0\<rparr>)
    \<and> bval bs = cval src \<and> length bs = (7 * length src + 7) div 8"
proof -
  let ?n = "length src"
  have "\<exists>bs bits' s'. alphanum_loop src (replicate 10 0) 0 0 (int 0) =
      Some (Inr (take 0 (replicate 10 0) @ bs @ drop (0 + length bs) (replicate 10 0), 0 + length bs, bits', int s'))
    \<and> bval bs + 256 ^ length bs * bits' = 0 + 2 ^ 0 * cval src
    \<and> 0 \<le> bits' \<and> bits' < 2 ^ s' \<and> s' \<le> 7 \<and> 8 * length bs + s' = 0 + 7 * length src"
    using assms by (intro alphanum_loop_val) simp_all
  then obtain bs bits' s' where r: "alphanum_loop src (replicate 10 0) 0 0 0 =
      Some (Inr (bs @ replicate (10 - length bs) 0, length bs, bits', int s'))"
    "bval bs + 256 ^ length bs * bits' = cval src" "0 \<le> bits'" "bits' < 2 ^ s'" "s' \<le> 7" "8 * length bs + s' = 7 * ?n"
    by auto
  define cs where "cs = bs @ (if s' = 0 then [] else [word_of_int bits'])"
  have len: "length bs < 10" using r(6) assms(3) by linarith
  have "bits' < 128" using r(4,5) power_increasing [of s' 7 "2 :: int"] by simp
  then have "uint (word_of_int bits' :: byte) = bits'"
    using r(3) by (simp add: uint_word_of_int take_bit_int_eq_self)
  moreover have "s' = 0 \<Longrightarrow> bits' = 0" using r(3,4) by simp
  ultimately have val: "bval cs = cval src"
    using r(2) by (auto simp: cs_def bval_append)
  have size: "length cs = (7 * ?n + 7) div 8"
    using r(5) by (auto simp: cs_def r(6) [symmetric])
  have data: "(if 0 < int s' then (bs @ replicate (10 - length bs) 0)[length bs := word_of_int bits'] else bs @ replicate (10 - length bs) 0) =
      cs @ replicate (10 - length cs) 0"
  proof -
    from len obtain m where "10 - length bs = Suc m" by (metis Suc_diff_Suc)
    then show ?thesis by (auto simp: cs_def)
  qed
  have sz: "(int ?n * 7 + 4 - 1) sdiv 4 = int ((7 * ?n + 3) div 4)"
    by (simp add: signed_divide_int_def zdiv_int algebra_simps)
  have "sms_alphanum_address_from_str a0 src =
      Some (0, \<lparr>ad_len = word_of_nat ((7 * ?n + 3) div 4), ad_toa = 0xd1, ad_data = cs @ replicate (10 - length cs) 0\<rparr>)"
    unfolding sms_alphanum_address_from_str_def SMS_ADDRESS_MAX_SIZE_def MAX_ALPHANUMERIC_SMS_ADDRESS_LENGTH_def r(1) sz
      option.case sum.case prod.case data toa_facts of_int_of_nat_eq
    using assms(2,3) len by simp
  with val size show ?thesis by blast
qed

lemma numeric_from_str_plain:
  assumes "src \<noteq> []" "list_all (\<lambda>ch. \<not> (48 \<le> sint ch \<and> sint ch \<le> 57)) src"
  shows "\<exists>a1. sms_numeric_address_from_str a0 src = Some (- 1, a1)"
proof -
  obtain ch rest where src: "src = ch # rest" using assms(1) by (cases src) auto
  have "numeric_loop (if ch = 43 then rest else ch # rest) data 0 0 0 = Inr (data, 0, 0, 0)" for data
    using assms(2) by (intro numeric_loop_plain) (simp add: src)
  then show ?thesis by (simp add: sms_numeric_address_from_str_def src Let_def)
qed

lemma alphanum_address_roundtrip:
  assumes src: "gsm_text src" "src \<noteq> []" "length src \<le> 11" "list_all (\<lambda>ch. \<not> (48 \<le> sint ch \<and> sint ch \<le> 57)) src"
    and str: "length src \<le> length str"
  shows "\<exists>a str'. sms_address_from_str a0 src = Some (0, a)
    \<and> sms_address_to_str a str = Some (int (length src), str') \<and> take (length src) str' = src"
proof -
  let ?n = "length src"
  define L where "L = (7 * ?n + 3) div 4"
  obtain a1 where "sms_numeric_address_from_str a0 src = Some (- 1, a1)"
    using numeric_from_str_plain [OF src(2,4)] by blast
  then have "sms_address_from_str a0 src = sms_alphanum_address_from_str a1 src"
    by (simp add: sms_address_from_str_def)
  moreover obtain bs where bs: "bval bs = cval src" "length bs = (7 * ?n + 7) div 8"
    and from_str: "sms_alphanum_address_from_str a1 src =
      Some (0, \<lparr>ad_len = word_of_nat L, ad_toa = 0xd1, ad_data = bs @ replicate (10 - length bs) 0\<rparr>)" (is "_ = Some (0, ?a)")
    using alphanum_from_str_val [OF src(1-3), of a1] unfolding L_def by blast
  moreover have "\<exists>str'. sms_address_to_str ?a str = Some (int ?n, str') \<and> take ?n str' = src"
  proof -
    have L: "7 * ?n \<le> 4 * L" "4 * L \<le> 7 * ?n + 3" "L \<le> 20" using src(3) by (simp_all add: L_def)
    let ?k = "(4 * L + 7) div 8"
    have k: "length bs \<le> ?k" "?k \<le> 10" using L bs(2) by (simp_all add: div_le_mono)
    have n: "(0 + 4 * L) div 7 = ?n" using L by (intro div_nat_eqI) simp_all
    have tk: "take ?k (bs @ replicate (10 - length bs) 0) = bs @ replicate (?k - length bs) 0"
      using k by simp
    have "\<exists>str'. alphanum_to_str_loop (take ?k (bs @ replicate (10 - length bs) 0)) (int (4 * L)) 0 (int 0) str 0 = Inr (str', 0 + ?n)
      \<and> length str' = length str \<and> take (0 + ?n) str' = take 0 str @ src"
    proof (rule alphanum_to_str_val [OF src(1) _ _ n])
      show "length (take ?k (bs @ replicate (10 - length bs) 0)) = ?k" unfolding tk using k(1) by simp
      show "0 + 2 ^ 0 * bval (take ?k (bs @ replicate (10 - length bs) 0)) = cval src"
        unfolding tk using bs(1) by (simp add: bval_append bval_zeros)
    qed (use str in simp_all)
    then obtain str' where t: "alphanum_to_str_loop (take ?k (bs @ replicate (10 - length bs) 0)) (int (4 * L)) 0 0 str 0 = Inr (str', ?n)"
        "take ?n str' = src" by auto
    have u: "uint (word_of_nat L :: byte) * 4 = int (4 * L)"
      using L(3) by (simp add: unsigned_of_nat take_bit_nat_eq_self)
    have m: "nat ((int (4 * L) + 8 - 1) div 8) = ?k"
      by (simp add: nat_div_distrib nat_add_distrib)
    have "sms_alphanumeric_address_to_str ?a str = Some (int ?n, str')"
      unfolding sms_alphanumeric_address_to_str_def Let_def sms_address.simps u m t(1) using k by simp
    with t(2) show ?thesis by (simp add: sms_address_to_str_def toa_facts)
  qed
  ultimately show ?thesis by auto
qed

text \<open>
  A string that is an address: a number of at most 20 digits after an optional plus sign,
  or at most 11 characters of the alphabet with no digit among them.
\<close>

definition address_str :: "byte list \<Rightarrow> bool" where
  "address_str src \<longleftrightarrow>
     (let ds = (case src of [] \<Rightarrow> [] | ch # rest \<Rightarrow> if ch = 43 then rest else src) in
      ds \<noteq> [] \<and> length ds \<le> 20 \<and> list_all (\<lambda>ch. 48 \<le> sint ch \<and> sint ch \<le> 57) ds)
     \<or> (src \<noteq> [] \<and> length src \<le> MAX_ALPHANUMERIC_SMS_ADDRESS_LENGTH \<and> gsm_text src
        \<and> list_all (\<lambda>ch. \<not> (48 \<le> sint ch \<and> sint ch \<le> 57)) src)"

lemma digits_number_str:
  assumes "list_all (\<lambda>ch. 48 \<le> sint ch \<and> sint ch \<le> 57) src"
  shows "\<exists>ds. src = map digit_byte ds \<and> list_all (\<lambda>d. d < 10) ds \<and> length ds = length src"
proof -
  have "ch = digit_byte (nat (sint ch - 48)) \<and> nat (sint ch - 48) < 10" if "48 \<le> sint ch" "sint ch \<le> 57" for ch :: byte
    using that of_int_of_nat_eq [of "48 + nat (sint ch - 48)", where 'a = "8 word"] by (simp add: digit_byte_def)
  with assms show ?thesis
    by (intro exI [of _ "map (\<lambda>ch. nat (sint ch - 48)) src"]) (auto simp: list_all_iff map_idI comp_def)
qed

text \<open>
  C34. An address string survives the stored form: \<open>sms_address_from_str\<close> accepts it and
  \<open>sms_address_to_str\<close> writes it back to a string with room for it, for numbers (packed
  two digits a byte, the last nibble of an odd number filled) and for text (packed seven
  bits a character) alike.
\<close>

theorem address_roundtrip:
  assumes "address_str src" "length src < length str"
  shows "\<exists>a str'. sms_address_from_str a0 src = Some (0, a)
    \<and> sms_address_to_str a str = Some (int (length src), str') \<and> take (length src) str' = src"
proof (cases "list_all (\<lambda>ch. \<not> (48 \<le> sint ch \<and> sint ch \<le> 57)) src \<and> gsm_text src \<and> src \<noteq> [] \<and> length src \<le> 11")
  case True
  with assms(2) show ?thesis by (intro alphanum_address_roundtrip) simp_all
next
  case False
  define intl where "intl \<longleftrightarrow> src \<noteq> [] \<and> hd src = 43"
  define digits where "digits = (if intl then tl src else src)"
  from False assms(1) have d: "digits \<noteq> []" "length digits \<le> 20" "list_all (\<lambda>ch. 48 \<le> sint ch \<and> sint ch \<le> 57) digits"
    by (auto simp: address_str_def MAX_ALPHANUMERIC_SMS_ADDRESS_LENGTH_def SMS_ADDRESS_MAX_SIZE_def intl_def digits_def
        Let_def split: list.splits if_splits)
  from digits_number_str [OF d(3)] obtain ds
    where ds: "digits = map digit_byte ds" "list_all (\<lambda>d. d < 10) ds" "length ds = length digits" by blast
  have src: "src = number_str intl ds"
    by (cases src) (auto simp: number_str_def ds(1) [symmetric] digits_def intl_def)
  show ?thesis unfolding src
    using ds d assms(2) unfolding src by (intro numeric_address_roundtrip) auto
qed

theorem address_roundtrip_witness:
  "\<exists>a str'. sms_address_from_str \<lparr>ad_len = 0, ad_toa = 0, ad_data = replicate 10 0\<rparr> [43, 49, 50, 51] = Some (0, a)
    \<and> sms_address_to_str a (replicate 5 0) = Some (4, str') \<and> take 4 str' = [43, 49, 50, 51]"
proof -
  have "address_str [43, 49, 50, 51]" by code_simp
  from address_roundtrip [OF this, of "replicate 5 0" "\<lparr>ad_len = 0, ad_toa = 0, ad_data = replicate 10 0\<rparr>"]
  show ?thesis by (simp add: eval_nat_numeral)
qed

text \<open>A text with digits in it is taken for the number of its digits.\<close>

lemma text_with_digits_is_number:
  "sms_address_from_str \<lparr>ad_len = 0, ad_toa = 0, ad_data = replicate 10 0\<rparr> [65, 49, 66] =
   sms_address_from_str \<lparr>ad_len = 0, ad_toa = 0, ad_data = replicate 10 0\<rparr> [49]"
  by code_simp

text \<open>The comparison of two equal numbers of more than ten digits reads behind the data.\<close>

lemma address_eq_overruns:
  "length (ad_data a) = SMS_ADDRESS_MAX_SIZE \<Longrightarrow> unat (ad_len a) > SMS_ADDRESS_MAX_SIZE \<Longrightarrow> sms_address_eq a a = None"
  by (simp add: sms_address_eq_def)

end
