(* ===== verification/Sms_Pdu.thy ===== *)
theory Sms_Pdu
  imports Sms_Address
begin

unbundle bit_operations_syntax

text \<open>
  Protocol data units of short messages in \<^verbatim>\<open>hw/express-network/em_sms.c\<close>: the parsers of
  their fields, the access functions, and the creation of units to deliver. A unit is a
  buffer and the offset of its second part; a pointer into it is an offset, and reading
  behind the end of the buffer is \<open>None\<close>.
\<close>

section \<open>Parsers\<close>

definition sms_get_byte :: "byte list \<Rightarrow> nat \<Rightarrow> int \<times> nat" where
  "sms_get_byte m cur = (if cur < length m then (uint (m ! cur), cur + 1) else (- 1, cur))"

text \<open>The digits of a service center address: the result, \<open>dlen\<close>, \<open>adjust\<close> and the data.\<close>

fun sc_digits :: "byte list \<Rightarrow> nat \<Rightarrow> nat \<Rightarrow> byte list \<Rightarrow> int \<times> nat \<times> nat \<times> byte list" where
  "sc_digits [] dlen adjust data = (0, dlen, adjust, data)"
| "sc_digits (c # cs) dlen adjust data =
     (if dlen \<ge> length data then (- 1, dlen, 0, data)
      else if uint c AND 0xf \<ge> 0xe then (0, dlen, 0, data)
      else if drop_bit 4 (uint c) AND 0xf \<ge> 0xe then (0, dlen, 1, data[dlen := c])
      else sc_digits cs (dlen + 1) 1 (data[dlen := c]))"

definition sms_get_sc_address :: "byte list \<Rightarrow> nat \<Rightarrow> sms_address \<Rightarrow> int \<times> nat \<times> sms_address" where
  "sms_get_sc_address m cur address =
     (if cur < length m then
        (let len = unat (m ! cur) in
         if len = 0 then (0, cur + 1, address\<lparr>ad_len := 0, ad_toa := 0\<rparr>)
         else if cur + 1 + len > length m then (- 1, cur, address)
         else
           (case sc_digits (take (len - 1) (drop (cur + 2) m)) 0 0 (ad_data address) of
              (result, dlen, adjust, data) \<Rightarrow>
                (result, if result = 0 then cur + 2 else cur,
                 address\<lparr>ad_toa := m ! (cur + 1), ad_len := word_of_nat (2 * dlen + adjust), ad_data := data\<rparr>)))
      else (- 1, cur, address))"

definition sms_skip_sc_address :: "byte list \<Rightarrow> nat \<Rightarrow> int \<times> nat" where
  "sms_skip_sc_address m cur =
     (if cur \<ge> length m then (- 1, cur)
      else if cur + (1 + unat (m ! cur)) > length m then (- 1, cur)
      else (0, cur + (1 + unat (m ! cur))))"

definition sms_get_address :: "byte list \<Rightarrow> nat \<Rightarrow> sms_address \<Rightarrow> int \<times> nat \<times> sms_address" where
  "sms_get_address m cur address =
     (if cur \<ge> length m then (- 1, cur, address)
      else
        (let dlen = unat (m ! cur); len = (dlen + 1) div 2 in
         if dlen = 0 then (0, cur + 1, address\<lparr>ad_len := 0, ad_toa := 0\<rparr>)
         else if cur + 1 + 1 + len > length m then (- 1, cur, address)
         else
           (let address' = address\<lparr>ad_len := word_of_nat dlen, ad_toa := m ! (cur + 1)\<rparr> in
            if len > length (ad_data address) then (- 1, cur, address')
            else (0, cur + 2 + len, address'\<lparr>ad_data := take len (drop (cur + 2) m) @ drop len (ad_data address)\<rparr>))))"

text \<open>The position is not advanced.\<close>

definition sms_skip_address :: "byte list \<Rightarrow> nat \<Rightarrow> int" where
  "sms_skip_address m cur =
     (if cur + 2 > length m then - 1
      else if cur + (2 + (unat (m ! cur) + 1) div 2) > length m then - 1 else 0)"

definition sms_get_timestamp :: "byte list \<Rightarrow> nat \<Rightarrow> byte list \<Rightarrow> int \<times> nat \<times> byte list" where
  "sms_get_timestamp m cur ts = (if cur + 7 > length m then (- 1, cur, ts) else (0, cur + 7, take 7 (drop cur m)))"

definition sms_skip_timestamp :: "byte list \<Rightarrow> nat \<Rightarrow> int \<times> nat" where
  "sms_skip_timestamp m cur = (if cur + 7 > length m then (- 1, cur) else (0, cur + 7))"

definition sms_skip_validity_period :: "byte list \<Rightarrow> nat \<Rightarrow> int \<Rightarrow> int \<times> nat" where
  "sms_skip_validity_period m cur mtiByte =
     (let format = drop_bit 3 mtiByte AND 3;
          cur' = (if format = 1 then cur + 1 else if format = 2 \<or> format = 3 then cur + 7 else cur) in
      if cur' > length m then (- 1, cur) else (0, cur'))"

section \<open>Access functions\<close>

record sms_pdu =
  pd_base :: "byte list"
  pd_tpdu :: nat

datatype sms_pdu_type = SMS_PDU_INVALID | SMS_PDU_DELIVER | SMS_PDU_SUBMIT | SMS_PDU_STATUS_REPORT

text \<open>A freed unit has only null pointers, which are an empty range.\<close>

definition smspdu_free :: "sms_pdu \<Rightarrow> sms_pdu" where
  "smspdu_free pdu = \<lparr>pd_base = [], pd_tpdu = 0\<rparr>"

definition smspdu_get_type :: "sms_pdu \<Rightarrow> sms_pdu_type" where
  "smspdu_get_type pdu =
     (let mtiByte = fst (sms_get_byte (pd_base pdu) (pd_tpdu pdu)) in
      if mtiByte AND 3 = 0 then SMS_PDU_DELIVER
      else if mtiByte AND 3 = 1 then SMS_PDU_SUBMIT
      else if mtiByte AND 3 = 2 then SMS_PDU_STATUS_REPORT
      else SMS_PDU_INVALID)"

definition smspdu_get_sender_address :: "sms_pdu \<Rightarrow> sms_address \<Rightarrow> int \<times> sms_address" where
  "smspdu_get_sender_address pdu address =
     (case sms_get_byte (pd_base pdu) (pd_tpdu pdu) of
        (mtiByte, data) \<Rightarrow>
          (if mtiByte AND 3 = 0
           then (case sms_get_sc_address (pd_base pdu) data address of (r, _, a) \<Rightarrow> (r, a))
           else (- 1, address)))"

definition smspdu_get_sc_timestamp :: "sms_pdu \<Rightarrow> sms_address \<Rightarrow> byte list \<Rightarrow> int \<times> byte list" where
  "smspdu_get_sc_timestamp pdu address0 ts =
     (case sms_get_byte (pd_base pdu) (pd_tpdu pdu) of
        (mtiByte, data) \<Rightarrow>
          (if mtiByte AND 3 = 0
           then (case sms_get_sc_address (pd_base pdu) data address0 of
                   (r, cur, a) \<Rightarrow>
                     (if r < 0 then (- 1, ts)
                      else (case sms_get_timestamp (pd_base pdu) (cur + 2) ts of (r', _, ts') \<Rightarrow> (r', ts'))))
           else (- 1, ts)))"

definition smspdu_get_receiver_address :: "sms_pdu \<Rightarrow> sms_address \<Rightarrow> int \<times> sms_address" where
  "smspdu_get_receiver_address pdu address =
     (case sms_get_byte (pd_base pdu) (pd_tpdu pdu) of
        (mtiByte, data) \<Rightarrow>
          (if mtiByte AND 3 = 1
           then (case sms_get_address (pd_base pdu) (data + 1) address of (r, _, a) \<Rightarrow> (r, a))
           else (- 1, address)))"

datatype sms_coding_scheme = SMS_CODING_SCHEME_UNKNOWN | SMS_CODING_SCHEME_GSM7 | SMS_CODING_SCHEME_UCS2

definition sms_get_coding_scheme :: "byte list \<Rightarrow> nat \<Rightarrow> sms_coding_scheme \<times> nat" where
  "sms_get_coding_scheme m cur =
     (if cur \<ge> length m then (SMS_CODING_SCHEME_UNKNOWN, cur)
      else
        (let dataCoding = uint (m ! cur) in
         (if dataCoding AND 0xc0 = 0 then
            (if dataCoding AND 0x0c = 0 then SMS_CODING_SCHEME_GSM7
             else if dataCoding AND 0x0c = 8 then SMS_CODING_SCHEME_UCS2
             else SMS_CODING_SCHEME_UNKNOWN)
          else if dataCoding AND 0xf0 = 0xf0 then
            (if dataCoding AND 4 = 0 then SMS_CODING_SCHEME_GSM7 else SMS_CODING_SCHEME_UNKNOWN)
          else SMS_CODING_SCHEME_UNKNOWN,
          cur + 1)))"

text \<open>A function that fills the data of a rope from an offset on.\<close>

definition rope_fill :: "(byte list \<Rightarrow> byte list option) \<Rightarrow> int \<Rightarrow> gsm_rope \<Rightarrow> gsm_rope option" where
  "rope_fill f off rope =
     (case rp_data rope of
        Rope_null \<Rightarrow> None
      | Rope_data0 b \<Rightarrow>
          (if off \<le> int (length b)
           then map_option (\<lambda>d. rope\<lparr>rp_data := Rope_data0 (take (nat off) b @ d)\<rparr>) (f (drop (nat off) b)) else None)
      | Rope_heap b \<Rightarrow>
          (if off \<le> int (length b)
           then map_option (\<lambda>d. rope\<lparr>rp_data := Rope_heap (take (nat off) b @ d)\<rparr>) (f (drop (nat off) b)) else None))"

definition rope_reserve_fill :: "(int \<Rightarrow> byte list option) \<Rightarrow> int \<Rightarrow> (byte list \<Rightarrow> byte list option) \<Rightarrow> gsm_rope \<Rightarrow> gsm_rope option" where
  "rope_reserve_fill realloc count f rope =
     Option.bind (gsm_rope_reserve realloc count rope)
       (\<lambda>(dst, rope'). case dst of None \<Rightarrow> Some rope' | Some off \<Rightarrow> rope_fill f off rope')"

text \<open>
  The text of the user data. The length of the header is skipped in units of four bits for
  packed text, the length byte is not compared with the end of the unit, and the text is
  taken from the first bit behind the header.
\<close>

definition sms_get_text_utf8 :: "(int \<Rightarrow> byte list option) \<Rightarrow> byte list \<Rightarrow> nat \<Rightarrow> bool \<Rightarrow> sms_coding_scheme \<Rightarrow> gsm_rope option
    \<Rightarrow> (int \<times> nat \<times> gsm_rope option) option" where
  "sms_get_text_utf8 realloc m cur0 hasUDH coding rope =
     (if cur0 \<ge> length m then Some (- 1, cur0, rope)
      else
        (let len0 = uint (m ! cur0); cur = cur0 + 1;
             hlen = unat (m ! cur);
             len = (if hasUDH then len0 - (if coding = SMS_CODING_SCHEME_GSM7 then 2 * (int hlen + 1) else int hlen + 1) else len0);
             text = (if hasUDH then cur + 1 + hlen else cur) in
         if hasUDH \<and> (cur \<ge> length m \<or> cur + 1 + hlen > length m \<or> len < 0) then Some (- 1, cur0, rope)
         else
           (let count_and_next =
              (if coding = SMS_CODING_SCHEME_GSM7 then
                 map_option (\<lambda>t. (t, text + nat ((len + 1) div 2))) (utf8_from_gsm7 (drop text m) 0 len)
               else if coding = SMS_CODING_SCHEME_UCS2 then
                 map_option (\<lambda>t. (t, text + nat len)) (ucs2_to_utf8 (drop text m) (len div 2))
               else Some ([], text)) in
            case count_and_next of
              None \<Rightarrow> None
            | Some (t, next) \<Rightarrow>
                (case rope of
                   None \<Rightarrow> Some (0, next, None)
                 | Some r \<Rightarrow>
                     if coding = SMS_CODING_SCHEME_UNKNOWN then Some (0, next, rope)
                     else map_option (\<lambda>r'. (0, next, Some r'))
                            (rope_reserve_fill realloc (int (length t)) (\<lambda>d. buf_write d 0 t) r)))))"

text \<open>
  The text of a unit: its length and the first \<open>utf8len\<close> bytes of it. For a unit to deliver
  the rope is not initialised, so using it is \<open>None\<close>; \<open>d0\<close> is what the rope of a submitted
  unit holds before.
\<close>

definition smspdu_get_text_message :: "(int \<Rightarrow> byte list option) \<Rightarrow> byte list \<Rightarrow> sms_address \<Rightarrow> sms_pdu \<Rightarrow> int \<Rightarrow> (int \<times> byte list) option" where
  "smspdu_get_text_message realloc d0 address0 pdu utf8len =
     (let m = pd_base pdu in
      case sms_get_byte m (pd_tpdu pdu) of
        (mtiByte, data) \<Rightarrow>
          (if mtiByte AND 3 = 0 then
             (case sms_get_sc_address m data address0 of
                (r, cur, _) \<Rightarrow>
                  (if r < 0 then Some (- 1, [])
                   else
                     (case sms_get_coding_scheme m (cur + 1) of
                        (coding, cur) \<Rightarrow>
                          (if coding = SMS_CODING_SCHEME_UNKNOWN then Some (- 1, [])
                           else
                             (case sms_get_timestamp m cur [] of
                                (r, cur, _) \<Rightarrow>
                                  (if r < 0 then Some (- 1, [])
                                   else
                                     (case sms_get_text_utf8 realloc m cur (mtiByte AND 0x40 \<noteq> 0) coding None of
                                        None \<Rightarrow> None
                                      | Some (r, _, _) \<Rightarrow> if r < 0 then Some (- 1, []) else None)))))))
           else if mtiByte AND 3 = 1 then
             (case sms_get_address m (data + 1) address0 of
                (r, cur, _) \<Rightarrow>
                  (if r < 0 then Some (- 1, [])
                   else
                     (case sms_get_coding_scheme m (cur + 1) of
                        (coding, cur) \<Rightarrow>
                          (if coding = SMS_CODING_SCHEME_UNKNOWN then Some (- 1, [])
                           else
                             (case sms_get_text_utf8 realloc m cur (mtiByte AND 0x40 \<noteq> 0) coding
                                     (Some (gsm_rope_init_alloc d0 True 0)) of
                                None \<Rightarrow> None
                              | Some (r, _, rope) \<Rightarrow>
                                  (if r < 0 then Some (- 1, [])
                                   else
                                     (case rope of
                                        None \<Rightarrow> None
                                      | Some rp \<Rightarrow>
                                          (let n = min utf8len (rp_pos rp) in
                                           if n > 0 then
                                             (case rp_data rp of
                                                Rope_null \<Rightarrow> None
                                              | Rope_data0 b \<Rightarrow> map_option (\<lambda>t. (rp_pos rp, t)) (buf_read b 0 n)
                                              | Rope_heap b \<Rightarrow> map_option (\<lambda>t. (rp_pos rp, t)) (buf_read b 0 n))
                                           else Some (rp_pos rp, [])))))))))
           else Some (- 1, [])))"

text \<open>
  The walk over the elements of a user data header. An element of length 0 leaves the
  position where it is and makes the rest longer; when the rest leaves the range of C
  integers the result is \<open>None\<close>.
\<close>

function user_data_loop :: "byte list \<Rightarrow> int \<Rightarrow> nat \<Rightarrow> nat option option" where
  "user_data_loop m len data =
     (if len \<ge> 2 \<and> data + 2 \<le> length m then
        (let htype = m ! data; hlen = unat (m ! (data + 1)); len' = len - (int hlen - 2) in
         if htype = 0 \<and> hlen = 3 \<and> data + 5 \<le> length m then Some (Some (data + 2))
         else if len' \<ge> 2147483648 then None
         else user_data_loop m len' (data + hlen))
      else Some None)"
  by auto
termination
proof (relation "measures [\<lambda>(m, len, data). length m - data, \<lambda>(m, len, data). nat (2147483648 - len)]", goal_cases)
  case (2 m len data htype hlen len')
  then show ?case by (cases hlen) auto
qed simp

declare user_data_loop.simps [simp del]

definition smspdu_get_user_data_ref :: "sms_pdu \<Rightarrow> nat option option" where
  "smspdu_get_user_data_ref pdu =
     (let m = pd_base pdu in
      case sms_get_byte m (pd_tpdu pdu) of
        (mtiByte, data) \<Rightarrow>
          (if mtiByte AND 0x40 = 0 then Some None
           else
             (let start =
                (if mtiByte AND 3 = 0 then
                   (if sms_skip_address m data < 0 then None
                    else (case sms_skip_timestamp m (data + 2) of (r, cur) \<Rightarrow> if r < 0 then None else Some cur))
                 else if mtiByte AND 3 = 1 then
                   (if sms_skip_address m (data + 1) < 0 then None
                    else (case sms_skip_validity_period m (data + 1 + 2) mtiByte of (r, cur) \<Rightarrow> if r < 0 then None else Some cur))
                 else None) in
              case start of
                None \<Rightarrow> Some None
              | Some data \<Rightarrow>
                  if data + 1 \<ge> length m then Some None
                  else user_data_loop m (uint (m ! (data + 1))) (data + 2))))"

definition smspdu_get_ref :: "sms_pdu \<Rightarrow> int option" where
  "smspdu_get_ref pdu =
     map_option
       (\<lambda>user_ref. case user_ref of
           Some u \<Rightarrow> uint (pd_base pdu ! u)
         | None \<Rightarrow>
             (case sms_get_byte (pd_base pdu) (pd_tpdu pdu) of
                (mtiByte, data) \<Rightarrow>
                  if mtiByte AND 3 = 1 \<and> data < length (pd_base pdu) then uint (pd_base pdu ! data) else - 1))
       (smspdu_get_user_data_ref pdu)"

definition smspdu_get_max_index :: "sms_pdu \<Rightarrow> int option" where
  "smspdu_get_max_index pdu =
     map_option (\<lambda>user_ref. case user_ref of Some u \<Rightarrow> uint (pd_base pdu ! (u + 1)) | None \<Rightarrow> 1)
       (smspdu_get_user_data_ref pdu)"

definition smspdu_get_cur_index :: "sms_pdu \<Rightarrow> int option" where
  "smspdu_get_cur_index pdu =
     map_option (\<lambda>user_ref. case user_ref of Some u \<Rightarrow> uint (pd_base pdu ! (u + 2)) - 1 | None \<Rightarrow> 0)
       (smspdu_get_user_data_ref pdu)"

section \<open>Creation of units to deliver\<close>

definition MAX_USER_DATA_BYTES :: int where "MAX_USER_DATA_BYTES = 140"

definition MAX_USER_DATA_SEPTETS :: int where "MAX_USER_DATA_SEPTETS = 160"

definition USER_DATA_HEADER_SIZE :: int where "USER_DATA_HEADER_SIZE = 6"

text \<open>A sequence of operations on a rope.\<close>

fun rope_do :: "(gsm_rope \<Rightarrow> gsm_rope option) list \<Rightarrow> gsm_rope \<Rightarrow> gsm_rope option" where
  "rope_do [] rope = Some rope"
| "rope_do (f # fs) rope = Option.bind (f rope) (rope_do fs)"

definition gsm_rope_add_sms_user_header :: "(int \<Rightarrow> byte list option) \<Rightarrow> int \<Rightarrow> int \<Rightarrow> int \<Rightarrow> gsm_rope \<Rightarrow> gsm_rope option" where
  "gsm_rope_add_sms_user_header realloc ref_number pdu_count pdu_index =
     rope_do (map (gsm_rope_add_c realloc)
       [5, 0, 3, of_int ref_number, of_int pdu_count, of_int pdu_index + 1])"

text \<open>A failed assertion is \<open>None\<close>.\<close>

definition gsm_rope_add_sms_deliver_pdu :: "(int \<Rightarrow> byte list option) \<Rightarrow> byte list \<Rightarrow> bool \<Rightarrow> sms_address \<Rightarrow> byte list
    \<Rightarrow> int \<Rightarrow> int \<Rightarrow> int \<Rightarrow> gsm_rope \<Rightarrow> gsm_rope option" where
  "gsm_rope_add_sms_deliver_pdu realloc utf8 use_gsm7 sender_address timestamp ref_num pdu_count pdu_index rope =
     (let mtiByte = (if pdu_count > 1 then 0x20 OR 0x40 else 0x20);
          coding = (if use_gsm7 then 0 else 9) in
      Option.bind
        (rope_do
          [gsm_rope_add_c realloc 0, gsm_rope_add_c realloc mtiByte, gsm_rope_add_address realloc sender_address,
           gsm_rope_add_c realloc 0, gsm_rope_add_c realloc coding, gsm_rope_add_timestamp realloc timestamp] rope)
        (if use_gsm7 then
           (let count = utf8_to_gsm7_count utf8;
                headerBits = 6 * 8;
                headerSeptets = headerBits div 7 + (if headerBits mod 7 > 0 then 1 else 0);
                pad = (if pdu_count > 1 then headerSeptets * 7 - headerBits else 0) in
            if \<not> count \<le> MAX_USER_DATA_SEPTETS - USER_DATA_HEADER_SIZE then (\<lambda>_. None)
            else
              rope_do
                ((if pdu_count > 1
                  then [gsm_rope_add_c realloc (of_int (count + headerSeptets)),
                        gsm_rope_add_sms_user_header realloc ref_num pdu_count pdu_index]
                  else [gsm_rope_add_c realloc (of_int count)])
                 @ [rope_reserve_fill realloc ((count * 7 + pad + 7) div 8)
                      (\<lambda>d. Option.bind (utf8_to_gsm7 utf8 (Some d) pad) snd)]))
         else
           (let bytes = utf8_to_ucs2 utf8; count = int (length bytes) div 2 in
            if \<not> count * 2 \<le> MAX_USER_DATA_BYTES - USER_DATA_HEADER_SIZE then (\<lambda>_. None)
            else
              rope_do
                ((if pdu_count > 1
                  then [gsm_rope_add_c realloc (of_int (count * 2 + 6)),
                        gsm_rope_add_sms_user_header realloc ref_num pdu_count pdu_index]
                  else [gsm_rope_add_c realloc (of_int (count * 2))])
                 @ [rope_reserve_fill realloc (count * 2) (\<lambda>d. buf_write d 0 bytes)]))))"

text \<open>
  \<open>calloc n\<close> says whether an allocation of \<open>n\<close> bytes succeeds. The inner \<open>None\<close> is a null
  pointer. The second rope is not looked at for an error: when its memory is missing the
  acquired data is null.
\<close>

definition smspdu_create_deliver :: "(int \<Rightarrow> bool) \<Rightarrow> (int \<Rightarrow> byte list option) \<Rightarrow> byte list \<Rightarrow> byte list \<Rightarrow> bool \<Rightarrow> sms_address
    \<Rightarrow> byte list \<Rightarrow> int \<Rightarrow> int \<Rightarrow> int \<Rightarrow> sms_pdu option option" where
  "smspdu_create_deliver calloc realloc d0 utf8 use_gsm7 sender_address timestamp ref_num pdu_count pdu_index =
     (let add = gsm_rope_add_sms_deliver_pdu realloc utf8 use_gsm7 sender_address timestamp ref_num pdu_count pdu_index in
      if \<not> calloc 24 then Some None
      else
        Option.bind (add gsm_rope_init)
          (\<lambda>r1. if rp_error r1 \<noteq> 0 then Some None
                else
                  Option.bind (add (gsm_rope_init_alloc d0 (calloc (rp_pos r1)) (rp_pos r1)))
                    (\<lambda>r2. map_option
                        (\<lambda>(base, size). map_option (\<lambda>b. \<lparr>pd_base = take (nat size) b, pd_tpdu = 1\<rparr>) base)
                        (gsm_rope_done_acquire (calloc (rp_pos r2)) r2))))"

text \<open>The units of a message from number \<open>nn\<close> on; the inner \<open>None\<close> is a failed allocation.\<close>

fun deliver_loop :: "(byte list \<Rightarrow> int \<Rightarrow> sms_pdu option option) \<Rightarrow> bool \<Rightarrow> int \<Rightarrow> int \<Rightarrow> int \<Rightarrow> nat \<Rightarrow> int \<Rightarrow> byte list
    \<Rightarrow> sms_pdu list option option" where
  "deliver_loop create use_gsm7 block leftover num_pdus 0 nn src = Some (Some [])"
| "deliver_loop create use_gsm7 block leftover num_pdus (Suc k) nn src =
     (let skip = (if leftover > 0 \<and> nn = num_pdus - 1 then leftover else block);
          src_next = (if use_gsm7 then utf8_skip_gsm7 src skip else utf8_skip_ucs2 src skip) in
      case create (take (length src - length src_next) src) nn of
        None \<Rightarrow> None
      | Some None \<Rightarrow> Some None
      | Some (Some pdu) \<Rightarrow>
          map_option (map_option (\<lambda>pdus. pdu # pdus))
            (deliver_loop create use_gsm7 block leftover num_pdus k (nn + 1) src_next))"

text \<open>
  The message as a list of units, and the next reference number. \<open>now\<close> is the time stamp
  used when there is none.
\<close>

definition smspdu_create_deliver_utf8 :: "(int \<Rightarrow> bool) \<Rightarrow> (int \<Rightarrow> byte list option) \<Rightarrow> byte list \<Rightarrow> byte list \<Rightarrow> byte \<Rightarrow> byte list
    \<Rightarrow> sms_address \<Rightarrow> byte list option \<Rightarrow> (sms_pdu list option \<times> byte) option" where
  "smspdu_create_deliver_utf8 calloc realloc d0 now ref_num utf8 sender_address timestamp =
     (let ts = (case timestamp of None \<Rightarrow> now | Some t \<Rightarrow> t);
          use_gsm7 = utf8_check_gsm7 utf8 \<noteq> 0;
          total = (if use_gsm7 then utf8_to_gsm7_count utf8 else 2 * (int (length (utf8_to_ucs2 utf8)) div 2));
          block = (if use_gsm7 then MAX_USER_DATA_SEPTETS - USER_DATA_HEADER_SIZE else MAX_USER_DATA_BYTES - USER_DATA_HEADER_SIZE);
          leftover = total - (total div block) * block;
          num_pdus = total div block + (if leftover > 0 then 1 else 0) in
      if \<not> calloc (8 * (num_pdus + 1)) then Some (None, ref_num)
      else
        map_option (\<lambda>list. (list, case list of None \<Rightarrow> ref_num | Some _ \<Rightarrow> ref_num + 1))
          (deliver_loop
             (\<lambda>src nn. smspdu_create_deliver calloc realloc d0 src use_gsm7 sender_address ts (uint ref_num) num_pdus nn)
             use_gsm7 block leftover num_pdus (nat num_pdus) 0 utf8))"

definition smspdu_create_from_hex :: "(int \<Rightarrow> bool) \<Rightarrow> byte list \<Rightarrow> int \<Rightarrow> sms_pdu option option" where
  "smspdu_create_from_hex calloc hex hexlen =
     (if \<not> calloc 24 \<or> \<not> calloc ((hexlen + 1) div 2) then Some None
      else
        (case gsm_hex_to_bytes hex hexlen of
           None \<Rightarrow> None
         | Some (r, base) \<Rightarrow>
             (if r < 0 then Some None
              else
                (case sms_skip_sc_address base 0 of
                   (r', data) \<Rightarrow> if r' < 0 then Some None else Some (Some \<lparr>pd_base = base, pd_tpdu = data\<rparr>)))))"

definition smspdu_to_hex :: "sms_pdu \<Rightarrow> int \<Rightarrow> int \<times> byte list" where
  "smspdu_to_hex pdu hexlen =
     (let result = int (length (pd_base pdu)) * 2; n = min hexlen result in
      (result, gsm_hex_from_bytes (take (nat ((n + 1) div 2)) (pd_base pdu))))"

definition smspdu_free_list :: "sms_pdu list \<Rightarrow> sms_pdu list" where
  "smspdu_free_list pdus = map smspdu_free pdus"

section \<open>Lemmas on writing units\<close>

text \<open>
  A rope with room for \<open>M\<close> bytes that has collected \<open>bs\<close>, with zeros behind them, and a rope
  that only counts. An operation writes \<open>bs\<close> if it adds them to the former and counts them
  in the latter.
\<close>

definition rope_room :: "nat \<Rightarrow> byte list \<Rightarrow> gsm_rope \<Rightarrow> bool" where
  "rope_room M bs rope \<longleftrightarrow> M \<le> 2 ^ 30 \<and> length bs \<le> M \<and>
     rope = \<lparr>rp_data = Rope_heap (bs @ replicate (M - length bs) 0), rp_max = int M, rp_pos = int (length bs), rp_error = 0\<rparr>"

definition rope_num :: "nat \<Rightarrow> gsm_rope \<Rightarrow> bool" where
  "rope_num n rope \<longleftrightarrow> rp_error rope = 0 \<and> rope_counts n rope"

definition rope_writes :: "(gsm_rope \<Rightarrow> gsm_rope option) \<Rightarrow> byte list \<Rightarrow> bool" where
  "rope_writes f bs \<longleftrightarrow>
     (\<forall>M pre rope. rope_room M pre rope \<longrightarrow> length pre + length bs \<le> M \<longrightarrow> (\<exists>r. f rope = Some r \<and> rope_room M (pre @ bs) r))
     \<and> (\<forall>n rope. rope_num n rope \<longrightarrow> n + length bs \<le> 2 ^ 30 \<longrightarrow> (\<exists>r. f rope = Some r \<and> rope_num (n + length bs) r))"

lemma rope_room_init: "0 < M \<Longrightarrow> M \<le> 2 ^ 30 \<Longrightarrow> rope_room M [] (gsm_rope_init_alloc d0 True (int M))"
  by (simp add: rope_room_def gsm_rope_init_alloc_def)

lemma rope_num_init: "rope_num 0 gsm_rope_init"
  by (simp add: rope_num_def rope_counts_def gsm_rope_init_def)

lemma room_can_grow:
  "rope_room M pre rope \<Longrightarrow> length pre + n \<le> M \<Longrightarrow> gsm_rope_can_grow realloc (int n) rope = Some (True, rope)"
  by (auto simp: rope_room_def gsm_rope_can_grow_def)

lemma num_can_grow: "rope_num n rope \<Longrightarrow> gsm_rope_can_grow realloc k rope = Some (False, rope)"
  by (simp add: rope_num_def rope_counts_def gsm_rope_can_grow_def)

lemma rope_writes_add: "rope_writes (gsm_rope_add realloc buf) buf"
proof -
  have "\<exists>r. gsm_rope_add realloc buf rope = Some r \<and> rope_room M (pre @ buf) r"
    if r: "rope_room M pre rope" "length pre + length buf \<le> M" for M pre rope
  proof -
    have "c_int (int (length pre) + int (length buf)) = int (length (pre @ buf))"
      using r by (simp add: rope_room_def)
    then show ?thesis using r room_can_grow [OF r, of realloc]
      by (auto simp: rope_room_def gsm_rope_add_def rope_store_def buf_write_def)
  qed
  moreover have "\<exists>r. gsm_rope_add realloc buf rope = Some r \<and> rope_num (n + length buf) r"
    if "rope_num n rope" "n + length buf \<le> 2 ^ 30" for n rope
    using that num_can_grow [OF that(1), of realloc "int (length buf)"] by (auto simp: rope_num_def rope_counts_def gsm_rope_add_def)
  ultimately show ?thesis by (auto simp: rope_writes_def)
qed

lemma gsm_rope_add_c_add: "gsm_rope_add_c realloc c = gsm_rope_add realloc [c]"
proof (rule ext)
  fix rope
  have one: "int (length [c]) = 1" by simp
  show "gsm_rope_add_c realloc c rope = gsm_rope_add realloc [c] rope"
    unfolding gsm_rope_add_c_def gsm_rope_add_def one ..
qed

lemma rope_writes_room:
  "rope_writes f bs \<Longrightarrow> rope_room M pre rope \<Longrightarrow> length pre + length bs \<le> M \<Longrightarrow> \<exists>r. f rope = Some r \<and> rope_room M (pre @ bs) r"
  by (simp add: rope_writes_def)

lemma rope_writes_num:
  "rope_writes f bs \<Longrightarrow> rope_num n rope \<Longrightarrow> n + length bs \<le> 2 ^ 30 \<Longrightarrow> \<exists>r. f rope = Some r \<and> rope_num (n + length bs) r"
  by (simp add: rope_writes_def)

lemma rope_writes_bind:
  assumes "rope_writes f bs" "rope_writes g cs"
  shows "rope_writes (\<lambda>rope. Option.bind (f rope) g) (bs @ cs)"
proof -
  have "\<exists>r. Option.bind (f rope) g = Some r \<and> rope_room M (pre @ bs @ cs) r"
    if r: "rope_room M pre rope" "length pre + length (bs @ cs) \<le> M" for M pre rope
  proof -
    obtain r1 where r1: "f rope = Some r1" "rope_room M (pre @ bs) r1"
      using rope_writes_room [OF assms(1) r(1)] r(2) by auto
    with rope_writes_room [OF assms(2) r1(2)] r(2) show ?thesis by simp
  qed
  moreover have "\<exists>r. Option.bind (f rope) g = Some r \<and> rope_num (n + length (bs @ cs)) r"
    if r: "rope_num n rope" "n + length (bs @ cs) \<le> 2 ^ 30" for n rope
  proof -
    obtain r1 where r1: "f rope = Some r1" "rope_num (n + length bs) r1"
      using rope_writes_num [OF assms(1) r(1)] r(2) by auto
    with rope_writes_num [OF assms(2) r1(2)] r(2) show ?thesis by (simp add: add.assoc)
  qed
  ultimately show ?thesis by (auto simp: rope_writes_def)
qed

lemma rope_writes_id: "rope_writes Some []"
  by (simp add: rope_writes_def)

lemma rope_writes_do: "list_all2 rope_writes fs bss \<Longrightarrow> rope_writes (rope_do fs) (concat bss)"
proof (induction fs bss rule: list_all2_induct)
  case Nil
  have "rope_do [] = Some" by (rule ext) simp
  then show ?case by (simp add: rope_writes_id)
next
  case (Cons f fs b bss)
  have "rope_do (f # fs) = (\<lambda>rope. Option.bind (f rope) (rope_do fs))" by (rule ext) simp
  with Cons rope_writes_bind [of f b "rope_do fs" "concat bss"] show ?case by simp
qed

lemma rope_do_append: "rope_do (fs @ gs) rope = Option.bind (rope_do fs rope) (rope_do gs)"
  by (induction fs arbitrary: rope) (auto split: Option.bind_split)

lemma rope_writes_c: "rope_writes (gsm_rope_add_c realloc c) [c]"
  by (simp add: gsm_rope_add_c_add rope_writes_add)

text \<open>The bytes of an address; the last nibble of an odd number is filled.\<close>

definition address_bytes :: "sms_address \<Rightarrow> byte list" where
  "address_bytes a =
     (let n = (unat (ad_len a) + 1) div 2; ds = take n (ad_data a) in
      ad_len a # ad_toa a # (if odd (unat (ad_len a)) then ds[n - 1 := ds ! (n - 1) OR 0xf0] else ds))"

definition address_fits :: "sms_address \<Rightarrow> bool" where
  "address_fits a \<longleftrightarrow> (unat (ad_len a) + 1) div 2 \<le> length (ad_data a)"

lemma length_address_bytes: "address_fits a \<Longrightarrow> length (address_bytes a) = 2 + (unat (ad_len a) + 1) div 2"
proof -
  let ?n = "(unat (ad_len a) + 1) div 2"
  assume "address_fits a"
  then have "length (take ?n (ad_data a)) = ?n" by (simp add: address_fits_def)
  then show ?thesis unfolding address_bytes_def Let_def by (simp only: list.size length_list_update split: if_split) simp
qed

lemma mark_odd_room:
  assumes "rope_room M (pre @ ds) rope" "ds \<noteq> []"
  shows "\<exists>r. rope_mark_odd rope = Some r \<and> rope_room M (pre @ ds[length ds - 1 := ds ! (length ds - 1) OR 0xf0]) r"
proof -
  obtain xs x where ds: "ds = xs @ [x]" using assms(2) by (cases ds rule: rev_cases) auto
  have i: "nat (int (length (pre @ ds)) - 1) = length (pre @ xs)" by (simp add: ds)
  show ?thesis using assms(1) i
    by (auto simp: rope_room_def rope_mark_odd_def ds Let_def list_update_append nth_append)
qed

lemma rope_writes_address:
  assumes "address_fits a"
  shows "rope_writes (gsm_rope_add_address realloc a) (address_bytes a)"
proof -
  let ?n = "(unat (ad_len a) + 1) div 2"
  let ?ds = "take ?n (ad_data a)"
  have n: "\<not> ?n > length (ad_data a)" "length ?ds = ?n" using assms by (simp_all add: address_fits_def)
  let ?mark = "\<lambda>r. if odd (unat (ad_len a)) \<and> rp_error r = 0 then rope_mark_odd r else Some r"
  have eq: "gsm_rope_add_address realloc a rope =
      Option.bind (rope_do [gsm_rope_add_c realloc (ad_len a), gsm_rope_add_c realloc (ad_toa a), gsm_rope_add realloc ?ds] rope) ?mark" for rope
    using n(1) by (simp add: gsm_rope_add_address_def Let_def)
  have w: "rope_writes (rope_do [gsm_rope_add_c realloc (ad_len a), gsm_rope_add_c realloc (ad_toa a), gsm_rope_add realloc ?ds])
      (concat [[ad_len a], [ad_toa a], ?ds])"
    by (rule rope_writes_do) (simp add: rope_writes_c rope_writes_add)
  have "\<exists>r. gsm_rope_add_address realloc a rope = Some r \<and> rope_room M (pre @ address_bytes a) r"
    if r: "rope_room M pre rope" "length pre + length (address_bytes a) \<le> M" for M pre rope
  proof -
    have "length pre + length (concat [[ad_len a], [ad_toa a], ?ds]) \<le> M"
      using r(2) n length_address_bytes [OF assms] by simp
    from rope_writes_room [OF w r(1) this] obtain r1 where
      r1: "rope_do [gsm_rope_add_c realloc (ad_len a), gsm_rope_add_c realloc (ad_toa a), gsm_rope_add realloc ?ds] rope = Some r1"
        "rope_room M ((pre @ [ad_len a, ad_toa a]) @ ?ds) r1" by auto
    show ?thesis
    proof (cases "odd (unat (ad_len a))")
      case True
      then have "?ds \<noteq> []" using n by (cases "unat (ad_len a)") auto
      from mark_odd_room [OF r1(2) this] True r1 n show ?thesis
        by (auto simp: eq address_bytes_def Let_def rope_room_def)
    next
      case False
      with r1 show ?thesis by (simp add: eq address_bytes_def Let_def)
    qed
  qed
  moreover have "\<exists>r. gsm_rope_add_address realloc a rope = Some r \<and> rope_num (k + length (address_bytes a)) r"
    if r: "rope_num k rope" "k + length (address_bytes a) \<le> 2 ^ 30" for k rope
  proof -
    have l: "length (concat [[ad_len a], [ad_toa a], ?ds]) = length (address_bytes a)"
      using n length_address_bytes [OF assms] by simp
    from rope_writes_num [OF w r(1)] r(2) obtain r1 where
      "rope_do [gsm_rope_add_c realloc (ad_len a), gsm_rope_add_c realloc (ad_toa a), gsm_rope_add realloc ?ds] rope = Some r1"
      "rope_num (k + length (address_bytes a)) r1" unfolding l by blast
    then show ?thesis by (auto simp: eq rope_num_def rope_counts_def rope_mark_odd_def Let_def)
  qed
  ultimately show ?thesis by (auto simp: rope_writes_def)
qed

lemma fill_room:
  assumes "rope_room M pre rope" "length pre + n = M" "f (replicate n 0) = Some bs" "length bs = n"
  shows "\<exists>r. rope_reserve_fill realloc (int n) f rope = Some r \<and> rope_room M (pre @ bs) r"
proof -
  have g: "gsm_rope_can_grow realloc (int n) rope = Some (True, rope)"
    using room_can_grow [OF assms(1), of n realloc] assms(2) by simp
  have p: "rp_pos rope = int (length pre)" "c_int (int (length pre) + int n) = int (length pre + n)"
    using assms by (auto simp: rope_room_def)
  have "M - length pre = n" using assms(2) by simp
  then show ?thesis using assms(1,3,4) g p
    by (simp add: rope_reserve_fill_def gsm_rope_reserve_def rope_fill_def) (auto simp: rope_room_def)
qed

lemma fill_num:
  "rope_num k rope \<Longrightarrow> k + n \<le> 2 ^ 30 \<Longrightarrow> \<exists>r. rope_reserve_fill realloc (int n) f rope = Some r \<and> rope_num (k + n) r"
  using num_can_grow [of k rope realloc "int n"]
  by (auto simp: rope_reserve_fill_def gsm_rope_reserve_def rope_num_def rope_counts_def)

lemma create_two_passes:
  assumes add: "\<And>rope. gsm_rope_add_sms_deliver_pdu realloc utf8 g a ts ref cnt idx rope =
      Option.bind (rope_do fs rope) (rope_reserve_fill realloc (int n) f)"
    and w: "rope_writes (rope_do fs) pre" and f: "f (replicate n 0) = Some ud" "length ud = n"
    and size: "0 < length pre" "length pre + n \<le> 2 ^ 30" and calloc: "\<And>k. calloc k"
  shows "smspdu_create_deliver calloc realloc d0 utf8 g a ts ref cnt idx = Some (Some \<lparr>pd_base = pre @ ud, pd_tpdu = 1\<rparr>)"
proof -
  let ?M = "length pre + n"
  obtain r1 where r1: "rope_do fs gsm_rope_init = Some r1" "rope_num (length pre) r1"
    using rope_writes_num [OF w rope_num_init] size(2) by auto
  obtain r2 where r2: "rope_reserve_fill realloc (int n) f r1 = Some r2" "rope_num ?M r2"
    using fill_num [OF r1(2) size(2)] by blast
  have p: "rp_error r2 = 0" "rp_pos r2 = int ?M" using r2(2) by (simp_all add: rope_num_def rope_counts_def)
  have init: "rope_room ?M [] (gsm_rope_init_alloc d0 True (int ?M))" using size by (intro rope_room_init) simp_all
  obtain r3 where r3: "rope_do fs (gsm_rope_init_alloc d0 True (int ?M)) = Some r3" "rope_room ?M pre r3"
    using rope_writes_room [OF w init] by auto
  obtain r4 where r4: "rope_reserve_fill realloc (int n) f r3 = Some r4" "rope_room ?M (pre @ ud) r4"
    using fill_room [where f = f and n = n, OF r3(2) refl f] by blast
  have "gsm_rope_done_acquire b r4 = Some (Some (pre @ ud), int ?M)" for b
    using r4(2) f(2) by (simp add: rope_room_def gsm_rope_done_acquire_def)
  moreover have "rp_pos r4 = int ?M" using r4(2) f(2) by (simp add: rope_room_def)
  ultimately show ?thesis
    unfolding smspdu_create_deliver_def Let_def add using r1(1) r2(1) r3(1) r4(1) p calloc f(2) by simp
qed

definition deliver_head :: "bool \<Rightarrow> sms_address \<Rightarrow> byte list \<Rightarrow> int \<Rightarrow> byte list" where
  "deliver_head gsm7 a ts cnt = [0, if cnt > 1 then 0x60 else 0x20] @ address_bytes a @ [0, if gsm7 then 0 else 9] @ ts"

definition part_header :: "int \<Rightarrow> int \<Rightarrow> int \<Rightarrow> byte list" where
  "part_header ref cnt idx = (if cnt > 1 then [5, 0, 3, of_int ref, of_int cnt, of_int idx + 1] else [])"

text \<open>
  What a unit for part \<open>idx\<close> of \<open>cnt\<close> with the characters \<open>cs\<close> has to be: the fields of the
  protocol in their order, and user data that holds the characters, packed or as 16-bit
  numbers.
\<close>

definition delivers :: "bool \<Rightarrow> sms_address \<Rightarrow> byte list \<Rightarrow> int \<Rightarrow> int \<Rightarrow> int \<Rightarrow> int list \<Rightarrow> sms_pdu \<Rightarrow> bool" where
  "delivers gsm7 a ts ref cnt idx cs pdu \<longleftrightarrow>
     (\<exists>udl ud. pdu = \<lparr>pd_base = deliver_head gsm7 a ts cnt @ [of_nat udl] @ part_header ref cnt idx @ ud, pd_tpdu = 1\<rparr>
       \<and> (if gsm7
          then udl = length cs + (if cnt > 1 then 7 else 0)
            \<and> length ud = (7 * length cs + (if cnt > 1 then 1 else 0) + 7) div 8
            \<and> packed7 ud (if cnt > 1 then 1 else 0) cs
          else udl = 2 * length cs + (if cnt > 1 then 6 else 0) \<and> ud = concat (map ucs2_write cs)))"

lemma rope_writes_header: "rope_writes (gsm_rope_add_sms_user_header realloc ref cnt idx) [5, 0, 3, of_int ref, of_int cnt, of_int idx + 1]"
proof -
  let ?bs = "[5, 0, 3, of_int ref, of_int cnt, of_int idx + 1] :: byte list"
  have "rope_writes (gsm_rope_add_sms_user_header realloc ref cnt idx) (concat (map (\<lambda>b. [b]) ?bs))"
    unfolding gsm_rope_add_sms_user_header_def by (rule rope_writes_do) (simp add: rope_writes_c)
  then show ?thesis by simp
qed

lemma rope_writes_head:
  assumes "address_fits a" "length ts = 7"
  shows "rope_writes (rope_do [gsm_rope_add_c realloc 0, gsm_rope_add_c realloc (if cnt > 1 then 0x20 OR 0x40 else 0x20),
      gsm_rope_add_address realloc a, gsm_rope_add_c realloc 0, gsm_rope_add_c realloc (if gsm7 then 0 else 9),
      gsm_rope_add_timestamp realloc ts]) (deliver_head gsm7 a ts cnt)"
proof -
  have "gsm_rope_add_timestamp realloc ts = gsm_rope_add realloc ts"
    by (rule ext) (simp add: gsm_rope_add_timestamp_def assms(2))
  then have ts: "rope_writes (gsm_rope_add_timestamp realloc ts) ts" by (simp add: rope_writes_add)
  have "deliver_head gsm7 a ts cnt =
      concat [[0], [if cnt > 1 then 0x20 OR 0x40 else 0x20], address_bytes a, [0], [if gsm7 then 0 else 9], ts]"
    by (simp add: deliver_head_def)
  then show ?thesis
    by (simp only:) (intro rope_writes_do list.rel_intros rope_writes_c rope_writes_address assms(1) ts)
qed

lemma do_last: "Option.bind (rope_do fs rope) (rope_do (gs @ [f])) = Option.bind (rope_do (fs @ gs) rope) f"
proof -
  have "Option.bind x (rope_do []) = x" for x by (cases x) simp_all
  then have "rope_do [f] = f" by (intro ext) simp
  then show ?thesis by (simp add: rope_do_append [abs_def] split: Option.bind_split)
qed

abbreviation deliver_ops :: "(int \<Rightarrow> byte list option) \<Rightarrow> bool \<Rightarrow> sms_address \<Rightarrow> byte list \<Rightarrow> int \<Rightarrow> int \<Rightarrow> int \<Rightarrow> byte \<Rightarrow> (gsm_rope \<Rightarrow> gsm_rope option) list" where
  "deliver_ops realloc gsm7 a ts ref cnt idx u \<equiv>
     [gsm_rope_add_c realloc 0, gsm_rope_add_c realloc (if cnt > 1 then 0x20 OR 0x40 else 0x20),
      gsm_rope_add_address realloc a, gsm_rope_add_c realloc 0, gsm_rope_add_c realloc (if gsm7 then 0 else 9),
      gsm_rope_add_timestamp realloc ts] @
     (if cnt > 1 then [gsm_rope_add_c realloc u, gsm_rope_add_sms_user_header realloc ref cnt idx] else [gsm_rope_add_c realloc u])"

lemma rope_writes_ops:
  assumes "address_fits a" "length ts = 7"
  shows "rope_writes (rope_do (deliver_ops realloc gsm7 a ts ref cnt idx u)) (deliver_head gsm7 a ts cnt @ [u] @ part_header ref cnt idx)"
proof -
  let ?mid = "if cnt > 1 then [gsm_rope_add_c realloc u, gsm_rope_add_sms_user_header realloc ref cnt idx] else [gsm_rope_add_c realloc u]"
  have "rope_writes (rope_do ?mid) (concat (if cnt > 1 then [[u], [5, 0, 3, of_int ref, of_int cnt, of_int idx + 1]] else [[u]]))"
    by (rule rope_writes_do) (simp add: rope_writes_c rope_writes_header)
  moreover have "concat (if cnt > 1 then [[u], [5, 0, 3, of_int ref, of_int cnt, of_int idx + 1]] else [[u]]) = [u] @ part_header ref cnt idx"
    by (simp add: part_header_def)
  ultimately have mid: "rope_writes (rope_do ?mid) ([u] @ part_header ref cnt idx)" by (simp only:)
  show ?thesis
    unfolding rope_do_append [abs_def] by (rule rope_writes_bind [OF rope_writes_head [OF assms] mid])
qed

lemma length_deliver_head: "address_fits a \<Longrightarrow> length ts = 7 \<Longrightarrow> length (deliver_head gsm7 a ts cnt) \<le> 141 \<and> 0 < length (deliver_head gsm7 a ts cnt)"
  using unsigned_less [of "ad_len a", where 'a = nat] by (simp add: deliver_head_def length_address_bytes)

lemma length_part_header: "length (part_header ref cnt idx) = (if cnt > 1 then 6 else 0)"
  by (simp add: part_header_def)

lemma create_deliver_ucs2:
  assumes "list_all bmp cs" "length cs \<le> 67" "address_fits a" "length ts = 7" "\<And>k. calloc k"
  shows "\<exists>pdu. smspdu_create_deliver calloc realloc d0 (utf8_of cs) False a ts ref cnt idx = Some (Some pdu)
    \<and> delivers False a ts ref cnt idx cs pdu"
proof -
  let ?bytes = "concat (map ucs2_write cs)"
  let ?u = "2 * length cs + (if cnt > 1 then 6 else 0)"
  have len: "length ?bytes = 2 * length cs" by (induction cs) (simp_all add: ucs2_write_def)
  have add: "gsm_rope_add_sms_deliver_pdu realloc (utf8_of cs) False a ts ref cnt idx rope =
      Option.bind (rope_do (deliver_ops realloc False a ts ref cnt idx (of_nat ?u)) rope)
        (rope_reserve_fill realloc (int (2 * length cs)) (\<lambda>d. buf_write d 0 ?bytes))" for rope
    unfolding do_last [symmetric] gsm_rope_add_sms_deliver_pdu_def Let_def utf8_to_ucs2_of [OF assms(1)] len
    using assms(2) by (simp add: MAX_USER_DATA_BYTES_def USER_DATA_HEADER_SIZE_def add.commute mult.commute)
  have "smspdu_create_deliver calloc realloc d0 (utf8_of cs) False a ts ref cnt idx =
      Some (Some \<lparr>pd_base = (deliver_head False a ts cnt @ [of_nat ?u] @ part_header ref cnt idx) @ ?bytes, pd_tpdu = 1\<rparr>)"
  proof (rule create_two_passes [OF add rope_writes_ops [OF assms(3,4)]])
    show "length (deliver_head False a ts cnt @ [of_nat ?u] @ part_header ref cnt idx) + 2 * length cs \<le> 2 ^ 30"
      using length_deliver_head [OF assms(3,4), of False cnt] assms(2) by (simp add: length_part_header)
  qed (simp_all add: buf_write_def len assms(5))
  then show ?thesis unfolding delivers_def by auto
qed

lemma create_deliver_gsm7:
  assumes "list_all gsm7_basic cs" "length cs \<le> 154" "address_fits a" "length ts = 7" "\<And>k. calloc k"
  shows "\<exists>pdu. smspdu_create_deliver calloc realloc d0 (utf8_of cs) True a ts ref cnt idx = Some (Some pdu)
    \<and> delivers True a ts ref cnt idx cs pdu"
proof -
  let ?pad = "if cnt > 1 then 1 else 0 :: nat"
  let ?n = "(7 * length cs + ?pad + 7) div 8"
  let ?u = "length cs + (if cnt > 1 then 7 else 0)"
  have "?pad + 7 * length cs \<le> 8 * length (replicate ?n (0 :: byte))" by simp
  from gsm7_pack_unpack [OF assms(1) this] obtain ud where
    ud: "utf8_to_gsm7 (utf8_of cs) (Some (replicate ?n 0)) (int ?pad) = Some (int (?pad + 7 * length cs), Some ud)"
      "length ud = ?n" "packed7 ud ?pad cs" by auto
  have n: "(int (length cs) * 7 + int ?pad + 7) div 8 = int ?n" by (simp add: zdiv_int algebra_simps)
  have add: "gsm_rope_add_sms_deliver_pdu realloc (utf8_of cs) True a ts ref cnt idx rope =
      Option.bind (rope_do (deliver_ops realloc True a ts ref cnt idx (of_nat ?u)) rope)
        (rope_reserve_fill realloc (int ?n) (\<lambda>d. Option.bind (utf8_to_gsm7 (utf8_of cs) (Some d) (int ?pad)) snd))" for rope
    unfolding do_last [symmetric] gsm_rope_add_sms_deliver_pdu_def Let_def gsm7_count_of [OF assms(1)] n [symmetric]
    using assms(2) by (simp add: MAX_USER_DATA_SEPTETS_def USER_DATA_HEADER_SIZE_def add.commute)
  have "smspdu_create_deliver calloc realloc d0 (utf8_of cs) True a ts ref cnt idx =
      Some (Some \<lparr>pd_base = (deliver_head True a ts cnt @ [of_nat ?u] @ part_header ref cnt idx) @ ud, pd_tpdu = 1\<rparr>)"
  proof (rule create_two_passes [OF add rope_writes_ops [OF assms(3,4)]])
    have "?n \<le> 136" using assms(2) by (intro div_le_mono [of _ 1088 8, simplified]) simp
    moreover have "length (deliver_head True a ts cnt @ [of_nat ?u] @ part_header ref cnt idx) \<le> 148"
      using length_deliver_head [OF assms(3,4), of True cnt] by (simp add: length_part_header)
    ultimately have "length (deliver_head True a ts cnt @ [of_nat ?u] @ part_header ref cnt idx) + ?n \<le> 148 + 136"
      by (rule add_mono [rotated])
    then show "length (deliver_head True a ts cnt @ [of_nat ?u] @ part_header ref cnt idx) + ?n \<le> 2 ^ 30"
      by (rule order_trans) simp
  qed (simp_all add: ud assms(5))
  with ud show ?thesis unfolding delivers_def by auto
qed

section \<open>Splitting a message\<close>

fun chunks :: "nat \<Rightarrow> 'a list \<Rightarrow> 'a list list" where
  "chunks B [] = []"
| "chunks B (x # xs) = (if B = 0 then [] else take B (x # xs) # chunks B (drop B (x # xs)))"

lemma chunks_nonempty: "xs \<noteq> [] \<Longrightarrow> 0 < B \<Longrightarrow> chunks B xs = take B xs # chunks B (drop B xs)"
  by (cases xs) simp_all

lemma concat_chunks: "0 < B \<Longrightarrow> concat (chunks B xs) = xs"
  by (induction B xs rule: chunks.induct) simp_all

lemma chunks_sizes: "list_all (\<lambda>p. p \<noteq> [] \<and> length p \<le> B) (chunks B xs)"
  by (induction B xs rule: chunks.induct) auto

lemma chunks_all: "list_all P xs \<Longrightarrow> 0 < B \<Longrightarrow> list_all (list_all P) (chunks B xs)"
proof -
  assume "list_all P xs" "0 < B"
  then have "\<forall>x\<in>set (concat (chunks B xs)). P x" by (simp add: concat_chunks list_all_iff del: set_concat)
  then show ?thesis by (simp add: list_all_iff)
qed

lemma length_chunks: "0 < B \<Longrightarrow> length (chunks B xs) = length xs div B + (if length xs mod B > 0 then 1 else 0)"
proof (induction B xs rule: chunks.induct)
  case (2 B x xs)
  let ?n = "length (x # xs)"
  show ?case
  proof (cases "?n < B")
    case True
    then show ?thesis using 2 by (simp add: chunks_nonempty del: chunks.simps)
  next
    case False
    then obtain m where m: "?n = B + m" by (metis le_Suc_ex not_less)
    then have "length (drop B (x # xs)) = m" by simp
    then show ?thesis using 2 m by (simp add: chunks_nonempty div_add_self1 del: chunks.simps)
  qed
qed simp

lemma skip_gsm7_of: "list_all gsm7_basic cs \<Longrightarrow> utf8_skip_gsm7 (utf8_of cs) (int k) = utf8_of (drop k cs)"
proof (induction cs arbitrary: k)
  case (Cons c cs)
  then have c: "gsm7_basic c" "list_all bmp (c # cs)" by (auto simp: list_all_iff gsm7_basic_septet)
  then have "0 \<le> c" "unichar_to_gsm7_count c = 1"
    using gsm7_basic_septet(1) [OF c(1)] by (simp_all add: bmp_def unichar_to_gsm7_count_def)
  with Cons utf8_next_of [OF c(2)] show ?case by (cases k; subst utf8_skip_gsm7.simps) simp_all
qed (simp add: utf8_skip_gsm7.simps)

lemma skip_ucs2_of: "list_all bmp cs \<Longrightarrow> utf8_skip_ucs2 (utf8_of cs) (2 * int k) = utf8_of (drop k cs)"
proof (induction cs arbitrary: k)
  case (Cons c cs)
  then have "0 \<le> c" by (simp add: bmp_def)
  with Cons utf8_next_of [OF Cons.prems] show ?case
    by (cases k; subst utf8_skip_ucs2.simps) simp_all
qed (simp add: utf8_skip_ucs2.simps)

lemma check_gsm7_of: "list_all gsm7_basic cs \<Longrightarrow> utf8_check_gsm7 (utf8_of cs) = 1"
proof (induction cs)
  case (Cons c cs)
  then have c: "gsm7_basic c" "list_all bmp (c # cs)" by (auto simp: list_all_iff gsm7_basic_septet)
  with Cons utf8_next_of [OF c(2)] gsm7_basic_septet(1) [OF c(1)] show ?case
    by (subst utf8_check_gsm7.simps) (simp add: unichar_to_gsm7_count_def)
qed (simp add: utf8_check_gsm7.simps)

lemma check_ucs2_of: "list_all bmp cs \<Longrightarrow> list_ex (\<lambda>c. unichar_to_gsm7_count c = 0) cs \<Longrightarrow> utf8_check_gsm7 (utf8_of cs) = 0"
proof (induction cs)
  case (Cons c cs)
  with utf8_next_of [OF Cons.prems(1)] show ?case by (subst utf8_check_gsm7.simps) auto
qed simp

lemma take_chars: "take (length (utf8_of cs) - length (utf8_of (drop k cs))) (utf8_of cs) = utf8_of (take k cs)"
proof -
  have "utf8_of cs = utf8_of (take k cs) @ utf8_of (drop k cs)"
    by (metis append_take_drop_id concat_append map_append)
  then show ?thesis by (simp add: append_eq_conv_conj [symmetric])
qed

text \<open>
  The loop over the units, for characters that take \<open>w\<close> units of the block each.
\<close>

lemma deliver_loop_parts:
  assumes skip: "\<And>cs k. list_all P cs \<Longrightarrow> (if g then utf8_skip_gsm7 (utf8_of cs) (w * int k) else utf8_skip_ucs2 (utf8_of cs) (w * int k)) = utf8_of (drop k cs)"
    and create: "\<And>part nn. list_all P part \<Longrightarrow> length part \<le> B \<Longrightarrow> \<exists>pdu. create (utf8_of part) nn = Some (Some pdu) \<and> D nn part pdu"
    and "0 < B" "0 < w"
  shows "list_all P cs \<Longrightarrow> k = length (chunks B cs) \<Longrightarrow> nn + int k = num \<Longrightarrow>
    \<exists>pdus. deliver_loop create g (w * int B) (w * int (length cs mod B)) num k nn (utf8_of cs) = Some (Some pdus)
      \<and> length pdus = k \<and> (\<forall>i<k. D (nn + int i) (chunks B cs ! i) (pdus ! i))"
proof (induction k arbitrary: cs nn)
  case (Suc k)
  then have cs: "cs \<noteq> []" by auto
  note ch = chunks_nonempty [OF cs assms(3)]
  have k: "k = length (chunks B (drop B cs))" using Suc.prems(2) by (simp add: ch)
  let ?left = "w * int (length cs mod B)"
  let ?skip = "if ?left > 0 \<and> nn = num - 1 then ?left else w * int B"
  have next_src: "(if g then utf8_skip_gsm7 (utf8_of cs) ?skip else utf8_skip_ucs2 (utf8_of cs) ?skip) = utf8_of (drop B cs)"
  proof (cases "?left > 0 \<and> nn = num - 1")
    case True
    then have "k = 0" using Suc.prems(3) by simp
    then have "drop B cs = []" using k length_chunks [OF assms(3), of "drop B cs"] by (auto split: if_splits simp: assms(3))
    moreover have "length cs \<noteq> B" using True by (intro notI) simp
    ultimately have "length cs mod B = length cs" by simp
    then have "?skip = w * int (length cs)" using True by (simp only: if_True simp_thms)
    then show ?thesis using skip [OF Suc.prems(1), of "length cs"] \<open>drop B cs = []\<close> by (simp only: drop_all order.refl)
  next
    case False
    then have "?skip = w * int B" by (simp only: if_False)
    then show ?thesis using skip [OF Suc.prems(1), of B] by (simp only:)
  qed
  have part: "list_all P (take B cs)" "length (take B cs) \<le> B" "list_all P (drop B cs)"
    using Suc.prems(1) by (auto simp: list_all_iff dest: in_set_takeD in_set_dropD)
  obtain pdu where pdu: "create (utf8_of (take B cs)) nn = Some (Some pdu)" "D nn (take B cs) pdu"
    using create [OF part(1,2)] by blast
  have rest: "\<exists>pdus. deliver_loop create g (w * int B) (w * int (length (drop B cs) mod B)) num k (nn + 1) (utf8_of (drop B cs)) = Some (Some pdus)
      \<and> length pdus = k \<and> (\<forall>i<k. D (nn + 1 + int i) (chunks B (drop B cs) ! i) (pdus ! i))"
    using Suc.prems(3) by (intro Suc.IH [OF part(3) k]) simp
  show ?case
  proof (cases "k = 0")
    case True
    then show ?thesis
      unfolding deliver_loop.simps Let_def next_src take_chars pdu(1) using pdu(2) by (simp add: ch)
  next
    case False
    have "B < length cs"
    proof (rule ccontr)
      assume "\<not> B < length cs"
      then have "drop B cs = []" by simp
      with k False show False by (simp only: chunks.simps list.size)
    qed
    then have "length (drop B cs) mod B = length cs mod B" using le_mod_geq [of B "length cs"] by simp
    with rest obtain pdus where r:
      "deliver_loop create g (w * int B) ?left num k (nn + 1) (utf8_of (drop B cs)) = Some (Some pdus)"
      "length pdus = k" "\<And>i. i < k \<Longrightarrow> D (nn + 1 + int i) (chunks B (drop B cs) ! i) (pdus ! i)" by auto
    have "deliver_loop create g (w * int B) ?left num (Suc k) nn (utf8_of cs) = Some (Some (pdu # pdus))"
      unfolding deliver_loop.simps Let_def next_src take_chars pdu(1) r(1) by simp
    moreover have "D (nn + int i) (chunks B cs ! i) ((pdu # pdus) ! i)" if "i < Suc k" for i
      using that r(3) pdu(2) by (cases i) (simp_all add: ch add.assoc)
    ultimately show ?thesis using r(2) by (intro exI [of _ "pdu # pdus"]) simp
  qed
qed simp

section \<open>Properties\<close>

lemma deliver_utf8_parts:
  assumes P: "list_all P cs" and skip: "\<And>cs k. list_all P cs \<Longrightarrow>
      (if g then utf8_skip_gsm7 (utf8_of cs) (w * int k) else utf8_skip_ucs2 (utf8_of cs) (w * int k)) = utf8_of (drop k cs)"
    and create: "\<And>part n nn. list_all P part \<Longrightarrow> length part \<le> B \<Longrightarrow>
      \<exists>pdu. smspdu_create_deliver calloc realloc d0 (utf8_of part) g a ts (uint ref) n nn = Some (Some pdu) \<and> delivers g a ts (uint ref) n nn part pdu"
    and check: "(utf8_check_gsm7 (utf8_of cs) \<noteq> 0) = g" and calloc: "\<And>k. calloc k" and "0 < B" "0 < w"
    and total: "(if g then utf8_to_gsm7_count (utf8_of cs) else 2 * (int (length (utf8_to_ucs2 (utf8_of cs))) div 2)) = w * int (length cs)"
    and block: "(if g then MAX_USER_DATA_SEPTETS - USER_DATA_HEADER_SIZE else MAX_USER_DATA_BYTES - USER_DATA_HEADER_SIZE) = w * int B"
  shows "\<exists>pdus. smspdu_create_deliver_utf8 calloc realloc d0 now ref (utf8_of cs) a (Some ts) = Some (Some pdus, ref + 1)
    \<and> length pdus = length (chunks B cs)
    \<and> (\<forall>i<length pdus. delivers g a ts (uint ref) (int (length pdus)) (int i) (chunks B cs ! i) (pdus ! i))"
proof -
  let ?n = "length (chunks B cs)"
  have q: "w * int (length cs) div (w * int B) = int (length cs div B)"
    using assms(7) by (simp add: zdiv_int)
  have r: "w * int (length cs) - int (length cs div B) * (w * int B) = w * int (length cs mod B)"
    by (simp add: zmod_int zdiv_int algebra_simps minus_mult_div_eq_mod [symmetric])
  have n: "int (length cs div B) + (if 0 < w * int (length cs mod B) then 1 else 0) = int ?n"
    using assms(6,7) by (simp add: length_chunks zero_less_mult_iff)
  let ?create = "\<lambda>src nn. smspdu_create_deliver calloc realloc d0 src g a ts (uint ref) (int ?n) nn"
  have "\<exists>pdus. deliver_loop ?create g (w * int B) (w * int (length cs mod B)) (int ?n) ?n 0 (utf8_of cs) = Some (Some pdus)
      \<and> length pdus = ?n \<and> (\<forall>i<?n. delivers g a ts (uint ref) (int ?n) (0 + int i) (chunks B cs ! i) (pdus ! i))"
    by (rule deliver_loop_parts [where P = P and D = "\<lambda>nn. delivers g a ts (uint ref) (int ?n) nn", OF skip create assms(6,7) P refl]) simp_all
  then obtain pdus where pdus: "deliver_loop ?create g (w * int B) (w * int (length cs mod B)) (int ?n) ?n 0 (utf8_of cs) = Some (Some pdus)"
      "length pdus = ?n" "\<forall>i<?n. delivers g a ts (uint ref) (int ?n) (int i) (chunks B cs ! i) (pdus ! i)" by auto
  have "smspdu_create_deliver_utf8 calloc realloc d0 now ref (utf8_of cs) a (Some ts) = Some (Some pdus, ref + 1)"
    unfolding smspdu_create_deliver_utf8_def Let_def check total block q r n option.case nat_int using calloc pdus(1) by simp
  with pdus(2,3) show ?thesis by auto
qed

text \<open>
  C31. A message to deliver is split without loss when its characters are in the basic
  alphabet, each one septet, or when they are 16-bit characters and some of them is in no
  GSM alphabet. Text of the basic alphabet goes into parts of 154 characters and other
  text into parts of 67. The units carry the parts in order, every unit has the fields of
  the protocol with its part number and the number of parts, and its user data holds
  exactly its part. The two passes over a rope, one that counts and one that writes,
  agree for every unit. Text with characters of the extended alphabet, two septets each,
  is not covered: such a character at the end of a part can be lost
  (\<open>extended_character_lost\<close>).
\<close>

theorem deliver_message_parts:
  assumes "address_fits a" "length ts = 7" "\<And>k. calloc k"
    and "list_all gsm7_basic cs \<or> list_all bmp cs \<and> list_ex (\<lambda>c. unichar_to_gsm7_count c = 0) cs"
  shows "\<exists>pdus. smspdu_create_deliver_utf8 calloc realloc d0 now ref (utf8_of cs) a (Some ts) = Some (Some pdus, ref + 1)
    \<and> (let parts = chunks (if list_all gsm7_basic cs then 154 else 67) cs in
        concat parts = cs \<and> length pdus = length parts
        \<and> (\<forall>i<length parts. delivers (list_all gsm7_basic cs) a ts (uint ref) (int (length parts)) (int i) (parts ! i) (pdus ! i)))"
proof (cases "list_all gsm7_basic cs")
  case True
  have "\<exists>pdus. smspdu_create_deliver_utf8 calloc realloc d0 now ref (utf8_of cs) a (Some ts) = Some (Some pdus, ref + 1)
    \<and> length pdus = length (chunks 154 cs)
    \<and> (\<forall>i<length pdus. delivers True a ts (uint ref) (int (length pdus)) (int i) (chunks 154 cs ! i) (pdus ! i))"
    by (rule deliver_utf8_parts [where P = gsm7_basic and w = 1])
      (use True assms(1-3) create_deliver_gsm7 in \<open>auto simp: skip_gsm7_of check_gsm7_of gsm7_count_of
         MAX_USER_DATA_SEPTETS_def USER_DATA_HEADER_SIZE_def\<close>)
  with True concat_chunks [of 154 cs] show ?thesis by (auto simp: Let_def)
next
  case False
  with assms(4) have bmp: "list_all bmp cs" "list_ex (\<lambda>c. unichar_to_gsm7_count c = 0) cs" by auto
  have "length (concat (map ucs2_write cs)) = 2 * length cs" by (induction cs) (simp_all add: ucs2_write_def)
  then have "\<exists>pdus. smspdu_create_deliver_utf8 calloc realloc d0 now ref (utf8_of cs) a (Some ts) = Some (Some pdus, ref + 1)
    \<and> length pdus = length (chunks 67 cs)
    \<and> (\<forall>i<length pdus. delivers False a ts (uint ref) (int (length pdus)) (int i) (chunks 67 cs ! i) (pdus ! i))"
    by (intro deliver_utf8_parts [where P = bmp and w = 2])
      (use bmp assms(1-3) create_deliver_ucs2 in \<open>auto simp: skip_ucs2_of check_ucs2_of utf8_to_ucs2_of
         MAX_USER_DATA_BYTES_def USER_DATA_HEADER_SIZE_def\<close>)
  with False concat_chunks [of 67 cs] show ?thesis by (auto simp: Let_def)
qed

text \<open>A message of 155 letters is delivered in two units.\<close>

definition demo_sender :: sms_address where
  "demo_sender = \<lparr>ad_len = 3, ad_toa = 0x81, ad_data = [0x21, 0xf3]\<rparr>"

lemma chunks_155: "chunks 154 (replicate 155 x) = [replicate 154 x, [x]]"
proof -
  have "replicate 155 x = replicate 154 x @ [x]" using replicate_add [of 154 1 x] by simp
  then show ?thesis by (simp add: chunks_nonempty chunks.simps(1))
qed

theorem deliver_message_parts_witness:
  "\<exists>p q. smspdu_create_deliver_utf8 (\<lambda>_. True) (\<lambda>_. None) [] [] 7 (utf8_of (replicate 155 97)) demo_sender
      (Some [1, 2, 3, 4, 5, 6, 7]) = Some (Some [p, q], 8)
    \<and> delivers True demo_sender [1, 2, 3, 4, 5, 6, 7] 7 2 0 (replicate 154 97) p
    \<and> delivers True demo_sender [1, 2, 3, 4, 5, 6, 7] 7 2 1 [97] q"
proof -
  let ?cs = "replicate 155 (97 :: int)"
  have fits: "address_fits demo_sender" by (simp add: address_fits_def demo_sender_def)
  have "gsm7_basic 97" by (simp add: gsm7_basic_def gsm7bits_to_unicode_def)
  then have basic: "list_all gsm7_basic ?cs" by (simp add: list_all_iff)
  obtain pdus where pdus: "smspdu_create_deliver_utf8 (\<lambda>_. True) (\<lambda>_. None) [] [] 7 (utf8_of ?cs) demo_sender
        (Some [1, 2, 3, 4, 5, 6, 7]) = Some (Some pdus, 7 + 1)" "length pdus = 2"
      "\<forall>i<2. delivers True demo_sender [1, 2, 3, 4, 5, 6, 7] 7 2 (int i) ([replicate 154 97, [97]] ! i) (pdus ! i)"
    using deliver_message_parts [OF fits, of "[1, 2, 3, 4, 5, 6, 7]" "\<lambda>_. True" ?cs "\<lambda>_. None" "[]" "[]" 7] basic chunks_155 [of "97 :: int"]
    by (auto simp: Let_def)
  then obtain p q where "pdus = [p, q]" by (auto simp: numeral_2_eq_2 length_Suc_conv)
  with pdus(1) pdus(3) [rule_format, of 0] pdus(3) [rule_format, of 1] show ?thesis by (simp)
qed

text \<open>
  A submitted unit without a header and without a validity period: the address of the
  service center, the type byte, a reference, the address, the protocol, a coding scheme
  of the default alphabet, and the packed text.
\<close>

definition default_alphabet :: "byte \<Rightarrow> bool" where
  "default_alphabet dcs \<longleftrightarrow> uint dcs AND 0xc0 = 0 \<and> uint dcs AND 0x0c = 0 \<or> uint dcs AND 0xf0 = 0xf0 \<and> uint dcs AND 4 = 0"

definition submits :: "byte list \<Rightarrow> byte \<Rightarrow> byte \<Rightarrow> sms_address \<Rightarrow> int list \<Rightarrow> sms_pdu \<Rightarrow> bool" where
  "submits sc mti mr a cs pdu \<longleftrightarrow> uint mti AND 3 = 1 \<and> uint mti AND 0x40 = 0 \<and> uint mti AND 0x18 = 0 \<and>
     (\<exists>pid dcs ud. default_alphabet dcs \<and> packed7 ud 0 cs
       \<and> pdu = \<lparr>pd_base = of_nat (length sc) # sc @ [mti, mr] @ address_bytes a @ [pid, dcs, of_nat (length cs)] @ ud,
               pd_tpdu = 1 + length sc\<rparr>)"

lemma default_alphabet_coding:
  assumes "default_alphabet (m ! k)" "k < length m"
  shows "sms_get_coding_scheme m k = (SMS_CODING_SCHEME_GSM7, k + 1)"
proof (cases "uint (m ! k) AND 0xf0 = 0xf0")
  case True
  have "uint (m ! k) AND 0xc0 = (uint (m ! k) AND 0xf0) AND 0xc0" by (simp add: and.assoc)
  then have "uint (m ! k) AND 0xc0 \<noteq> 0" unfolding True by simp
  then show ?thesis using assms True by (auto simp: sms_get_coding_scheme_def default_alphabet_def Let_def)
next
  case False
  then show ?thesis using assms by (auto simp: sms_get_coding_scheme_def default_alphabet_def Let_def)
qed

lemma length_utf8_of: "length (utf8_of cs) \<le> 4 * length cs"
  by (induction cs) (auto simp: utf8_write_def)

lemma get_address_bytes:
  assumes "address_fits a" "0 < ad_len a" "(unat (ad_len a) + 1) div 2 \<le> length (ad_data a0)"
  shows "\<exists>a'. sms_get_address (pre @ address_bytes a @ rest) (length pre) a0 = (0, length pre + length (address_bytes a), a')
    \<and> ad_len a' = ad_len a \<and> ad_toa a' = ad_toa a
    \<and> ad_data a' = drop 2 (address_bytes a) @ drop ((unat (ad_len a) + 1) div 2) (ad_data a0)"
proof -
  let ?n = "(unat (ad_len a) + 1) div 2"
  obtain ds where ds: "address_bytes a = ad_len a # ad_toa a # ds" "length ds = ?n"
    using length_address_bytes [OF assms(1)] by (auto simp: address_bytes_def Let_def)
  have "unat (ad_len a) \<noteq> 0" using assms(2) by (simp add: unat_eq_0)
  then show ?thesis using assms(3) ds(2) by (auto simp: sms_get_address_def Let_def ds(1) nth_append)
qed

text \<open>The bytes of a text reserved in a fresh rope are those read from it.\<close>

lemma rope_text:
  assumes d0: "length d0 = 16" and t: "length t \<le> 2 ^ 30"
    and realloc: "\<And>k. 0 \<le> k \<Longrightarrow> \<exists>fresh. realloc k = Some fresh \<and> int (length fresh) = k"
  shows "\<exists>r. rope_reserve_fill realloc (int (length t)) (\<lambda>d. buf_write d 0 t) (gsm_rope_init_alloc d0 True 0) = Some r
    \<and> rp_pos r = int (length t) \<and> (\<exists>b. (rp_data r = Rope_data0 b \<or> rp_data r = Rope_heap b) \<and> length t \<le> length b \<and> take (length t) b = t)"
proof (cases "length t \<le> 16")
  case True
  then show ?thesis using d0
    by (auto simp: rope_reserve_fill_def gsm_rope_reserve_def gsm_rope_can_grow_def gsm_rope_init_alloc_def rope_fill_def buf_write_def)
next
  case False
  obtain m where m: "rope_grow 16 (int (length t)) = Some m" "int (length t) \<le> m"
    using rope_grow_ends [of 16 "int (length t)"] t by auto
  obtain fresh where f: "realloc m = Some fresh" "int (length fresh) = m" using realloc [of m] m(2) by auto
  show ?thesis using False t m f d0
    by (auto simp: rope_reserve_fill_def gsm_rope_reserve_def gsm_rope_can_grow_def gsm_rope_ensure_def gsm_rope_init_alloc_def
        rope_fill_def buf_write_def)
qed

text \<open>
  C32. The text of a submitted unit is read back, for units in the default alphabet
  without a header and without a validity period, whose text is in the basic alphabet.
  The parser skips the address of the service center and that of the receiver, and the
  result is the length of the text in UTF-8 with as many of its bytes as there is room
  for.
\<close>

theorem submit_text_extracted:
  assumes "submits sc mti mr a cs pdu" "length cs < 256"
    and "address_fits a" "0 < ad_len a" "(unat (ad_len a) + 1) div 2 \<le> length (ad_data a0)" "length d0 = 16"
    and "\<And>k. 0 \<le> k \<Longrightarrow> \<exists>fresh. realloc k = Some fresh \<and> int (length fresh) = k"
  shows "smspdu_get_text_message realloc d0 a0 pdu utf8len = Some (int (length (utf8_of cs)), take (nat utf8len) (utf8_of cs))"
proof -
  from assms(1) obtain pid dcs ud where
    pdu: "pdu = \<lparr>pd_base = of_nat (length sc) # sc @ [mti, mr] @ address_bytes a @ [pid, dcs, of_nat (length cs)] @ ud,
        pd_tpdu = 1 + length sc\<rparr>"
    and dcs: "default_alphabet dcs" and packed: "packed7 ud 0 cs" and mask: "uint mti AND 3 = 1" "uint mti AND 0x40 = 0"
    by (auto simp: submits_def)
  have ud: "utf8_from_gsm7 ud 0 (int (length cs)) = Some (utf8_of cs)" using packed7_decode [OF packed] by simp
  have short: "length (utf8_of cs) \<le> 2 ^ 30" using order_trans [OF length_utf8_of [of cs], of "2 ^ 30"] assms(2) by simp
  define pre where "pre = of_nat (length sc) # sc @ [mti, mr]"
  define rest where "rest = [pid, dcs, of_nat (length cs)] @ ud"
  define m where "m = pre @ address_bytes a @ rest"
  define k where "k = length pre + length (address_bytes a)"
  have base: "pd_base pdu = m" "pd_tpdu pdu = length sc + 1" by (simp_all add: pdu m_def pre_def rest_def)
  obtain a' where a': "sms_get_address m (length sc + 2 + 1) a0 = (0, k, a')"
    using get_address_bytes [OF assms(3-5), of pre rest] by (auto simp: m_def k_def pre_def eval_nat_numeral)
  have mti: "sms_get_byte m (length sc + 1) = (uint mti, length sc + 2)"
    by (simp add: sms_get_byte_def nth_append m_def pre_def)
  have at: "m ! (k + i) = rest ! i" "drop (k + i) m = drop i rest" "length m = k + length rest" for i
    using nth_append_length_plus [of "pre @ address_bytes a" rest i] by (simp_all add: m_def k_def)
  have rest: "length rest = 3 + length ud" "rest ! 1 = dcs" "rest ! 2 = of_nat (length cs)" "drop 3 rest = ud"
    by (simp_all add: rest_def numeral_eq_Suc)
  have coding: "sms_get_coding_scheme m (k + 1) = (SMS_CODING_SCHEME_GSM7, k + 2)"
    using default_alphabet_coding [of m "k + 1"] dcs at(1) [of 1] at(3) rest(1,2) by simp
  obtain r b where r: "rope_reserve_fill realloc (int (length (utf8_of cs))) (\<lambda>d. buf_write d 0 (utf8_of cs)) (gsm_rope_init_alloc d0 True 0) = Some r"
      "rp_pos r = int (length (utf8_of cs))" "rp_data r = Rope_data0 b \<or> rp_data r = Rope_heap b"
      "length (utf8_of cs) \<le> length b" "take (length (utf8_of cs)) b = utf8_of cs"
    using rope_text [OF assms(6) short assms(7)] by blast
  have u: "uint (of_nat (length cs) :: byte) = int (length cs)" using assms(2) by (simp add: unsigned_of_nat take_bit_nat_eq_self)
  have d: "drop (k + 2 + 1) m = ud" using at(2) [of 3] rest(4) by (simp only: add.assoc) (simp add: eval_nat_numeral)
  have "\<not> k + 2 \<ge> length m" using at(3) rest(1) by simp
  then have body: "sms_get_text_utf8 realloc m (k + 2) False SMS_CODING_SCHEME_GSM7 (Some (gsm_rope_init_alloc d0 True 0)) =
      Some (0, k + 2 + 1 + nat ((int (length cs) + 1) div 2), Some r)"
    unfolding sms_get_text_utf8_def Let_def at(1) rest(3) u
    by (simp only: if_False if_True simp_thms d ud r(1) option.map option.case prod.case sms_coding_scheme.distinct)
  have read: "map_option (\<lambda>t. (int (length (utf8_of cs)), t)) (buf_read b 0 (min utf8len (int (length (utf8_of cs))))) =
      Some (int (length (utf8_of cs)), take (nat utf8len) (utf8_of cs))" if "0 < min utf8len (int (length (utf8_of cs)))"
  proof -
    have "take (nat utf8len) (utf8_of cs) = take (min (nat utf8len) (length (utf8_of cs))) b"
      by (subst r(5) [symmetric]) (simp only: take_take)
    moreover have "nat (min utf8len (int (length (utf8_of cs)))) = min (nat utf8len) (length (utf8_of cs))"
      using that by (simp add: min_def nat_le_iff)
    ultimately show ?thesis using that r(4) by (simp add: buf_read_def del: length_concat)
  qed
  have "smspdu_get_text_message realloc d0 a0 pdu utf8len =
      (let n = min utf8len (int (length (utf8_of cs))) in
       if n > 0 then map_option (\<lambda>t. (int (length (utf8_of cs)), t)) (buf_read b 0 n) else Some (int (length (utf8_of cs)), []))"
  proof -
    have one: "(1 :: int) \<noteq> 0" "\<not> (0 :: int) < 0" by simp_all
    show ?thesis
      using r(3) unfolding smspdu_get_text_message_def Let_def base mti prod.case mask
      by (elim disjE; simp only: mask one if_False if_True simp_thms a' coding body r(2) option.case prod.case rope_data.case
          sms_coding_scheme.distinct)
  qed
  then show ?thesis using read by (auto simp: Let_def min_def split: if_splits)
qed

abbreviation demo_submit :: sms_pdu where
  "demo_submit \<equiv> \<lparr>pd_base = [0, 0x21, 9, 3, 0x81, 0x21, 0xf3, 0, 0xf1, 2, 0xe8, 0x34], pd_tpdu = 1\<rparr>"

theorem submit_text_extracted_witness:
  "submits [] 0x21 9 demo_sender [104, 105] demo_submit
   \<and> smspdu_get_text_message (\<lambda>k. Some (replicate (nat k) 0)) (replicate 16 0)
       \<lparr>ad_len = 0, ad_toa = 0, ad_data = replicate 10 0\<rparr> demo_submit 1 = Some (2, [104])"
proof -
  have a: "address_fits demo_sender" "address_bytes demo_sender = [3, 0x81, 0x21, 0xf3]"
    by code_simp+
  have ud: "packed7 [0xe8, 0x34] 0 [104, 105]" "default_alphabet 0xf1" by code_simp+
  have s: "submits [] 0x21 9 demo_sender [104, 105] demo_submit"
    unfolding submits_def using a(2) ud by (auto intro!: exI [of _ "[0xe8, 0x34]"])
  have w: "utf8_write 104 = [104]" "utf8_write 105 = [105]" by code_simp+
  from submit_text_extracted [OF s, of "\<lparr>ad_len = 0, ad_toa = 0, ad_data = replicate 10 0\<rparr>" "replicate 16 0" "\<lambda>k. Some (replicate (nat k) 0)" 1] s a
  show ?thesis by (simp add: w demo_sender_def)
qed

section \<open>Defects\<close>

text \<open>
  A caret takes two septets. When one septet is left for the first part, the caret is left
  for the second one, which takes one septet as well and so takes nothing: the parts of
  153 letters and a caret are the letters and the empty text.
\<close>

lemma next_letter:
  assumes "list_all bmp cs"
  shows "utf8_next (utf8_of (97 # cs)) = (97, utf8_of cs)" "utf8_of (97 # cs) \<noteq> []"
  using utf8_next_of [of 97 cs] assms by (simp_all add: bmp_def utf8_write_def)

lemma letter_counts: "unichar_to_gsm7_count 97 = 1" "unichar_to_gsm7_count 94 = 2"
  by code_simp+

lemma skip_before_caret: "k < 2 \<Longrightarrow> utf8_skip_gsm7 (utf8_of [94]) k = utf8_of [94]"
proof -
  assume k: "k < 2"
  have "utf8_next (utf8_of [94]) = (94, [])" by code_simp
  with k letter_counts show ?thesis by (subst utf8_skip_gsm7.simps) simp
qed

lemma letters_bmp: "list_all bmp cs \<Longrightarrow> list_all bmp (replicate n 97 @ cs)"
  by (auto simp: list_all_iff bmp_def)

lemma skip_letters:
  assumes "list_all bmp cs"
  shows "utf8_skip_gsm7 (utf8_of (replicate n 97 @ cs)) (int n + 1) = utf8_skip_gsm7 (utf8_of cs) 1"
proof (induction n)
  case (Suc n)
  then show ?case using next_letter [OF letters_bmp [OF assms, of n]] letter_counts(1) by (subst utf8_skip_gsm7.simps) (simp add: add.commute)
qed simp

lemma count_letters:
  assumes "list_all bmp cs"
  shows "utf8_to_gsm7_count (utf8_of (replicate n 97 @ cs)) = int n + utf8_to_gsm7_count (utf8_of cs)"
proof (induction n)
  case (Suc n)
  then show ?case using next_letter [OF letters_bmp [OF assms, of n]] letter_counts(1) by (subst utf8_to_gsm7_count.simps) simp
qed simp

lemma extended_character_lost:
  assumes "create (utf8_of (replicate 153 97)) 0 = Some (Some p)" "create [] 1 = Some (Some q)"
  shows "utf8_to_gsm7_count (utf8_of (replicate 153 97 @ [94])) = 155"
    and "deliver_loop create True 154 1 2 2 0 (utf8_of (replicate 153 97 @ [94])) = Some (Some [p, q])"
proof -
  have caret: "list_all bmp [94]" "utf8_to_gsm7_count (utf8_of [94]) = 2" by code_simp+
  show "utf8_to_gsm7_count (utf8_of (replicate 153 97 @ [94])) = 155"
    using count_letters [OF caret(1), of 153] caret(2) by simp
  have first: "utf8_skip_gsm7 (utf8_of (replicate 153 97 @ [94])) 154 = utf8_of [94]"
    using skip_letters [OF caret(1), of 153] skip_before_caret [of 1] by simp
  have part: "take (length (utf8_of (replicate 153 97 @ [94])) - length (utf8_of [94])) (utf8_of (replicate 153 97 @ [94])) =
      utf8_of (replicate 153 97)" by simp
  show "deliver_loop create True 154 1 2 2 0 (utf8_of (replicate 153 97 @ [94])) = Some (Some [p, q])"
    unfolding numeral_2_eq_2 deliver_loop.simps Let_def
    using first part skip_before_caret [of 1] assms by simp
qed

text \<open>
  The length of an address of the service center with an even number of digits comes out
  one too large, since \<open>adjust\<close> is still set when the loop ends.
\<close>

lemma sc_address_one_more:
  "ad_len (snd (snd (sms_get_sc_address [2, 0x81, 0x21] 0 \<lparr>ad_len = 0, ad_toa = 0, ad_data = replicate 10 0\<rparr>))) = 3"
  by code_simp

text \<open>The text of a unit to deliver is never returned: its rope is not initialised.\<close>

lemma deliver_text_undefined:
  "smspdu_get_text_message (\<lambda>k. Some (replicate (nat k) 0)) (replicate 16 0) \<lparr>ad_len = 0, ad_toa = 0, ad_data = replicate 10 0\<rparr>
     \<lparr>pd_base = [0, 0x20, 0, 0, 0, 1, 2, 3, 4, 5, 6, 7, 2, 0xe8, 0x34], pd_tpdu = 1\<rparr> 10 = None"
  by code_simp

text \<open>A length byte that promises more text than the unit has makes the decoder leave the unit.\<close>

lemma submit_text_overruns:
  "smspdu_get_text_message (\<lambda>k. Some (replicate (nat k) 0)) (replicate 16 0) \<lparr>ad_len = 0, ad_toa = 0, ad_data = replicate 10 0\<rparr>
     \<lparr>pd_base = [0, 1, 9, 3, 0x81, 0x21, 0xf3, 0, 0, 200, 0xe8, 0x34], pd_tpdu = 1\<rparr> 10 = None"
  by code_simp

text \<open>An element of length 0 in the header is never left.\<close>

lemma user_data_loop_stuck:
  assumes "data + 2 \<le> length m" "m ! (data + 1) = 0"
  shows "2 \<le> len \<Longrightarrow> user_data_loop m len data = None"
proof (induction "nat (2147483648 - len)" arbitrary: len rule: less_induct)
  case less
  show ?case
  proof (cases "len + 2 \<ge> 2147483648")
    case True
    then show ?thesis using less.prems assms by (subst user_data_loop.simps) (simp add: Let_def)
  next
    case False
    then have "user_data_loop m (len + 2) data = None" using less.prems by (intro less.hyps) simp_all
    with False show ?thesis using less.prems assms by (subst user_data_loop.simps) (simp add: Let_def add.commute)
  qed
qed

text \<open>
  The first of two parts to the number 123, with reference 7: since the address is not
  skipped, the two zero bytes for protocol and coding are taken for an element of length 0.
\<close>

lemma user_header_stuck:
  "smspdu_get_max_index \<lparr>pd_base = [0, 0x41, 9, 3, 0x81, 0x21, 0xf3, 0, 0, 9, 5, 0, 3, 7, 2, 1, 0xd0, 0x69], pd_tpdu = 1\<rparr> = None"
proof -
  let ?m = "[0, 0x41, 9, 3, 0x81, 0x21, 0xf3, 0, 0, 9, 5, 0, 3, 7, 2, 1, 0xd0, 0x69] :: byte list"
  have "user_data_loop ?m 0xf3 (Suc (Suc (Suc (Suc (Suc (Suc (Suc 0))))))) = None" by (rule user_data_loop_stuck) simp_all
  then show ?thesis
    by (simp add: smspdu_get_max_index_def smspdu_get_user_data_ref_def sms_get_byte_def sms_skip_address_def
        sms_skip_validity_period_def Let_def)
qed

end
