(* ===== verification/Sms_Receiver.thy ===== *)
theory Sms_Receiver
  imports Sms_Pdu
begin

unbundle bit_operations_syntax

text \<open>
  The receiver of submitted messages in \<^verbatim>\<open>hw/express-network/em_sms.c\<close>, which collects the
  parts of a message and creates the units to deliver. The list of fragments is a list,
  a pointer into it the position. Units that are freed are not used any more.
\<close>

section \<open>Operations\<close>

record sms_fragment =
  fr_from :: sms_address
  fr_ref :: byte
  fr_max :: byte
  fr_count :: byte
  fr_index :: int
  fr_pdus :: "sms_pdu option list"

record sms_receiver =
  rc_last :: int
  rc_fragments :: "sms_fragment list"

text \<open>The units of a fragment after it was freed.\<close>

definition sms_fragment_free :: "sms_fragment \<Rightarrow> sms_pdu list option" where
  "sms_fragment_free frag =
     (if unat (fr_max frag) \<le> length (fr_pdus frag)
      then Some (map smspdu_free (map the (filter (\<lambda>p. p \<noteq> None) (take (unat (fr_max frag)) (fr_pdus frag))))) else None)"

text \<open>\<open>ok\<close> says whether the allocation succeeds. The index is counted up without a bound.\<close>

definition sms_fragment_alloc :: "bool \<Rightarrow> sms_receiver \<Rightarrow> sms_address \<Rightarrow> int \<Rightarrow> int \<Rightarrow> (sms_fragment option \<times> sms_receiver) option" where
  "sms_fragment_alloc ok rec from ref mx =
     (if \<not> ok then Some (None, rec)
      else if rc_last rec + 1 \<ge> 2147483648 then None
      else Some (Some \<lparr>fr_from = from, fr_ref = of_int ref, fr_max = of_int mx, fr_count = 0, fr_index = rc_last rec + 1,
                       fr_pdus = replicate (nat mx) None\<rparr>,
                 rec\<lparr>rc_last := rc_last rec + 1\<rparr>))"

definition sms_receiver_create :: "bool \<Rightarrow> sms_receiver option" where
  "sms_receiver_create ok = (if ok then Some \<lparr>rc_last = 0, rc_fragments = []\<rparr> else None)"

fun receiver_destroy_loop :: "sms_fragment list \<Rightarrow> sms_pdu list option" where
  "receiver_destroy_loop [] = Some []"
| "receiver_destroy_loop (f # fs) =
     Option.bind (sms_fragment_free f) (\<lambda>ps. map_option (\<lambda>qs. ps @ qs) (receiver_destroy_loop fs))"

definition sms_receiver_destroy :: "sms_receiver \<Rightarrow> (sms_receiver \<times> sms_pdu list) option" where
  "sms_receiver_destroy rec = map_option (\<lambda>ps. (rec\<lparr>rc_fragments := []\<rparr>, ps)) (receiver_destroy_loop (rc_fragments rec))"

fun find_loop :: "sms_fragment list \<Rightarrow> sms_address \<Rightarrow> int \<Rightarrow> nat option" where
  "find_loop [] from ref = Some 0"
| "find_loop (f # fs) from ref =
     (if uint (fr_ref f) = ref then
        (case sms_address_eq (fr_from f) from of
           None \<Rightarrow> None
         | Some True \<Rightarrow> Some 0
         | Some False \<Rightarrow> map_option Suc (find_loop fs from ref))
      else map_option Suc (find_loop fs from ref))"

definition sms_receiver_find_p :: "sms_receiver \<Rightarrow> sms_address \<Rightarrow> int \<Rightarrow> nat option" where
  "sms_receiver_find_p rec from ref = find_loop (rc_fragments rec) from ref"

fun find_index_loop :: "sms_fragment list \<Rightarrow> int \<Rightarrow> nat" where
  "find_index_loop [] index = 0"
| "find_index_loop (f # fs) index = (if fr_index f = index then 0 else Suc (find_index_loop fs index))"

definition sms_receiver_find_index_p :: "sms_receiver \<Rightarrow> int \<Rightarrow> nat" where
  "sms_receiver_find_index_p rec index = find_index_loop (rc_fragments rec) index"

text \<open>
  A part is stored at its own index, which is compared with the number of parts that it
  claims itself; storing outside of the array of the fragment is \<open>None\<close>. \<open>from0\<close> is what the
  address on the stack holds before it is read.
\<close>

definition store_part :: "sms_pdu \<Rightarrow> nat \<Rightarrow> sms_fragment \<Rightarrow> sms_fragment option" where
  "store_part pdu cur frag =
     (if cur < length (fr_pdus frag)
      then Some (frag\<lparr>fr_pdus := (fr_pdus frag)[cur := Some pdu],
                      fr_count := (if fr_pdus frag ! cur \<noteq> None then fr_count frag - 1 else fr_count frag) + 1\<rparr>)
      else None)"

definition put_part :: "sms_pdu \<Rightarrow> int \<Rightarrow> nat \<Rightarrow> sms_receiver \<Rightarrow> (int \<times> sms_receiver) option" where
  "put_part submit_pdu mx pnode rec =
     (case smspdu_get_cur_index submit_pdu of
        None \<Rightarrow> None
      | Some cur \<Rightarrow>
          (if cur < 0 then Some (- 1, rec)
           else if cur \<ge> mx then Some (- 1, rec)
           else
             map_option
               (\<lambda>frag. (if fr_count frag \<ge> fr_max frag then fr_index frag else 0,
                        rec\<lparr>rc_fragments := (rc_fragments rec)[pnode := frag]\<rparr>))
               (store_part submit_pdu (nat cur) (rc_fragments rec ! pnode))))"

text \<open>The position of the fragment of a message, which is made if there is none; the inner \<open>None\<close> is a failed allocation.\<close>

definition find_or_alloc :: "bool \<Rightarrow> sms_receiver \<Rightarrow> sms_address \<Rightarrow> int \<Rightarrow> int \<Rightarrow> (nat \<times> sms_receiver) option option" where
  "find_or_alloc ok rec from ref mx =
     (case sms_receiver_find_p rec from ref of
        None \<Rightarrow> None
      | Some pnode \<Rightarrow>
          (if pnode < length (rc_fragments rec) then Some (Some (pnode, rec))
           else
             (case sms_fragment_alloc ok rec from ref mx of
                None \<Rightarrow> None
              | Some (None, rec') \<Rightarrow> Some None
              | Some (Some frag, rec') \<Rightarrow> Some (Some (pnode, rec'\<lparr>rc_fragments := rc_fragments rec' @ [frag]\<rparr>)))))"

definition sms_receiver_add_submit_pdu :: "bool \<Rightarrow> sms_address \<Rightarrow> sms_pdu \<Rightarrow> sms_receiver \<Rightarrow> (int \<times> sms_receiver) option" where
  "sms_receiver_add_submit_pdu ok from0 submit_pdu rec =
     (case smspdu_get_receiver_address submit_pdu from0 of
        (r, from) \<Rightarrow>
          (if r < 0 then Some (- 1, rec)
           else
             (case smspdu_get_ref submit_pdu of
                None \<Rightarrow> None
              | Some ref \<Rightarrow>
                  (if ref < 0 then Some (- 1, rec)
                   else
                     (case smspdu_get_max_index submit_pdu of
                        None \<Rightarrow> None
                      | Some mx \<Rightarrow>
                          (if mx < 0 then Some (- 1, rec)
                           else
                             (case find_or_alloc ok rec from ref mx of
                                None \<Rightarrow> None
                              | Some None \<Rightarrow> Some (- 1, rec)
                              | Some (Some (pnode, rec')) \<Rightarrow> put_part submit_pdu mx pnode rec')))))))"

text \<open>
  The text of the parts: \<open>dst\<close> is the buffer with the position in it, or \<open>None\<close> for a null
  pointer. The result is the sum of the lengths, negative ones included.
\<close>

fun get_text_loop :: "(sms_pdu \<Rightarrow> int \<Rightarrow> (int \<times> byte list) option) \<Rightarrow> sms_pdu option list \<Rightarrow> (byte list \<times> int) option \<Rightarrow> int \<Rightarrow> int
    \<Rightarrow> (int \<times> byte list option) option" where
  "get_text_loop get [] dst utf8len tot = Some (tot, map_option fst dst)"
| "get_text_loop get (None # pdus) dst utf8len tot = None"
| "get_text_loop get (Some p # pdus) dst utf8len tot =
     (case dst of
        Some (buf, off) \<Rightarrow>
          (if utf8len > 0 then
             (case get p utf8len of
                None \<Rightarrow> None
              | Some (partial, t) \<Rightarrow>
                  (case buf_write buf off t of
                     None \<Rightarrow> None
                   | Some buf' \<Rightarrow> get_text_loop get pdus (Some (buf', off + partial)) (utf8len - partial) (tot + partial)))
           else
             (case get p 0 of
                None \<Rightarrow> None
              | Some (partial, t) \<Rightarrow> get_text_loop get pdus dst utf8len (tot + partial)))
      | None \<Rightarrow>
          (case get p 0 of
             None \<Rightarrow> None
           | Some (partial, t) \<Rightarrow> get_text_loop get pdus None utf8len (tot + partial)))"

text \<open>\<open>get\<close> is \<open>smspdu_get_text_message\<close> with the memory it uses.\<close>

definition sms_receiver_get_text_message :: "(sms_pdu \<Rightarrow> int \<Rightarrow> (int \<times> byte list) option) \<Rightarrow> sms_receiver \<Rightarrow> int \<Rightarrow> byte list option \<Rightarrow> int
    \<Rightarrow> (int \<times> byte list option) option" where
  "sms_receiver_get_text_message get rec index utf8 utf8len =
     (let pnode = sms_receiver_find_index_p rec index in
      if \<not> pnode < length (rc_fragments rec) then Some (- 1, utf8)
      else
        (let frag = rc_fragments rec ! pnode in
         if fr_count frag \<noteq> fr_max frag then Some (- 1, utf8)
         else if unat (fr_count frag) > length (fr_pdus frag) then None
         else get_text_loop get (take (unat (fr_count frag)) (fr_pdus frag)) (map_option (\<lambda>b. (b, 0)) utf8) utf8len 0))"

definition sms_receiver_remove :: "sms_receiver \<Rightarrow> int \<Rightarrow> sms_receiver option" where
  "sms_receiver_remove rec index =
     (let pnode = sms_receiver_find_index_p rec index in
      if pnode < length (rc_fragments rec) then
        map_option (\<lambda>_. rec\<lparr>rc_fragments := take pnode (rc_fragments rec) @ drop (Suc pnode) (rc_fragments rec)\<rparr>)
          (sms_fragment_free (rc_fragments rec ! pnode))
      else Some rec)"

fun combine_loop :: "(sms_pdu \<Rightarrow> int \<Rightarrow> (int \<times> byte list) option) \<Rightarrow> sms_pdu option list \<Rightarrow> byte list \<Rightarrow> int \<Rightarrow> int \<Rightarrow> byte list option" where
  "combine_loop get [] utf8 utf8len tot = Some utf8"
| "combine_loop get (None # pdus) utf8 utf8len tot = None"
| "combine_loop get (Some p # pdus) utf8 utf8len tot =
     (case get p (utf8len - tot) of
        None \<Rightarrow> None
      | Some (n, t) \<Rightarrow>
          (case buf_write utf8 tot t of
             None \<Rightarrow> None
           | Some utf8' \<Rightarrow> combine_loop get pdus utf8' utf8len (tot + n)))"

text \<open>
  \<open>malloc\<close> is fresh memory or \<open>None\<close>, and \<open>deliver\<close> is \<open>smspdu_create_deliver_utf8\<close> with the
  time stamp of now. A message without text after a failure is removed as well.
\<close>

definition sms_receiver_create_deliver :: "(sms_pdu \<Rightarrow> int \<Rightarrow> (int \<times> byte list) option) \<Rightarrow> (int \<Rightarrow> byte list option)
    \<Rightarrow> (byte list \<Rightarrow> (sms_pdu list option \<times> byte) option) \<Rightarrow> byte \<Rightarrow> sms_receiver \<Rightarrow> int
    \<Rightarrow> (sms_pdu list option \<times> byte \<times> sms_receiver) option" where
  "sms_receiver_create_deliver get malloc deliver ref_num rec index =
     (let pnode = sms_receiver_find_index_p rec index in
      if \<not> pnode < length (rc_fragments rec) then Some (None, ref_num, rec)
      else
        (let frag = rc_fragments rec ! pnode in
         if fr_count frag \<noteq> fr_max frag then Some (None, ref_num, rec)
         else
           (case sms_receiver_get_text_message get rec index None 0 of
              None \<Rightarrow> None
            | Some (utf8len, _) \<Rightarrow>
                (let exit = (\<lambda>(result, ref_num'). map_option (\<lambda>rec'. (result, ref_num', rec')) (sms_receiver_remove rec index)) in
                 if utf8len < 0 then exit (None, ref_num)
                 else
                   (case malloc (utf8len + 1) of
                      None \<Rightarrow> exit (None, ref_num)
                    | Some utf8 \<Rightarrow>
                        (if unat (fr_count frag) > length (fr_pdus frag) then None
                         else
                           (case combine_loop get (take (unat (fr_count frag)) (fr_pdus frag)) utf8 utf8len 0 of
                              None \<Rightarrow> None
                            | Some utf8' \<Rightarrow> Option.bind (deliver (take (nat utf8len) utf8')) exit)))))))"

section \<open>Invariant\<close>

text \<open>
  The array of a fragment has the size it was made for and the count is the number of
  parts in it; indices are positive and distinct.
\<close>

definition parts_in :: "sms_fragment \<Rightarrow> nat" where
  "parts_in frag = length (filter (\<lambda>p. p \<noteq> None) (fr_pdus frag))"

definition frag_ok :: "sms_fragment \<Rightarrow> bool" where
  "frag_ok frag \<longleftrightarrow> length (fr_pdus frag) = unat (fr_max frag) \<and> unat (fr_count frag) = parts_in frag"

definition recv_ok :: "sms_receiver \<Rightarrow> bool" where
  "recv_ok rec \<longleftrightarrow> list_all frag_ok (rc_fragments rec) \<and> distinct (map fr_index (rc_fragments rec))
     \<and> list_all (\<lambda>f. 0 < fr_index f \<and> fr_index f \<le> rc_last rec) (rc_fragments rec) \<and> 0 \<le> rc_last rec"

lemma recv_ok_create: "sms_receiver_create ok = Some rec \<Longrightarrow> recv_ok rec"
  by (auto simp: sms_receiver_create_def recv_ok_def split: if_splits)

lemma parts_filter_update:
  assumes "i < length xs"
  shows "length (filter P (xs[i := x])) + (if P (xs ! i) then 1 else 0) = length (filter P xs) + (if P x then 1 else 0)"
  using assms
proof (induction xs arbitrary: i)
  case (Cons y ys)
  show ?case
  proof (cases i)
    case (Suc k)
    with Cons.IH [of k] Cons.prems show ?thesis by simp
  qed simp
qed simp

lemma store_part_ok:
  assumes "frag_ok frag" "store_part pdu cur frag = Some frag'"
  shows "frag_ok frag'" "fr_index frag' = fr_index frag" "fr_max frag' = fr_max frag" "fr_from frag' = fr_from frag" "fr_ref frag' = fr_ref frag"
    "fr_pdus frag' = (fr_pdus frag)[cur := Some pdu]" "cur < length (fr_pdus frag)"
proof -
  from assms(2) have cur: "cur < length (fr_pdus frag)" and frag': "frag' = frag\<lparr>fr_pdus := (fr_pdus frag)[cur := Some pdu],
      fr_count := (if fr_pdus frag ! cur \<noteq> None then fr_count frag - 1 else fr_count frag) + 1\<rparr>"
    by (auto simp: store_part_def split: if_splits)
  then show "fr_index frag' = fr_index frag" "fr_max frag' = fr_max frag" "fr_from frag' = fr_from frag" "fr_ref frag' = fr_ref frag"
    "fr_pdus frag' = (fr_pdus frag)[cur := Some pdu]" "cur < length (fr_pdus frag)" by simp_all
  have n: "parts_in frag' + (if fr_pdus frag ! cur \<noteq> None then 1 else 0) = parts_in frag + 1"
    using parts_filter_update [OF cur, of "\<lambda>p. p \<noteq> None" "Some pdu"] by (simp add: parts_in_def frag')
  have "parts_in frag' \<le> unat (fr_max frag)"
    using assms(1) by (simp add: parts_in_def frag' frag_ok_def) (metis length_filter_le length_list_update)
  then have "parts_in frag' < 256" using unsigned_less [of "fr_max frag", where 'a = nat] by simp
  then have "unat (fr_count frag') = parts_in frag'"
  proof (cases "fr_pdus frag ! cur = None")
    case True
    with n assms(1) \<open>parts_in frag' < 256\<close> show ?thesis
      by (auto simp: frag' frag_ok_def unat_plus_if_size word_size)
  next
    case False
    with n have "parts_in frag' = parts_in frag" by simp
    with False assms(1) show ?thesis by (simp add: frag' frag_ok_def parts_in_def)
  qed
  with assms(1) show "frag_ok frag'" by (simp add: frag_ok_def frag')
qed

lemma recv_ok_update:
  assumes "recv_ok rec" "i < length (rc_fragments rec)" "frag_ok f" "fr_index f = fr_index (rc_fragments rec ! i)"
  shows "recv_ok (rec\<lparr>rc_fragments := (rc_fragments rec)[i := f]\<rparr>)"
proof -
  have "map fr_index ((rc_fragments rec)[i := f]) = map fr_index (rc_fragments rec)"
    using assms(2,4) by (simp add: map_update) (metis list_update_id nth_map)
  with assms show ?thesis by (auto simp: recv_ok_def list_all_length nth_list_update)
qed

lemma recv_ok_alloc:
  assumes "recv_ok rec" "sms_fragment_alloc ok rec from ref mx = Some (Some frag, rec')" "0 \<le> mx" "mx < 256"
  shows "recv_ok (rec'\<lparr>rc_fragments := rc_fragments rec' @ [frag]\<rparr>)" "frag_ok frag" "rc_fragments rec' = rc_fragments rec"
proof -
  have "unat (word_of_int mx :: byte) = nat mx" using assms(3,4)
    by (simp add: unat_eq_nat_uint uint_word_of_int take_bit_int_eq_self)
  moreover have "\<forall>f\<in>set (rc_fragments rec). fr_index f \<noteq> rc_last rec + 1 \<and> fr_index f \<le> rc_last rec + 1"
    using assms(1) by (force simp: recv_ok_def list_all_iff)
  ultimately show "recv_ok (rec'\<lparr>rc_fragments := rc_fragments rec' @ [frag]\<rparr>)" "frag_ok frag" "rc_fragments rec' = rc_fragments rec"
    using assms by (auto simp: sms_fragment_alloc_def recv_ok_def frag_ok_def parts_in_def list_all_iff split: if_splits)
qed

lemma get_max_index_bound: "smspdu_get_max_index p = Some mx \<Longrightarrow> 0 \<le> mx \<and> mx < 256"
  using uint_lt2p [where 'a = 8] by (force simp: smspdu_get_max_index_def split: option.splits)

lemma find_loop_le: "find_loop fs from ref = Some i \<Longrightarrow> i \<le> length fs"
  by (induction fs arbitrary: i) (auto split: if_splits option.splits bool.splits)

lemma recv_ok_find_or_alloc:
  assumes "recv_ok rec" "find_or_alloc ok rec from ref mx = Some (Some (pnode, rec'))" "0 \<le> mx" "mx < 256"
  shows "recv_ok rec'" "pnode < length (rc_fragments rec')"
proof -
  from assms(2) obtain p where p: "sms_receiver_find_p rec from ref = Some p"
    by (auto simp: find_or_alloc_def split: option.splits)
  have "recv_ok rec' \<and> pnode < length (rc_fragments rec')"
  proof (cases "p < length (rc_fragments rec)")
    case True
    with p assms(1,2) show ?thesis by (simp add: find_or_alloc_def)
  next
    case False
    with p find_loop_le have le: "p = length (rc_fragments rec)" by (fastforce simp: sms_receiver_find_p_def)
    from p False assms(2) obtain frag rec1 where a: "sms_fragment_alloc ok rec from ref mx = Some (Some frag, rec1)"
        "rec' = rec1\<lparr>rc_fragments := rc_fragments rec1 @ [frag]\<rparr>" "pnode = p"
      by (auto simp: find_or_alloc_def split: option.splits)
    from recv_ok_alloc [OF assms(1) a(1) assms(3,4)] a(2,3) le show ?thesis by simp
  qed
  then show "recv_ok rec'" "pnode < length (rc_fragments rec')" by blast+
qed

lemma recv_ok_put_part:
  assumes "recv_ok rec" "pnode < length (rc_fragments rec)" "put_part pdu mx pnode rec = Some (r, rec')"
  shows "recv_ok rec'"
proof -
  have "frag_ok (rc_fragments rec ! pnode)" using assms(1,2) by (simp add: recv_ok_def list_all_length)
  with assms store_part_ok [OF this] recv_ok_update [OF assms(1,2)] show ?thesis
    by (auto simp: put_part_def split: option.splits if_splits)
qed

lemma recv_ok_add:
  assumes "recv_ok rec" "sms_receiver_add_submit_pdu ok from0 pdu rec = Some (r, rec')"
  shows "recv_ok rec'"
proof -
  from assms(2) consider "rec' = rec"
    | "from" ref mx pnode rec1 where "smspdu_get_max_index pdu = Some mx" "find_or_alloc ok rec from ref mx = Some (Some (pnode, rec1))"
        "put_part pdu mx pnode rec1 = Some (r, rec')"
    by (auto simp: sms_receiver_add_submit_pdu_def split: prod.splits option.splits if_splits)
  then show ?thesis
  proof cases
    case (2 "from" ref mx pnode rec1)
    with get_max_index_bound [OF 2(1)] recv_ok_find_or_alloc [OF assms(1) 2(2)] show ?thesis
      by (auto intro: recv_ok_put_part)
  qed (use assms in simp)
qed

lemma recv_ok_remove:
  assumes "recv_ok rec" "sms_receiver_remove rec index = Some rec'"
  shows "recv_ok rec'"
proof (cases "sms_receiver_find_index_p rec index < length (rc_fragments rec)")
  case True
  let ?p = "sms_receiver_find_index_p rec index"
  have eq: "rc_fragments rec = take ?p (rc_fragments rec) @ rc_fragments rec ! ?p # drop (Suc ?p) (rc_fragments rec)"
    using True by (rule id_take_nth_drop)
  obtain xs f ys where f: "rc_fragments rec = xs @ f # ys" "rec' = rec\<lparr>rc_fragments := xs @ ys\<rparr>"
    using True assms(2) eq by (auto simp: sms_receiver_remove_def Let_def)
  from assms(1) show ?thesis unfolding f(2) by (auto simp: recv_ok_def f(1))
next
  case False
  with assms show ?thesis by (simp add: sms_receiver_remove_def Let_def)
qed

lemma recv_ok_create_deliver:
  assumes "recv_ok rec" "sms_receiver_create_deliver get malloc deliver ref_num rec index = Some (res, ref', rec')"
  shows "recv_ok rec'"
proof -
  from assms(2) have "rec' = rec \<or> sms_receiver_remove rec index = Some rec'"
    by (auto simp: sms_receiver_create_deliver_def Let_def bind_eq_Some_conv split: if_splits option.splits prod.splits)
  with assms(1) recv_ok_remove show ?thesis by blast
qed

text \<open>Histories of a receiver: parts are added and messages are delivered.\<close>

datatype recv_op = Add_part bool sms_address sms_pdu | Deliver int

fun recv_step :: "(sms_pdu \<Rightarrow> int \<Rightarrow> (int \<times> byte list) option) \<Rightarrow> (int \<Rightarrow> byte list option)
    \<Rightarrow> (byte \<Rightarrow> byte list \<Rightarrow> (sms_pdu list option \<times> byte) option) \<Rightarrow> recv_op \<Rightarrow> byte \<times> sms_receiver \<Rightarrow> (byte \<times> sms_receiver) option" where
  "recv_step get malloc deliver (Add_part ok from0 pdu) (ref_num, rec) =
     map_option (\<lambda>(r, rec'). (ref_num, rec')) (sms_receiver_add_submit_pdu ok from0 pdu rec)"
| "recv_step get malloc deliver (Deliver index) (ref_num, rec) =
     map_option (\<lambda>(pdus, ref', rec'). (ref', rec')) (sms_receiver_create_deliver get malloc (deliver ref_num) ref_num rec index)"

fun recv_run :: "(sms_pdu \<Rightarrow> int \<Rightarrow> (int \<times> byte list) option) \<Rightarrow> (int \<Rightarrow> byte list option)
    \<Rightarrow> (byte \<Rightarrow> byte list \<Rightarrow> (sms_pdu list option \<times> byte) option) \<Rightarrow> recv_op list \<Rightarrow> byte \<times> sms_receiver \<Rightarrow> (byte \<times> sms_receiver) option" where
  "recv_run get malloc deliver [] st = Some st"
| "recv_run get malloc deliver (op # ops) st = Option.bind (recv_step get malloc deliver op st) (recv_run get malloc deliver ops)"

lemma recv_step_ok: "recv_step get malloc deliver op st = Some st' \<Longrightarrow> recv_ok (snd st) \<Longrightarrow> recv_ok (snd st')"
  by (cases op; cases st) (auto intro: recv_ok_add recv_ok_create_deliver)

lemma recv_run_ok: "recv_run get malloc deliver ops st = Some st' \<Longrightarrow> recv_ok (snd st) \<Longrightarrow> recv_ok (snd st')"
  by (induction ops arbitrary: st) (auto simp: bind_eq_Some_conv dest: recv_step_ok)

section \<open>Reassembly\<close>

text \<open>A unit that is part \<open>i\<close> of \<open>n\<close> of the message with reference \<open>ref\<close> to an address.\<close>

definition is_part :: "sms_address \<Rightarrow> sms_address \<Rightarrow> int \<Rightarrow> nat \<Rightarrow> nat \<Rightarrow> sms_pdu \<Rightarrow> bool" where
  "is_part from0 from ref n i p \<longleftrightarrow> smspdu_get_receiver_address p from0 = (0, from) \<and> smspdu_get_ref p = Some ref
     \<and> smspdu_get_max_index p = Some (int n) \<and> smspdu_get_cur_index p = Some (int i)"

text \<open>No fragment of the list belongs to that message.\<close>

definition no_fragment :: "sms_address \<Rightarrow> int \<Rightarrow> sms_fragment list \<Rightarrow> bool" where
  "no_fragment from ref fs \<longleftrightarrow> list_all (\<lambda>f. uint (fr_ref f) \<noteq> ref \<or> sms_address_eq (fr_from f) from = Some False) fs"

lemma find_loop_none: "no_fragment from ref fs \<Longrightarrow> find_loop (fs @ gs) from ref = map_option (\<lambda>i. length fs + i) (find_loop gs from ref)"
  by (cases "find_loop gs from ref"; induction fs) (auto simp: no_fragment_def)

text \<open>The fragment with the parts of the indices that have arrived.\<close>

definition partial_fragment :: "sms_address \<Rightarrow> int \<Rightarrow> int \<Rightarrow> sms_pdu list \<Rightarrow> nat list \<Rightarrow> sms_fragment" where
  "partial_fragment from ref index ps arrived =
     \<lparr>fr_from = from, fr_ref = of_int ref, fr_max = of_nat (length ps), fr_count = of_nat (length arrived), fr_index = index,
      fr_pdus = map (\<lambda>i. if i \<in> set arrived then Some (ps ! i) else None) [0..<length ps]\<rparr>"

lemma store_partial:
  assumes "i < length ps" "i \<notin> set arrived"
  shows "store_part (ps ! i) i (partial_fragment from ref index ps arrived) = Some (partial_fragment from ref index ps (i # arrived))"
proof -
  have "(map (\<lambda>j. if j \<in> set arrived then Some (ps ! j) else None) [0..<length ps])[i := Some (ps ! i)] =
      map (\<lambda>j. if j \<in> set (i # arrived) then Some (ps ! j) else None) [0..<length ps]"
    by (rule nth_equalityI) (use assms(1) in \<open>auto simp: nth_list_update\<close>)
  with assms show ?thesis by (simp add: store_part_def partial_fragment_def add.commute)
qed

lemma get_ref_bound: "smspdu_get_ref p = Some ref \<Longrightarrow> ref < 256"
  using uint_lt2p [where 'a = 8] by (force simp: smspdu_get_ref_def split: option.splits prod.splits if_splits)

lemma find_partial:
  assumes "no_fragment from ref fs" "sms_address_eq from from = Some True" "0 \<le> ref" "ref < 256"
  shows "find_or_alloc ok \<lparr>rc_last = l, rc_fragments = fs @ [partial_fragment from ref index ps arrived]\<rparr> from ref mx =
    Some (Some (length fs, \<lparr>rc_last = l, rc_fragments = fs @ [partial_fragment from ref index ps arrived]\<rparr>))"
proof -
  have "uint (word_of_int ref :: byte) = ref" using assms(3,4) by (simp add: uint_word_of_int take_bit_int_eq_self)
  then have "find_loop [partial_fragment from ref index ps arrived] from ref = Some 0"
    using assms(2) by (simp add: partial_fragment_def)
  then show ?thesis by (simp add: find_or_alloc_def sms_receiver_find_p_def find_loop_none [OF assms(1)])
qed

lemma alloc_partial:
  assumes "no_fragment from ref fs" "l + 1 < 2147483648"
  shows "find_or_alloc True \<lparr>rc_last = l, rc_fragments = fs\<rparr> from ref (int (length ps)) =
    Some (Some (length fs, \<lparr>rc_last = l + 1, rc_fragments = fs @ [partial_fragment from ref (l + 1) ps []]\<rparr>))"
proof -
  have "find_loop fs from ref = Some (length fs)" using find_loop_none [OF assms(1), of "[]"] by simp
  then show ?thesis using assms(2)
    by (simp add: find_or_alloc_def sms_receiver_find_p_def sms_fragment_alloc_def partial_fragment_def map_replicate_const)
qed

lemma put_partial:
  assumes "is_part from0 from ref (length ps) i (ps ! i)" "i < length ps" "i \<notin> set arrived" "length arrived < length ps" "length ps < 256"
  shows "put_part (ps ! i) (int (length ps)) (length fs) \<lparr>rc_last = l, rc_fragments = fs @ [partial_fragment from ref index ps arrived]\<rparr> =
    Some (if Suc (length arrived) = length ps then index else 0,
          \<lparr>rc_last = l, rc_fragments = fs @ [partial_fragment from ref index ps (i # arrived)]\<rparr>)"
proof -
  have "(of_nat (length ps) :: byte) \<le> of_nat (Suc (length arrived)) \<longleftrightarrow> Suc (length arrived) = length ps"
    using assms(4,5) by (auto simp: word_le_nat_alt unsigned_of_nat take_bit_nat_eq_self simp del: of_nat_Suc)
  moreover have "smspdu_get_cur_index (ps ! i) = Some (int i)" using assms(1) by (simp add: is_part_def)
  ultimately show ?thesis using assms(2) store_partial [OF assms(2,3), of "from" ref index]
    by (simp add: put_part_def) (simp add: partial_fragment_def)
qed

lemma add_part_eq:
  assumes "is_part from0 from ref n i p" "0 \<le> ref"
  shows "sms_receiver_add_submit_pdu ok from0 p rec =
    (case find_or_alloc ok rec from ref (int n) of
       None \<Rightarrow> None | Some None \<Rightarrow> Some (- 1, rec) | Some (Some (pnode, rec')) \<Rightarrow> put_part p (int n) pnode rec')"
  using assms by (simp add: sms_receiver_add_submit_pdu_def is_part_def)

fun add_parts :: "sms_address \<Rightarrow> sms_pdu list \<Rightarrow> sms_receiver \<Rightarrow> (int list \<times> sms_receiver) option" where
  "add_parts from0 [] rec = Some ([], rec)"
| "add_parts from0 (p # ps) rec =
     Option.bind (sms_receiver_add_submit_pdu True from0 p rec)
       (\<lambda>(r, rec'). map_option (\<lambda>(rs, rec''). (r # rs, rec'')) (add_parts from0 ps rec'))"

lemma add_parts_rest:
  assumes "\<And>i. i < length ps \<Longrightarrow> is_part from0 from ref (length ps) i (ps ! i)" "length ps < 256"
    and "no_fragment from ref fs" "sms_address_eq from from = Some True" "0 \<le> ref" "ref < 256"
  shows "distinct (is @ arrived) \<Longrightarrow> set (is @ arrived) = {..<length ps} \<Longrightarrow> is \<noteq> [] \<Longrightarrow>
    add_parts from0 (map ((!) ps) is) \<lparr>rc_last = l, rc_fragments = fs @ [partial_fragment from ref index ps arrived]\<rparr> =
      Some (replicate (length is - 1) 0 @ [index],
            \<lparr>rc_last = l, rc_fragments = fs @ [partial_fragment from ref index ps (rev is @ arrived)]\<rparr>)"
proof (induction "is" arbitrary: arrived)
  case (Cons i "is")
  have n: "length (i # is) + length arrived = length ps"
    using distinct_card [OF Cons.prems(1)] Cons.prems(2) by simp
  have i: "i < length ps" "i \<notin> set arrived" using Cons.prems(1,2) by auto
  have step: "sms_receiver_add_submit_pdu True from0 (ps ! i) \<lparr>rc_last = l, rc_fragments = fs @ [partial_fragment from ref index ps arrived]\<rparr> =
      Some (if Suc (length arrived) = length ps then index else 0,
            \<lparr>rc_last = l, rc_fragments = fs @ [partial_fragment from ref index ps (i # arrived)]\<rparr>)"
    using add_part_eq [OF assms(1) [OF i(1)] assms(5)] find_partial [OF assms(3-6)] put_partial [OF assms(1) [OF i(1)] i _ assms(2)] n
    by simp
  show ?case
  proof (cases "is = []")
    case True
    with step n show ?thesis by simp
  next
    case False
    have "add_parts from0 (map ((!) ps) is) \<lparr>rc_last = l, rc_fragments = fs @ [partial_fragment from ref index ps (i # arrived)]\<rparr> =
      Some (replicate (length is - 1) 0 @ [index],
            \<lparr>rc_last = l, rc_fragments = fs @ [partial_fragment from ref index ps (rev is @ i # arrived)]\<rparr>)"
      using Cons.prems False by (intro Cons.IH) auto
    with step n False show ?thesis by (cases "is") simp_all
  qed
qed simp

lemma partial_complete:
  assumes "distinct is" "set is = {..<length ps}"
  shows "partial_fragment from ref index ps (rev is) =
    \<lparr>fr_from = from, fr_ref = of_int ref, fr_max = of_nat (length ps), fr_count = of_nat (length ps), fr_index = index, fr_pdus = map Some ps\<rparr>"
proof -
  have "length is = length ps" using distinct_card [OF assms(1)] assms(2) by simp
  moreover have "map (\<lambda>i. if i \<in> set is then Some (ps ! i) else None) [0..<length ps] = map Some ps"
    using assms(2) by (intro nth_equalityI) simp_all
  ultimately show ?thesis by (simp add: partial_fragment_def)
qed

text \<open>The text a unit yields: its length and as much of it as there is room for.\<close>

definition yields :: "(sms_pdu \<Rightarrow> int \<Rightarrow> (int \<times> byte list) option) \<Rightarrow> sms_pdu \<Rightarrow> byte list \<Rightarrow> bool" where
  "yields get p t \<longleftrightarrow> (\<forall>k. get p k = Some (int (length t), take (nat k) t))"

lemma get_text_concat:
  assumes "list_all2 (yields get) ps ts" "length (concat ts) \<le> length rest"
  shows "get_text_loop get (map Some ps) (Some (pre @ rest, int (length pre))) (int (length rest)) tot =
    Some (tot + int (length (concat ts)), Some (pre @ concat ts @ drop (length (concat ts)) rest))"
  using assms
proof (induction ps ts arbitrary: pre rest tot rule: list_all2_induct)
  case (Cons p ps t ts)
  have t: "get p k = Some (int (length t), take (nat k) t)" for k using Cons.hyps(1) by (simp add: yields_def)
  show ?case
  proof (cases "rest = []")
    case True
    with Cons.prems have e: "t = []" "concat ts = []" by simp_all
    with Cons.IH [of "[]" pre tot] True t show ?thesis by simp
  next
    case False
    have "take (length rest) t = t" using Cons.prems by simp
    moreover have "buf_write (pre @ rest) (int (length pre)) t = Some ((pre @ t) @ drop (length t) rest)"
      using Cons.prems by (simp add: buf_write_def)
    moreover have "int (length rest) - int (length t) = int (length (drop (length t) rest))" using Cons.prems by simp
    ultimately have "get_text_loop get (map Some (p # ps)) (Some (pre @ rest, int (length pre))) (int (length rest)) tot =
        get_text_loop get (map Some ps) (Some ((pre @ t) @ drop (length t) rest, int (length (pre @ t))))
          (int (length (drop (length t) rest))) (tot + int (length t))"
      using False t by (simp del: length_drop)
    also have "\<dots> = Some (tot + int (length t) + int (length (concat ts)),
        Some ((pre @ t) @ concat ts @ drop (length (concat ts)) (drop (length t) rest)))"
      using Cons.prems by (intro Cons.IH) simp
    finally show ?thesis by (simp add: add.commute [of "length t"])
  qed
qed simp

section \<open>Properties\<close>

text \<open>
  C30. Whatever parts arrive and whatever messages are delivered, in any order, the
  receiver keeps its invariant: every fragment has an array of its announced size, counts
  exactly the parts in it, and has an index of its own.
\<close>

theorem receiver_history_ok:
  assumes "sms_receiver_create ok = Some rec" "recv_run get malloc deliver ops (ref_num, rec) = Some (ref', rec')"
  shows "recv_ok rec'"
  using recv_run_ok [OF assms(2)] recv_ok_create [OF assms(1)] by simp

text \<open>
  Reassembly relative to the access functions: when the functions of the unit read from
  every part its number, the number of parts, the reference and the address, and a text,
  then the message is complete when the last part arrives, in whatever order they do, and
  the texts are returned in the order of the numbers. The access functions skip the
  address wrongly, so a unit in the format of the protocol need not be read like this.
\<close>

lemma parts_reassembled:
  assumes parts: "\<And>i. i < length ps \<Longrightarrow> is_part from0 from ref (length ps) i (ps ! i)" "ps \<noteq> []" "length ps < 256"
    and rec: "recv_ok \<lparr>rc_last = l, rc_fragments = fs\<rparr>" "no_fragment from ref fs" "l + 1 < 2147483648"
    and "sms_address_eq from from = Some True" "0 \<le> ref"
    and order: "distinct is" "set is = {..<length ps}"
    and body: "list_all2 (yields get) ps ts" "length (concat ts) \<le> length buf"
  shows "\<exists>rec'. add_parts from0 (map ((!) ps) is) \<lparr>rc_last = l, rc_fragments = fs\<rparr> = Some (replicate (length ps - 1) 0 @ [l + 1], rec')
    \<and> sms_receiver_get_text_message get rec' (l + 1) (Some buf) (int (length buf)) =
        Some (int (length (concat ts)), Some (concat ts @ drop (length (concat ts)) buf))"
proof -
  have len: "length is = length ps" using distinct_card [OF order(1)] order(2) by simp
  have ref: "ref < 256" using parts(1) [of 0] parts(2) get_ref_bound by (auto simp: is_part_def)
  obtain i js where ij: "is = i # js" using len parts(2) by (cases "is") auto
  then have i: "i < length ps" using order(2) by auto
  let ?rec = "\<lambda>arrived. \<lparr>rc_last = l + 1, rc_fragments = fs @ [partial_fragment from ref (l + 1) ps arrived]\<rparr>"
  have first: "sms_receiver_add_submit_pdu True from0 (ps ! i) \<lparr>rc_last = l, rc_fragments = fs\<rparr> =
      Some (if 1 = length ps then l + 1 else 0, ?rec [i])"
    using add_part_eq [OF parts(1) [OF i] assms(8)] alloc_partial [OF rec(2,3)]
      put_partial [OF parts(1) [OF i] i _ _ parts(3), where arrived = "[]"] parts(2) by simp
  have "add_parts from0 (map ((!) ps) is) \<lparr>rc_last = l, rc_fragments = fs\<rparr> = Some (replicate (length ps - 1) 0 @ [l + 1], ?rec (rev is))"
  proof (cases "js = []")
    case True
    with first ij len show ?thesis by simp
  next
    case False
    have "add_parts from0 (map ((!) ps) js) (?rec [i]) = Some (replicate (length js - 1) 0 @ [l + 1], ?rec (rev js @ [i]))"
      by (rule add_parts_rest [OF parts(1,3) rec(2) assms(7,8) ref]) (use order ij False in auto)
    moreover obtain k where k: "length js = Suc k" using False by (cases js) simp_all
    moreover have "length ps = Suc (Suc k)" using len ij k by simp
    ultimately show ?thesis using first ij by simp
  qed
  moreover have "sms_receiver_get_text_message get (?rec (rev is)) (l + 1) (Some buf) (int (length buf)) =
        Some (int (length (concat ts)), Some (concat ts @ drop (length (concat ts)) buf))"
  proof -
    have "list_all (\<lambda>f. fr_index f \<noteq> l + 1) fs" using rec(1) by (force simp: recv_ok_def list_all_iff)
    then have "find_index_loop (fs @ [partial_fragment from ref (l + 1) ps (rev is)]) (l + 1) = length fs"
      by (induction fs) (simp_all add: partial_fragment_def)
    moreover have "unat (of_nat (length ps) :: byte) = length ps" using parts(3) by (simp add: unsigned_of_nat take_bit_nat_eq_self)
    ultimately show ?thesis using get_text_concat [OF body, of "[]" 0]
      by (simp add: sms_receiver_get_text_message_def sms_receiver_find_index_p_def Let_def partial_complete [OF order])
  qed
  ultimately show ?thesis by blast
qed

text \<open>Two parts, of one character each, of a message to the number 123.\<close>

definition demo_part :: "byte \<Rightarrow> byte \<Rightarrow> sms_pdu" where
  "demo_part i c = \<lparr>pd_base = [0, 0x41, 7, 3, 0x81, 0x21, 0xf3, 0, 3, 7, 2, i, 0, c], pd_tpdu = 1\<rparr>"

abbreviation demo_address :: sms_address where
  "demo_address \<equiv> \<lparr>ad_len = 0, ad_toa = 0, ad_data = replicate 10 0\<rparr>"

abbreviation demo_from :: sms_address where
  "demo_from \<equiv> \<lparr>ad_len = 3, ad_toa = 0x81, ad_data = [0x21, 0xf3, 0, 0, 0, 0, 0, 0, 0, 0]\<rparr>"

abbreviation demo_get :: "sms_pdu \<Rightarrow> int \<Rightarrow> (int \<times> byte list) option" where
  "demo_get \<equiv> smspdu_get_text_message (\<lambda>k. Some (replicate (nat k) 0)) (replicate 16 0) demo_address"

lemma demo_is_part:
  "is_part demo_address demo_from 7 2 0 (demo_part 1 104)" "is_part demo_address demo_from 7 2 1 (demo_part 2 105)"
proof -
  have u: "smspdu_get_user_data_ref (demo_part i c) = Some (Some 9)" for i c
  proof -
    have "user_data_loop [0, 0x41, 7, 3, 0x81, 0x21, 0xf3, 0, 3, 7, 2, i, 0, c] 0xf3 (Suc (Suc (Suc (Suc (Suc (Suc (Suc 0))))))) = Some (Some 9)"
      by (subst user_data_loop.simps) (simp add: Let_def)
    then show ?thesis
      by (simp add: demo_part_def smspdu_get_user_data_ref_def sms_get_byte_def sms_skip_address_def
          sms_skip_validity_period_def Let_def)
  qed
  have b: "pd_base (demo_part i c) = [0, 0x41, 7, 3, 0x81, 0x21, 0xf3, 0, 3, 7, 2, i, 0, c]" for i c
    by (simp add: demo_part_def)
  have "smspdu_get_receiver_address (demo_part 1 104) demo_address = (0, demo_from)"
    "smspdu_get_receiver_address (demo_part 2 105) demo_address = (0, demo_from)" by code_simp+
  then show "is_part demo_address demo_from 7 2 0 (demo_part 1 104)" "is_part demo_address demo_from 7 2 1 (demo_part 2 105)"
    by (simp_all add: is_part_def u smspdu_get_ref_def smspdu_get_max_index_def smspdu_get_cur_index_def b)
qed

lemma demo_yields: "yields demo_get (demo_part 1 104) [104]" "yields demo_get (demo_part 2 105) [105]"
proof -
  have s: "sms_get_byte (pd_base (demo_part i c)) (pd_tpdu (demo_part i c)) = (0x41, 2)" for i c
    by (simp add: demo_part_def sms_get_byte_def)
  have a: "\<exists>x. sms_get_address (pd_base (demo_part i c)) 3 demo_address = (0, 7, x)" for i c
    by (simp add: demo_part_def sms_get_address_def Let_def)
  have d: "sms_get_coding_scheme (pd_base (demo_part i c)) 8 = (SMS_CODING_SCHEME_GSM7, 9)" for i c
    by (simp add: demo_part_def sms_get_coding_scheme_def Let_def)
  have t: "sms_get_text_utf8 (\<lambda>k. Some (replicate (nat k) 0)) (pd_base (demo_part 1 104)) 9 True SMS_CODING_SCHEME_GSM7
      (Some (gsm_rope_init_alloc (replicate 16 0) True 0)) =
      Some (0, 14, Some \<lparr>rp_data = Rope_data0 (104 # replicate 15 0), rp_max = 16, rp_pos = 1, rp_error = 0\<rparr>)"
    "sms_get_text_utf8 (\<lambda>k. Some (replicate (nat k) 0)) (pd_base (demo_part 2 105)) 9 True SMS_CODING_SCHEME_GSM7
      (Some (gsm_rope_init_alloc (replicate 16 0) True 0)) =
      Some (0, 14, Some \<lparr>rp_data = Rope_data0 (105 # replicate 15 0), rp_max = 16, rp_pos = 1, rp_error = 0\<rparr>)"
    by code_simp+
  have one: "k \<le> 1 \<Longrightarrow> 0 < k \<Longrightarrow> nat k = 1" for k by simp
  show "yields demo_get (demo_part 1 104) [104]" "yields demo_get (demo_part 2 105) [105]"
    using a [of 1 104] a [of 2 105]
    by (auto simp: yields_def smspdu_get_text_message_def Let_def s d t buf_read_def min_def one)
qed

lemma demo_reassembled:
  "\<exists>rec'. add_parts demo_address [demo_part 2 105, demo_part 1 104] \<lparr>rc_last = 4, rc_fragments = []\<rparr> = Some ([0, 5], rec')
    \<and> sms_receiver_get_text_message demo_get rec' 5 (Some [0, 0, 0]) 3 = Some (2, Some [104, 105, 0])"
proof -
  let ?ps = "[demo_part 1 104, demo_part 2 105]"
  have p: "is_part demo_address demo_from 7 (length ?ps) i (?ps ! i)" if "i < length ?ps" for i
    using that demo_is_part by (cases i) (auto simp: eval_nat_numeral)
  have e: "sms_address_eq demo_from demo_from = Some True" by code_simp
  have "\<exists>rec'. add_parts demo_address (map ((!) ?ps) [1, 0]) \<lparr>rc_last = 4, rc_fragments = []\<rparr> = Some (replicate (length ?ps - 1) 0 @ [4 + 1], rec')
    \<and> sms_receiver_get_text_message demo_get rec' (4 + 1) (Some [0, 0, 0]) (int (length [0, 0, 0 :: byte])) =
        Some (int (length (concat [[104], [105 :: byte]])), Some (concat [[104], [105]] @ drop (length (concat [[104], [105 :: byte]])) [0, 0, 0]))"
    by (rule parts_reassembled [OF p _ _ _ _ _ e]) (use demo_yields in \<open>auto simp: recv_ok_def no_fragment_def lessThan_nat_numeral\<close>)
  then show ?thesis by simp
qed

theorem receiver_history_ok_witness:
  "\<exists>st. recv_run demo_get (\<lambda>k. Some (replicate (nat k) 0)) (\<lambda>r t. Some (Some [], r + 1))
      [Add_part True demo_address (demo_part 2 105), Deliver 1] (0, \<lparr>rc_last = 0, rc_fragments = []\<rparr>) = Some st
    \<and> recv_ok (snd st)"
proof -
  let ?ps = "[demo_part 1 104, demo_part 2 105]" and ?rec = "\<lparr>rc_last = 0, rc_fragments = []\<rparr> :: sms_receiver"
  have p: "is_part demo_address demo_from 7 (length ?ps) 1 (?ps ! 1)" using demo_is_part by (simp add: eval_nat_numeral)
  have "sms_receiver_add_submit_pdu True demo_address (?ps ! 1) ?rec =
      Some (0, \<lparr>rc_last = 1, rc_fragments = [partial_fragment demo_from 7 1 ?ps [1]]\<rparr>)"
    using add_part_eq [OF p, of True ?rec] alloc_partial [of demo_from 7 "[]" 0 ?ps] put_partial [OF p, of "[]" "[]" 1 1]
    by (simp add: no_fragment_def)
  then have "recv_run demo_get (\<lambda>k. Some (replicate (nat k) 0)) (\<lambda>r t. Some (Some [], r + 1))
      [Add_part True demo_address (demo_part 2 105), Deliver 1] (0, ?rec) =
      Some (0, \<lparr>rc_last = 1, rc_fragments = [partial_fragment demo_from 7 1 ?ps [1]]\<rparr>)"
    by (simp add: sms_receiver_create_deliver_def sms_receiver_find_index_p_def partial_fragment_def)
  moreover from this have "recv_ok \<lparr>rc_last = 1, rc_fragments = [partial_fragment demo_from 7 1 ?ps [1]]\<rparr>"
    by (rule receiver_history_ok [rotated]) (simp add: sms_receiver_create_def)
  ultimately show ?thesis by simp
qed

text \<open>
  A part that claims more parts than the first one did is stored behind the array of the
  fragment.
\<close>

lemma part_overruns:
  assumes "is_part from0 from ref n i p" "0 \<le> ref" "sms_address_eq from from = Some True" "no_fragment from ref fs"
    and "ref < 256" "length ps \<le> i" "i < n"
  shows "sms_receiver_add_submit_pdu ok from0 p \<lparr>rc_last = l, rc_fragments = fs @ [partial_fragment from ref index ps arrived]\<rparr> = None"
  using add_part_eq [OF assms(1,2)] find_partial [OF assms(4,3,2,5)] assms
  by (simp add: put_part_def is_part_def store_part_def) (simp add: partial_fragment_def)

end
