(* ===== verification/Remote_Call.thy ===== *)
theory Remote_Call
  imports Sim_Card Sms_Receiver
begin

text \<open>
  Calls to other emulators, \<^verbatim>\<open>hw/express-network/em_remote_call.c\<close>: phone numbers that stand
  for console ports, the list of calls with their output buffers, and the events of their
  channels. The records of the calls are a heap with numbers as addresses, and the head
  \<^verbatim>\<open>_the_remote_calls\<close> of their list is a pointer into it. The channels are macros without effect in the source;
  what a read or a write on one returns is an argument of the event handler, and the
  macros make it 0. Whether memory can be allocated is an argument.
\<close>

section \<open>Numbers and ports\<close>

definition REMOTE_NUMBER_BASE :: int where "REMOTE_NUMBER_BASE = 5554"

definition REMOTE_NUMBER_MAX :: int where "REMOTE_NUMBER_MAX = 16"

definition REMOTE_CONSOLE_PORT :: int where "REMOTE_CONSOLE_PORT = 5554"

definition remote_number_from_port :: "int \<Rightarrow> int" where
  "remote_number_from_port port =
     (if port AND 1 \<noteq> 0 then -1
      else let p = drop_bit 1 (c_int (port - REMOTE_CONSOLE_PORT)) in
        if REMOTE_NUMBER_MAX \<le> c_uint p then -1 else REMOTE_NUMBER_BASE + p * 2)"

definition remote_number_to_port :: "int \<Rightarrow> int" where
  "remote_number_to_port number =
     (if number AND 1 \<noteq> 0 then -1
      else let n = drop_bit 1 (c_int (number - REMOTE_NUMBER_BASE)) in
        if REMOTE_NUMBER_MAX \<le> c_uint n then -1 else REMOTE_CONSOLE_PORT + n * 2)"

definition phone_number_prefix :: string where "phone_number_prefix = ''861801234''"

definition phone_number_self :: string where "phone_number_self = ''8618012345678''"

definition remote_number_string_to_port :: "string \<Rightarrow> int" where
  "remote_number_string_to_port number =
     (let len = (if number \<noteq> [] \<and> last number = CHR '';'' then length number - 1 else length number);
          plus = (0 < len \<and> char_at number 0 = CHR ''+'');
          temp = (if plus then tl number else number);
          len' = (if plus then len - 1 else len);
          temp' = (if len' = 11 \<and> take 7 temp = take 7 phone_number_prefix then drop 7 temp else temp);
          (num, end) = strtol 10 temp'
      in if end \<noteq> [] \<or> c_int num \<noteq> num then -1 else remote_number_to_port (c_int num))"

section \<open>Call objects\<close>

datatype remote_call_type = REMOTE_CALL_DIAL | REMOTE_CALL_BUSY | REMOTE_CALL_HANGUP
  | REMOTE_CALL_HOLD | REMOTE_CALL_ACCEPT | REMOTE_CALL_SMS

text \<open>The field \<^verbatim>\<open>pref\<close> is the address of the pointer to the record: the head of the list, or
  the field \<^verbatim>\<open>next\<close> of a record.\<close>

datatype call_link = Head_link | Next_link nat

record remote_call =
  rm_next :: "nat option"
  rm_pref :: call_link
  rm_type :: remote_call_type
  rm_to_port :: int
  rm_from_port :: int
  rm_result :: "nat option"
  rm_quitting :: bool
  rm_buff :: string
  rm_pos :: nat
  rm_len :: nat

record remote_state =
  rs_heap :: "nat \<rightharpoonup> remote_call"
  rs_head :: "nat option"
  rs_fresh :: nat

definition write_link :: "call_link \<Rightarrow> nat option \<Rightarrow> remote_state \<Rightarrow> remote_state option" where
  "write_link l v st =
     (case l of
        Head_link \<Rightarrow> Some (st\<lparr>rs_head := v\<rparr>)
      | Next_link i \<Rightarrow> map_option (\<lambda>r. st\<lparr>rs_heap := (rs_heap st)(i \<mapsto> r\<lparr>rm_next := v\<rparr>)\<rparr>) (rs_heap st i))"

definition remote_call_free :: "nat \<Rightarrow> remote_state \<Rightarrow> remote_state option" where
  "remote_call_free call st =
     Option.bind (rs_heap st call) (\<lambda>r.
       map_option (\<lambda>st'. st'\<lparr>rs_heap := (rs_heap st')(call := None)\<rparr>) (write_link (rm_pref r) (rm_next r) st))"

definition remote_call_text :: "remote_call_type \<Rightarrow> string option" where
  "remote_call_text type =
     (case type of
        REMOTE_CALL_DIAL \<Rightarrow> Some (''gsm call '' @ phone_number_self @ [newline])
      | REMOTE_CALL_BUSY \<Rightarrow> Some (''gsm busy '' @ phone_number_self @ [newline])
      | REMOTE_CALL_HOLD \<Rightarrow> Some (''gsm hold '' @ phone_number_self @ [newline])
      | REMOTE_CALL_ACCEPT \<Rightarrow> Some (''gsm accept '' @ phone_number_self @ [newline])
      | REMOTE_CALL_HANGUP \<Rightarrow> Some (''gsm cancel '' @ phone_number_self @ [newline])
      | REMOTE_CALL_SMS \<Rightarrow> None)"

definition remote_call_alloc :: "bool \<Rightarrow> nat \<Rightarrow> remote_call_type \<Rightarrow> int \<Rightarrow> int \<Rightarrow> remote_call option" where
  "remote_call_alloc alloc rcall type to_port from_port =
     (if \<not> alloc then None
      else let buff0 = replicate 128 nul;
               (buff, p) = (case remote_call_text type of None \<Rightarrow> (buff0, 0) | Some t \<Rightarrow> vbufprint buff0 0 t)
           in if 128 \<le> p then None
              else Some \<lparr>rm_next = None, rm_pref = Next_link rcall, rm_type = type, rm_to_port = to_port,
                         rm_from_port = from_port, rm_result = None, rm_quitting = False, rm_buff = buff, rm_pos = 0, rm_len = p\<rparr>)"

definition bytes_str :: "byte list \<Rightarrow> string" where
  "bytes_str bs = map (\<lambda>b. char_of (unat b)) bs"

definition store_at :: "string \<Rightarrow> nat \<Rightarrow> string \<Rightarrow> string option" where
  "store_at buf p s = (if p + length s \<le> length buf then Some (take p buf @ s @ drop (p + length s) buf) else None)"

definition remote_call_set_sms_pdu :: "(int \<Rightarrow> string option) \<Rightarrow> sms_pdu \<Rightarrow> remote_call \<Rightarrow> (int \<times> remote_call) option" where
  "remote_call_set_sms_pdu malloc pdu call =
     (let buff_msg_len = length (c_str (rm_buff call));
          msg2len = 32 + nat (fst (smspdu_to_hex pdu 0));
          grown = (if length (rm_buff call) - buff_msg_len < msg2len
                   then (case malloc (int (msg2len + length (rm_buff call))) of
                           None \<Rightarrow> None
                         | Some new \<Rightarrow> Some (take (buff_msg_len + 1) (rm_buff call) @ drop (buff_msg_len + 1) new))
                   else Some (rm_buff call))
      in case grown of None \<Rightarrow> Some (-1, call)
         | Some buff \<Rightarrow>
             let (buff', p) = vbufprint buff buff_msg_len ''sms pdu '' in
             if length buff' \<le> p then None
             else let (n, hex) = smspdu_to_hex pdu (int (length buff' - p)) in
                  case store_at buff' p (bytes_str hex) of None \<Rightarrow> None
                  | Some buff'' \<Rightarrow>
                      let q = p + nat n in
                      if length buff'' \<le> q + 1 then None
                      else (case store_at buff'' q [newline, nul] of None \<Rightarrow> None
                            | Some b \<Rightarrow> Some (0, call\<lparr>rm_buff := b, rm_len := q + 1, rm_pos := 0\<rparr>)))"

text \<open>
  The code makes the record point to the first one and to the head of the list, but does
  not make the head point to the record. So the head stays \<^verbatim>\<open>NULL\<close> forever
  (\<open>calls_never_listed\<close>) and no second record is ever written here.
\<close>

definition remote_call_add :: "nat \<Rightarrow> remote_call \<Rightarrow> remote_state \<Rightarrow> remote_state" where
  "remote_call_add call r st =
     (let first = rs_head st; heap = (rs_heap st)(call \<mapsto> r\<lparr>rm_next := first, rm_pref := Head_link\<rparr>)
      in st\<lparr>rs_heap := (case first of None \<Rightarrow> heap
                       | Some f \<Rightarrow> (case heap f of None \<Rightarrow> heap | Some rf \<Rightarrow> heap(f \<mapsto> rf\<lparr>rm_pref := Next_link call\<rparr>)))\<rparr>)"

definition set_call :: "nat \<Rightarrow> remote_call \<Rightarrow> remote_state \<Rightarrow> remote_state" where
  "set_call call r st = st\<lparr>rs_heap := (rs_heap st)(call \<mapsto> r)\<rparr>"

text \<open>The handler of channel events, with the value that the result function of the call is
  invoked with.\<close>

definition remote_call_event :: "int \<Rightarrow> int \<Rightarrow> int \<Rightarrow> nat \<Rightarrow> remote_state \<Rightarrow> (bool option \<times> remote_state) option" where
  "remote_call_event read_n write_n events call st =
     (case rs_heap st call of None \<Rightarrow> None
      | Some r \<Rightarrow>
          if events AND 1 \<noteq> 0 \<and> read_n \<le> 0 then map_option (Pair None) (remote_call_free call st)
          else if events AND 2 = 0 then Some (None, st)
          else if write_n \<le> 0
          then map_option (Pair (if rm_result r = None then None else Some False)) (remote_call_free call st)
          else let r' = r\<lparr>rm_pos := rm_pos r + nat write_n\<rparr> in
               if rm_pos r' < rm_len r' then Some (None, set_call call r' st)
               else if \<not> rm_quitting r'
               then (case store_at (rm_buff r') 0 (''quit'' @ [newline, nul]) of None \<Rightarrow> None
                     | Some b \<Rightarrow> Some (None, set_call call (r'\<lparr>rm_quitting := True, rm_buff := b, rm_len := 5, rm_pos := 0\<rparr>) st))
               else Some (if rm_result r = None then None else Some True, set_call call (r'\<lparr>rm_quitting := False\<rparr>) st))"

section \<open>Calls of the modem\<close>

definition remote_call_generic :: "bool \<Rightarrow> remote_call_type \<Rightarrow> string \<Rightarrow> int \<Rightarrow> remote_state \<Rightarrow> nat option \<times> remote_state" where
  "remote_call_generic alloc type to_number from_port st =
     (let to_port = remote_number_string_to_port to_number in
      if remote_number_from_port from_port < 0 then (None, st)
      else if to_port < 0 then (None, st)
      else if to_port = from_port \<and> type \<noteq> REMOTE_CALL_SMS then (None, st)
      else (case remote_call_alloc alloc (rs_fresh st) type to_port from_port of
              None \<Rightarrow> (None, st)
            | Some r \<Rightarrow> (Some (rs_fresh st), remote_call_add (rs_fresh st) r (st\<lparr>rs_fresh := rs_fresh st + 1\<rparr>))))"

definition remote_call_dial :: "bool \<Rightarrow> string \<Rightarrow> int \<Rightarrow> nat \<Rightarrow> remote_state \<Rightarrow> int \<times> remote_state" where
  "remote_call_dial alloc number from_port opaque st =
     (case remote_call_generic alloc REMOTE_CALL_DIAL number from_port st of
        (None, st') \<Rightarrow> (-1, st')
      | (Some call, st') \<Rightarrow>
          (0, case rs_heap st' call of None \<Rightarrow> st'
              | Some r \<Rightarrow> set_call call (r\<lparr>rm_result := Some opaque\<rparr>) st'))"

definition remote_call_other :: "bool \<Rightarrow> string \<Rightarrow> int \<Rightarrow> remote_call_type \<Rightarrow> remote_state \<Rightarrow> remote_state" where
  "remote_call_other alloc to_number from_port type st = snd (remote_call_generic alloc type to_number from_port st)"

definition remote_call_sms :: "bool \<Rightarrow> (int \<Rightarrow> string option) \<Rightarrow> string \<Rightarrow> int \<Rightarrow> sms_pdu \<Rightarrow> remote_state \<Rightarrow> (int \<times> remote_state) option" where
  "remote_call_sms alloc malloc number from_port pdu st =
     (case remote_call_generic alloc REMOTE_CALL_SMS number from_port st of
        (None, st') \<Rightarrow> Some (-1, st')
      | (Some call, st') \<Rightarrow>
          (case rs_heap st' call of None \<Rightarrow> None
           | Some r \<Rightarrow>
               (case remote_call_set_sms_pdu malloc pdu r of None \<Rightarrow> None
                | Some (ret, r') \<Rightarrow>
                    if ret < 0 then map_option (Pair (-1)) (remote_call_free call st')
                    else Some (0, set_call call r' st'))))"

definition remote_call_cancel :: "bool \<Rightarrow> string \<Rightarrow> int \<Rightarrow> remote_state \<Rightarrow> remote_state" where
  "remote_call_cancel alloc to_number from_port st =
     snd (remote_call_generic alloc REMOTE_CALL_HANGUP to_number from_port st)"

section \<open>Ports and numbers correspond\<close>

definition remote_port :: "int \<Rightarrow> bool" where
  "remote_port p = (even p \<and> 5554 \<le> p \<and> p < 5586)"

lemma port_index:
  assumes "- 2147483648 + 5554 \<le> p" "p < 2147483648"
  shows "(if p AND 1 \<noteq> 0 then -1 else let q = drop_bit 1 (c_int (p - 5554)) in if 16 \<le> c_uint q then -1 else 5554 + q * 2)
    = (if remote_port p then p else -1)"
proof (cases "even p")
  case False
  then show ?thesis by (simp add: and_one_eq remote_port_def odd_iff_mod_2_eq_one)
next
  case True
  then obtain k where k: "p = 5554 + 2 * k" by (metis add_diff_cancel_left' diff_add_cancel dvd_diff even_numeral evenE add.commute)
  have c: "c_int (p - 5554) = 2 * k" using assms k by simp
  have q: "drop_bit 1 (2 * k) = k" by (simp add: drop_bit_eq_div)
  have "16 \<le> c_uint k \<longleftrightarrow> \<not> (0 \<le> k \<and> k < 16)"
  proof (cases "0 \<le> k")
    case False
    have "c_uint k = (k + 4294967296) mod 4294967296" by (simp add: take_bit_eq_mod)
    also have "\<dots> = k + 4294967296" using False assms k by (intro mod_pos_pos_trivial) linarith+
    finally have "c_uint k = k + 4294967296" .
    then show ?thesis using False assms k by simp
  qed (use assms k in auto)
  then show ?thesis unfolding Let_def c q using True k
    by (auto simp: and_one_eq remote_port_def even_iff_mod_2_eq_zero)
qed

lemma remote_number_from_port_eq:
  "- 2147478094 \<le> p \<Longrightarrow> p < 2147483648 \<Longrightarrow> remote_number_from_port p = (if remote_port p then p else -1)"
  unfolding remote_number_from_port_def REMOTE_CONSOLE_PORT_def REMOTE_NUMBER_BASE_def REMOTE_NUMBER_MAX_def
  by (rule port_index) simp_all

lemma remote_number_to_port_eq:
  "- 2147478094 \<le> p \<Longrightarrow> p < 2147483648 \<Longrightarrow> remote_number_to_port p = (if remote_port p then p else -1)"
  unfolding remote_number_to_port_def REMOTE_CONSOLE_PORT_def REMOTE_NUMBER_BASE_def REMOTE_NUMBER_MAX_def
  by (rule port_index) simp_all

lemma remote_number_roundtrip:
  "remote_port p \<Longrightarrow> remote_number_to_port (remote_number_from_port p) = p"
  by (simp add: remote_number_from_port_eq remote_number_to_port_eq remote_port_def)

lemma no_digits: "digit_value (CHR '';'') = 36" "digit_value (CHR ''+'') = 36" "digit_value (CHR ''-'') = 36"
  by (simp_all add: digit_value_def)

text \<open>The decimal form of a remote port is recognised, with and without the prefix of the
  phone number.\<close>

lemma remote_port_digits:
  assumes "remote_port p"
  shows "length (show_int p) = 4" "\<forall>c \<in> set (show_int p). digit_value c < 10"
proof -
  have n: "show_int p = show_base 10 (nat p)" "5554 \<le> nat p" "nat p < 5586"
    using assms by (auto simp: remote_port_def show_int_def)
  then show "\<forall>c \<in> set (show_int p). digit_value c < 10" using show_base_value_lt [of 10] by simp
  have s: "show_base 10 m = show_base 10 (m div 10) @ [digit_char (m mod 10)]" if "10 \<le> m" for m
    using that by (subst show_base.simps) simp
  have one: "length (show_base 10 m) = 1" if "m < 10" for m using that by (subst show_base.simps) simp
  have "10 \<le> nat p" "10 \<le> nat p div 10" "10 \<le> nat p div 10 div 10" "nat p div 10 div 10 div 10 < 10"
    using n(2,3) by simp_all
  then show "length (show_int p) = 4" unfolding n(1) by (simp add: s one)
qed

lemma number_string_port:
  assumes "remote_port p"
  shows "remote_number_string_to_port (show_int p) = p"
    "remote_number_string_to_port (''8618012'' @ show_int p) = p"
proof -
  note d = remote_port_digits [OF assms]
  have ne: "show_int p \<noteq> []" using d(1) by auto
  have last: "last (show_int p) \<noteq> CHR '';''"
    using bspec [OF d(2) last_in_set [OF ne]] no_digits by auto
  have hd: "char_at (show_int p) 0 \<noteq> CHR ''+''"
    using d ne no_digits by (cases "show_int p") (auto simp: char_at_def)
  have num: "strtol 10 (show_int p) = (p, [])" using strtol_show_int [of p "[]"] assms by (simp add: remote_port_def)
  have p: "c_int p = p" "remote_number_to_port p = p"
    using assms by (simp_all add: remote_port_def remote_number_to_port_eq)
  show "remote_number_string_to_port (show_int p) = p"
    using last hd d(1) ne num p by (simp add: remote_number_string_to_port_def)
  show "remote_number_string_to_port (''8618012'' @ show_int p) = p"
    using last d(1) ne num p
    by (simp add: remote_number_string_to_port_def char_at_def phone_number_prefix_def)
qed

text \<open>A number of 12 to 18 digits is no remote number.\<close>

lemma long_number_not_remote:
  assumes "\<forall>c \<in> set s. digit_value c < 10" "11 < length s" "char_at s 0 \<noteq> CHR ''0''" 
  shows "remote_number_string_to_port s = -1"
proof -
  have ne: "s \<noteq> []" using assms(2) by auto
  have last: "last s \<noteq> CHR '';''" using bspec [OF assms(1) last_in_set [OF ne]] no_digits by auto
  obtain c t where s: "s = c # t" using ne by (cases s) auto
  have c: "digit_value c < 10" "c \<noteq> CHR ''+''" "c \<noteq> CHR ''-''" "\<not> is_space c"
    using assms(1) no_digits by (auto simp: s is_space_def digit_value_def Let_def split: if_splits)
  have tw: "takeWhile (\<lambda>c. digit_value c < 10) s = s" using assms(1) by (simp add: takeWhile_eq_all_conv)
  have sign: "read_sign (dropWhile is_space s) = (False, s)" using c by (simp add: s read_sign_def)
  have "strtol 10 s = (clamp_long (int (digits_value 10 s)), [])"
    unfolding strtol_def sign by (simp add: tw ne)
  moreover have "2147483648 \<le> int (digits_value 10 s)"
  proof -
    have fold: "a * 10 ^ length u \<le> foldl (\<lambda>a c. a * 10 + digit_value c) a u" for a u
    proof (induction u arbitrary: a)
      case (Cons x u)
      have "a * 10 ^ length (x # u) \<le> (a * 10 + digit_value x) * 10 ^ length u" by (simp add: algebra_simps)
      then show ?case using order_trans [OF _ Cons.IH [of "a * 10 + digit_value x"]] by simp
    qed simp
    have "1 \<le> digit_value c"
    proof (rule ccontr)
      assume "\<not> ?thesis"
      then have "digit_value c = 0" by simp
      then have "(of_char c :: nat) = 48" by (auto simp: digit_value_def Let_def split: if_splits)
      then have "c = char_of (48 :: nat)" by (metis char_of_char)
      moreover have "char_of (48 :: nat) = CHR ''0''" by code_simp
      ultimately show False using assms(3) by (simp add: s char_at_def)
    qed
    then have "1 * 10 ^ length t \<le> digit_value c * 10 ^ length t" by (rule mult_right_mono) simp
    also have "\<dots> \<le> digits_value 10 s" using fold [of "digit_value c" t] by (simp add: digits_value_def s)
    finally have "10 ^ length t \<le> digits_value 10 s" by simp
    moreover have "(10 :: nat) ^ 11 \<le> 10 ^ length t" using assms(2) by (intro power_increasing) (auto simp: s)
    ultimately have "(10 :: nat) ^ 11 \<le> digits_value 10 s" by (rule order_trans [rotated])
    then show ?thesis by simp
  qed
  then have "c_int (clamp_long (int (digits_value 10 s))) \<noteq> clamp_long (int (digits_value 10 s))"
    using c_int_bounds(2) [of "clamp_long (int (digits_value 10 s))"] by (auto simp: clamp_long_def)
  ultimately show ?thesis using last ne assms(2) c by (simp add: remote_number_string_to_port_def char_at_def s)
qed

section \<open>The port of this modem\<close>

text \<open>
  C40. No remote call is ever made from a port that is not one of the sixteen console
  ports. Dialling and sending a message answer -1 and leave the list of calls as it was,
  whatever the number. The modem sets its port to 114514, which is no such port.
\<close>

theorem remote_calls_refused:
  assumes "\<not> remote_port from_port" "- 2147478094 \<le> from_port" "from_port < 2147483648"
  shows "remote_call_dial alloc number from_port opaque st = (-1, st)
    \<and> remote_call_sms alloc malloc number from_port pdu st = Some (-1, st)
    \<and> remote_call_other alloc number from_port type st = st \<and> remote_call_cancel alloc number from_port st = st"
  using assms
  by (simp add: remote_call_dial_def remote_call_sms_def remote_call_other_def remote_call_cancel_def
      remote_call_generic_def remote_number_from_port_eq)

theorem remote_calls_refused_witness:
  "remote_call_sms True (\<lambda>_. None) ''5556'' 114514 \<lparr>pd_base = [], pd_tpdu = 0\<rparr> \<lparr>rs_heap = Map.empty, rs_head = None, rs_fresh = 0\<rparr>
     = Some (-1, \<lparr>rs_heap = Map.empty, rs_head = None, rs_fresh = 0\<rparr>)"
  using remote_calls_refused [of 114514] by (simp add: remote_port_def)

section \<open>Sending a message\<close>

lemma vbufprint_fits:
  assumes "p + length s < length buf"
  shows "vbufprint buf p s = (take p buf @ s @ nul # drop (p + length s + 1) buf, p + length s)"
  using assms by (simp add: vbufprint_def Let_def)

lemma store_at_fits: "p + length s \<le> length buf \<Longrightarrow> store_at buf p s = Some (take p buf @ s @ drop (p + length s) buf)"
  by (simp add: store_at_def)

lemma hex_from_bytes_length: "length (gsm_hex_from_bytes bs) = 2 * length bs"
  by (induction bs) (simp_all add: gsm_hex_from_bytes_def gsm_hex_from_byte_def)

definition sms_line :: "sms_pdu \<Rightarrow> string" where
  "sms_line pdu = ''sms pdu '' @ bytes_str (gsm_hex_from_bytes (pd_base pdu)) @ [newline]"

text \<open>The command for a message is stored completely, in a buffer that is large enough.\<close>

lemma set_sms_pdu_line:
  assumes "c_str (rm_buff call) = []" "rm_buff call \<noteq> []"
    and "\<And>n. 0 \<le> n \<Longrightarrow> \<exists>new. malloc n = Some new \<and> int (length new) = n"
  shows "\<exists>call' rest. remote_call_set_sms_pdu malloc pdu call = Some (0, call')
    \<and> rm_buff call' = sms_line pdu @ nul # rest \<and> rm_len call' = length (sms_line pdu) \<and> rm_pos call' = 0"
proof -
  define hex where "hex = bytes_str (gsm_hex_from_bytes (pd_base pdu))"
  have lhex: "length hex = 2 * length (pd_base pdu)" by (simp add: hex_def bytes_str_def hex_from_bytes_length)
  define m where "m = 32 + length hex"
  have m: "32 + nat (fst (smspdu_to_hex pdu 0)) = m" by (simp add: smspdu_to_hex_def Let_def m_def lhex nat_mult_distrib)
  obtain buff where buff: "m \<le> length buff"
      "(if length (rm_buff call) - 0 < m
        then (case malloc (int (m + length (rm_buff call))) of None \<Rightarrow> None
              | Some new \<Rightarrow> Some (take (0 + 1) (rm_buff call) @ drop (0 + 1) new))
        else Some (rm_buff call)) = Some buff"
  proof (cases "length (rm_buff call) < m")
    case True
    obtain new where new: "malloc (int (m + length (rm_buff call))) = Some new" "length new = m + length (rm_buff call)"
      using assms(3) [of "int (m + length (rm_buff call))"] by force
    show ?thesis using True new assms(2) by (intro that [of "take 1 (rm_buff call) @ drop 1 new"]) (cases "rm_buff call"; simp)+
  next
    case False
    then show ?thesis by (intro that [of "rm_buff call"]) simp_all
  qed
  define pre where "pre = ''sms pdu ''"
  have lpre: "length pre = 8" by (simp add: pre_def)
  have p: "vbufprint buff 0 pre = (pre @ nul # drop 9 buff, 8)"
    using vbufprint_fits [of 0 pre buff] buff(1) by (simp add: m_def lpre)
  have hexs: "smspdu_to_hex pdu (int (length (pre @ nul # drop 9 buff) - 8)) = (int (length hex), gsm_hex_from_bytes (pd_base pdu))"
    using buff(1) by (simp add: smspdu_to_hex_def Let_def m_def lhex lpre min_def nat_le_iff)
  define b1 where "b1 = pre @ hex @ drop (length hex) (nul # drop 9 buff)"
  have s1: "store_at (pre @ nul # drop 9 buff) 8 hex = Some b1"
    using buff(1) by (simp add: store_at_def b1_def m_def lpre)
  have lb1: "length b1 = length buff" using buff(1) by (simp add: b1_def m_def lpre)
  have s2: "\<exists>rest. store_at b1 (8 + length hex) [newline, nul] = Some (pre @ hex @ newline # nul # rest)"
    using buff(1) lb1 by (simp add: store_at_def m_def b1_def lpre)
  then obtain rest where rest: "store_at b1 (8 + length hex) [newline, nul] = Some (pre @ hex @ newline # nul # rest)" ..
  show ?thesis
    unfolding remote_call_set_sms_pdu_def assms(1) list.size m Let_def buff(2) pre_def [symmetric] option.case p prod.case
      hexs hex_def [symmetric] s1 nat_int rest
    using buff(1) lb1 by (simp add: sms_line_def hex_def [symmetric] pre_def [symmetric] m_def lpre)
qed

text \<open>The head of the list stays \<^verbatim>\<open>NULL\<close>, whatever calls are made and events come.\<close>

definition unlisted :: "remote_state \<Rightarrow> bool" where
  "unlisted st \<longleftrightarrow> rs_head st = None \<and> (\<forall>i r. rs_heap st i = Some r \<longrightarrow> rm_next r = None)"

lemma unlisted_set:
  "unlisted st \<Longrightarrow> rm_next r = None \<Longrightarrow> unlisted (set_call i r st)"
  by (auto simp: unlisted_def set_call_def)

lemma unlisted_add: "unlisted st \<Longrightarrow> unlisted (remote_call_add i r st)"
  by (auto simp: unlisted_def remote_call_add_def)

lemma unlisted_free: "unlisted st \<Longrightarrow> remote_call_free i st = Some st' \<Longrightarrow> unlisted st'"
  unfolding remote_call_free_def write_link_def
  by (fastforce simp: unlisted_def split: call_link.splits bind_splits if_splits)

lemma unlisted_generic: "unlisted st \<Longrightarrow> remote_call_generic alloc type number port st = (c, st') \<Longrightarrow> unlisted st'"
  by (auto simp: remote_call_generic_def Let_def split: if_splits option.splits intro!: unlisted_add)
    (simp_all add: unlisted_def)

lemma set_sms_pdu_keeps:
  "remote_call_set_sms_pdu malloc pdu r = Some (ret, r') \<Longrightarrow>
     rm_next r' = rm_next r \<and> rm_pref r' = rm_pref r \<and> rm_to_port r' = rm_to_port r \<and> rm_from_port r' = rm_from_port r"
  by (auto simp: remote_call_set_sms_pdu_def Let_def split: option.splits prod.splits if_splits)

lemma heap_next: "unlisted st \<Longrightarrow> rs_heap st i = Some r \<Longrightarrow> rm_next r = None"
  by (auto simp: unlisted_def)

lemma calls_never_listed:
  assumes "unlisted st"
  shows "unlisted (snd (remote_call_dial alloc number port opaque st))"
    and "unlisted (remote_call_other alloc number port type st)"
    and "unlisted (remote_call_cancel alloc number port st)"
    and "remote_call_sms alloc malloc number port pdu st = Some (ret, st') \<Longrightarrow> unlisted st'"
    and "remote_call_event read_n write_n events call st = Some (res, st') \<Longrightarrow> unlisted st'"
proof -
  note gen = unlisted_generic [OF assms]
  show "unlisted (snd (remote_call_dial alloc number port opaque st))"
    using gen [of alloc REMOTE_CALL_DIAL number port]
    by (auto simp: remote_call_dial_def heap_next intro!: unlisted_set split: prod.splits option.splits)
  show "unlisted (remote_call_other alloc number port type st)"
    unfolding remote_call_other_def by (rule gen [OF prod.collapse [symmetric]])
  show "unlisted (remote_call_cancel alloc number port st)"
    unfolding remote_call_cancel_def by (rule gen [OF prod.collapse [symmetric]])
  show "unlisted st'" if "remote_call_sms alloc malloc number port pdu st = Some (ret, st')"
    using that gen [of alloc REMOTE_CALL_SMS number port]
    by (auto simp: remote_call_sms_def heap_next intro!: unlisted_set dest: unlisted_free set_sms_pdu_keeps
        split: prod.splits option.splits if_splits)
  show "unlisted st'" if "remote_call_event read_n write_n events call st = Some (res, st')"
    using that assms
    by (auto simp: remote_call_event_def Let_def heap_next intro!: unlisted_set dest: unlisted_free
        split: option.splits if_splits)
qed

text \<open>
  C39. A message to a remote number is prepared as one complete command line. When the
  number and the port of the sender are remote ports and memory can be allocated, a new
  record is created which holds the text \<^verbatim>\<open>sms pdu\<close> with all bytes of the message in
  hexadecimal and a newline, terminated inside of its buffer, and reading the
  hexadecimal part back gives the message. All other records stay as they were. The list
  of calls is empty before and after: the record is not put into it.
\<close>

theorem remote_sms_prepared:
  assumes "remote_port p" "remote_port from_port" "rs_head st = None"
    and "\<And>n. 0 \<le> n \<Longrightarrow> \<exists>new. malloc n = Some new \<and> int (length new) = n"
  shows "\<exists>st' r rest. remote_call_sms True malloc (show_int p) from_port pdu st = Some (0, st')
    \<and> rs_heap st' = (rs_heap st)(rs_fresh st \<mapsto> r) \<and> rs_head st' = None
    \<and> rm_to_port r = p \<and> rm_from_port r = from_port \<and> rm_buff r = sms_line pdu @ nul # rest
    \<and> rm_pos r = 0 \<and> rm_len r = length (sms_line pdu)
    \<and> gsm_hex_to_bytes (gsm_hex_from_bytes (pd_base pdu)) (2 * int (length (pd_base pdu)))
        = Some (int (length (pd_base pdu)), pd_base pdu)"
proof -
  let ?r0 = "\<lparr>rm_next = None, rm_pref = Head_link, rm_type = REMOTE_CALL_SMS, rm_to_port = p, rm_from_port = from_port,
    rm_result = None, rm_quitting = False, rm_buff = replicate 128 nul, rm_pos = 0, rm_len = 0\<rparr>"
  let ?st = "st\<lparr>rs_heap := (rs_heap st)(rs_fresh st \<mapsto> ?r0), rs_fresh := rs_fresh st + 1\<rparr>"
  have port: "0 \<le> p" "remote_number_from_port from_port = from_port" "0 \<le> from_port"
    using assms(1,2) by (simp_all add: remote_port_def remote_number_from_port_eq)
  have gen: "remote_call_generic True REMOTE_CALL_SMS (show_int p) from_port st = (Some (rs_fresh st), ?st)"
    using port number_string_port(1) [OF assms(1)] assms(3)
    by (simp add: remote_call_generic_def remote_call_alloc_def remote_call_text_def remote_call_add_def Let_def)
  obtain r rest where r: "remote_call_set_sms_pdu malloc pdu ?r0 = Some (0, r)" "rm_buff r = sms_line pdu @ nul # rest"
      "rm_len r = length (sms_line pdu)" "rm_pos r = 0"
    using set_sms_pdu_line [of ?r0 malloc pdu] assms(4) by (auto simp: c_str_def)
  have "gsm_hex_to_bytes (gsm_hex_from_bytes (pd_base pdu) @ []) (2 * int (length (pd_base pdu)))
        = Some (int (length (pd_base pdu)), pd_base pdu)"
    by (rule conjunct1 [OF hex_roundtrip])
  then show ?thesis using gen r set_sms_pdu_keeps [OF r(1)] assms(3)
    by (simp add: remote_call_sms_def set_call_def) (rule exI [of _ r], simp)
qed

definition some_memory :: "int \<Rightarrow> string option" where
  "some_memory n = Some (replicate (nat n) nul)"

theorem remote_sms_prepared_witness:
  "\<exists>st' r rest. remote_call_sms True some_memory (show_int 5556) 5554
      \<lparr>pd_base = [1, 2], pd_tpdu = 0\<rparr> \<lparr>rs_heap = Map.empty, rs_head = None, rs_fresh = 7\<rparr> = Some (0, st')
    \<and> rs_heap st' = [7 \<mapsto> r] \<and> rm_buff r = ''sms pdu 0102'' @ newline # nul # rest"
proof -
  let ?pdu = "\<lparr>pd_base = [1, 2], pd_tpdu = 0\<rparr>"
  have line: "sms_line ?pdu = ''sms pdu 0102'' @ [newline]"
    by (simp add: sms_line_def bytes_str_def gsm_hex_from_bytes_def gsm_hex_from_byte_def hexdigits_def) code_simp
  have port: "remote_port 5556" "remote_port 5554" by (simp_all add: remote_port_def)
  have mem: "\<exists>new. some_memory n = Some new \<and> int (length new) = n" if "0 \<le> n" for n
    using that by (simp add: some_memory_def)
  show ?thesis
    using remote_sms_prepared [OF port _ mem, of "\<lparr>rs_heap = Map.empty, rs_head = None, rs_fresh = 7\<rparr>" ?pdu]
    by (auto simp: line)
qed

end
