(* ===== verification/Modem_Calls.thy ===== *)
theory Modem_Calls
  imports Remote_Call
begin

text \<open>
  The voice calls of the modem, from \<^verbatim>\<open>hw/express-network/em_core.c\<close>: the array of four
  calls with the number of those in use, the commands that dial, answer and release, and
  the events of the network. The record holds the part of the modem these functions work
  on; \<open>ct_sent\<close> are the texts sent to the guest unasked. A call is identified by its place
  in the array, which is what the pointers of the code stand for. The first argument says
  whether memory for a remote call can be allocated.
\<close>

section \<open>State\<close>

datatype call_dir = A_CALL_OUTBOUND | A_CALL_INBOUND

datatype call_state = A_CALL_ACTIVE | A_CALL_HELD | A_CALL_DIALING | A_CALL_ALERTING | A_CALL_INCOMING | A_CALL_WAITING

datatype call_mode = A_CALL_VOICE | A_CALL_DATA | A_CALL_FAX | A_CALL_UNKNOWN

definition A_CALL_NUMBER_MAX_SIZE :: nat where "A_CALL_NUMBER_MAX_SIZE = 16"

definition MAX_CALLS :: nat where "MAX_CALLS = 4"

definition MAX_EMERGENCY_NUMBERS :: nat where "MAX_EMERGENCY_NUMBERS = 16"

record voice_call =
  vc_id :: int
  vc_dir :: call_dir
  vc_state :: call_state
  vc_mode :: call_mode
  vc_multi :: int
  vc_number :: string
  vc_is_remote :: bool

record call_table =
  ct_calls :: "voice_call list"
  ct_count :: nat
  ct_base_port :: int
  ct_emergency_numbers :: "string option list"
  ct_in_emergency_mode :: int
  ct_remote :: remote_state
  ct_notify :: bool
  ct_notified :: "nat list"
  ct_sent :: "string list"

text \<open>A handler answers nothing, a text of its own, or what it printed to the output buffer.\<close>

datatype reply = No_reply | Literal string | Printed string

section \<open>The array of calls\<close>

definition em_notify :: "call_table \<Rightarrow> call_table" where
  "em_notify ct = (if ct_notify ct then ct\<lparr>ct_notified := ct_notified ct @ [ct_count ct]\<rparr> else ct)"

definition em_get_call_count :: "call_table \<Rightarrow> nat" where
  "em_get_call_count ct = ct_count ct"

definition em_get_call :: "call_table \<Rightarrow> int \<Rightarrow> voice_call option" where
  "em_get_call ct index =
     (if c_uint (int (ct_count ct)) \<le> c_uint index then None else Some (ct_calls ct ! nat index))"

definition free_call_id :: "call_table \<Rightarrow> nat" where
  "free_call_id ct =
     length (takeWhile (\<lambda>n. \<exists>c \<in> set (take (ct_count ct) (ct_calls ct)). vc_id c = int n + 1) [0..<ct_count ct])"

definition em_alloc_call :: "call_table \<Rightarrow> nat option \<times> call_table" where
  "em_alloc_call ct =
     (let count = ct_count ct in
      if count < MAX_CALLS
      then (Some count,
            em_notify (ct\<lparr>ct_calls := (ct_calls ct)[count := (ct_calls ct ! count)\<lparr>vc_id := int (free_call_id ct) + 1\<rparr>],
                          ct_count := count + 1\<rparr>))
      else (None, ct))"

definition em_free_call :: "bool \<Rightarrow> nat \<Rightarrow> call_table \<Rightarrow> call_table option" where
  "em_free_call alloc call ct =
     (let c = ct_calls ct ! call;
          ct1 = (if vc_is_remote c
                 then ct\<lparr>ct_remote := remote_call_cancel alloc (vc_number c) (ct_base_port ct) (ct_remote ct),
                         ct_calls := (ct_calls ct)[call := c\<lparr>vc_is_remote := False\<rparr>]\<rparr>
                 else ct)
      in if call < ct_count ct1
         then Some (em_notify (ct1\<lparr>ct_calls := take call (ct_calls ct1)
                                     @ take (ct_count ct1 - 1 - call) (drop (call + 1) (ct_calls ct1))
                                     @ drop (ct_count ct1 - 1) (ct_calls ct1),
                                   ct_count := ct_count ct1 - 1\<rparr>))
         else None)"

definition em_find_call :: "call_table \<Rightarrow> int \<Rightarrow> nat option" where
  "em_find_call ct call_id = find (\<lambda>nn. vc_id (ct_calls ct ! nn) = call_id) [0..<ct_count ct]"

definition em_send_calls_update :: "call_table \<Rightarrow> call_table" where
  "em_send_calls_update ct = ct\<lparr>ct_sent := ct_sent ct @ [''RING'' @ [CHR 0x0D]]\<rparr>"

definition em_find_call_by_number :: "call_table \<Rightarrow> string option \<Rightarrow> nat option" where
  "em_find_call_by_number ct number =
     (case number of None \<Rightarrow> None
      | Some s \<Rightarrow> find (\<lambda>nn. vc_number (ct_calls ct ! nn) = s) [0..<ct_count ct])"

definition acall_set_state :: "bool \<Rightarrow> nat \<Rightarrow> call_state \<Rightarrow> call_table \<Rightarrow> call_table" where
  "acall_set_state alloc call state ct =
     (let c = ct_calls ct ! call in
      if state = vc_state c then ct
      else let ct1 = (if vc_is_remote c
                      then (case state of
                              A_CALL_HELD \<Rightarrow> ct\<lparr>ct_remote := remote_call_other alloc (vc_number c) (ct_base_port ct) REMOTE_CALL_HOLD (ct_remote ct)\<rparr>
                            | A_CALL_ACTIVE \<Rightarrow> ct\<lparr>ct_remote := remote_call_other alloc (vc_number c) (ct_base_port ct) REMOTE_CALL_ACCEPT (ct_remote ct)\<rparr>
                            | _ \<Rightarrow> ct)
                      else ct)
           in ct1\<lparr>ct_calls := (ct_calls ct1)[call := c\<lparr>vc_state := state\<rparr>]\<rparr>)"

section \<open>Events of the network\<close>

definition A_CALL_NUMBER_NOT_FOUND :: int where "A_CALL_NUMBER_NOT_FOUND = -1"

definition A_CALL_EXCEED_MAX_NUM :: int where "A_CALL_EXCEED_MAX_NUM = -2"

definition A_CALL_RADIO_OFF :: int where "A_CALL_RADIO_OFF = -3"

definition em_add_inbound_call :: "bool \<Rightarrow> string \<Rightarrow> call_table \<Rightarrow> int \<times> call_table" where
  "em_add_inbound_call radio_on number ct =
     (if \<not> radio_on then (A_CALL_RADIO_OFF, ct)
      else case em_alloc_call ct of
             (None, ct1) \<Rightarrow> (A_CALL_EXCEED_MAX_NUM, ct1)
           | (Some i, ct1) \<Rightarrow>
               (0, em_send_calls_update (ct1\<lparr>ct_calls := (ct_calls ct1)[i := (ct_calls ct1 ! i)
                  \<lparr>vc_dir := A_CALL_INBOUND, vc_state := A_CALL_INCOMING, vc_mode := A_CALL_VOICE, vc_multi := 0,
                   vc_is_remote := (0 < remote_number_string_to_port number),
                   vc_number := take A_CALL_NUMBER_MAX_SIZE number\<rparr>]\<rparr>)))"

definition em_update_call :: "bool \<Rightarrow> string option \<Rightarrow> call_state \<Rightarrow> call_table \<Rightarrow> int \<times> call_table" where
  "em_update_call alloc fromNumber state ct =
     (case em_find_call_by_number ct fromNumber of
        None \<Rightarrow> (A_CALL_NUMBER_NOT_FOUND, ct)
      | Some i \<Rightarrow> (0, em_send_calls_update (acall_set_state alloc i state ct)))"

definition em_disconnect_call :: "bool \<Rightarrow> string option \<Rightarrow> call_table \<Rightarrow> (int \<times> call_table) option" where
  "em_disconnect_call alloc number ct =
     (case em_find_call_by_number ct number of
        None \<Rightarrow> Some (A_CALL_NUMBER_NOT_FOUND, ct)
      | Some i \<Rightarrow> map_option (\<lambda>ct'. (0, em_send_calls_update ct')) (em_free_call alloc i ct))"

definition remote_voice_call_event :: "bool \<Rightarrow> nat \<Rightarrow> bool \<Rightarrow> call_table \<Rightarrow> call_table option" where
  "remote_voice_call_event alloc call success ct =
     (if \<not> success then map_option em_send_calls_update (em_free_call alloc call ct) else Some ct)"

definition voice_call_event :: "bool \<Rightarrow> nat \<Rightarrow> call_table \<Rightarrow> call_table option" where
  "voice_call_event alloc call ct =
     (let c = ct_calls ct ! call; set = (\<lambda>s. ct\<lparr>ct_calls := (ct_calls ct)[call := c\<lparr>vc_state := s\<rparr>]\<rparr>) in
      case vc_state c of
        A_CALL_DIALING \<Rightarrow>
          (let ct1 = set A_CALL_ALERTING in
           if vc_is_remote c
           then (case remote_call_dial alloc (vc_number c) (ct_base_port ct1) call (ct_remote ct1) of
                   (r, rem) \<Rightarrow>
                     let ct2 = ct1\<lparr>ct_remote := rem\<rparr>
                     in map_option em_send_calls_update (if r < 0 then em_free_call alloc call ct2 else Some ct2))
           else Some (em_send_calls_update ct1))
      | A_CALL_ALERTING \<Rightarrow> Some (em_send_calls_update (set A_CALL_ACTIVE))
      | _ \<Rightarrow> None)"

section \<open>Commands\<close>

definition em_is_emergency :: "call_table \<Rightarrow> string \<Rightarrow> bool" where
  "em_is_emergency ct number = (\<exists>n \<in> set (take MAX_EMERGENCY_NUMBERS (ct_emergency_numbers ct)). n = Some number)"

definition dial_number :: "string \<Rightarrow> string \<Rightarrow> string option" where
  "dial_number prefix cmd =
     (let l0 = length cmd;
          l1 = (if 0 < l0 \<and> cmd ! (l0 - 1) = CHR '';'' then l0 - 1 else l0);
          len = (if A_CALL_NUMBER_MAX_SIZE < l1 then A_CALL_NUMBER_MAX_SIZE else l1);
          prefix_len = length prefix
      in if prefix_len < 7 \<or> 11 < prefix_len then None
         else if (len = 4 \<or> len = 7 \<or> len = 10) \<and> take (len - 4) cmd = drop (prefix_len - (len - 4)) prefix
         then Some (take (prefix_len - (len - 4)) prefix @ take len cmd)
         else Some (take len cmd))"

definition handleDial :: "string \<Rightarrow> string \<Rightarrow> call_table \<Rightarrow> (reply \<times> call_table) option" where
  "handleDial prefix cmd ct =
     (case em_alloc_call ct of
        (None, ct1) \<Rightarrow> Some (Literal ''ERROR: TOO MANY CALLS'', ct1)
      | (Some i, ct1) \<Rightarrow>
          if char_at cmd 0 \<noteq> CHR ''D'' then None
          else (case dial_number prefix (tl cmd) of None \<Rightarrow> None
                | Some number \<Rightarrow>
                    let ct2 = ct1\<lparr>ct_calls := (ct_calls ct1)[i := (ct_calls ct1 ! i)
                          \<lparr>vc_dir := A_CALL_OUTBOUND, vc_state := A_CALL_DIALING, vc_mode := A_CALL_VOICE, vc_multi := 0,
                           vc_number := number, vc_is_remote := (0 < remote_number_string_to_port number)\<rparr>]\<rparr>
                    in Some (if em_is_emergency ct2 number
                             then (Printed ''+WSOS: 1'', ct2\<lparr>ct_in_emergency_mode := 1\<rparr>)
                             else (Printed [], ct2))))"

text \<open>The loops of the commands walk over the calls; what they do with a call depends on its
  state alone. After a call was freed the same place is visited again.\<close>

datatype call_action = Keep | Free | Set_state call_state

lemma em_free_call_count: "em_free_call alloc i ct = Some ct' \<Longrightarrow> i < ct_count ct \<and> ct_count ct' = ct_count ct - 1"
  by (auto simp: em_free_call_def em_notify_def Let_def split: if_splits)

lemma acall_set_state_count: "ct_count (acall_set_state alloc i s ct) = ct_count ct"
  by (simp add: acall_set_state_def Let_def split: call_state.split)

function walk_calls :: "bool \<Rightarrow> (voice_call \<Rightarrow> call_action) \<Rightarrow> nat \<Rightarrow> call_table \<Rightarrow> call_table option" where
  "walk_calls alloc act nn ct =
     (if nn < ct_count ct
      then (case act (ct_calls ct ! nn) of
              Keep \<Rightarrow> walk_calls alloc act (nn + 1) ct
            | Free \<Rightarrow> (case em_free_call alloc nn ct of None \<Rightarrow> None | Some ct' \<Rightarrow> walk_calls alloc act nn ct')
            | Set_state s \<Rightarrow> walk_calls alloc act (nn + 1) (acall_set_state alloc nn s ct))
      else Some ct)"
  by pat_completeness auto

termination walk_calls
  by (relation "measure (\<lambda>(alloc, act, nn, ct). ct_count ct - nn)")
    (auto simp: acall_set_state_count dest!: em_free_call_count)

declare walk_calls.simps [simp del]

definition answer_action :: "voice_call \<Rightarrow> call_action" where
  "answer_action c =
     (if vc_state c = A_CALL_INCOMING then Set_state A_CALL_ACTIVE
      else if vc_state c = A_CALL_ACTIVE then Set_state A_CALL_HELD else Keep)"

definition handleAnswer :: "bool \<Rightarrow> string \<Rightarrow> call_table \<Rightarrow> (reply \<times> call_table) option" where
  "handleAnswer alloc cmd ct =
     (if char_at cmd 0 = CHR ''A'' then map_option (Pair No_reply) (walk_calls alloc answer_action 0 ct)
      else if char_at cmd 0 = CHR ''H''
      then (case find (\<lambda>nn. vc_state (ct_calls ct ! nn) = A_CALL_INCOMING) [0..<ct_count ct] of
              None \<Rightarrow> Some (No_reply, ct)
            | Some i \<Rightarrow> map_option (Pair No_reply) (em_free_call alloc i ct))
      else Some (No_reply, ct))"

definition release_action :: "voice_call \<Rightarrow> call_action" where
  "release_action c =
     (if vc_mode c \<noteq> A_CALL_VOICE then Keep
      else if vc_state c = A_CALL_HELD \<or> vc_state c = A_CALL_WAITING \<or> vc_state c = A_CALL_INCOMING then Free else Keep)"

definition accept_action :: "voice_call \<Rightarrow> call_action" where
  "accept_action c =
     (if vc_mode c \<noteq> A_CALL_VOICE then Keep
      else if vc_state c = A_CALL_ACTIVE then Free
      else if vc_state c = A_CALL_HELD \<or> vc_state c = A_CALL_WAITING then Set_state A_CALL_ACTIVE else Keep)"

definition swap_action :: "voice_call \<Rightarrow> call_action" where
  "swap_action c =
     (if vc_mode c \<noteq> A_CALL_VOICE then Keep
      else if vc_state c = A_CALL_ACTIVE then Set_state A_CALL_HELD
      else if vc_state c = A_CALL_HELD \<or> vc_state c = A_CALL_WAITING then Set_state A_CALL_ACTIVE else Keep)"

definition hold_action :: "int \<Rightarrow> voice_call \<Rightarrow> call_action" where
  "hold_action call_id c =
     (if vc_mode c \<noteq> A_CALL_VOICE then Keep
      else if vc_state c = A_CALL_ACTIVE \<and> vc_id c \<noteq> call_id then Set_state A_CALL_HELD else Keep)"

definition join_held :: "bool \<Rightarrow> call_table \<Rightarrow> call_table" where
  "join_held alloc ct =
     (case find (\<lambda>nn. vc_mode (ct_calls ct ! nn) = A_CALL_VOICE \<and> vc_state (ct_calls ct ! nn) = A_CALL_HELD) [0..<ct_count ct] of
        None \<Rightarrow> ct | Some i \<Rightarrow> acall_set_state alloc i A_CALL_ACTIVE ct)"

definition handleHangup :: "bool \<Rightarrow> string \<Rightarrow> call_table \<Rightarrow> (reply \<times> call_table) option" where
  "handleHangup alloc cmd0 ct =
     (if \<not> has_prefix ''+CHLD='' cmd0 then Some (Literal ''ERROR: BAD COMMAND'', ct)
      else let cmd = drop 6 cmd0; call_id = schar (char_at cmd 1) - 48 in
        if char_at cmd 0 = CHR ''0'' then map_option (Pair No_reply) (walk_calls alloc release_action 0 ct)
        else if char_at cmd 0 = CHR ''1''
        then if char_at cmd 1 = nul then map_option (Pair No_reply) (walk_calls alloc accept_action 0 ct)
             else (case em_find_call ct call_id of None \<Rightarrow> Some (No_reply, ct)
                   | Some i \<Rightarrow> map_option (Pair No_reply) (em_free_call alloc i ct))
        else if char_at cmd 0 = CHR ''2''
        then if char_at cmd 1 = nul then map_option (Pair No_reply) (walk_calls alloc swap_action 0 ct)
             else map_option (Pair No_reply) (walk_calls alloc (hold_action call_id) 0 ct)
        else if char_at cmd 0 = CHR ''3'' \<or> char_at cmd 0 = CHR ''4'' then Some (No_reply, join_held alloc ct)
        else Some (No_reply, ct))"

definition dir_num :: "call_dir \<Rightarrow> int" where
  "dir_num d = (case d of A_CALL_OUTBOUND \<Rightarrow> 0 | A_CALL_INBOUND \<Rightarrow> 1)"

definition state_num :: "call_state \<Rightarrow> int" where
  "state_num s = (case s of A_CALL_ACTIVE \<Rightarrow> 0 | A_CALL_HELD \<Rightarrow> 1 | A_CALL_DIALING \<Rightarrow> 2 | A_CALL_ALERTING \<Rightarrow> 3
     | A_CALL_INCOMING \<Rightarrow> 4 | A_CALL_WAITING \<Rightarrow> 5)"

definition mode_num :: "call_mode \<Rightarrow> int" where
  "mode_num m = (case m of A_CALL_VOICE \<Rightarrow> 0 | A_CALL_DATA \<Rightarrow> 1 | A_CALL_FAX \<Rightarrow> 2 | A_CALL_UNKNOWN \<Rightarrow> 9)"

definition call_line :: "voice_call \<Rightarrow> string" where
  "call_line c = ''+CLCC: '' @ show_int (vc_id c) @ '','' @ show_int (dir_num (vc_dir c)) @ '','' @ show_int (state_num (vc_state c))
     @ '','' @ show_int (mode_num (vc_mode c)) @ '','' @ show_int (vc_multi c) @ '','' @ [CHR 0x22] @ vc_number c @ [CHR 0x22]
     @ '',129'' @ [CHR 0x0D, CHR 0x0A]"

text \<open>Lines that are added to the output buffer of 1024 characters one after the other: the
  terminating zero is stored behind them.\<close>

definition em_lines :: "string list \<Rightarrow> reply option" where
  "em_lines ls = (if length (concat ls) < 1024 then Some (Printed (concat ls)) else None)"

definition handleListCurrentCalls :: "call_table \<Rightarrow> reply option" where
  "handleListCurrentCalls ct =
     em_lines (map call_line (filter (\<lambda>c. vc_mode c = A_CALL_VOICE) (take (ct_count ct) (ct_calls ct))))"

section \<open>The calls in use\<close>

definition live :: "call_table \<Rightarrow> voice_call list" where
  "live ct = take (ct_count ct) (ct_calls ct)"

definition call_ok :: "voice_call \<Rightarrow> bool" where
  "call_ok c = (1 \<le> vc_id c \<and> vc_id c \<le> int MAX_CALLS \<and> length (vc_number c) \<le> A_CALL_NUMBER_MAX_SIZE)"

definition calls_ok :: "call_table \<Rightarrow> bool" where
  "calls_ok ct = (length (ct_calls ct) = MAX_CALLS \<and> ct_count ct \<le> MAX_CALLS \<and>
     distinct (map vc_id (live ct)) \<and> (\<forall>c \<in> set (live ct). call_ok c))"

definition apply_action :: "(voice_call \<Rightarrow> call_action) \<Rightarrow> voice_call \<Rightarrow> voice_call list" where
  "apply_action act c = (case act c of Keep \<Rightarrow> [c] | Free \<Rightarrow> [] | Set_state s \<Rightarrow> [c\<lparr>vc_state := s\<rparr>])"

lemma live_nth: "nn < ct_count ct \<Longrightarrow> ct_calls ct ! nn = live ct ! nn"
  by (simp add: live_def)

lemma length_live: "ct_count ct \<le> length (ct_calls ct) \<Longrightarrow> length (live ct) = ct_count ct"
  by (simp add: live_def)

lemma live_notify [simp]: "live (em_notify ct) = live ct" "ct_calls (em_notify ct) = ct_calls ct"
  "ct_count (em_notify ct) = ct_count ct" "ct_emergency_numbers (em_notify ct) = ct_emergency_numbers ct"
  by (simp_all add: live_def em_notify_def)

lemma live_sent [simp]: "live (em_send_calls_update ct) = live ct" "ct_calls (em_send_calls_update ct) = ct_calls ct"
  "ct_count (em_send_calls_update ct) = ct_count ct"
  by (simp_all add: live_def em_send_calls_update_def)

lemma calls_ok_length: "calls_ok ct \<Longrightarrow> ct_count ct \<le> length (ct_calls ct)"
  by (simp add: calls_ok_def)

lemma calls_ok_cong: "calls_ok ct \<Longrightarrow> live ct' = live ct \<Longrightarrow> length (ct_calls ct') = length (ct_calls ct) \<Longrightarrow>
    ct_count ct' = ct_count ct \<Longrightarrow> calls_ok ct'"
  by (simp add: calls_ok_def)

lemma take_without:
  assumes "i < n" "n \<le> length xs"
  shows "take (n - 1) (take i xs @ take (n - 1 - i) (drop (i + 1) xs) @ zs) = take i (take n xs) @ drop (i + 1) (take n xs)"
proof -
  have len: "length (take i xs) = i" "length (take (n - 1 - i) (drop (i + 1) xs)) = n - 1 - i" using assms by auto
  have "take (n - 1) (take i xs @ take (n - 1 - i) (drop (i + 1) xs) @ zs) = take i xs @ take (n - 1 - i) (drop (i + 1) xs)"
    using assms unfolding take_append len by simp
  then show ?thesis using assms by (simp add: drop_take min_def)
qed

lemma em_free_call_live:
  assumes "i < ct_count ct" "ct_count ct \<le> length (ct_calls ct)"
  obtains ct' where "em_free_call alloc i ct = Some ct'" "live ct' = take i (live ct) @ drop (i + 1) (live ct)"
    "length (ct_calls ct') = length (ct_calls ct)" "ct_count ct' = ct_count ct - 1"
proof -
  define c where "c = ct_calls ct ! i"
  define cs where "cs = (if vc_is_remote c then (ct_calls ct)[i := c\<lparr>vc_is_remote := False\<rparr>] else ct_calls ct)"
  have len: "length cs = length (ct_calls ct)" by (simp add: cs_def)
  have parts: "take i cs = take i (ct_calls ct)" "drop (i + 1) cs = drop (i + 1) (ct_calls ct)" by (simp_all add: cs_def)
  have "\<exists>ct'. em_free_call alloc i ct = Some ct' \<and>
      ct_calls ct' = take i cs @ take (ct_count ct - 1 - i) (drop (i + 1) cs) @ drop (ct_count ct - 1) cs \<and>
      ct_count ct' = ct_count ct - 1"
    using assms(1) by (cases "vc_is_remote c") (simp_all add: em_free_call_def Let_def cs_def c_def [symmetric])
  then obtain ct' where ct': "em_free_call alloc i ct = Some ct'"
      "ct_calls ct' = take i cs @ take (ct_count ct - 1 - i) (drop (i + 1) cs) @ drop (ct_count ct - 1) cs"
      "ct_count ct' = ct_count ct - 1" by blast
  have "live ct' = take i (live ct) @ drop (i + 1) (live ct)"
    using assms len unfolding live_def ct'(2,3) parts by (intro take_without) simp_all
  moreover have "length (ct_calls ct') = length (ct_calls ct)"
    using assms len unfolding ct'(2) by (simp add: min_def) linarith
  ultimately show ?thesis using that ct'(1,3) by blast
qed

lemma acall_set_state_live:
  assumes "i < ct_count ct" "ct_count ct \<le> length (ct_calls ct)"
  shows "live (acall_set_state alloc i s ct) = (live ct)[i := (live ct ! i)\<lparr>vc_state := s\<rparr>]"
    "length (ct_calls (acall_set_state alloc i s ct)) = length (ct_calls ct)"
proof -
  have nth: "ct_calls ct ! i = live ct ! i" using assms(1) by (rule live_nth)
  have upd: "take (ct_count ct) ((ct_calls ct)[i := x]) = (live ct)[i := x]" for x
    by (simp add: live_def take_update_swap)
  have same: "(live ct)[i := (live ct ! i)\<lparr>vc_state := vc_state (live ct ! i)\<rparr>] = live ct" by simp
  show "live (acall_set_state alloc i s ct) = (live ct)[i := (live ct ! i)\<lparr>vc_state := s\<rparr>]"
  proof (cases "s = vc_state (live ct ! i)")
    case True
    then show ?thesis using same nth by (simp add: acall_set_state_def Let_def)
  next
    case False
    then show ?thesis
      using upd by (simp add: acall_set_state_def Let_def nth live_def [of "_\<lparr>ct_calls := _\<rparr>"] split: call_state.split)
  qed
  show "length (ct_calls (acall_set_state alloc i s ct)) = length (ct_calls ct)"
    by (cases s) (simp_all add: acall_set_state_def Let_def)
qed

lemma walk_calls_live:
  assumes "ct_count ct \<le> length (ct_calls ct)" "nn \<le> ct_count ct"
  shows "\<exists>ct'. walk_calls alloc act nn ct = Some ct' \<and> length (ct_calls ct') = length (ct_calls ct) \<and>
    ct_count ct' \<le> ct_count ct \<and> live ct' = take nn (live ct) @ concat (map (apply_action act) (drop nn (live ct)))"
  using assms
proof (induction alloc act nn ct rule: walk_calls.induct)
  case (1 alloc act nn ct)
  have len: "length (live ct) = ct_count ct" using 1(4) by (rule length_live)
  show ?case
  proof (cases "nn < ct_count ct")
    case False
    then show ?thesis using 1(5) len by (subst walk_calls.simps) simp
  next
    case True
    define c where "c = live ct ! nn"
    have c: "ct_calls ct ! nn = c" using True by (simp add: live_nth c_def)
    have drop: "drop nn (live ct) = c # drop (nn + 1) (live ct)"
      using True len by (simp add: c_def Cons_nth_drop_Suc)
    show ?thesis
    proof (cases "act c")
      case Keep
      have "take (nn + 1) (live ct) = take nn (live ct) @ [c]"
        using True len by (simp add: c_def take_Suc_conv_app_nth)
      moreover have "apply_action act c = [c]" using Keep by (simp add: apply_action_def)
      ultimately show ?thesis
        using Keep 1(1) True c drop 1(4) by (simp add: walk_calls.simps [of alloc act nn])
    next
      case Free
      obtain ct1 where ct1: "em_free_call alloc nn ct = Some ct1"
          "live ct1 = take nn (live ct) @ drop (nn + 1) (live ct)"
          "length (ct_calls ct1) = length (ct_calls ct)" "ct_count ct1 = ct_count ct - 1"
        using em_free_call_live [OF True 1(4)] by blast
      have "\<exists>ct'. walk_calls alloc act nn ct1 = Some ct' \<and> length (ct_calls ct') = length (ct_calls ct1) \<and>
          ct_count ct' \<le> ct_count ct1 \<and> live ct' = take nn (live ct1) @ concat (map (apply_action act) (drop nn (live ct1)))"
        using 1(2) [OF True] Free c ct1 1(4) True by simp
      then obtain ct' where ct': "walk_calls alloc act nn ct1 = Some ct'" "length (ct_calls ct') = length (ct_calls ct1)"
          "ct_count ct' \<le> ct_count ct1" "live ct' = take nn (live ct1) @ concat (map (apply_action act) (drop nn (live ct1)))"
        by blast
      have "ct_count ct' \<le> ct_count ct" using ct'(3) ct1(4) by linarith
      moreover have "apply_action act c = []" using Free by (simp add: apply_action_def)
      ultimately show ?thesis
        using Free c ct1 ct' drop True len by (simp add: walk_calls.simps [of alloc act nn ct])
    next
      case (Set_state s)
      define ct1 where "ct1 = acall_set_state alloc nn s ct"
      have live1: "live ct1 = (live ct)[nn := c\<lparr>vc_state := s\<rparr>]" "length (ct_calls ct1) = length (ct_calls ct)"
        "ct_count ct1 = ct_count ct"
        using acall_set_state_live [OF True 1(4)] by (simp_all add: ct1_def c_def acall_set_state_count)
      have take: "take (nn + 1) (live ct1) = take nn (live ct) @ [c\<lparr>vc_state := s\<rparr>]"
        using True len by (simp add: live1 take_Suc_conv_app_nth)
      have dr: "drop (nn + 1) (live ct1) = drop (nn + 1) (live ct)" by (simp add: live1)
      have "\<exists>ct'. walk_calls alloc act (nn + 1) ct1 = Some ct' \<and> length (ct_calls ct') = length (ct_calls ct1) \<and>
          ct_count ct' \<le> ct_count ct1 \<and>
          live ct' = take (nn + 1) (live ct1) @ concat (map (apply_action act) (drop (nn + 1) (live ct1)))"
        using 1(3) [OF True] Set_state c live1 1(4) True by (simp add: ct1_def)
      moreover have "apply_action act c = [c\<lparr>vc_state := s\<rparr>]" using Set_state by (simp add: apply_action_def)
      ultimately show ?thesis
        using Set_state c True drop live1(2,3) unfolding take dr
        by (simp add: walk_calls.simps [of alloc act nn ct] ct1_def [symmetric])
    qed
  qed
qed

section \<open>Operations keep the array well formed\<close>

lemma actions_ids:
  "set (map vc_id (concat (map (apply_action act) xs))) \<subseteq> set (map vc_id xs)"
  "distinct (map vc_id xs) \<Longrightarrow> distinct (map vc_id (concat (map (apply_action act) xs)))"
proof (induction xs)
  case (Cons x xs)
  { case 1 show ?case using Cons(1) by (cases "act x") (auto simp: apply_action_def) }
  { case 2 then show ?case
      using Cons by (cases "act x") (auto simp: apply_action_def) }
qed simp_all

lemma apply_action_ok: "call_ok c \<Longrightarrow> x \<in> set (apply_action act c) \<Longrightarrow> call_ok x"
  by (auto simp: apply_action_def call_ok_def split: call_action.splits)

lemma calls_ok_sub:
  assumes "calls_ok ct" "length (ct_calls ct') = length (ct_calls ct)" "ct_count ct' \<le> ct_count ct"
    "distinct (map vc_id (live ct'))" "\<And>c. c \<in> set (live ct') \<Longrightarrow> call_ok c"
  shows "calls_ok ct'"
  using assms by (auto simp: calls_ok_def)

lemma walk_calls_ok:
  assumes "calls_ok ct"
  obtains ct' where "walk_calls alloc act 0 ct = Some ct'" "calls_ok ct'"
    "live ct' = concat (map (apply_action act) (live ct))"
proof -
  obtain ct' where ct': "walk_calls alloc act 0 ct = Some ct'" "length (ct_calls ct') = length (ct_calls ct)"
      "ct_count ct' \<le> ct_count ct" "live ct' = concat (map (apply_action act) (live ct))"
    using walk_calls_live [of ct 0 alloc act] calls_ok_length [OF assms] by auto
  have "distinct (map vc_id (live ct'))"
    using assms actions_ids(2) unfolding ct'(4) by (simp add: calls_ok_def)
  moreover have "call_ok c" if "c \<in> set (live ct')" for c
    using that assms apply_action_ok unfolding ct'(4) calls_ok_def by (simp, blast)
  ultimately show ?thesis using that ct' calls_ok_sub [OF assms] by blast
qed

lemma distinct_without:
  assumes "distinct xs" "i < length xs"
  shows "distinct (take i xs @ drop (i + 1) xs)"
proof -
  have "distinct (take i xs @ xs ! i # drop (i + 1) xs)" using assms id_take_nth_drop [OF assms(2)] by simp
  then show ?thesis by simp
qed

lemma em_free_call_ok:
  assumes "calls_ok ct" "i < ct_count ct"
  obtains ct' where "em_free_call alloc i ct = Some ct'" "calls_ok ct'" "live ct' = take i (live ct) @ drop (i + 1) (live ct)"
proof -
  obtain ct' where ct': "em_free_call alloc i ct = Some ct'" "live ct' = take i (live ct) @ drop (i + 1) (live ct)"
      "length (ct_calls ct') = length (ct_calls ct)" "ct_count ct' = ct_count ct - 1"
    using em_free_call_live [OF assms(2) calls_ok_length [OF assms(1)]] by blast
  have "distinct (map vc_id (live ct'))"
    using distinct_without [of "map vc_id (live ct)" i] assms unfolding ct'(2)
    by (simp add: calls_ok_def length_live take_map drop_map)
  moreover have "call_ok c" if "c \<in> set (live ct')" for c
    using that assms unfolding ct'(2) calls_ok_def by (auto dest: in_set_takeD in_set_dropD)
  ultimately show ?thesis using that ct' calls_ok_sub [OF assms(1) ct'(3)] by simp
qed

lemma acall_set_state_ok:
  assumes "calls_ok ct" "i < ct_count ct"
  shows "calls_ok (acall_set_state alloc i s ct)"
proof -
  note live = acall_set_state_live [OF assms(2) calls_ok_length [OF assms(1)], of alloc s]
  have i: "i < length (live ct)" using assms by (simp add: length_live calls_ok_length)
  have "map vc_id (live (acall_set_state alloc i s ct)) = map vc_id (live ct)"
    using i unfolding live(1) by (simp add: map_update list_update_same_conv)
  moreover have "call_ok c" if "c \<in> set (live (acall_set_state alloc i s ct))" for c
  proof -
    have "call_ok (live ct ! i)" using assms(1) i by (simp add: calls_ok_def)
    then have "call_ok ((live ct ! i)\<lparr>vc_state := s\<rparr>)" by (simp add: call_ok_def)
    then show ?thesis
      using that assms(1) set_update_subset_insert [of "live ct" i] unfolding live(1) calls_ok_def by blast
  qed
  ultimately show ?thesis
    using assms(1) live(2) by (auto simp: calls_ok_def acall_set_state_count)
qed

text \<open>The id of a new call is the smallest one that is not in use.\<close>

lemma free_call_id_fresh:
  assumes "calls_ok ct"
  shows "int (free_call_id ct) + 1 \<notin> vc_id ` set (live ct)" "free_call_id ct \<le> ct_count ct"
    "\<And>n. n < free_call_id ct \<Longrightarrow> int n + 1 \<in> vc_id ` set (live ct)"
proof -
  define P where "P = (\<lambda>n. \<exists>c \<in> set (live ct). vc_id c = int n + 1)"
  define f where "f = free_call_id ct"
  have f: "f = length (takeWhile P [0..<ct_count ct])" by (simp add: f_def P_def free_call_id_def live_def)
  have img: "int n + 1 \<in> vc_id ` set (live ct) \<longleftrightarrow> P n" for n by (force simp: P_def)
  show le: "free_call_id ct \<le> ct_count ct" unfolding f_def [symmetric] f using length_takeWhile_le [of P "[0..<ct_count ct]"] by simp
  have below: "P n" if "n < f" for n
  proof -
    have "takeWhile P [0..<ct_count ct] ! n = [0..<ct_count ct] ! n" using that f by (simp add: takeWhile_nth)
    moreover have "n < ct_count ct" using that le by (simp add: f_def)
    ultimately show ?thesis using that f set_takeWhileD [of n P "[0..<ct_count ct]"] by (metis nth_mem nth_upt plus_nat.add_0)
  qed
  then show "int n + 1 \<in> vc_id ` set (live ct)" if "n < free_call_id ct" for n using that img f_def by simp
  have "\<not> P f"
  proof (cases "f < ct_count ct")
    case True
    then show ?thesis using nth_length_takeWhile [of P "[0..<ct_count ct]"] f by simp
  next
    case False
    then have full: "f = ct_count ct" using le f_def by simp
    have "(\<lambda>n. int n + 1) ` {..<f} \<subseteq> vc_id ` set (live ct)" using below img by blast
    moreover have "card (vc_id ` set (live ct)) \<le> f"
      using card_image_le [of "set (live ct)" vc_id] card_length [of "live ct"] full assms
      by (simp add: length_live calls_ok_length)
    moreover have "card ((\<lambda>n. int n + 1) ` {..<f}) = f" by (simp add: card_image inj_on_def)
    ultimately have "(\<lambda>n. int n + 1) ` {..<f} = vc_id ` set (live ct)" by (intro card_seteq) simp_all
    then show ?thesis using img by (metis (no_types, lifting) add_right_cancel imageE lessThan_iff nat_neq_iff of_nat_eq_iff)
  qed
  then show "int (free_call_id ct) + 1 \<notin> vc_id ` set (live ct)" using img f_def by simp
qed

definition new_call :: "(voice_call \<Rightarrow> voice_call) \<Rightarrow> call_table \<Rightarrow> voice_call" where
  "new_call f ct = f ((ct_calls ct ! ct_count ct)\<lparr>vc_id := int (free_call_id ct) + 1\<rparr>)"

lemma em_alloc_call_put:
  assumes "calls_ok ct" "em_alloc_call ct = (Some i, ct1)"
    and "vc_id (new_call f ct) = int (free_call_id ct) + 1" "length (vc_number (new_call f ct)) \<le> A_CALL_NUMBER_MAX_SIZE"
  defines "ct2 \<equiv> ct1\<lparr>ct_calls := (ct_calls ct1)[i := f (ct_calls ct1 ! i)]\<rparr>"
  shows "calls_ok ct2" "live ct2 = live ct @ [new_call f ct]"
proof -
  let ?n = "ct_count ct"
  have n: "?n < 4" "length (ct_calls ct) = 4" "i = ?n"
    using assms(1,2) by (auto simp: em_alloc_call_def MAX_CALLS_def calls_ok_def Let_def split: if_splits)
  have ct2: "ct_count ct2 = ?n + 1" "ct_calls ct2 = (ct_calls ct)[?n := new_call f ct]"
    using assms(2) n by (auto simp: ct2_def em_alloc_call_def MAX_CALLS_def Let_def new_call_def split: if_splits)
  show live: "live ct2 = live ct @ [new_call f ct]"
    using n unfolding live_def ct2 by (simp add: take_Suc_conv_app_nth)
  have "call_ok (new_call f ct)"
    using assms(3,4) free_call_id_fresh(2) [OF assms(1)] n by (simp add: call_ok_def MAX_CALLS_def)
  then show "calls_ok ct2"
    using assms(1,3) free_call_id_fresh(1) [OF assms(1)] n ct2
    unfolding calls_ok_def live by (auto simp: MAX_CALLS_def)
qed

lemma dial_number_length:
  assumes "dial_number prefix cmd = Some n"
  shows "length n \<le> A_CALL_NUMBER_MAX_SIZE"
  using assms by (auto simp: dial_number_def Let_def A_CALL_NUMBER_MAX_SIZE_def split: if_splits)

lemma dial_number_some: "7 \<le> length prefix \<Longrightarrow> length prefix \<le> 11 \<Longrightarrow> \<exists>n. dial_number prefix cmd = Some n"
  by (simp add: dial_number_def Let_def)

section \<open>Histories of calls\<close>

text \<open>What the guest and the network do with the calls. The timers that would report the
  progress of a call are disabled in the source, so no step stands for them.\<close>

datatype call_op = Dial string | Inbound bool string | Answer | Busy | Hangup string
  | Update "string option" call_state | Disconnect "string option"

fun call_step :: "string \<Rightarrow> bool \<Rightarrow> call_op \<Rightarrow> call_table \<Rightarrow> call_table option" where
  "call_step prefix alloc (Dial n) ct = map_option snd (handleDial prefix (CHR ''D'' # n) ct)"
| "call_step prefix alloc (Inbound radio_on n) ct = Some (snd (em_add_inbound_call radio_on n ct))"
| "call_step prefix alloc Answer ct = map_option snd (handleAnswer alloc ''A'' ct)"
| "call_step prefix alloc Busy ct = map_option snd (handleAnswer alloc ''H'' ct)"
| "call_step prefix alloc (Hangup s) ct = map_option snd (handleHangup alloc (''+CHLD='' @ s) ct)"
| "call_step prefix alloc (Update n s) ct = Some (snd (em_update_call alloc n s ct))"
| "call_step prefix alloc (Disconnect n) ct = map_option snd (em_disconnect_call alloc n ct)"

fun call_run :: "string \<Rightarrow> bool \<Rightarrow> call_op list \<Rightarrow> call_table \<Rightarrow> call_table option" where
  "call_run prefix alloc [] ct = Some ct"
| "call_run prefix alloc (op # ops) ct =
     (case call_step prefix alloc op ct of None \<Rightarrow> None | Some ct' \<Rightarrow> call_run prefix alloc ops ct')"

lemma find_upt:
  assumes "find P [0..<n] = Some i"
  shows "i < n" "P i" "\<And>j. j < i \<Longrightarrow> \<not> P j"
  using assms by (auto simp: find_Some_iff)

lemma calls_ok_sent: "calls_ok (em_send_calls_update ct) = calls_ok ct"
  by (simp add: calls_ok_def)

lemma calls_ok_emergency: "calls_ok (ct\<lparr>ct_in_emergency_mode := m\<rparr>) = calls_ok ct"
  by (simp add: calls_ok_def live_def)

lemma em_alloc_call_full: "em_alloc_call ct = (None, ct1) \<Longrightarrow> ct1 = ct"
  by (simp add: em_alloc_call_def Let_def split: if_splits)

text \<open>A command was carried out and left the calls well formed.\<close>

definition done_ok :: "('a \<times> call_table) option \<Rightarrow> bool" where
  "done_ok res = (case res of None \<Rightarrow> False | Some (r, ct) \<Rightarrow> calls_ok ct)"

lemma done_ok_Some [simp]: "done_ok (Some (r, ct)) = calls_ok ct"
  by (simp add: done_ok_def)

lemma done_okD: "done_ok res \<Longrightarrow> \<exists>ct'. map_option snd res = Some ct' \<and> calls_ok ct'"
  by (auto simp: done_ok_def split: option.splits)

lemma handleDial_ok:
  assumes "calls_ok ct" "7 \<le> length prefix" "length prefix \<le> 11"
  shows "done_ok (handleDial prefix (CHR ''D'' # n) ct)"
proof (cases "em_alloc_call ct")
  case (Pair ci ct1)
  show ?thesis
  proof (cases ci)
    case None
    then show ?thesis using Pair em_alloc_call_full [of ct ct1] assms(1) by (simp add: handleDial_def)
  next
    case (Some i)
    obtain number where number: "dial_number prefix n = Some number" using dial_number_some [OF assms(2,3)] by blast
    define f where "f = (\<lambda>c :: voice_call. c\<lparr>vc_dir := A_CALL_OUTBOUND, vc_state := A_CALL_DIALING, vc_mode := A_CALL_VOICE,
       vc_multi := 0, vc_number := number, vc_is_remote := (0 < remote_number_string_to_port number)\<rparr>)"
    define ct2 where "ct2 = ct1\<lparr>ct_calls := (ct_calls ct1)[i := f (ct_calls ct1 ! i)]\<rparr>"
    have "calls_ok ct2"
      using em_alloc_call_put(1) [OF assms(1) Pair [unfolded Some], of f] dial_number_length [OF number]
      by (simp add: ct2_def f_def new_call_def)
    moreover have "handleDial prefix (CHR ''D'' # n) ct =
        Some (if em_is_emergency ct2 number then (Printed ''+WSOS: 1'', ct2\<lparr>ct_in_emergency_mode := 1\<rparr>) else (Printed [], ct2))"
      using Pair Some number by (simp add: handleDial_def Let_def ct2_def f_def char_at_def)
    ultimately show ?thesis by (simp add: calls_ok_emergency)
  qed
qed

lemma em_add_inbound_call_ok: "calls_ok ct \<Longrightarrow> calls_ok (snd (em_add_inbound_call radio_on n ct))"
proof (cases "em_alloc_call ct")
  case (Pair ci ct1)
  assume ok: "calls_ok ct"
  show ?thesis
  proof (cases ci)
    case None
    then show ?thesis using Pair em_alloc_call_full [of ct ct1] ok by (simp add: em_add_inbound_call_def)
  next
    case (Some i)
    define f where "f = (\<lambda>c :: voice_call. c\<lparr>vc_dir := A_CALL_INBOUND, vc_state := A_CALL_INCOMING, vc_mode := A_CALL_VOICE,
       vc_multi := 0, vc_is_remote := (0 < remote_number_string_to_port n), vc_number := take A_CALL_NUMBER_MAX_SIZE n\<rparr>)"
    have "calls_ok (ct1\<lparr>ct_calls := (ct_calls ct1)[i := f (ct_calls ct1 ! i)]\<rparr>)"
      using em_alloc_call_put(1) [OF ok Pair [unfolded Some], of f] by (simp add: f_def new_call_def)
    then show ?thesis using Pair Some ok by (simp add: em_add_inbound_call_def calls_ok_sent f_def)
  qed
qed

lemma walk_done_ok: "calls_ok ct \<Longrightarrow> done_ok (map_option (Pair r) (walk_calls alloc act 0 ct))"
  by (erule walk_calls_ok [of ct alloc act]) simp

lemma free_done_ok: "calls_ok ct \<Longrightarrow> i < ct_count ct \<Longrightarrow> done_ok (map_option (Pair r) (em_free_call alloc i ct))"
  by (erule (1) em_free_call_ok [of ct i alloc]) simp

lemma handleAnswer_ok: "calls_ok ct \<Longrightarrow> done_ok (handleAnswer alloc cmd ct)"
  by (auto simp: handleAnswer_def walk_done_ok split: option.split dest!: find_upt(1) intro!: free_done_ok)

lemma join_held_ok: "calls_ok ct \<Longrightarrow> calls_ok (join_held alloc ct)"
  by (auto simp: join_held_def split: option.split dest!: find_upt(1) intro: acall_set_state_ok)

lemma find_done_ok:
  "calls_ok ct \<Longrightarrow> done_ok (case em_find_call ct k of None \<Rightarrow> Some (No_reply, ct)
      | Some i \<Rightarrow> map_option (Pair No_reply) (em_free_call alloc i ct))"
  by (auto simp: em_find_call_def split: option.split dest!: find_upt(1) intro!: free_done_ok)

lemma done_ok_if: "done_ok x \<Longrightarrow> done_ok y \<Longrightarrow> done_ok (if b then x else y)"
  by simp

lemma handleHangup_ok: "calls_ok ct \<Longrightarrow> done_ok (handleHangup alloc cmd ct)"
  unfolding handleHangup_def Let_def
  by (intro done_ok_if) (simp_all only: done_ok_Some walk_done_ok find_done_ok join_held_ok)

lemma em_update_call_ok: "calls_ok ct \<Longrightarrow> calls_ok (snd (em_update_call alloc n s ct))"
  by (auto simp: em_update_call_def em_find_call_by_number_def calls_ok_sent split: option.split dest!: find_upt(1) intro: acall_set_state_ok)

lemma em_disconnect_call_ok: "calls_ok ct \<Longrightarrow> done_ok (em_disconnect_call alloc n ct)"
proof (cases "em_find_call_by_number ct n")
  case (Some i)
  assume ok: "calls_ok ct"
  have "i < ct_count ct" using Some by (auto simp: em_find_call_by_number_def split: option.splits dest: find_upt(1))
  then obtain ct' where "em_free_call alloc i ct = Some ct'" "calls_ok ct'" using em_free_call_ok [OF ok] by blast
  then show ?thesis using Some by (simp add: em_disconnect_call_def calls_ok_sent)
qed (simp add: em_disconnect_call_def)

lemma call_step_ok:
  assumes "calls_ok ct" "7 \<le> length prefix" "length prefix \<le> 11"
  shows "\<exists>ct'. call_step prefix alloc op ct = Some ct' \<and> calls_ok ct'"
proof (cases op)
  case (Dial n)
  then show ?thesis using done_okD [OF handleDial_ok [OF assms]] by simp
next
  case (Disconnect n)
  then show ?thesis using done_okD [OF em_disconnect_call_ok [OF assms(1)]] by simp
next
  case (Hangup s)
  then show ?thesis using done_okD [OF handleHangup_ok [OF assms(1)]] by simp
next
  case Answer
  then show ?thesis using done_okD [OF handleAnswer_ok [OF assms(1)]] by simp
next
  case Busy
  then show ?thesis using done_okD [OF handleAnswer_ok [OF assms(1)]] by simp
qed (simp_all add: em_add_inbound_call_ok em_update_call_ok assms(1))

lemma call_run_ok:
  assumes "calls_ok ct" "7 \<le> length prefix" "length prefix \<le> 11"
  shows "\<exists>ct'. call_run prefix alloc ops ct = Some ct' \<and> calls_ok ct'"
  using assms(1)
proof (induction ops arbitrary: ct)
  case (Cons op ops)
  obtain ct' where "call_step prefix alloc op ct = Some ct'" "calls_ok ct'"
    using call_step_ok [OF Cons.prems assms(2,3)] by blast
  then show ?case using Cons.IH by simp
qed simp

text \<open>
  Whatever sequence of dialling, answering, hanging up, incoming calls and updates
  happens, every operation is carried out: no assertion fails and the array of four calls is
  not left. At every point there are at most four calls, their ids are pairwise different
  and between 1 and 4, and no number is longer than its array. The prefix is the one of the
  phone number of the SIM card.
\<close>

lemma call_history_ok:
  assumes "calls_ok ct" "7 \<le> length prefix" "length prefix \<le> 11"
  shows "\<exists>ct'. call_run prefix alloc ops ct = Some ct' \<and> length (ct_calls ct') = MAX_CALLS \<and> ct_count ct' \<le> MAX_CALLS \<and>
    distinct (map vc_id (live ct')) \<and>
    (\<forall>c \<in> set (live ct'). 1 \<le> vc_id c \<and> vc_id c \<le> 4 \<and> length (vc_number c) \<le> A_CALL_NUMBER_MAX_SIZE)"
proof -
  obtain ct' where "call_run prefix alloc ops ct = Some ct'" "calls_ok ct'" using call_run_ok [OF assms] by blast
  then show ?thesis by (simp add: calls_ok_def call_ok_def MAX_CALLS_def)
qed

definition idle_call :: voice_call where
  "idle_call = \<lparr>vc_id = 0, vc_dir = A_CALL_OUTBOUND, vc_state = A_CALL_ACTIVE, vc_mode = A_CALL_VOICE, vc_multi = 0,
     vc_number = [], vc_is_remote = False\<rparr>"

definition no_calls :: call_table where
  "no_calls = \<lparr>ct_calls = replicate 4 idle_call, ct_count = 0, ct_base_port = 114514,
     ct_emergency_numbers = [Some ''911'', Some ''112''], ct_in_emergency_mode = 0, ct_remote = \<lparr>rs_heap = Map.empty, rs_head = None, rs_fresh = 0\<rparr>,
     ct_notify = False, ct_notified = [], ct_sent = []\<rparr>"

lemma no_calls_ok: "calls_ok no_calls"
  by (simp add: no_calls_def calls_ok_def MAX_CALLS_def live_def)

section \<open>Dialling and releasing\<close>

text \<open>
  Dialling while fewer than four calls exist appends one call to those in use and leaves
  the others as they are. The new call is outgoing and dialling, carries the dialled number,
  completed by the prefix for short numbers, and has the smallest id that is not in use.
\<close>

lemma dial_appends_call:
  assumes "calls_ok ct" "ct_count ct < MAX_CALLS" "dial_number prefix n = Some number"
  shows "\<exists>r ct' c. handleDial prefix (CHR ''D'' # n) ct = Some (r, ct') \<and> live ct' = live ct @ [c] \<and>
    vc_state c = A_CALL_DIALING \<and> vc_dir c = A_CALL_OUTBOUND \<and> vc_number c = number \<and>
    vc_id c \<notin> vc_id ` set (live ct) \<and> {1..<vc_id c} \<subseteq> vc_id ` set (live ct)"
proof -
  obtain i ct1 where alloc: "em_alloc_call ct = (Some i, ct1)" using assms(2) by (simp add: em_alloc_call_def Let_def)
  define f where "f = (\<lambda>c :: voice_call. c\<lparr>vc_dir := A_CALL_OUTBOUND, vc_state := A_CALL_DIALING, vc_mode := A_CALL_VOICE,
     vc_multi := 0, vc_number := number, vc_is_remote := (0 < remote_number_string_to_port number)\<rparr>)"
  define ct2 where "ct2 = ct1\<lparr>ct_calls := (ct_calls ct1)[i := f (ct_calls ct1 ! i)]\<rparr>"
  have live: "live ct2 = live ct @ [new_call f ct]"
    using em_alloc_call_put(2) [OF assms(1) alloc, of f] dial_number_length [OF assms(3)]
    by (simp add: ct2_def f_def new_call_def)
  have run: "handleDial prefix (CHR ''D'' # n) ct =
      Some (if em_is_emergency ct2 number then (Printed ''+WSOS: 1'', ct2\<lparr>ct_in_emergency_mode := 1\<rparr>) else (Printed [], ct2))"
    using alloc assms(3) by (simp add: handleDial_def Let_def ct2_def f_def char_at_def)
  have below: "{1..<int (free_call_id ct) + 1} \<subseteq> vc_id ` set (live ct)"
  proof
    fix x assume "x \<in> {1..<int (free_call_id ct) + 1}"
    then have "nat (x - 1) < free_call_id ct" "x = int (nat (x - 1)) + 1" by auto
    then show "x \<in> vc_id ` set (live ct)" using free_call_id_fresh(3) [OF assms(1)] by metis
  qed
  have "live (ct2\<lparr>ct_in_emergency_mode := 1\<rparr>) = live ct2" by (simp add: live_def)
  then show ?thesis
    using run live below free_call_id_fresh(1) [OF assms(1)]
    by (intro exI [of _ "fst (the (handleDial prefix (CHR ''D'' # n) ct))"] exI [of _ "snd (the (handleDial prefix (CHR ''D'' # n) ct))"]
        exI [of _ "new_call f ct"]) (simp add: new_call_def f_def)
qed

lemma dial_short_number:
  "\<exists>r ct' c. handleDial ''15555215'' ''D5556;'' no_calls = Some (r, ct') \<and> live ct' = [c] \<and> vc_number c = ''155552155556''"
proof -
  have "dial_number ''15555215'' ''5556;'' = Some ''155552155556''"
    by (simp add: dial_number_def A_CALL_NUMBER_MAX_SIZE_def)
  then show ?thesis
    using dial_appends_call [OF no_calls_ok, of "''15555215''" "''5556;''"] by (auto simp: no_calls_def MAX_CALLS_def live_def)
qed

definition voice_in :: "call_state list \<Rightarrow> voice_call \<Rightarrow> bool" where
  "voice_in states c = (vc_mode c = A_CALL_VOICE \<and> vc_state c \<in> set states)"

definition set_if :: "(voice_call \<Rightarrow> bool) \<Rightarrow> call_state \<Rightarrow> voice_call \<Rightarrow> voice_call" where
  "set_if P s c = (if P c then c\<lparr>vc_state := s\<rparr> else c)"

lemma release_calls: "concat (map (apply_action release_action) xs)
    = filter (\<lambda>c. \<not> voice_in [A_CALL_HELD, A_CALL_WAITING, A_CALL_INCOMING] c) xs"
  by (induction xs) (auto simp: apply_action_def release_action_def voice_in_def)

lemma accept_calls: "concat (map (apply_action accept_action) xs)
    = map (set_if (voice_in [A_CALL_HELD, A_CALL_WAITING]) A_CALL_ACTIVE) (filter (\<lambda>c. \<not> voice_in [A_CALL_ACTIVE] c) xs)"
  by (induction xs) (auto simp: apply_action_def accept_action_def voice_in_def set_if_def)

lemma swap_calls: "concat (map (apply_action swap_action) xs)
    = map (\<lambda>c. if voice_in [A_CALL_ACTIVE] c then c\<lparr>vc_state := A_CALL_HELD\<rparr>
        else set_if (voice_in [A_CALL_HELD, A_CALL_WAITING]) A_CALL_ACTIVE c) xs"
  by (induction xs) (auto simp: apply_action_def swap_action_def voice_in_def set_if_def)

lemma hold_calls: "concat (map (apply_action (hold_action k)) xs)
    = map (set_if (\<lambda>c. voice_in [A_CALL_ACTIVE] c \<and> vc_id c \<noteq> k) A_CALL_HELD) xs"
  by (induction xs) (auto simp: apply_action_def hold_action_def voice_in_def set_if_def)

lemma filter_without:
  assumes "distinct (map f xs)" "i < length xs" "f (xs ! i) = v"
  shows "filter (\<lambda>x. f x \<noteq> v) xs = take i xs @ drop (i + 1) xs"
proof -
  have xs: "xs = take i xs @ xs ! i # drop (i + 1) xs" using id_take_nth_drop [OF assms(2)] by simp
  have "distinct (map f (take i xs @ xs ! i # drop (i + 1) xs))" using assms(1) xs by simp
  then have "f (xs ! i) \<notin> f ` set (take i xs)" "f (xs ! i) \<notin> f ` set (drop (i + 1) xs)" by auto
  then have "\<forall>x \<in> set (take i xs) \<union> set (drop (i + 1) xs). f x \<noteq> v" unfolding assms(3) by (fastforce simp: image_iff)
  then have "filter (\<lambda>x. f x \<noteq> v) (take i xs @ xs ! i # drop (i + 1) xs) = take i xs @ drop (i + 1) xs"
    using assms(3) by simp
  then show ?thesis unfolding xs [symmetric] .
qed

lemma digit_id:
  assumes "1 \<le> k" "k \<le> 4"
  shows "schar (char_of (48 + k :: int)) - 48 = k" "char_of (48 + k :: int) \<noteq> nul"
proof -
  have "k = 1 \<or> k = 2 \<or> k = 3 \<or> k = 4" using assms by auto
  then show "schar (char_of (48 + k :: int)) - 48 = k" "char_of (48 + k :: int) \<noteq> nul"
    by (elim disjE; simp add: schar_def; code_simp)+
qed

text \<open>The answer to \<^verbatim>\<open>+CHLD\<close> and the calls in use after it.\<close>

definition hangup_result :: "bool \<Rightarrow> call_table \<Rightarrow> string \<Rightarrow> (reply \<times> voice_call list) option" where
  "hangup_result alloc ct cmd = map_option (\<lambda>(r, ct'). (r, live ct')) (handleHangup alloc (''+CHLD='' @ cmd) ct)"

lemma walk_result:
  assumes "calls_ok ct"
  shows "map_option (\<lambda>(r, ct'). (r, live ct')) (map_option (Pair No_reply) (walk_calls alloc act 0 ct))
    = Some (No_reply, concat (map (apply_action act) (live ct)))"
  by (rule walk_calls_ok [OF assms, of alloc act]) simp

lemma find_call_result:
  assumes "calls_ok ct"
  shows "map_option (\<lambda>(r, ct'). (r, live ct')) (case em_find_call ct k of None \<Rightarrow> Some (No_reply, ct)
      | Some i \<Rightarrow> map_option (Pair No_reply) (em_free_call alloc i ct))
    = Some (No_reply, filter (\<lambda>c. vc_id c \<noteq> k) (live ct))"
proof (cases "em_find_call ct k")
  case None
  then have "\<forall>i < ct_count ct. vc_id (live ct ! i) \<noteq> k"
    by (auto simp: em_find_call_def find_None_iff live_nth)
  then have "filter (\<lambda>c. vc_id c \<noteq> k) (live ct) = live ct"
    using length_live [OF calls_ok_length [OF assms]] by (simp add: filter_id_conv all_set_conv_all_nth)
  then show ?thesis using None by simp
next
  case (Some i)
  note found = find_upt(1,2) [OF Some [unfolded em_find_call_def]]
  have i: "i < ct_count ct" "vc_id (live ct ! i) = k" using found live_nth [OF found(1)] by simp_all
  have "filter (\<lambda>c. vc_id c \<noteq> k) (live ct) = take i (live ct) @ drop (i + 1) (live ct)"
    using assms i by (intro filter_without) (simp_all add: calls_ok_def length_live)
  then show ?thesis using Some by (rule_tac em_free_call_ok [OF assms i(1), of alloc]) simp
qed

text \<open>
  The commands that release and hold calls do exactly what they say, on any number of
  calls: 0 releases the held, waiting and incoming ones, 1 releases the active ones and makes
  the held and waiting ones active, 1 with an id releases that call only, 2 swaps active
  with held and waiting ones, and 2 with an id holds all active calls but that one. The
  remaining calls keep their order and everything else.
\<close>

lemma hangup_calls:
  assumes "calls_ok ct" "1 \<le> k" "k \<le> 4"
  shows "hangup_result alloc ct ''0'' = Some (No_reply, filter (\<lambda>c. \<not> voice_in [A_CALL_HELD, A_CALL_WAITING, A_CALL_INCOMING] c) (live ct)) \<and>
    hangup_result alloc ct ''1'' = Some (No_reply, map (set_if (voice_in [A_CALL_HELD, A_CALL_WAITING]) A_CALL_ACTIVE)
        (filter (\<lambda>c. \<not> voice_in [A_CALL_ACTIVE] c) (live ct))) \<and>
    hangup_result alloc ct (''1'' @ [char_of (48 + k)]) = Some (No_reply, filter (\<lambda>c. vc_id c \<noteq> k) (live ct)) \<and>
    hangup_result alloc ct ''2'' = Some (No_reply, map (\<lambda>c. if voice_in [A_CALL_ACTIVE] c then c\<lparr>vc_state := A_CALL_HELD\<rparr>
        else set_if (voice_in [A_CALL_HELD, A_CALL_WAITING]) A_CALL_ACTIVE c) (live ct)) \<and>
    hangup_result alloc ct (''2'' @ [char_of (48 + k)]) = Some (No_reply, map (set_if (\<lambda>c. voice_in [A_CALL_ACTIVE] c \<and> vc_id c \<noteq> k) A_CALL_HELD) (live ct))"
proof -
  note walk = walk_result [OF assms(1), of alloc]
  have k: "schar (char_of (48 + k)) - 48 = k" "char_of (48 + k) \<noteq> nul" using digit_id [OF assms(2,3)] by simp_all
  have "hangup_result alloc ct ''0'' = Some (No_reply, concat (map (apply_action release_action) (live ct)))"
    using walk [of release_action] by (simp add: hangup_result_def handleHangup_def Let_def char_at_def)
  moreover have "hangup_result alloc ct ''1'' = Some (No_reply, concat (map (apply_action accept_action) (live ct)))"
    using walk [of accept_action] by (simp add: hangup_result_def handleHangup_def Let_def char_at_def)
  moreover have "hangup_result alloc ct (''1'' @ [char_of (48 + k)]) = Some (No_reply, filter (\<lambda>c. vc_id c \<noteq> k) (live ct))"
    using find_call_result [OF assms(1), of alloc k] k by (simp add: hangup_result_def handleHangup_def Let_def char_at_def)
  moreover have "hangup_result alloc ct ''2'' = Some (No_reply, concat (map (apply_action swap_action) (live ct)))"
    using walk [of swap_action] by (simp add: hangup_result_def handleHangup_def Let_def char_at_def)
  moreover have "hangup_result alloc ct (''2'' @ [char_of (48 + k)]) = Some (No_reply, concat (map (apply_action (hold_action k)) (live ct)))"
    using walk [of "hold_action k"] k by (simp add: hangup_result_def handleHangup_def Let_def char_at_def)
  ultimately show ?thesis unfolding release_calls accept_calls swap_calls hold_calls by (intro conjI)
qed

text \<open>
  C37. Whatever sequence of dialling, answering, hanging up, incoming calls and updates
  happens, every operation is carried out: no assertion fails and the array of four calls is
  not left. After it the ids of the calls are pairwise different and between 1 and 4, and
  the commands that release and hold calls do exactly what they say: 0 releases the held,
  waiting and incoming ones, 1 releases the active ones and makes the held and waiting
  ones active, 1 with an id releases that call only, 2 swaps active with held and waiting
  ones, and 2 with an id holds all active calls but that one. The remaining calls keep
  their order and everything else. The prefix is the one of the phone number of the SIM
  card.
\<close>

theorem call_commands_correct:
  assumes "calls_ok ct0" "7 \<le> length prefix" "length prefix \<le> 11" "1 \<le> k" "k \<le> 4"
  shows "\<exists>ct. call_run prefix alloc ops ct0 = Some ct \<and> ct_count ct \<le> MAX_CALLS \<and> distinct (map vc_id (live ct)) \<and>
    (\<forall>c \<in> set (live ct). 1 \<le> vc_id c \<and> vc_id c \<le> 4) \<and>
    hangup_result alloc ct ''0'' = Some (No_reply, filter (\<lambda>c. \<not> voice_in [A_CALL_HELD, A_CALL_WAITING, A_CALL_INCOMING] c) (live ct)) \<and>
    hangup_result alloc ct ''1'' = Some (No_reply, map (set_if (voice_in [A_CALL_HELD, A_CALL_WAITING]) A_CALL_ACTIVE)
        (filter (\<lambda>c. \<not> voice_in [A_CALL_ACTIVE] c) (live ct))) \<and>
    hangup_result alloc ct (''1'' @ [char_of (48 + k)]) = Some (No_reply, filter (\<lambda>c. vc_id c \<noteq> k) (live ct)) \<and>
    hangup_result alloc ct ''2'' = Some (No_reply, map (\<lambda>c. if voice_in [A_CALL_ACTIVE] c then c\<lparr>vc_state := A_CALL_HELD\<rparr>
        else set_if (voice_in [A_CALL_HELD, A_CALL_WAITING]) A_CALL_ACTIVE c) (live ct)) \<and>
    hangup_result alloc ct (''2'' @ [char_of (48 + k)]) = Some (No_reply, map (set_if (\<lambda>c. voice_in [A_CALL_ACTIVE] c \<and> vc_id c \<noteq> k) A_CALL_HELD) (live ct))"
proof -
  obtain ct where ct: "call_run prefix alloc ops ct0 = Some ct" "calls_ok ct" using call_run_ok [OF assms(1-3)] by blast
  then have "ct_count ct \<le> MAX_CALLS \<and> distinct (map vc_id (live ct)) \<and> (\<forall>c \<in> set (live ct). 1 \<le> vc_id c \<and> vc_id c \<le> 4)"
    by (simp add: calls_ok_def call_ok_def MAX_CALLS_def)
  then show ?thesis using ct(1) hangup_calls [OF ct(2) assms(4,5), of alloc] by blast
qed

text \<open>One call was answered, and a second one comes in and is rejected by command 0.\<close>

definition demo_calls :: "call_op list" where
  "demo_calls = [Inbound True ''5556'', Answer, Inbound True ''5558'']"

lemma demo_calls_live:
  "map_option live (call_run ''15555215'' True demo_calls no_calls) =
     Some [idle_call\<lparr>vc_id := 1, vc_dir := A_CALL_INBOUND, vc_number := ''5556'', vc_is_remote := True\<rparr>,
       idle_call\<lparr>vc_id := 2, vc_dir := A_CALL_INBOUND, vc_state := A_CALL_INCOMING, vc_number := ''5558'', vc_is_remote := True\<rparr>]"
  by code_simp

theorem call_commands_correct_witness:
  "\<exists>ct. call_run ''15555215'' True demo_calls no_calls = Some ct \<and> length (live ct) = 2 \<and>
     hangup_result True ct ''0'' = Some (No_reply,
       [idle_call\<lparr>vc_id := 1, vc_dir := A_CALL_INBOUND, vc_number := ''5556'', vc_is_remote := True\<rparr>])"
proof -
  obtain ct where ct: "call_run ''15555215'' True demo_calls no_calls = Some ct"
      "hangup_result True ct ''0'' = Some (No_reply, filter (\<lambda>c. \<not> voice_in [A_CALL_HELD, A_CALL_WAITING, A_CALL_INCOMING] c) (live ct))"
    using call_commands_correct [OF no_calls_ok, of "''15555215''" 1 True demo_calls] by auto
  with demo_calls_live show ?thesis by (simp add: voice_in_def idle_call_def)
qed

end
