(* ===== verification/Qdict.thy ===== *)
theory Qdict
  imports C_String
begin

text \<open>
  The dictionaries of \<^verbatim>\<open>qobject/qdict.c\<close> in which the modem keeps its configuration: a
  table of 512 lists of entries, indexed by a hash of the key. Only strings are looked
  into by the functions modelled here; all other objects are opaque. An entry that the
  iteration functions point to is identified by its key.
\<close>

section \<open>The table\<close>

datatype qobject = QString string | Other_qobject nat

type_synonym qdict_entry = "string \<times> qobject"

definition QDICT_BUCKET_MAX :: nat where "QDICT_BUCKET_MAX = 512"

record qdict =
  qd_size :: nat
  qd_table :: "qdict_entry list list"

definition qdict_new :: qdict where
  "qdict_new = \<lparr>qd_size = 0, qd_table = replicate QDICT_BUCKET_MAX []\<rparr>"

fun tdb_loop :: "32 word \<Rightarrow> nat \<Rightarrow> string \<Rightarrow> 32 word" where
  "tdb_loop v i [] = v"
| "tdb_loop v i (c # cs) = tdb_loop (v + push_bit (i * 5 mod 2 ^ 32 mod 24) (of_char c)) (i + 1) cs"

definition tdb_hash :: "string \<Rightarrow> 32 word" where
  "tdb_hash name = 1103515243 * tdb_loop (0x238F13AF * of_nat (length name)) 0 name + 12345"

definition qdict_bucket :: "string \<Rightarrow> nat" where
  "qdict_bucket key = unat (tdb_hash key) mod QDICT_BUCKET_MAX"

definition qdict_find :: "qdict \<Rightarrow> string \<Rightarrow> nat \<Rightarrow> qdict_entry option" where
  "qdict_find d key bucket = find (\<lambda>e. fst e = key) (qd_table d ! bucket)"

fun replace_value :: "string \<Rightarrow> qobject \<Rightarrow> qdict_entry list \<Rightarrow> qdict_entry list" where
  "replace_value key v [] = []"
| "replace_value key v (e # es) = (if fst e = key then (fst e, v) # es else e # replace_value key v es)"

definition qdict_put_obj :: "qdict \<Rightarrow> string \<Rightarrow> qobject \<Rightarrow> qdict" where
  "qdict_put_obj d key v =
     (let b = qdict_bucket key in
      case qdict_find d key b of
        Some _ \<Rightarrow> d\<lparr>qd_table := (qd_table d)[b := replace_value key v (qd_table d ! b)]\<rparr>
      | None \<Rightarrow> d\<lparr>qd_table := (qd_table d)[b := (key, v) # qd_table d ! b], qd_size := qd_size d + 1\<rparr>)"

definition qdict_put_str :: "qdict \<Rightarrow> string \<Rightarrow> string \<Rightarrow> qdict" where
  "qdict_put_str d key v = qdict_put_obj d key (QString v)"

definition qdict_get :: "qdict \<Rightarrow> string \<Rightarrow> qobject option" where
  "qdict_get d key = map_option snd (qdict_find d key (qdict_bucket key))"

definition qdict_haskey :: "qdict \<Rightarrow> string \<Rightarrow> bool" where
  "qdict_haskey d key = (qdict_find d key (qdict_bucket key) \<noteq> None)"

definition qdict_size :: "qdict \<Rightarrow> nat" where
  "qdict_size d = qd_size d"

definition qdict_get_try_str :: "qdict \<Rightarrow> string \<Rightarrow> string option" where
  "qdict_get_try_str d key = (case qdict_get d key of Some (QString s) \<Rightarrow> Some s | _ \<Rightarrow> None)"

fun remove_entry :: "string \<Rightarrow> qdict_entry list \<Rightarrow> qdict_entry list" where
  "remove_entry key [] = []"
| "remove_entry key (e # es) = (if fst e = key then es else e # remove_entry key es)"

definition qdict_del :: "qdict \<Rightarrow> string \<Rightarrow> qdict" where
  "qdict_del d key =
     (let b = qdict_bucket key in
      case qdict_find d key b of
        Some _ \<Rightarrow> d\<lparr>qd_table := (qd_table d)[b := remove_entry key (qd_table d ! b)], qd_size := qd_size d - 1\<rparr>
      | None \<Rightarrow> d)"

section \<open>Iteration\<close>

fun next_entry :: "qdict_entry list list \<Rightarrow> qdict_entry option" where
  "next_entry [] = None"
| "next_entry (b # bs) = (case b of [] \<Rightarrow> next_entry bs | e # _ \<Rightarrow> Some e)"

definition qdict_next_entry :: "qdict \<Rightarrow> nat \<Rightarrow> qdict_entry option" where
  "qdict_next_entry d first_bucket = next_entry (drop first_bucket (qd_table d))"

definition qdict_first :: "qdict \<Rightarrow> qdict_entry option" where
  "qdict_first d = qdict_next_entry d 0"

definition qdict_next :: "qdict \<Rightarrow> qdict_entry \<Rightarrow> qdict_entry option" where
  "qdict_next d e =
     (let b = qdict_bucket (fst e) in
      case tl (dropWhile (\<lambda>x. fst x \<noteq> fst e) (qd_table d ! b)) of
        x # _ \<Rightarrow> Some x
      | [] \<Rightarrow> qdict_next_entry d (b + 1))"

section \<open>A dictionary is a finite map\<close>

definition qdict_map :: "qdict \<Rightarrow> string \<rightharpoonup> qobject" where
  "qdict_map d = (\<lambda>k. map_of (qd_table d ! qdict_bucket k) k)"

definition qdict_entries :: "qdict \<Rightarrow> qdict_entry list" where
  "qdict_entries d = concat (qd_table d)"

definition bucket_ok :: "nat \<Rightarrow> qdict_entry list \<Rightarrow> bool" where
  "bucket_ok b es = (distinct (map fst es) \<and> (\<forall>k \<in> fst ` set es. qdict_bucket k = b))"

definition qdict_ok :: "qdict \<Rightarrow> bool" where
  "qdict_ok d = (length (qd_table d) = QDICT_BUCKET_MAX
     \<and> (\<forall>b < QDICT_BUCKET_MAX. bucket_ok b (qd_table d ! b))
     \<and> qd_size d = length (qdict_entries d))"

lemma qdict_bucket_less [simp]: "qdict_bucket k < QDICT_BUCKET_MAX"
  by (simp add: qdict_bucket_def QDICT_BUCKET_MAX_def)

lemma find_map_of: "find (\<lambda>e. fst e = k) xs = map_option (Pair k) (map_of xs k)"
  by (induction xs) auto

lemma qdict_find_map: "qdict_find d k (qdict_bucket k) = map_option (Pair k) (qdict_map d k)"
  by (simp add: qdict_find_def qdict_map_def find_map_of)

lemma qdict_get_map [simp]: "qdict_get d k = qdict_map d k"
  by (cases "qdict_map d k") (simp_all add: qdict_get_def qdict_find_map)

lemma qdict_haskey_map: "qdict_haskey d k = (k \<in> dom (qdict_map d))"
  by (auto simp: qdict_haskey_def qdict_find_map)

lemma replace_value_fst [simp]: "map fst (replace_value k v xs) = map fst xs"
  by (induction xs) auto

lemma replace_value_map: "k \<in> fst ` set xs \<Longrightarrow> map_of (replace_value k v xs) = (map_of xs)(k \<mapsto> v)"
proof (induction xs)
  case (Cons e es)
  then show ?case by (cases "fst e = k") (auto intro!: ext)
qed simp

lemma replace_value_set: "fst ` set (replace_value k v xs) = fst ` set xs"
  by (induction xs) auto

lemma remove_entry_subset: "set (remove_entry k xs) \<subseteq> set xs"
  by (induction xs) auto

lemma remove_entry_distinct: "distinct (map fst xs) \<Longrightarrow> distinct (map fst (remove_entry k xs))"
  by (induction xs) (auto dest: subsetD [OF remove_entry_subset])

lemma remove_entry_map: "distinct (map fst xs) \<Longrightarrow> map_of (remove_entry k xs) = (map_of xs)(k := None)"
proof (induction xs)
  case (Cons e es)
  show ?case
  proof (cases "fst e = k")
    case True
    then have "map_of es k = None" using Cons.prems by (auto simp: map_of_eq_None_iff)
    then show ?thesis using True by (auto intro!: ext)
  next
    case False
    then show ?thesis using Cons by (auto intro!: ext)
  qed
qed (auto intro!: ext)

lemma remove_entry_length: "k \<in> fst ` set xs \<Longrightarrow> Suc (length (remove_entry k xs)) = length xs"
proof (induction xs)
  case (Cons e es)
  show ?case
  proof (cases "fst e = k")
    case False
    then have "k \<in> fst ` set es" using Cons.prems by auto
    then show ?thesis using Cons.IH False by simp
  qed simp
qed simp

lemma length_concat_update:
  "b < length t \<Longrightarrow> length (concat (t[b := x])) + length (t ! b) = length (concat t) + length x"
proof (induction t arbitrary: b)
  case (Cons y t)
  then show ?case by (cases b) auto
qed simp

lemma bucket_okD:
  assumes "bucket_ok b es"
  shows "distinct (map fst es)" "(k, v) \<in> set es \<Longrightarrow> qdict_bucket k = b"
  using assms unfolding bucket_ok_def by force+

lemma bucket_ok_insert: "bucket_ok (qdict_bucket k) es \<Longrightarrow> k \<notin> fst ` set es \<Longrightarrow> bucket_ok (qdict_bucket k) ((k, v) # es)"
  unfolding bucket_ok_def by simp

lemma bucket_ok_replace: "bucket_ok b es \<Longrightarrow> bucket_ok b (replace_value k v es)"
  unfolding bucket_ok_def replace_value_fst replace_value_set .

lemma bucket_ok_remove: "bucket_ok b es \<Longrightarrow> bucket_ok b (remove_entry k es)"
  unfolding bucket_ok_def using remove_entry_distinct [of es k] remove_entry_subset [of k es] by blast

lemma qdict_ok_bucket: "qdict_ok d \<Longrightarrow> b < QDICT_BUCKET_MAX \<Longrightarrow> bucket_ok b (qd_table d ! b)"
  by (simp add: qdict_ok_def)

lemma qdict_new_ok [simp]: "qdict_ok qdict_new" "qdict_map qdict_new = Map.empty"
  by (auto simp: qdict_ok_def qdict_new_def qdict_map_def qdict_entries_def bucket_ok_def fun_eq_iff)

text \<open>Changing one list of the table keeps the invariant when the list stays one of its
  bucket.\<close>

lemma qdict_ok_update:
  assumes "qdict_ok d" "b < QDICT_BUCKET_MAX" "bucket_ok b x"
    "n + length (qd_table d ! b) = qd_size d + length x"
  shows "qdict_ok (d\<lparr>qd_table := (qd_table d)[b := x], qd_size := n\<rparr>)"
  using assms length_concat_update [of b "qd_table d" x]
  by (simp add: qdict_ok_def qdict_entries_def nth_list_update)

lemma qdict_map_update:
  assumes "qdict_ok d" "map_of x = (map_of (qd_table d ! qdict_bucket k))(k := r)"
  shows "qdict_map (d\<lparr>qd_table := (qd_table d)[qdict_bucket k := x], qd_size := n\<rparr>) = (qdict_map d)(k := r)"
proof (rule ext)
  fix j
  have len: "length (qd_table d) = QDICT_BUCKET_MAX" using assms(1) by (simp add: qdict_ok_def)
  show "qdict_map (d\<lparr>qd_table := (qd_table d)[qdict_bucket k := x], qd_size := n\<rparr>) j = ((qdict_map d)(k := r)) j"
    using assms(2) len by (cases "qdict_bucket j = qdict_bucket k") (auto simp: qdict_map_def nth_list_update)
qed

lemma qdict_put_obj:
  assumes "qdict_ok d"
  shows "qdict_ok (qdict_put_obj d k v)" "qdict_map (qdict_put_obj d k v) = (qdict_map d)(k \<mapsto> v)"
proof -
  let ?b = "qdict_bucket k"
  let ?l = "qd_table d ! ?b"
  have inv: "bucket_ok ?b ?l" by (rule qdict_ok_bucket [OF assms]) simp
  have "qdict_ok (qdict_put_obj d k v) \<and> qdict_map (qdict_put_obj d k v) = (qdict_map d)(k \<mapsto> v)"
  proof (cases "qdict_map d k")
    case None
    then have new: "k \<notin> fst ` set ?l" by (simp add: qdict_map_def map_of_eq_None_iff)
    have put: "qdict_put_obj d k v = d\<lparr>qd_table := (qd_table d)[?b := (k, v) # ?l], qd_size := qd_size d + 1\<rparr>"
      using None by (simp add: qdict_put_obj_def qdict_find_map Let_def)
    have "qdict_ok (qdict_put_obj d k v)"
      unfolding put by (rule qdict_ok_update [OF assms _ bucket_ok_insert [OF inv new]]) simp_all
    moreover have "qdict_map (qdict_put_obj d k v) = (qdict_map d)(k \<mapsto> v)"
      unfolding put by (rule qdict_map_update [OF assms]) simp
    ultimately show ?thesis by blast
  next
    case (Some w)
    then have old: "k \<in> fst ` set ?l" unfolding qdict_map_def by (force dest: map_of_SomeD)
    have put: "qdict_put_obj d k v = d\<lparr>qd_table := (qd_table d)[?b := replace_value k v ?l], qd_size := qd_size d\<rparr>"
      using Some by (simp add: qdict_put_obj_def qdict_find_map Let_def)
    have len: "qd_size d + length ?l = qd_size d + length (replace_value k v ?l)"
      using arg_cong [OF replace_value_fst, of length k v ?l] unfolding length_map by simp
    have "qdict_ok (qdict_put_obj d k v)"
      unfolding put by (rule qdict_ok_update [OF assms _ bucket_ok_replace [OF inv] len]) simp
    moreover have "qdict_map (qdict_put_obj d k v) = (qdict_map d)(k \<mapsto> v)"
      unfolding put by (rule qdict_map_update [OF assms replace_value_map [OF old]])
    ultimately show ?thesis by blast
  qed
  then show "qdict_ok (qdict_put_obj d k v)" "qdict_map (qdict_put_obj d k v) = (qdict_map d)(k \<mapsto> v)" by auto
qed

lemma qdict_del:
  assumes "qdict_ok d"
  shows "qdict_ok (qdict_del d k)" "qdict_map (qdict_del d k) = (qdict_map d)(k := None)"
proof -
  let ?b = "qdict_bucket k"
  let ?l = "qd_table d ! ?b"
  have inv: "bucket_ok ?b ?l" by (rule qdict_ok_bucket [OF assms]) simp
  have "qdict_ok (qdict_del d k) \<and> qdict_map (qdict_del d k) = (qdict_map d)(k := None)"
  proof (cases "qdict_map d k")
    case None
    then have "qdict_del d k = d" by (simp add: qdict_del_def qdict_find_map Let_def)
    then show ?thesis using assms None by (simp add: fun_upd_idem)
  next
    case (Some w)
    then have old: "k \<in> fst ` set ?l" unfolding qdict_map_def by (force dest: map_of_SomeD)
    have del: "qdict_del d k = d\<lparr>qd_table := (qd_table d)[?b := remove_entry k ?l], qd_size := qd_size d - 1\<rparr>"
      using Some by (simp add: qdict_del_def qdict_find_map Let_def)
    have len: "Suc (length (remove_entry k ?l)) = length ?l" by (rule remove_entry_length [OF old])
    have tab: "?b < length (qd_table d)" "qd_size d = length (concat (qd_table d))"
      using assms by (simp_all add: qdict_ok_def qdict_entries_def)
    then have "length ?l \<le> qd_size d" using length_concat_update [of ?b "qd_table d" "[]"] by simp
    then have n: "qd_size d - 1 + length ?l = qd_size d + length (remove_entry k ?l)" using len by simp
    have "qdict_ok (qdict_del d k)" unfolding del
      by (rule qdict_ok_update [OF assms _ bucket_ok_remove [OF inv] n]) simp
    moreover have "qdict_map (qdict_del d k) = (qdict_map d)(k := None)"
      unfolding del by (rule qdict_map_update [OF assms remove_entry_map [OF bucket_okD(1) [OF inv]]])
    ultimately show ?thesis by blast
  qed
  then show "qdict_ok (qdict_del d k)" "qdict_map (qdict_del d k) = (qdict_map d)(k := None)" by auto
qed

section \<open>Iteration visits every entry once\<close>

lemma next_entry_concat: "next_entry bs = (case concat bs of [] \<Rightarrow> None | e # _ \<Rightarrow> Some e)"
proof (induction bs)
  case (Cons b bs)
  then show ?case by (cases b) auto
qed simp

lemma qdict_first_entries: "qdict_first d = (case qdict_entries d of [] \<Rightarrow> None | e # _ \<Rightarrow> Some e)"
  by (simp add: qdict_first_def qdict_next_entry_def next_entry_concat qdict_entries_def)

lemma concat_split:
  assumes "concat bs = xs @ e # ys"
  shows "\<exists>i l r. i < length bs \<and> bs ! i = l @ e # r \<and> ys = r @ concat (drop (Suc i) bs)"
  using assms
proof (induction bs arbitrary: xs)
  case (Cons b bs)
  have later: ?case if "concat bs = us @ e # ys" for us
  proof -
    from Cons.IH [OF that] obtain i l r where "i < length bs" "bs ! i = l @ e # r" "ys = r @ concat (drop (Suc i) bs)"
      by blast
    then show ?thesis by (intro exI [of _ "Suc i"] exI [of _ l] exI [of _ r]) simp
  qed
  from Cons.prems have "b @ concat bs = xs @ e # ys" by simp
  then obtain us where "b = xs @ us \<and> us @ concat bs = e # ys \<or> b @ us = xs \<and> concat bs = us @ e # ys"
    unfolding append_eq_append_conv2 by blast
  then show ?case
  proof
    assume us: "b = xs @ us \<and> us @ concat bs = e # ys"
    show ?thesis
    proof (cases us)
      case Nil
      then show ?thesis using us later [of "[]"] by simp
    next
      case (Cons u r)
      then show ?thesis using us by (intro exI [of _ 0] exI [of _ xs] exI [of _ r]) simp
    qed
  qed (use later in blast)
qed simp

lemma qdict_next_entries:
  assumes "qdict_ok d" "qdict_entries d = xs @ e # ys"
  shows "qdict_next d e = (case ys of [] \<Rightarrow> None | f # _ \<Rightarrow> Some f)"
proof -
  obtain i l r where i: "i < length (qd_table d)" "qd_table d ! i = l @ e # r"
      "ys = r @ concat (drop (Suc i) (qd_table d))"
    using concat_split [OF assms(2) [unfolded qdict_entries_def]] by (elim exE conjE)
  have inv: "bucket_ok i (qd_table d ! i)" using assms(1) i(1) by (simp add: qdict_ok_def)
  have dist: "distinct (map fst (qd_table d ! i))" and b: "qdict_bucket (fst e) = i"
    by (rule bucket_okD(1) [OF inv], rule bucket_okD(2) [OF inv, of _ "snd e"]) (simp add: i(2))
  have new: "fst e \<notin> set (map fst l)" using dist unfolding i(2) by simp
  have "fst x \<noteq> fst e" if "x \<in> set l" for x
    using new that by (metis image_eqI set_map)
  then have "dropWhile (\<lambda>x. fst x \<noteq> fst e) (l @ e # r) = e # r" by (subst dropWhile_append2) auto
  then have "tl (dropWhile (\<lambda>x. fst x \<noteq> fst e) (qd_table d ! i)) = r" by (simp add: i(2))
  then show ?thesis using i(3)
    by (cases r) (simp_all add: qdict_next_def b qdict_next_entry_def next_entry_concat)
qed

lemma concat_buckets_distinct:
  "\<forall>b < length t. bucket_ok (b + m) (t ! b) \<Longrightarrow>
     distinct (map fst (concat t)) \<and> (\<forall>k \<in> fst ` set (concat t). m \<le> qdict_bucket k)"
proof (induction t arbitrary: m)
  case (Cons x t)
  have x: "bucket_ok m x" using spec [OF Cons.prems, of 0] by simp
  have "\<forall>b < length t. bucket_ok (b + Suc m) (t ! b)"
  proof (intro allI impI)
    fix b assume "b < length t"
    then show "bucket_ok (b + Suc m) (t ! b)" using spec [OF Cons.prems, of "Suc b"] by simp
  qed
  from Cons.IH [OF this]
  have t: "distinct (map fst (concat t))" "\<forall>k \<in> fst ` set (concat t). Suc m \<le> qdict_bucket k"
    by simp_all
  have k: "qdict_bucket k = m" if "k \<in> fst ` set x" for k
    using bspec [OF conjunct2 [OF x [unfolded bucket_ok_def]] that] .
  have disj: "fst ` set x \<inter> fst ` set (concat t) = {}"
  proof (intro equals0I, elim IntE)
    fix k assume "k \<in> fst ` set x" "k \<in> fst ` set (concat t)"
    from k [OF this(1)] bspec [OF t(2) this(2)] show False by simp
  qed
  have low: "\<forall>k \<in> fst ` set (concat (x # t)). m \<le> qdict_bucket k"
  proof
    fix j assume "j \<in> fst ` set (concat (x # t))"
    then consider "j \<in> fst ` set x" | "j \<in> fst ` set (concat t)" unfolding concat.simps set_append image_Un by blast
    then show "m \<le> qdict_bucket j"
    proof cases
      case 1
      from k [OF this] show ?thesis by simp
    next
      case 2
      from bspec [OF t(2) this] show ?thesis by simp
    qed
  qed
  have "distinct (map fst (concat (x # t)))"
    unfolding concat.simps map_append distinct_append set_map by (intro conjI bucket_okD(1) [OF x] t(1) disj)
  then show ?case using low by (rule conjI)
qed simp

lemma qdict_entries_distinct: "qdict_ok d \<Longrightarrow> distinct (map fst (qdict_entries d))"
  using concat_buckets_distinct [of "qd_table d" 0] by (simp add: qdict_ok_def qdict_entries_def)

lemma qdict_entries_map:
  assumes "qdict_ok d"
  shows "map_of (qdict_entries d) = qdict_map d"
proof (rule ext)
  fix k
  have len: "length (qd_table d) = QDICT_BUCKET_MAX" using assms by (simp add: qdict_ok_def)
  have in_bucket: "(k, v) \<in> set (qdict_entries d) \<longleftrightarrow> (k, v) \<in> set (qd_table d ! qdict_bucket k)" for v
  proof
    assume "(k, v) \<in> set (qdict_entries d)"
    then obtain b where b: "b < length (qd_table d)" "(k, v) \<in> set (qd_table d ! b)"
      unfolding qdict_entries_def set_concat by (auto simp: in_set_conv_nth [of _ "qd_table d"])
    have "qdict_bucket k = b" using bucket_okD(2) [OF qdict_ok_bucket [OF assms] b(2)] b(1) len by simp
    then show "(k, v) \<in> set (qd_table d ! qdict_bucket k)" using b by simp
  next
    assume "(k, v) \<in> set (qd_table d ! qdict_bucket k)"
    moreover have "qd_table d ! qdict_bucket k \<in> set (qd_table d)" using len by simp
    ultimately show "(k, v) \<in> set (qdict_entries d)" by (auto simp: qdict_entries_def)
  qed
  have dist: "distinct (map fst (qd_table d ! qdict_bucket k))"
    by (rule bucket_okD(1) [OF qdict_ok_bucket [OF assms]]) simp
  have "map_of (qdict_entries d) k = Some v \<longleftrightarrow> qdict_map d k = Some v" for v
    using in_bucket [of v] map_of_eq_Some_iff [OF qdict_entries_distinct [OF assms]] map_of_eq_Some_iff [OF dist]
    by (simp add: qdict_map_def)
  then show "map_of (qdict_entries d) k = qdict_map d k" by (metis not_None_eq)
qed

lemma qdict_size_card:
  assumes "qdict_ok d"
  shows "qdict_size d = card (dom (qdict_map d))"
proof -
  have "length (map fst (qdict_entries d)) = card (fst ` set (qdict_entries d))"
    using distinct_card [OF qdict_entries_distinct [OF assms]] by (simp only: set_map)
  then show ?thesis using assms
    by (simp add: qdict_size_def qdict_ok_def qdict_entries_map [OF assms, symmetric] dom_map_of_conv_image_fst)
qed

section \<open>The interface to the configuration\<close>

text \<open>What a client that keeps strings under string keys relies on.\<close>

locale kv_store =
  fixes lookup :: "'s \<Rightarrow> string \<Rightarrow> string option"
    and store :: "'s \<Rightarrow> string \<Rightarrow> string \<Rightarrow> 's"
    and ok :: "'s \<Rightarrow> bool"
  assumes ok_store: "ok s \<Longrightarrow> ok (store s k v)"
    and lookup_store: "ok s \<Longrightarrow> lookup (store s k v) = (lookup s)(k \<mapsto> v)"
begin

lemma store_all:
  "ok s \<Longrightarrow> ok (foldl (\<lambda>s (k, v). store s k v) s kvs)
     \<and> lookup (foldl (\<lambda>s (k, v). store s k v) s kvs) = lookup s ++ map_of (rev kvs)"
proof (induction kvs arbitrary: s)
  case (Cons p kvs)
  obtain k v where p: "p = (k, v)" by (cases p)
  have "lookup (store s k v) ++ map_of (rev kvs) = lookup s ++ map_of (rev (p # kvs))"
    by (rule ext) (simp add: p lookup_store [OF Cons.prems] map_add_def split: option.split)
  then show ?case using Cons.IH [OF ok_store [OF Cons.prems, of k v]] by (simp only: p foldl.simps prod.case)
qed simp

end

interpretation qd: kv_store qdict_get_try_str qdict_put_str qdict_ok
proof
  fix s :: qdict and k v :: string
  assume ok: "qdict_ok s"
  show "qdict_ok (qdict_put_str s k v)" by (simp add: qdict_put_str_def qdict_put_obj(1) [OF ok])
  show "qdict_get_try_str (qdict_put_str s k v) = (qdict_get_try_str s)(k \<mapsto> v)"
    by (rule ext) (simp add: qdict_get_try_str_def qdict_put_str_def qdict_put_obj(2) [OF ok])
qed

end
