(* ===== verification/Ruim.thy ===== *)
theory Ruim
  imports Qdict
begin

text \<open>
  The configuration of the modem, \<^verbatim>\<open>hw/express-network/em_ruim.c\<close>: a dictionary of strings
  that is loaded from a file of lines \<^verbatim>\<open>key=value\<close> and written back after every change.
  The files are a map from names to contents; which names can be opened for writing and
  whether the object can be allocated are arguments. A missing object is \<open>None\<close> as the
  pointer \<^verbatim>\<open>NULL\<close> is; an outer \<open>None\<close> is a stored object that is not a string, which the
  code would dereference as one.
\<close>

section \<open>Loading and saving\<close>

type_synonym files = "string \<rightharpoonup> string"

record ruim =
  ru_dict :: qdict
  ru_filename :: string

definition RUIM_NOT_FOUND :: int where "RUIM_NOT_FOUND = -12344123"

definition value_end :: string where
  "value_end = [CHR '' '', CHR 0x09, newline, CHR 0x0D]"

definition load_line :: "qdict \<Rightarrow> string \<Rightarrow> qdict" where
  "load_line d line =
     (let (key, r) = strtok ''='' (c_str line); (val, _) = strtok value_end r
      in case key of None \<Rightarrow> d
         | Some k \<Rightarrow> (case val of None \<Rightarrow> d | Some v \<Rightarrow> qdict_put_str d k v))"

function load_loop :: "qdict \<Rightarrow> string \<Rightarrow> qdict" where
  "load_loop d s = (case fgets 256 s of None \<Rightarrow> d | Some (line, r) \<Rightarrow> load_loop (load_line d line) r)"
  by pat_completeness auto

termination load_loop
  by (relation "measure (\<lambda>(d, s). length s)") (auto dest: fgets_progress)

declare load_loop.simps [simp del]

definition ruim_create_from_file :: "bool \<Rightarrow> files \<Rightarrow> string \<Rightarrow> ruim option" where
  "ruim_create_from_file alloc fs filename =
     (if \<not> alloc then None
      else Some \<lparr>ru_dict = (case fs filename of None \<Rightarrow> qdict_new | Some content \<Rightarrow> load_loop qdict_new content),
                 ru_filename = filename\<rparr>)"

definition ruim_line :: "string \<Rightarrow> string \<Rightarrow> string" where
  "ruim_line k v = k @ ''='' @ v @ [newline]"

partial_function (option) save_loop :: "qdict \<Rightarrow> qdict_entry option \<Rightarrow> string \<Rightarrow> string option" where
  "save_loop d entry content =
     (case entry of None \<Rightarrow> Some content
      | Some (k, obj) \<Rightarrow>
          (case obj of QString v \<Rightarrow> save_loop d (qdict_next d (k, obj)) (content @ ruim_line k v)
           | Other_qobject _ \<Rightarrow> None))"

definition ruim_save_to_file :: "(string \<Rightarrow> bool) \<Rightarrow> ruim option \<Rightarrow> files \<Rightarrow> files option" where
  "ruim_save_to_file writable ruim fs =
     (case ruim of None \<Rightarrow> Some fs
      | Some r \<Rightarrow>
          if writable (ru_filename r)
          then (case save_loop (ru_dict r) (qdict_first (ru_dict r)) [] of
                  None \<Rightarrow> None | Some content \<Rightarrow> Some (fs(ru_filename r \<mapsto> content)))
          else Some fs)"

section \<open>Reading and changing\<close>

definition ruim_set_str :: "(string \<Rightarrow> bool) \<Rightarrow> string \<Rightarrow> string option \<Rightarrow> ruim option \<times> files \<Rightarrow> (ruim option \<times> files) option" where
  "ruim_set_str writable key val st =
     (case fst st of None \<Rightarrow> Some st
      | Some r \<Rightarrow>
          (case val of None \<Rightarrow> Some st
           | Some v \<Rightarrow>
               let r' = r\<lparr>ru_dict := qdict_put_str (ru_dict r) key v\<rparr>
               in (case ruim_save_to_file writable (Some r') (snd st) of
                     None \<Rightarrow> None | Some fs \<Rightarrow> Some (Some r', fs))))"

definition ruim_get_int :: "(string \<Rightarrow> bool) \<Rightarrow> string \<Rightarrow> int \<Rightarrow> ruim option \<times> files \<Rightarrow> (int \<times> ruim option \<times> files) option" where
  "ruim_get_int writable key defval st =
     (case fst st of None \<Rightarrow> Some (RUIM_NOT_FOUND, st)
      | Some r \<Rightarrow>
          (case qdict_get_try_str (ru_dict r) key of
             Some str \<Rightarrow> Some (atoi str, st)
           | None \<Rightarrow>
               if defval \<noteq> RUIM_NOT_FOUND
               then map_option (\<lambda>st'. (defval, st')) (ruim_set_str writable key (Some (show_int defval)) st)
               else Some (defval, st)))"

definition ruim_get_str :: "(string \<Rightarrow> bool) \<Rightarrow> string \<Rightarrow> string option \<Rightarrow> ruim option \<times> files \<Rightarrow> (string option \<times> ruim option \<times> files) option" where
  "ruim_get_str writable key defval st =
     (case fst st of None \<Rightarrow> Some (None, st)
      | Some r \<Rightarrow>
          (case qdict_get_try_str (ru_dict r) key of
             Some str \<Rightarrow> Some (Some str, st)
           | None \<Rightarrow>
               if defval \<noteq> None
               then map_option (\<lambda>st'. (defval, st')) (ruim_set_str writable key defval st)
               else Some (defval, st)))"

section \<open>What a file can hold\<close>

text \<open>A key and a value survive a reload when they have none of the characters that end
  them and their line fits the buffer.\<close>

definition entry_ok :: "string \<Rightarrow> string \<Rightarrow> bool" where
  "entry_ok k v = (k \<noteq> [] \<and> v \<noteq> [] \<and> no_nul k \<and> no_nul v
     \<and> set k \<inter> {CHR ''='', newline} = {} \<and> set v \<inter> set value_end = {} \<and> length k + length v \<le> 254)"

definition ruim_ok :: "ruim \<Rightarrow> bool" where
  "ruim_ok r = (qdict_ok (ru_dict r)
     \<and> (\<forall>(k, obj) \<in> set (qdict_entries (ru_dict r)). \<exists>v. obj = QString v \<and> entry_ok k v))"

abbreviation ruim_conf :: "ruim \<Rightarrow> string \<rightharpoonup> string" where
  "ruim_conf r \<equiv> qdict_get_try_str (ru_dict r)"

definition strings_ok :: "qdict \<Rightarrow> bool" where
  "strings_ok d = (qdict_ok d \<and> (\<forall>k obj. qdict_map d k = Some obj \<longrightarrow> (\<exists>v. obj = QString v \<and> entry_ok k v)))"

lemma ruim_ok_strings: "ruim_ok r = strings_ok (ru_dict r)"
proof (cases "qdict_ok (ru_dict r)")
  case True
  have "qdict_map (ru_dict r) k = Some obj \<longleftrightarrow> (k, obj) \<in> set (qdict_entries (ru_dict r))" for k obj
    using map_of_eq_Some_iff [OF qdict_entries_distinct [OF True]] by (simp add: qdict_entries_map [OF True])
  then show ?thesis using True by (auto simp: ruim_ok_def strings_ok_def)
qed (simp add: ruim_ok_def strings_ok_def)

lemma strings_ok_put: "strings_ok d \<Longrightarrow> entry_ok k v \<Longrightarrow> strings_ok (qdict_put_str d k v)"
  by (auto simp: strings_ok_def qdict_put_str_def qdict_put_obj)

lemma strings_ok_new [simp]: "strings_ok qdict_new"
  by (simp add: strings_ok_def)

lemma load_line_ok:
  assumes "strings_ok d" "length line \<le> 255" "newline \<notin> set (butlast line)"
  shows "strings_ok (load_line d line)"
proof -
  obtain key r where kr: "strtok ''='' (c_str line) = (key, r)" by (cases "strtok ''='' (c_str line)")
  obtain val r' where vr: "strtok value_end r = (val, r')" by (cases "strtok value_end r")
  show ?thesis
  proof (cases "\<exists>k v. key = Some k \<and> val = Some v")
    case False
    then show ?thesis using assms(1) by (auto simp: load_line_def kr vr split: option.splits)
  next
    case True
    then obtain k v where kv: "key = Some k" "val = Some v" by blast
    note K = strtok_sound [OF kr [unfolded kv]] and V = strtok_sound [OF vr [unfolded kv]]
    have rne: "r \<noteq> []" using V by auto
    have len: "length (c_str line) \<le> length line" by (simp add: c_str_def length_takeWhile_le)
    have nn: "no_nul (c_str line)" by simp
    have "newline \<notin> set k"
    proof
      assume nl: "newline \<in> set k"
      text \<open>A line holds a newline only at its end, so nothing follows a key that has one.\<close>
      have "\<exists>xs ys. c_str line = xs @ k @ ys \<and> ys \<noteq> []"
      proof -
        define u where "u = dropWhile (\<lambda>c. c \<in> set ''='') (c_str line)"
        define w where "w = dropWhile (\<lambda>c. c \<notin> set ''='') u"
        have ks: "k = takeWhile (\<lambda>c. c \<notin> set ''='') u" and "r = tl w"
          using kr kv(1) unfolding strtok_def u_def [symmetric] Let_def w_def [symmetric] by (simp_all split: if_splits)
        then have "w \<noteq> []" using rne by auto
        moreover have "u = k @ w" by (simp add: ks w_def)
        moreover have "c_str line = takeWhile (\<lambda>c. c \<in> set ''='') (c_str line) @ u" by (simp add: u_def)
        ultimately show ?thesis by metis
      qed
      then obtain xs ys where "c_str line = xs @ k @ ys" "ys \<noteq> []" by blast
      moreover obtain zs where "line = c_str line @ zs" unfolding c_str_def by (metis takeWhile_dropWhile_id)
      ultimately have "butlast line = xs @ k @ butlast (ys @ zs)" by (simp add: butlast_append)
      then show False using nl assms(3) by simp
    qed
    then have "entry_ok k v"
      using K V rne nn len assms(2) unfolding entry_ok_def no_nul_def list_all_iff by auto
    then show ?thesis using strings_ok_put [OF assms(1)] by (simp add: load_line_def kr vr kv)
  qed
qed

lemma fgets_shape:
  assumes "fgets n s = Some (line, r)"
  shows "length line \<le> n - 1 \<and> newline \<notin> set (butlast line)"
proof -
  define l where "l = takeWhile (\<lambda>c. c \<noteq> newline) (take (n - 1) s)"
  have l: "newline \<notin> set l" unfolding l_def by (auto dest: set_takeWhileD)
  have len: "length l \<le> length (take (n - 1) s)" unfolding l_def by (rule length_takeWhile_le)
  have line: "line = (if length l < length (take (n - 1) s) then l @ [newline] else l)"
    using assms by (simp add: fgets_def l_def Let_def split: if_splits)
  show ?thesis
  proof (cases "length l < length (take (n - 1) s)")
    case True
    then show ?thesis using l by (simp add: line)
  next
    case False
    then show ?thesis using l len by (auto simp: line dest: in_set_butlastD)
  qed
qed

lemma load_loop_ok: "strings_ok d \<Longrightarrow> strings_ok (load_loop d s)"
proof (induction d s rule: load_loop.induct)
  case (1 d s)
  show ?case
  proof (cases "fgets 256 s")
    case None
    then show ?thesis using "1.prems" by (simp add: load_loop.simps [of d s])
  next
    case (Some p)
    obtain line r where p: "p = (line, r)" by (cases p)
    have "strings_ok (load_line d line)"
      using load_line_ok [OF "1.prems", of line] fgets_shape [OF Some [unfolded p]] by simp
    then show ?thesis using "1.IH" [OF Some p [symmetric]] Some p by (simp add: load_loop.simps [of d s])
  qed
qed

text \<open>Whatever the file holds, the loaded configuration can be written and loaded again.\<close>

lemma ruim_create_ok: "ruim_create_from_file alloc fs name = Some r \<Longrightarrow> ruim_ok r \<and> ru_filename r = name"
  by (auto simp: ruim_create_from_file_def ruim_ok_strings load_loop_ok split: if_splits option.splits)

section \<open>A saved configuration is loaded again\<close>

lemma save_loop_entries:
  assumes "qdict_ok d" "qdict_entries d = xs @ ys" "\<forall>(k, obj) \<in> set ys. \<exists>v. obj = QString v"
  shows "save_loop d (case ys of [] \<Rightarrow> None | e # _ \<Rightarrow> Some e) content =
    Some (content @ concat (map (\<lambda>(k, obj). case obj of QString v \<Rightarrow> ruim_line k v | _ \<Rightarrow> []) ys))"
  using assms(2,3)
proof (induction ys arbitrary: xs content)
  case Nil
  then show ?case by (simp add: save_loop.simps)
next
  case (Cons e ys)
  obtain k v where e: "e = (k, QString v)" using Cons.prems(2) by (cases e) auto
  have nxt: "qdict_next d (k, QString v) = (case ys of [] \<Rightarrow> None | f # _ \<Rightarrow> Some f)"
    using qdict_next_entries [OF assms(1)] Cons.prems(1) by (simp add: e)
  have "save_loop d (Some e) content = save_loop d (qdict_next d (k, QString v)) (content @ ruim_line k v)"
    by (subst save_loop.simps) (simp add: e)
  also have "\<dots> = Some ((content @ ruim_line k v) @ concat (map (\<lambda>(k, obj). case obj of QString v \<Rightarrow> ruim_line k v | _ \<Rightarrow> []) ys))"
    unfolding nxt using Cons.IH [of "xs @ [e]"] Cons.prems by simp
  finally show ?case by (simp add: e)
qed

lemma load_line_entry:
  assumes "entry_ok k v"
  shows "load_line d (k @ CHR ''='' # v) = qdict_put_str d k v"
    "load_line d (k @ CHR ''='' # v @ [newline]) = qdict_put_str d k v"
proof -
  have ok: "k \<noteq> []" "set k \<inter> set ''='' = {}" "no_nul k" "v \<noteq> []" "set v \<inter> set value_end = {}" "no_nul v"
    using assms by (auto simp: entry_ok_def)
  have nl: "newline \<in> set value_end" "newline \<noteq> nul" by (simp_all add: value_end_def newline_def nul_def)
  have eq: "CHR ''='' \<noteq> nul" by (simp add: nul_def)
  have "strtok ''='' (k @ CHR ''='' # r) = (Some k, r)" for r
    by (rule strtok_token [OF ok(1,2)]) simp
  moreover have "strtok value_end v = (Some v, [])" "strtok value_end (v @ newline # []) = (Some v, [])"
    using strtok_last [OF ok(4,5)] strtok_token [OF ok(4,5) nl(1)] by auto
  moreover have "c_str (k @ CHR ''='' # v) = k @ CHR ''='' # v"
    "c_str (k @ CHR ''='' # v @ [newline]) = k @ CHR ''='' # v @ [newline]"
    using ok nl eq by (simp_all add: c_str_whole)
  ultimately show "load_line d (k @ CHR ''='' # v) = qdict_put_str d k v"
    "load_line d (k @ CHR ''='' # v @ [newline]) = qdict_put_str d k v"
    by (simp_all add: load_line_def)
qed

lemma load_loop_line:
  assumes "entry_ok k v"
  shows "load_loop d (ruim_line k v @ r) = load_loop (qdict_put_str d k v) r"
proof -
  let ?l = "k @ CHR ''='' # v"
  have nl: "newline \<notin> set ?l" using assms by (auto simp: entry_ok_def value_end_def newline_def)
  have line: "ruim_line k v @ r = ?l @ newline # r" by (simp add: ruim_line_def)
  show ?thesis
  proof (cases "length ?l + 1 < 256")
    case True
    have f: "fgets 256 (?l @ newline # r) = Some (?l @ [newline], r)" by (rule fgets_line [OF nl True])
    show ?thesis unfolding line
      by (subst load_loop.simps) (simp add: f [simplified] load_line_entry [OF assms])
  next
    case False
    then have len: "length ?l + 1 = 256" using assms by (simp add: entry_ok_def)
    have f: "fgets 256 (?l @ newline # r) = Some (?l, newline # r)"
      by (rule fgets_full [OF nl len]) simp
    have f2: "fgets 256 (newline # r) = Some ([newline], r)" using fgets_line [of "[]" 256 r] by simp
    have empty: "load_line d' [newline] = d'" for d'
      by (simp add: load_line_def strtok_def c_str_def newline_def nul_def)
    show ?thesis unfolding line
      apply (subst load_loop.simps)
      apply (simp add: f [simplified] load_line_entry [OF assms])
      apply (subst load_loop.simps)
      apply (simp add: f2 empty)
      done
  qed
qed

lemma load_loop_lines:
  assumes "\<forall>(k, obj) \<in> set es. \<exists>v. obj = QString v \<and> entry_ok k v"
  shows "load_loop d (concat (map (\<lambda>(k, obj). case obj of QString v \<Rightarrow> ruim_line k v | _ \<Rightarrow> []) es)) =
    foldl (\<lambda>d (k, obj). case obj of QString v \<Rightarrow> qdict_put_str d k v | _ \<Rightarrow> d) d es"
  using assms
proof (induction es arbitrary: d)
  case Nil
  then show ?case by (simp add: load_loop.simps [of d "[]"] fgets_def)
next
  case (Cons e es)
  obtain k v where e: "e = (k, QString v)" "entry_ok k v" using Cons.prems by (cases e) auto
  then show ?case using Cons load_loop_line [OF e(2)] by simp
qed

lemma put_all_map:
  assumes "qdict_ok d" "\<forall>(k, obj) \<in> set es. \<exists>v. obj = QString v"
  shows "qdict_ok (foldl (\<lambda>d (k, obj). case obj of QString v \<Rightarrow> qdict_put_str d k v | _ \<Rightarrow> d) d es)
    \<and> qdict_map (foldl (\<lambda>d (k, obj). case obj of QString v \<Rightarrow> qdict_put_str d k v | _ \<Rightarrow> d) d es) =
        qdict_map d ++ map_of (rev es)"
  using assms
proof (induction es arbitrary: d)
  case (Cons e es)
  obtain k v where e: "e = (k, QString v)" using Cons.prems(2) by (cases e) auto
  note put = qdict_put_obj [OF Cons.prems(1), of k "QString v", folded qdict_put_str_def]
  have es: "\<forall>(k, obj) \<in> set es. \<exists>v. obj = QString v" using Cons.prems(2) by simp
  have "qdict_map (qdict_put_str d k v) ++ map_of (rev es) = qdict_map d ++ map_of (rev (e # es))"
    by (rule ext) (simp add: e put(2) map_add_def split: option.split)
  then show ?case using Cons.IH [OF put(1) es] by (simp only: e foldl.simps prod.case qobject.case)
qed simp

lemma saved_is_loaded:
  assumes "ruim_ok r" "writable (ru_filename r)"
  shows "\<exists>fs'. ruim_save_to_file writable (Some r) fs = Some fs'
    \<and> (\<exists>r'. ruim_create_from_file True fs' (ru_filename r) = Some r' \<and> ruim_ok r' \<and> ruim_conf r' = ruim_conf r)"
proof -
  let ?d = "ru_dict r"
  let ?content = "concat (map (\<lambda>(k, obj). case obj of QString v \<Rightarrow> ruim_line k v | _ \<Rightarrow> []) (qdict_entries ?d))"
  have ok: "qdict_ok ?d" and es: "\<forall>(k, obj) \<in> set (qdict_entries ?d). \<exists>v. obj = QString v \<and> entry_ok k v"
    using assms(1) by (auto simp: ruim_ok_def)
  have es': "\<forall>(k, obj) \<in> set (qdict_entries ?d). \<exists>v. obj = QString v" using es by blast
  have save: "ruim_save_to_file writable (Some r) fs = Some (fs(ru_filename r \<mapsto> ?content))"
    using save_loop_entries [OF ok _ es', of "[]" "[]"] assms(2)
    by (simp add: ruim_save_to_file_def qdict_first_entries)
  let ?r' = "\<lparr>ru_dict = load_loop qdict_new ?content, ru_filename = ru_filename r\<rparr>"
  have load: "ruim_create_from_file True (fs(ru_filename r \<mapsto> ?content)) (ru_filename r) = Some ?r'"
    by (simp add: ruim_create_from_file_def)
  have "map_of (rev (qdict_entries ?d)) = map_of (qdict_entries ?d)"
    by (rule map_of_inject_set [THEN iffD2]) (simp_all only: rev_map [symmetric] distinct_rev qdict_entries_distinct [OF ok] set_rev)
  then have "qdict_map (load_loop qdict_new ?content) = qdict_map ?d"
    using put_all_map [OF qdict_new_ok(1) es'] by (simp add: load_loop_lines [OF es] qdict_entries_map [OF ok])
  then have "ruim_conf ?r' = ruim_conf r" by (simp add: qdict_get_try_str_def fun_eq_iff)
  then show ?thesis using save load ruim_create_ok [OF load] by blast
qed

section \<open>Histories\<close>

fun ruim_sets :: "(string \<Rightarrow> bool) \<Rightarrow> (string \<times> string) list \<Rightarrow> ruim option \<times> files \<Rightarrow> (ruim option \<times> files) option" where
  "ruim_sets writable [] st = Some st"
| "ruim_sets writable ((k, v) # kvs) st =
     (case ruim_set_str writable k (Some v) st of None \<Rightarrow> None | Some st' \<Rightarrow> ruim_sets writable kvs st')"

lemma ruim_set_str_ok:
  assumes "ruim_ok r" "writable (ru_filename r)" "entry_ok k v"
  shows "\<exists>r' fs'. ruim_set_str writable k (Some v) (Some r, fs) = Some (Some r', fs')
    \<and> ruim_ok r' \<and> ru_filename r' = ru_filename r \<and> ruim_conf r' = (ruim_conf r)(k \<mapsto> v)
    \<and> (\<exists>r''. ruim_create_from_file True fs' (ru_filename r) = Some r'' \<and> ruim_conf r'' = ruim_conf r')"
proof -
  let ?r' = "r\<lparr>ru_dict := qdict_put_str (ru_dict r) k v\<rparr>"
  have ok: "ruim_ok ?r'" using assms(1,3) by (simp add: ruim_ok_strings strings_ok_put)
  have conf: "ruim_conf ?r' = (ruim_conf r)(k \<mapsto> v)"
    using qd.lookup_store [of "ru_dict r"] assms(1) by (simp add: ruim_ok_def)
  obtain fs' where "ruim_save_to_file writable (Some ?r') fs = Some fs'"
    "\<exists>r''. ruim_create_from_file True fs' (ru_filename r) = Some r'' \<and> ruim_ok r'' \<and> ruim_conf r'' = ruim_conf ?r'"
    using saved_is_loaded [where writable = writable and fs = fs, OF ok] assms(2) by auto
  then show ?thesis using ok conf by (intro exI [of _ ?r'] exI [of _ fs']) (auto simp: ruim_set_str_def)
qed

lemma ruim_sets_ok:
  assumes "ruim_ok r" "writable (ru_filename r)" "\<forall>(k, v) \<in> set kvs. entry_ok k v"
  shows "\<exists>r' fs'. ruim_sets writable kvs (Some r, fs) = Some (Some r', fs')
    \<and> ruim_ok r' \<and> ru_filename r' = ru_filename r \<and> ruim_conf r' = ruim_conf r ++ map_of (rev kvs)
    \<and> (kvs = [] \<or> (\<exists>r''. ruim_create_from_file True fs' (ru_filename r) = Some r'' \<and> ruim_conf r'' = ruim_conf r'))"
  using assms
proof (induction kvs arbitrary: r fs)
  case (Cons kv kvs)
  obtain k v where kv: "kv = (k, v)" by (cases kv)
  obtain r1 fs1 where s: "ruim_set_str writable k (Some v) (Some r, fs) = Some (Some r1, fs1)"
    and r1: "ruim_ok r1" "ru_filename r1 = ru_filename r" "ruim_conf r1 = (ruim_conf r)(k \<mapsto> v)"
    "\<exists>r''. ruim_create_from_file True fs1 (ru_filename r) = Some r'' \<and> ruim_conf r'' = ruim_conf r1"
    using ruim_set_str_ok [where writable = writable, OF Cons.prems(1,2), of k v fs] Cons.prems(3) by (auto simp: kv)
  obtain r2 fs2 where t: "ruim_sets writable kvs (Some r1, fs1) = Some (Some r2, fs2)"
    and r2: "ruim_ok r2" "ru_filename r2 = ru_filename r1" "ruim_conf r2 = ruim_conf r1 ++ map_of (rev kvs)"
    "kvs = [] \<or> (\<exists>r''. ruim_create_from_file True fs2 (ru_filename r1) = Some r'' \<and> ruim_conf r'' = ruim_conf r2)"
    using Cons.IH [OF r1(1), of fs1] r1(2) Cons.prems(2,3) by auto
  have conf: "ruim_conf r2 = ruim_conf r ++ map_of (rev (kv # kvs))"
    by (rule ext) (simp add: r2(3) r1(3) kv map_add_def split: option.split)
  have "\<exists>r''. ruim_create_from_file True fs2 (ru_filename r) = Some r'' \<and> ruim_conf r'' = ruim_conf r2"
  proof (cases "kvs = []")
    case True
    then have "r2 = r1" "fs2 = fs1" using t by simp_all
    then show ?thesis using r1(4) by simp
  next
    case False
    then show ?thesis using r2(4) r1(2) by simp
  qed
  then show ?case using s t r2(1,2) r1(2) conf by (simp add: kv)
qed simp

text \<open>
  C38. The configuration is persistent. Whatever the file of the configuration holds when
  it is loaded, any history of settings to keys and values without separators succeeds,
  leaves the configuration with exactly these settings changed, and a later start from
  the file that was written loads the same configuration.
\<close>

theorem ruim_persists:
  assumes "ruim_create_from_file True fs name = Some r" "writable name"
    and "\<forall>(k, v) \<in> set kvs. entry_ok k v" "kvs \<noteq> []"
  shows "\<exists>r' fs' r''. ruim_sets writable kvs (Some r, fs) = Some (Some r', fs')
    \<and> ruim_conf r' = ruim_conf r ++ map_of (rev kvs)
    \<and> ruim_create_from_file True fs' name = Some r'' \<and> ruim_conf r'' = ruim_conf r'"
  using ruim_sets_ok [of r writable kvs fs] ruim_create_ok [OF assms(1)] assms(2-4) by auto

lemma demo_entries: "entry_ok ''rssi'' ''7''" "entry_ok ''cell_id'' ''91''"
  by (simp_all add: entry_ok_def no_nul_def nul_def newline_def value_end_def)

theorem ruim_persists_witness:
  "\<exists>r r' fs' r''. ruim_create_from_file True Map.empty ''ruim.txt'' = Some r
    \<and> ruim_sets (\<lambda>_. True) [(''rssi'', ''7''), (''cell_id'', ''91'')] (Some r, Map.empty) = Some (Some r', fs')
    \<and> ruim_create_from_file True fs' ''ruim.txt'' = Some r''
    \<and> ruim_conf r'' ''rssi'' = Some ''7'' \<and> ruim_conf r'' ''cell_id'' = Some ''91''"
proof -
  let ?r = "\<lparr>ru_dict = qdict_new, ru_filename = ''ruim.txt''\<rparr>"
  have r: "ruim_create_from_file True Map.empty ''ruim.txt'' = Some ?r"
    by (simp add: ruim_create_from_file_def)
  show ?thesis
    using ruim_persists [OF r, of "\<lambda>_. True" "[(''rssi'', ''7''), (''cell_id'', ''91'')]"] demo_entries
    by (auto simp: r)
qed

text \<open>A number is stored by its default and read back as such afterwards.\<close>

lemma ruim_get_int_default:
  assumes "ruim_ok r" "writable (ru_filename r)" "ruim_conf r key = None" "defval \<noteq> RUIM_NOT_FOUND"
    "entry_ok key (show_int defval)" "- 2147483648 \<le> defval" "defval < 2147483648"
  shows "\<exists>st. ruim_get_int writable key defval (Some r, fs) = Some (defval, st)
    \<and> ruim_get_int writable key other st = Some (defval, st)"
proof -
  obtain r' fs' where "ruim_set_str writable key (Some (show_int defval)) (Some r, fs) = Some (Some r', fs')"
      "ruim_conf r' = (ruim_conf r)(key \<mapsto> show_int defval)"
    using ruim_set_str_ok [where writable = writable, OF assms(1,2,5)] by blast
  then show ?thesis using assms(3,4,6,7) by (simp add: ruim_get_int_def)
qed

text \<open>A value that contains a space is cut there by the next load.\<close>

lemma ruim_value_cut: "qdict_get_try_str (load_loop qdict_new (ruim_line ''name'' ''China Mobile'')) ''name'' = Some ''China''"
proof -
  have f: "fgets 256 (ruim_line ''name'' ''China Mobile'') = Some (''name=China Mobile'' @ [newline], [])"
    by (simp add: fgets_def ruim_line_def newline_def)
  have l: "load_line qdict_new (''name=China Mobile'' @ [newline]) = qdict_put_str qdict_new ''name'' ''China''"
    by (simp add: load_line_def strtok_def c_str_def nul_def newline_def value_end_def)
  have "load_loop qdict_new (ruim_line ''name'' ''China Mobile'') = qdict_put_str qdict_new ''name'' ''China''"
    apply (subst load_loop.simps)
    apply (simp add: f l [simplified])
    apply (subst load_loop.simps)
    apply (simp add: fgets_def)
    done
  then show ?thesis using qd.lookup_store [OF qdict_new_ok(1)] by simp
qed

end
