(* ===== verification/Spec2Isabelle.thy ===== *)
theory Spec2Isabelle
  imports Mem_Device Gl_Resource Irq_Register Express_Log Express_Event Modem_Calls Ruim
begin

text \<open>
  vSoC is a virtual system on chip: QEMU with a set of paravirtual devices through which
  an Android guest reaches the GPU, codecs, camera, modem, sensors and shared memory of
  the host. This development models the parts of it that are its own logic, rather than
  calls into OpenGL, FFmpeg or the window system. All paths are below \<^verbatim>\<open>src/\<close>.

  \<^bold>\<open>How the parts work together.\<close> A guest driver submits a call as a chain of virtio
  elements: a flag buffer with the ids of the call and one element per parameter. The
  distribution thread, or the virtual CPU in its place, packs the elements into a call,
  looks up the device and pushes the call into the ring of the device's thread. The
  thread decodes the parameters from scattered guest memory, executes the call and
  invokes its callback, which writes the flag buffer and puts the call into the recycle
  queue. The distribution thread takes it from there, returns the elements to the guest
  and notifies it. Devices that report to the guest keep an interrupt call instead and
  complete it later. The memory device moves picture data between guest memory and
  textures with worker threads, signals sync objects, and predicts from recorded uses
  where a buffer is needed next. The GPU device translates the names of OpenGL objects.
  The modem answers the commands of the radio layer of the guest: it keeps the voice
  calls, a SIM card with its PIN and files, and a file with the settings of the module,
  and it codes, splits and reassembles text messages. Calls and messages to other
  emulators are prepared as commands for their consoles.

  \<^bold>\<open>Theories and sources.\<close>
  \<^item> \<open>Vsoc_Prelude\<close>: C integers (\<open>c_int\<close>, \<open>c_uint\<close>, \<open>c_size\<close> reduce to 32 and 64 bits), byte
    buffers, memory and little-endian encoding.
  \<^item> \<open>Guest_Memory\<close>, \<open>Call_Cache\<close>, \<open>Call_Packing\<close>: \<^verbatim>\<open>hw/teleport-express/teleport_express_call.c\<close>.
  \<^item> \<open>Handle_Thread\<close>: \<^verbatim>\<open>express_handle_thread.c\<close>, the ring and loop of a device thread.
  \<^item> \<open>Recycle_Queue\<close>, \<open>Distribute\<close>: \<^verbatim>\<open>teleport_express_distribute.c\<close>.
  \<^item> \<open>Device_Registry\<close>: registration and driver names in \<^verbatim>\<open>teleport_express_pci.c\<close>,
    \<^verbatim>\<open>teleport_express.c\<close> and \<^verbatim>\<open>teleport_express_register.c\<close>.
  \<^item> \<open>Device_Ctrl\<close>: \<^verbatim>\<open>express_device_ctrl.c\<close>, control calls and clustered calls.
  \<^item> \<open>Irq_Register\<close>: interrupt and input calls of \<^verbatim>\<open>teleport_express_register.c\<close>.
  \<^item> \<open>Express_Log\<close>, \<open>Express_Event\<close>: \<^verbatim>\<open>express_log.c\<close> and \<^verbatim>\<open>express_event.c\<close>.
  \<^item> \<open>Mem_Sync\<close>: \<^verbatim>\<open>hw/express-mem/express_sync.c\<close>.
  \<^item> \<open>Mem_Flow\<close>, \<open>Mem_Transfer\<close>, \<open>Mem_Device\<close>: \<^verbatim>\<open>hw/express-mem/express_mem.c\<close> and
    \<^verbatim>\<open>express_mem_worker.c\<close>.
  \<^item> \<open>Gl_Enums\<close>, \<open>Gl_Helper\<close>, \<open>Gl_Resource\<close>: \<^verbatim>\<open>hw/express-gpu/gl_helper.c\<close>,
    \<^verbatim>\<open>glv3_resource.c\<close> and the tables of \<^verbatim>\<open>glv3_context.c\<close>.
  \<^item> \<open>C_String\<close>: the functions of \<^verbatim>\<open>string.h\<close> and \<^verbatim>\<open>stdlib.h\<close> that the modem uses, and the
    helpers of \<^verbatim>\<open>hw/express-network/utils\<close>.
  \<^item> \<open>Gsm_Codec\<close>, \<open>Gsm_Alphabet\<close>: \<^verbatim>\<open>hw/express-network/em_gsm.c\<close>, numbers, ropes and alphabets.
  \<^item> \<open>Sms_Address\<close>, \<open>Sms_Pdu\<close>, \<open>Sms_Receiver\<close>: \<^verbatim>\<open>em_sms.c\<close>, addresses, units and receiver.
  \<^item> \<open>Qdict\<close>, \<open>Ruim\<close>: the dictionary of QEMU as far as it is used, and the settings that
    \<^verbatim>\<open>em_ruim.c\<close> keeps in a file.
  \<^item> \<open>Sim_Card\<close>: \<^verbatim>\<open>em_sim_card.c\<close>, the lock, the files and the authentication.
  \<^item> \<open>Remote_Call\<close>: \<^verbatim>\<open>em_remote_call.c\<close>.
  \<^item> \<open>Modem_Calls\<close>: the voice calls of \<^verbatim>\<open>em_core.c\<close>.

  \<^bold>\<open>Conventions.\<close> A C struct is a record and a C function a definition of the same name
  where Isabelle allows it. Integers are \<open>int\<close> with the reductions of their width written
  out where a result can leave it; bytes and checksums are words. Memory of the guest is
  a function from addresses to bytes, buffers of the host are byte lists, and shared
  objects that can be freed live in heaps. The result \<open>None\<close> stands for undefined
  behaviour, such as an access outside of a buffer or through \<^verbatim>\<open>NULL\<close>, and for a loop or
  wait that does not end; a theorem that a result is \<open>Some\<close> therefore excludes these.
  Clocks, allocators, OpenGL and what concurrent threads do in between are arguments.
  Double arithmetic is real arithmetic with a rounding function as an argument. Threads
  are modelled by steps at the granularity of their atomic accesses, with the memory
  sequentially consistent.

  \<^bold>\<open>What is shown.\<close>
  \<^item> Guest memory: reads and writes of scattered memory are reads and writes of the
    concatenated bytes, for every segmentation, and touch nothing else.
  \<^item> Calls: packing yields exactly the submitted parameters, also in portions; over all
    histories the caches hold exactly the live objects, and packing returns on every
    well-formed stream of elements. A completed call writes exactly its flag and time. A
    clustered call is unpacked into the calls it was made of.
  \<^item> Queues: the ring of a thread is a queue under every interleaving of its two threads;
    the recycle queue never loses or duplicates a call under any interleaving, though it
    may hide one for a while; a distribution round accounts for all calls and routes a
    complete one to its thread.
  \<^item> Interrupt calls: each registered call is completed once, waits, or was overwritten by
    one registered over it.
  \<^item> Memory device: transfers copy exactly the rows of a picture in both directions; the
    tables of buffers and flows stay consistent whenever a call reaches its callback;
    signals are not lost.
  \<^item> OpenGL names: the tables implement a function from guest to host names over all
    histories; deleting objects leaves no stale binding, with the exception stated there.
  \<^item> Log: buffers are never left; the checksum is the CRC-32 of its polynomial.
  \<^item> Messages: text of the basic alphabet survives packing at any bit offset; a message is
    split into units that hold its parts in order; the text of a submitted unit is read
    back; addresses survive their packed form; the receiver keeps its fragments consistent.
  \<^item> Modem: the SIM card implements the lock automaton of PIN and PUK; settings survive a
    restart; the commands on voice calls keep the array of calls and do what they say; a
    message to another emulator becomes one command line.

  Theorems about defects (a bound check that ignores its offset, a recycle slot that is
  not found, a flow table that fills up, a buffer used after it was freed, a character
  lost between two parts of a message) stand beside the properties they limit.

  \<^bold>\<open>Interfaces.\<close> \<open>guest_channel\<close> is the contract of reading and writing parameters,
  \<open>slot_pool\<close> that of the caches, \<open>bounded_fifo\<close> that of the
  queues, \<open>flow_maker\<close> that of creating data flows, \<open>name_table\<close> that of translating
  names and \<open>kv_store\<close> that of a dictionary. Each is interpreted on the definitions of the component that provides it.

  \<^bold>\<open>Bounds and fuel.\<close> Sizes of arrays are those of the code. No definition has fuel: loops
  recurse on the data they walk, are \<^theory_text>\<open>partial_function (option)\<close> where they follow pointers
  or wait, and runs of several steps are lists of the steps.

  \<^bold>\<open>Not modelled.\<close> QEMU itself; the generated decoders of OpenGL calls in
  \<^verbatim>\<open>glv3_trans.c\<close> and the calls they make into the driver; EGL, windows and displays; codecs
  and the camera, whose work is done by FFmpeg, CUDA and system libraries; of the modem the
  interpreter of the other commands in \<^verbatim>\<open>em_core.c\<close>, the bridge to the guest and the time
  zones; sensors and input devices; creation of threads and native contexts. Weak memory
  effects are not modelled.
\<close>

end
